(* ===== verification/Ori_Prelude.thy ===== *)
theory Ori_Prelude
  imports Complex_Main
begin

text \<open>
  What the component theories share: the values Python code passes around
  (\<open>pyval\<close>, with IEEE-754 binary64 numbers in \<open>pyfloat\<close>), the comparisons and the
  multiplication the sources use on them, string helpers (\<open>str.upper\<close>,
  \<open>str.strip\<close>, lower case, prefix and suffix tests), fallible steps as sums with their bind,
  a fallible fold for the loops that raise, and the generic lemmas on lists, maps and
  sums the component proofs use.
\<close>

named_theorems step_defs \<open>definitions of the operations a step relation is built from\<close>
named_theorems inv_intros \<open>preservation of component invariants by single operations\<close>

section \<open>Python numbers and values\<close>

text \<open>
  A finite binary64 number is the rational it denotes (both zeros are \<open>0\<close>: the code
  only compares and multiplies, and never asks for the sign of a zero).
\<close>

datatype pyfloat = FNum rat | FInf | FNegInf | FNan

datatype pyval =
    PyNone
  | PyBool bool
  | PyInt int
  | PyFloat pyfloat
  | PyStr string
  | PyList "pyval list"
  | PyDict "(string \<times> pyval) list"

text \<open>
  A dictionary is the list of its items in insertion order. \<open>isinstance\<close> tests:
  in Python a Boolean is an \<open>int\<close>, which is why the sources test for it first.
\<close>

definition is_number :: "pyval \<Rightarrow> bool" where
  "is_number v = (case v of PyBool _ \<Rightarrow> True | PyInt _ \<Rightarrow> True | PyFloat _ \<Rightarrow> True | _ \<Rightarrow> False)"

definition is_bool :: "pyval \<Rightarrow> bool" where
  "is_bool v = (case v of PyBool _ \<Rightarrow> True | _ \<Rightarrow> False)"

text \<open>The number a Python number denotes; comparisons between ints and floats are exact.\<close>

fun num_of :: "pyval \<Rightarrow> pyfloat" where
  "num_of (PyInt i) = FNum (of_int i)"
| "num_of (PyFloat f) = f"
| "num_of (PyBool b) = FNum (if b then 1 else 0)"
| "num_of _ = FNan"

fun is_finite :: "pyfloat \<Rightarrow> bool" where
  "is_finite (FNum _) = True"
| "is_finite _ = False"

fun flt :: "pyfloat \<Rightarrow> pyfloat \<Rightarrow> bool" where
  "flt FNan _ = False"
| "flt _ FNan = False"
| "flt FInf _ = False"
| "flt _ FNegInf = False"
| "flt (FNum a) (FNum b) = (a < b)"
| "flt _ _ = True"

fun fle :: "pyfloat \<Rightarrow> pyfloat \<Rightarrow> bool" where
  "fle FNan _ = False"
| "fle _ FNan = False"
| "fle FNegInf _ = True"
| "fle _ FInf = True"
| "fle (FNum a) (FNum b) = (a \<le> b)"
| "fle _ _ = False"

subsection \<open>Binary64 multiplication, rounding to nearest with ties to even\<close>

text \<open>
  \<open>bit_length i\<close> is the number of binary digits of \<open>i\<close>. For a positive quotient
  \<open>n / d\<close>, \<open>quot_exponent\<close> is the exponent of its leading binary digit; the unit in
  the last place is \<open>2 ^ s\<close> with \<open>s\<close> at least \<open>-1074\<close> (the subnormal range).
\<close>

function bit_length :: "int \<Rightarrow> int" where
  "bit_length i = (if i \<le> 0 then 0 else 1 + bit_length (i div 2))"
  by pat_completeness auto
termination
  by (relation "measure nat") auto

declare bit_length.simps [simp del]

definition quot_exponent :: "int \<Rightarrow> int \<Rightarrow> int" where
  "quot_exponent n d =
     (let k = bit_length n - bit_length d
      in if (if k \<ge> 0 then d * 2 ^ nat k \<le> n else d \<le> n * 2 ^ nat (- k)) then k else k - 1)"

definition div_half_even :: "int \<Rightarrow> int \<Rightarrow> int" where
  "div_half_even n d =
     (let f = n div d; r = n mod d
      in if 2 * r < d then f else if 2 * r > d then f + 1
         else if even f then f else f + 1)"

text \<open>Rounding a positive quotient: its significand and the exponent of its last place.\<close>

definition f64_round_pos :: "int \<Rightarrow> int \<Rightarrow> int \<times> int" where
  "f64_round_pos n d =
     (let s = max (quot_exponent n d) (-1022) - 52
      in (if s \<ge> 0 then div_half_even n (d * 2 ^ nat s) else div_half_even (n * 2 ^ nat (- s)) d, s))"

definition f64_scale :: "bool \<Rightarrow> int \<times> int \<Rightarrow> pyfloat" where
  "f64_scale neg ms =
     (let (m, s) = ms; sg = (if neg then -1 else 1) :: rat
      in if s \<ge> 0 \<and> m * 2 ^ nat s \<ge> 2 ^ 1024 then (if neg then FNegInf else FInf)
         else FNum (sg * (if s \<ge> 0 then of_int (m * 2 ^ nat s) else of_int m / 2 ^ nat (- s))))"

definition f64_round :: "rat \<Rightarrow> pyfloat" where
  "f64_round q =
     (let (n, d) = quotient_of q
      in if n = 0 then FNum 0 else f64_scale (n < 0) (f64_round_pos \<bar>n\<bar> d))"

fun f64_mul :: "pyfloat \<Rightarrow> pyfloat \<Rightarrow> pyfloat" where
  "f64_mul (FNum a) (FNum b) = f64_round (a * b)"
| "f64_mul FNan _ = FNan"
| "f64_mul _ FNan = FNan"
| "f64_mul (FNum a) FInf = (if a = 0 then FNan else if a > 0 then FInf else FNegInf)"
| "f64_mul (FNum a) FNegInf = (if a = 0 then FNan else if a > 0 then FNegInf else FInf)"
| "f64_mul FInf (FNum a) = (if a = 0 then FNan else if a > 0 then FInf else FNegInf)"
| "f64_mul FNegInf (FNum a) = (if a = 0 then FNan else if a > 0 then FNegInf else FInf)"
| "f64_mul FInf FInf = FInf"
| "f64_mul FNegInf FNegInf = FInf"
| "f64_mul FInf FNegInf = FNegInf"
| "f64_mul FNegInf FInf = FNegInf"

section \<open>Strings\<close>

definition char_upper :: "char \<Rightarrow> char" where
  "char_upper c = (let n = of_char c :: nat in if 97 \<le> n \<and> n \<le> 122 then char_of (n - 32) else c)"

definition str_upper :: "string \<Rightarrow> string" where
  "str_upper s = map char_upper s"

text \<open>\<open>str.lower\<close>, \<open>str.isspace\<close> and \<open>str.strip\<close> on the characters up to U+00FF.\<close>

definition char_lower :: "char \<Rightarrow> char" where
  "char_lower c =
     (let n = of_char c :: nat
      in if 65 \<le> n \<and> n \<le> 90 \<or> 192 \<le> n \<and> n \<le> 222 \<and> n \<noteq> 215 then char_of (n + 32) else c)"

definition str_lower :: "string \<Rightarrow> string" where
  "str_lower s = map char_lower s"

definition is_space :: "char \<Rightarrow> bool" where
  "is_space c = (let n = of_char c :: nat in 9 \<le> n \<and> n \<le> 13 \<or> 28 \<le> n \<and> n \<le> 32 \<or> n = 133 \<or> n = 160)"

definition str_strip :: "string \<Rightarrow> string" where
  "str_strip s = rev (dropWhile is_space (rev (dropWhile is_space s)))"

definition starts_with :: "string \<Rightarrow> string \<Rightarrow> bool" where
  "starts_with p s = (take (length p) s = p)"

definition ends_with :: "string \<Rightarrow> string \<Rightarrow> bool" where
  "ends_with p s = starts_with (rev p) (rev s)"

section \<open>Fallible steps\<close>

definition bind_res :: "'e + 'a \<Rightarrow> ('a \<Rightarrow> 'e + 'b) \<Rightarrow> 'e + 'b" where
  "bind_res m f = (case m of Inl e \<Rightarrow> Inl e | Inr a \<Rightarrow> f a)"

fun fold_res :: "('a \<Rightarrow> 's \<Rightarrow> 'e + 's) \<Rightarrow> 'a list \<Rightarrow> 's \<Rightarrow> 'e + 's" where
  "fold_res f [] s = Inr s"
| "fold_res f (x # xs) s = (case f x s of Inl e \<Rightarrow> Inl e | Inr s' \<Rightarrow> fold_res f xs s')"

section \<open>Objects driven by operations\<close>

text \<open>
  A stateful object is a step function: an operation either raises, and then leaves the
  object as it was, or returns the object's new state and an answer. \<open>run_ops\<close> is any
  sequence of calls on it.
\<close>

fun run_ops :: "('s \<Rightarrow> 'o \<Rightarrow> 'e + 's \<times> 't) \<Rightarrow> 's \<Rightarrow> 'o list \<Rightarrow> 's" where
  "run_ops step s [] = s"
| "run_ops step s (x # xs) =
     run_ops step (case step s x of Inl _ \<Rightarrow> s | Inr (s', _) \<Rightarrow> s') xs"

text \<open>A sequence of calls each of which the client is allowed to make when it makes it.\<close>

fun runs_ok :: "('s \<Rightarrow> 'o \<Rightarrow> 'e + 's \<times> 't) \<Rightarrow> ('s \<Rightarrow> 'o \<Rightarrow> bool) \<Rightarrow> 's \<Rightarrow> 'o list \<Rightarrow> bool" where
  "runs_ok step ok s [] = True"
| "runs_ok step ok s (x # xs) =
     (ok s x \<and> runs_ok step ok (case step s x of Inl _ \<Rightarrow> s | Inr (s', _) \<Rightarrow> s') xs)"

section \<open>Generic lemmas\<close>

lemma bind_res_simps [simp]:
  "bind_res (Inl e) f = Inl e"
  "bind_res (Inr a) f = f a"
  by (simp_all add: bind_res_def)

lemma bind_res_Inr_iff: "bind_res m f = Inr b \<longleftrightarrow> (\<exists>a. m = Inr a \<and> f a = Inr b)"
  by (cases m) auto

lemma fold_res_append:
  "fold_res f (xs @ ys) s = bind_res (fold_res f xs s) (fold_res f ys)"
  by (induction xs arbitrary: s) (auto split: sum.split)

lemma fold_res_snoc_Inr:
  "fold_res f (xs @ [x]) s = Inr t \<longleftrightarrow> (\<exists>a. fold_res f xs s = Inr a \<and> f x a = Inr t)"
  by (cases "fold_res f xs s") (auto simp: fold_res_append split: sum.splits)

lemma char_upper_idem [simp]: "char_upper (char_upper c) = char_upper c"
proof (cases "97 \<le> (of_char c :: nat) \<and> (of_char c :: nat) \<le> 122")
  case True
  then have "(of_char (char_of ((of_char c :: nat) - 32) :: char) :: nat) = of_char c - 32"
    by (simp add: of_char_of) (rule mod_less, linarith)
  with True show ?thesis by (simp add: char_upper_def Let_def) linarith
next
  case False
  then have "char_upper c = c" by (auto simp: char_upper_def Let_def)
  then show ?thesis by simp
qed

lemma str_upper_idem [simp]: "str_upper (str_upper s) = str_upper s"
  by (simp add: str_upper_def)

lemma flt_irrefl [simp]: "\<not> flt a a"
  by (cases a) auto

lemma flt_not_fle: "flt a b \<Longrightarrow> \<not> fle b a"
  by (cases a; cases b) auto

lemma not_flt_fle: "a \<noteq> FNan \<Longrightarrow> b \<noteq> FNan \<Longrightarrow> \<not> flt a b \<Longrightarrow> fle b a"
  by (cases a; cases b) auto

lemma map_of_mem_fst: "map_of xs k = Some v \<Longrightarrow> k \<in> set (map fst xs)"
  by (metis list.set_map map_of_SomeD fst_conv image_eqI)

lemma run_ops_append: "run_ops step s (xs @ ys) = run_ops step (run_ops step s xs) ys"
  by (induction xs arbitrary: s) auto

lemma runs_ok_True [simp]: "runs_ok step (\<lambda>_ _. True) s xs"
  by (induction xs arbitrary: s) auto

lemma runs_ok_append [simp]:
  "runs_ok step ok s (xs @ ys) = (runs_ok step ok s xs \<and> runs_ok step ok (run_ops step s xs) ys)"
  by (induction xs arbitrary: s) auto

section \<open>Contracts of driven objects\<close>

text \<open>
  What a client of an object relies on: every call the client may make in a state keeps
  the object's invariant, so every such sequence of calls does.
\<close>

locale invariant_object =
  fixes step :: "'s \<Rightarrow> 'o \<Rightarrow> 'e + 's \<times> 't"
    and inv :: "'s \<Rightarrow> bool"
    and allowed :: "'s \<Rightarrow> 'o \<Rightarrow> bool"
  assumes inv_step: "inv s \<Longrightarrow> allowed s x \<Longrightarrow> step s x = Inr (s', t) \<Longrightarrow> inv s'"
begin

lemma inv_call: "inv s \<Longrightarrow> allowed s x \<Longrightarrow> inv (case step s x of Inl _ \<Rightarrow> s | Inr (s', _) \<Rightarrow> s')"
  by (auto intro: inv_step split: sum.split)

lemma inv_run: "inv s \<Longrightarrow> runs_ok step allowed s xs \<Longrightarrow> inv (run_ops step s xs)"
  by (induction xs arbitrary: s) (simp_all add: inv_call)

end

text \<open>
  A latch: a condition that, once it holds, only a releasing operation can end. No
  sequence of other calls ends it.
\<close>

locale latching_object = invariant_object step inv allowed
  for step :: "'s \<Rightarrow> 'o \<Rightarrow> 'e + 's \<times> 't" and inv and allowed +
  fixes latched :: "'s \<Rightarrow> bool"
    and releases :: "'o \<Rightarrow> bool"
  assumes latched_step:
    "inv s \<Longrightarrow> latched s \<Longrightarrow> allowed s x \<Longrightarrow> \<not> releases x \<Longrightarrow> step s x = Inr (s', t) \<Longrightarrow> latched s'"
begin

lemma latched_run:
  assumes "inv s" and "latched s" and "runs_ok step allowed s xs" and "list_all (\<lambda>x. \<not> releases x) xs"
  shows "latched (run_ops step s xs)"
  using assms
proof (induction xs arbitrary: s)
  case (Cons x xs)
  let ?s = "case step s x of Inl _ \<Rightarrow> s | Inr (s', _) \<Rightarrow> s'"
  have "inv ?s" and "latched ?s"
    using Cons.prems inv_call [of s x] by (auto intro: latched_step split: sum.split)
  then show ?case using Cons.IH [of ?s] Cons.prems by simp
qed simp

end

end
