(* ===== verification/Safety_Profiles.thy ===== *)
theory Safety_Profiles
  imports Ori_Prelude
begin

text \<open>
  \<open>ori/security/commissioning/profiles.py\<close>: the closed grammar the release-shipped
  profile set is loaded under. Documents are Python values as JSON decoding gives them;
  any fault refuses the whole set.
\<close>

section \<open>Text and identifiers\<close>

definition is_lower :: "char \<Rightarrow> bool" where
  "is_lower c = (let n = of_char c :: nat in 97 \<le> n \<and> n \<le> 122)"

definition is_digit :: "char \<Rightarrow> bool" where
  "is_digit c = (let n = of_char c :: nat in 48 \<le> n \<and> n \<le> 57)"

fun split_dots :: "string \<Rightarrow> string list" where
  "split_dots [] = [[]]"
| "split_dots (c # cs) =
     (if c = CHR ''.'' then [] # split_dots cs
      else case split_dots cs of [] \<Rightarrow> [[c]] | s # ss \<Rightarrow> (c # s) # ss)"

text \<open>The segments of \<open>PROFILE_ID\<close>: \<open>[a-z][a-z0-9_]*\<close>, and \<open>v[1-9][0-9]*\<close> at the end.\<close>

fun name_segment :: "string \<Rightarrow> bool" where
  "name_segment [] = False"
| "name_segment (c # cs) =
     (is_lower c \<and> list_all (\<lambda>x. is_lower x \<or> is_digit x \<or> x = CHR ''_'') cs)"

fun version_segment :: "string \<Rightarrow> bool" where
  "version_segment (v # d # ds) =
     (v = CHR ''v'' \<and> is_digit d \<and> d \<noteq> CHR ''0'' \<and> list_all is_digit ds)"
| "version_segment _ = False"

definition PROFILE_ID_match :: "string \<Rightarrow> bool" where
  "PROFILE_ID_match s =
     (let segs = split_dots s
      in 3 \<le> length segs \<and> list_all name_segment (butlast segs) \<and> version_segment (last segs))"

section \<open>Profiles\<close>

definition PROFILE_KEYS :: "string list" where
  "PROFILE_KEYS = [''v'', ''id'', ''status'', ''observes'', ''condition'', ''outcome'']"

definition OBSERVES_KEYS :: "string list" where
  "OBSERVES_KEYS = [''quantity'', ''unit'']"

definition CONDITION_KEYS :: "(string \<times> string list) list" where
  "CONDITION_KEYS =
     [(''upper_capacity_multiplier'', [''kind'', ''capacity_parameter'', ''multiplier'']),
      (''upper_bound'', [''kind'', ''threshold''])]"

definition STATUSES :: "string list" where
  "STATUSES = [''ratified'', ''candidate'']"

definition OUTCOMES :: "string list" where
  "OUTCOMES = [''open_protected_circuit'']"

record profile =
  pr_id :: string
  pr_status :: string
  pr_quantity :: string
  pr_unit :: string
  pr_kind :: string
  pr_capacity_parameter :: "string option"
  pr_multiplier :: "pyfloat option"
  pr_threshold :: "pyfloat option"
  pr_outcome :: string

record profile_set =
  ps_profiles :: "profile list"
  ps_digest :: string

text \<open>\<open>ProfileSetError\<close>, with what was wrong.\<close>

datatype profile_error = MalformedProfile string

definition bad :: "bool \<Rightarrow> string \<Rightarrow> profile_error + unit" where
  "bad condition detail = (if condition then Inl (MalformedProfile detail) else Inr ())"

definition text_of :: "pyval \<Rightarrow> string \<Rightarrow> profile_error + string" where
  "text_of v name =
     (case v of
        PyStr s \<Rightarrow> if list_all is_space s then Inl (MalformedProfile name) else Inr s
      | _ \<Rightarrow> Inl (MalformedProfile name))"

text \<open>The binary64 number nearest to one ten-thousandth, the literal \<open>1e-4\<close>.\<close>

definition f64_1e4 :: rat where
  "f64_1e4 = 7378697629483821 / 73786976294838206464"

definition agreement_zone_number :: "pyval \<Rightarrow> string \<Rightarrow> profile_error + pyfloat" where
  "agreement_zone_number v name =
     (case v of
        PyInt i \<Rightarrow>
          if \<bar>i\<bar> > 9007199254740991 then Inl (MalformedProfile name) else Inr (FNum (of_int i))
      | PyFloat (FNum q) \<Rightarrow>
          if q \<noteq> 0 \<and> \<not> (f64_1e4 \<le> \<bar>q\<bar> \<and> \<bar>q\<bar> < 10 ^ 16) then Inl (MalformedProfile name)
          else Inr (FNum q)
      | _ \<Rightarrow> Inl (MalformedProfile name))"

definition dict_keys_are :: "pyval \<Rightarrow> string list \<Rightarrow> bool" where
  "dict_keys_are v ks = (case v of PyDict d \<Rightarrow> set (map fst d) = set ks | _ \<Rightarrow> False)"

definition item :: "pyval \<Rightarrow> string \<Rightarrow> pyval" where
  "item v k = (case v of PyDict d \<Rightarrow> (case map_of d k of Some x \<Rightarrow> x | None \<Rightarrow> PyNone) | _ \<Rightarrow> PyNone)"

definition str_in :: "pyval \<Rightarrow> string list \<Rightarrow> bool" where
  "str_in v xs = (case v of PyStr s \<Rightarrow> s \<in> set xs | _ \<Rightarrow> False)"

definition str_of :: "pyval \<Rightarrow> string" where
  "str_of v = (case v of PyStr s \<Rightarrow> s | _ \<Rightarrow> [])"

text \<open>The kind-dependent part of \<open>_parse_profile\<close>: capacity parameter, multiplier, threshold.\<close>

definition parse_condition ::
  "pyval \<Rightarrow> profile_error + string \<times> string option \<times> pyfloat option \<times> pyfloat option" where
  "parse_condition condition =
     (case condition of
        PyDict d \<Rightarrow>
          (if ''kind'' \<notin> set (map fst d) then Inl (MalformedProfile ''condition must name a kind'')
           else case map_of CONDITION_KEYS (str_of (item condition ''kind'')) of
             None \<Rightarrow> Inl (MalformedProfile ''condition.kind is outside the closed vocabulary'')
           | Some ks \<Rightarrow>
               bind_res (bad (\<not> dict_keys_are condition ks) ''condition keys'') (\<lambda>_.
               if str_of (item condition ''kind'') = ''upper_capacity_multiplier'' then
                 bind_res (text_of (item condition ''capacity_parameter'') ''capacity_parameter'') (\<lambda>cp.
                 bind_res (agreement_zone_number (item condition ''multiplier'') ''multiplier'') (\<lambda>m.
                 bind_res (bad (\<not> (flt (FNum 1) m \<and> fle m (FNum 100))) ''multiplier bound'') (\<lambda>_.
                 Inr (''upper_capacity_multiplier'', Some cp, Some m, None))))
               else
                 bind_res (agreement_zone_number (item condition ''threshold'') ''threshold'') (\<lambda>t.
                 Inr (str_of (item condition ''kind''), None, None, Some t))))
      | _ \<Rightarrow> Inl (MalformedProfile ''condition must name a kind''))"

definition parse_profile :: "pyval \<Rightarrow> profile_error + profile" where
  "parse_profile raw =
     bind_res (bad (\<not> dict_keys_are raw PROFILE_KEYS) ''profile keys'') (\<lambda>_.
     bind_res (bad (item raw ''v'' \<noteq> PyInt 1) ''v must be the integer 1'') (\<lambda>_.
     bind_res (text_of (item raw ''id'') ''id'') (\<lambda>pid.
     bind_res (bad (\<not> PROFILE_ID_match pid) ''id is not a versioned profile id'') (\<lambda>_.
     bind_res (bad (\<not> str_in (item raw ''status'') STATUSES) ''status'') (\<lambda>_.
     bind_res (bad (\<not> dict_keys_are (item raw ''observes'') OBSERVES_KEYS) ''observes keys'') (\<lambda>_.
     bind_res (text_of (item (item raw ''observes'') ''quantity'') ''observes.quantity'') (\<lambda>quantity.
     bind_res (text_of (item (item raw ''observes'') ''unit'') ''observes.unit'') (\<lambda>u.
     bind_res (parse_condition (item raw ''condition'')) (\<lambda>(kind, cp, m, t).
     bind_res (bad (\<not> str_in (item raw ''outcome'') OUTCOMES) ''outcome'') (\<lambda>_.
     Inr \<lparr>pr_id = pid, pr_status = str_of (item raw ''status''), pr_quantity = quantity,
          pr_unit = u, pr_kind = kind, pr_capacity_parameter = cp, pr_multiplier = m,
          pr_threshold = t, pr_outcome = str_of (item raw ''outcome'')\<rparr>))))))))))"

fun parse_profiles :: "pyval list \<Rightarrow> profile_error + profile list" where
  "parse_profiles [] = Inr []"
| "parse_profiles (r # rs) =
     bind_res (parse_profile r) (\<lambda>p. bind_res (parse_profiles rs) (\<lambda>ps. Inr (p # ps)))"

definition load_profile_set :: "pyval \<Rightarrow> string \<Rightarrow> profile_error + profile_set" where
  "load_profile_set raw digest =
     (case raw of
        PyList (r # rs) \<Rightarrow>
          bind_res (parse_profiles (r # rs)) (\<lambda>ps.
          bind_res (bad (\<not> distinct (map pr_id ps)) ''profile ids must be unique within the set'') (\<lambda>_.
          Inr \<lparr>ps_profiles = ps, ps_digest = digest\<rparr>))
      | _ \<Rightarrow> Inl (MalformedProfile ''the profile set must be a non-empty list''))"

text \<open>\<open>ProfileSet.capacity_multiplier\<close>: the largest multiplier of a matching profile.\<close>

fun fmax_list :: "pyfloat list \<Rightarrow> pyfloat option" where
  "fmax_list [] = None"
| "fmax_list (x # xs) =
     (case fmax_list xs of None \<Rightarrow> Some x | Some y \<Rightarrow> Some (if flt x y then y else x))"

definition capacity_multiplier :: "profile_set \<Rightarrow> string \<Rightarrow> string \<Rightarrow> string \<Rightarrow> pyfloat option" where
  "capacity_multiplier ps quantity u cp =
     fmax_list (List.map_filter pr_multiplier
       (filter (\<lambda>p. pr_kind p = ''upper_capacity_multiplier'' \<and> pr_quantity p = quantity
                  \<and> pr_unit p = u \<and> pr_capacity_parameter p = Some cp) (ps_profiles ps)))"

section \<open>The specification the grammar is measured against\<close>

definition agreement_zone :: "pyfloat \<Rightarrow> bool" where
  "agreement_zone f =
     (case f of FNum q \<Rightarrow> q = 0 \<or> f64_1e4 \<le> \<bar>q\<bar> \<and> \<bar>q\<bar> < 10 ^ 16 | _ \<Rightarrow> False)"

definition wf_condition :: "profile \<Rightarrow> bool" where
  "wf_condition p =
     ((pr_kind p = ''upper_capacity_multiplier'' \<and> pr_threshold p = None
       \<and> (\<exists>cp m. pr_capacity_parameter p = Some cp \<and> \<not> list_all is_space cp
            \<and> pr_multiplier p = Some m \<and> agreement_zone m \<and> flt (FNum 1) m \<and> fle m (FNum 100)))
      \<or> (pr_kind p = ''upper_bound'' \<and> pr_capacity_parameter p = None \<and> pr_multiplier p = None
       \<and> (\<exists>t. pr_threshold p = Some t \<and> agreement_zone t)))"

definition wf_profile :: "profile \<Rightarrow> bool" where
  "wf_profile p =
     (PROFILE_ID_match (pr_id p) \<and> \<not> list_all is_space (pr_id p)
      \<and> pr_status p \<in> set STATUSES \<and> \<not> list_all is_space (pr_quantity p)
      \<and> \<not> list_all is_space (pr_unit p) \<and> wf_condition p \<and> pr_outcome p \<in> set OUTCOMES)"

text \<open>The document that states a profile.\<close>

definition render_condition :: "profile \<Rightarrow> pyval" where
  "render_condition p =
     (case pr_multiplier p of
        Some m \<Rightarrow> PyDict [(''kind'', PyStr (pr_kind p)),
                    (''capacity_parameter'', PyStr (the (pr_capacity_parameter p))),
                    (''multiplier'', PyFloat m)]
      | None \<Rightarrow> PyDict [(''kind'', PyStr (pr_kind p)), (''threshold'', PyFloat (the (pr_threshold p)))])"

definition render_profile :: "profile \<Rightarrow> pyval" where
  "render_profile p =
     PyDict [(''v'', PyInt 1), (''id'', PyStr (pr_id p)), (''status'', PyStr (pr_status p)),
       (''observes'', PyDict [(''quantity'', PyStr (pr_quantity p)), (''unit'', PyStr (pr_unit p))]),
       (''condition'', render_condition p), (''outcome'', PyStr (pr_outcome p))]"

section \<open>Lemmas\<close>

lemma bad_Inr_iff [simp]: "bad c d = Inr u \<longleftrightarrow> \<not> c"
  by (simp add: bad_def)

lemma bind_bad [simp]: "bind_res (bad c d) f = (if c then Inl (MalformedProfile d) else f ())"
  by (simp add: bad_def)

lemma text_of_Inr_iff: "text_of v n = Inr s \<longleftrightarrow> v = PyStr s \<and> \<not> list_all is_space s"
  by (auto simp: text_of_def split: pyval.splits if_splits)

lemma agreement_zone_number_sound:
  "agreement_zone_number v n = Inr f \<Longrightarrow> agreement_zone f"
proof (cases v)
  case (PyInt i)
  assume "agreement_zone_number v n = Inr f"
  with PyInt have f: "f = FNum (of_int i)" and i: "\<bar>i\<bar> \<le> 9007199254740991"
    by (auto simp: agreement_zone_number_def split: if_splits)
  have "\<bar>rat_of_int i\<bar> = rat_of_int \<bar>i\<bar>" by simp
  moreover have "rat_of_int \<bar>i\<bar> < 10 ^ 16" using i by (simp flip: of_int_less_iff [where 'a = rat])
  moreover have "i \<noteq> 0 \<Longrightarrow> f64_1e4 \<le> rat_of_int \<bar>i\<bar>"
  proof -
    assume "i \<noteq> 0"
    then have "(1::rat) \<le> rat_of_int \<bar>i\<bar>" by (metis of_int_1_le_iff zero_less_abs_iff int_one_le_iff_zero_less)
    then show ?thesis by (simp add: f64_1e4_def)
  qed
  ultimately show ?thesis using f by (auto simp: agreement_zone_def)
qed (auto simp: agreement_zone_number_def agreement_zone_def split: pyfloat.splits if_splits)

lemma agreement_zone_number_complete:
  "agreement_zone f \<Longrightarrow> agreement_zone_number (PyFloat f) n = Inr f"
  by (auto simp: agreement_zone_def agreement_zone_number_def split: pyfloat.splits)

lemma parse_condition_sound:
  assumes "parse_condition c = Inr (kind, cp, m, t)"
  shows "(kind = ''upper_capacity_multiplier'' \<and> t = None
          \<and> (\<exists>p x. cp = Some p \<and> \<not> list_all is_space p
               \<and> m = Some x \<and> agreement_zone x \<and> flt (FNum 1) x \<and> fle x (FNum 100)))
      \<or> (kind = ''upper_bound'' \<and> cp = None \<and> m = None \<and> (\<exists>x. t = Some x \<and> agreement_zone x))"
  using assms
  by (auto simp: parse_condition_def bind_res_Inr_iff text_of_Inr_iff CONDITION_KEYS_def
      dest!: agreement_zone_number_sound split: pyval.splits option.splits if_splits)

lemma parse_profile_sound:
  assumes "parse_profile raw = Inr p"
  shows "wf_profile p"
proof -
  from assms obtain kind cp m t where c: "parse_condition (item raw ''condition'') = Inr (kind, cp, m, t)"
    and p: "pr_kind p = kind" "pr_capacity_parameter p = cp" "pr_multiplier p = m" "pr_threshold p = t"
    by (auto simp: parse_profile_def bind_res_Inr_iff split: if_splits)
  have "wf_condition p"
    using parse_condition_sound [OF c] p by (auto simp: wf_condition_def)
  with assms show ?thesis
    by (auto simp: parse_profile_def bind_res_Inr_iff wf_profile_def text_of_Inr_iff str_in_def
        str_of_def split: if_splits pyval.splits)
qed

lemma parse_render_condition:
  assumes "wf_condition p"
  shows "parse_condition (render_condition p) =
    Inr (pr_kind p, pr_capacity_parameter p, pr_multiplier p, pr_threshold p)"
  using assms
  by (auto simp: wf_condition_def render_condition_def parse_condition_def item_def str_of_def
      CONDITION_KEYS_def dict_keys_are_def text_of_def agreement_zone_number_complete)

lemma parse_render_profile:
  assumes "wf_profile p"
  shows "parse_profile (render_profile p) = Inr p"
  using assms parse_render_condition [of p]
  by (simp add: wf_profile_def parse_profile_def render_profile_def dict_keys_are_def item_def
      PROFILE_KEYS_def OBSERVES_KEYS_def text_of_def str_in_def str_of_def insert_commute)

lemma parse_profiles_sound: "parse_profiles rs = Inr ps \<Longrightarrow> list_all wf_profile ps \<and> length ps = length rs"
  by (induction rs arbitrary: ps) (auto simp: bind_res_Inr_iff dest: parse_profile_sound)

lemma parse_render_profiles:
  "list_all wf_profile ps \<Longrightarrow> parse_profiles (map render_profile ps) = Inr ps"
  by (induction ps) (auto simp: parse_render_profile)

lemma load_profile_set_sound:
  assumes "load_profile_set raw d = Inr ps"
  shows "ps_profiles ps \<noteq> [] \<and> list_all wf_profile (ps_profiles ps)
    \<and> distinct (map pr_id (ps_profiles ps)) \<and> ps_digest ps = d"
proof -
  from assms obtain r rs xs where "raw = PyList (r # rs)" and xs: "parse_profiles (r # rs) = Inr xs"
    and "distinct (map pr_id xs)" and "ps = \<lparr>ps_profiles = xs, ps_digest = d\<rparr>"
    by (auto simp: load_profile_set_def bind_res_Inr_iff split: pyval.splits list.splits if_splits)
  with parse_profiles_sound [OF xs] show ?thesis by auto
qed

lemma load_profile_set_complete:
  assumes "ps \<noteq> []" and "list_all wf_profile ps" and "distinct (map pr_id ps)"
  shows "load_profile_set (PyList (map render_profile ps)) d = Inr \<lparr>ps_profiles = ps, ps_digest = d\<rparr>"
proof -
  obtain p ps' where ps: "ps = p # ps'" using assms(1) by (cases ps) auto
  have "parse_profiles (render_profile p # map render_profile ps') = Inr ps"
    using parse_render_profiles [OF assms(2)] ps by simp
  with assms(3) ps show ?thesis by (simp add: load_profile_set_def)
qed

section \<open>Properties\<close>


end
