(* ===== verification/Safety_Evaluation.thy ===== *)
theory Safety_Evaluation
  imports Ori_Prelude
begin

text \<open>
  \<open>ori/safety/evaluation.py\<close>: one reading against one active profile. The value, unit
  and quality arrive as arbitrary Python values; the verdict is \<open>trip\<close>, \<open>no_trip\<close> or
  \<open>rejected_input\<close> with a reason of the closed vocabulary.
\<close>

abbreviation TRIP :: string where "TRIP \<equiv> ''trip''"
abbreviation NO_TRIP :: string where "NO_TRIP \<equiv> ''no_trip''"
abbreviation REJECTED_INPUT :: string where "REJECTED_INPUT \<equiv> ''rejected_input''"

definition REASON_ORDER :: "string list" where
  "REASON_ORDER =
     [''boolean'', ''non_numeric'', ''non_finite'', ''unit_mismatch'', ''zero_quality'',
      ''out_of_range'']"

record evaluation_verdict =
  ev_verdict :: string
  ev_reason :: "string option"

definition reject :: "string \<Rightarrow> evaluation_verdict" where
  "reject r = \<lparr>ev_verdict = REJECTED_INPUT, ev_reason = Some r\<rparr>"

text \<open>A float that is not finite; every int is finite at any magnitude.\<close>

definition non_finite_float :: "pyval \<Rightarrow> bool" where
  "non_finite_float v = (case v of PyFloat f \<Rightarrow> \<not> is_finite f | _ \<Rightarrow> False)"

definition unusable_quality :: "pyval \<Rightarrow> bool" where
  "unusable_quality q = (is_bool q \<or> \<not> is_number q \<or> \<not> flt (FNum 0) (num_of q))"

definition evaluate_reading ::
  "pyval \<Rightarrow> pyval \<Rightarrow> pyval \<Rightarrow> string \<Rightarrow> pyfloat \<Rightarrow> pyfloat \<Rightarrow> pyfloat \<Rightarrow> evaluation_verdict" where
  "evaluate_reading val unit_val quality expected_unit trip_pt range_min range_max =
     (if is_bool val then reject ''boolean''
      else if \<not> is_number val then reject ''non_numeric''
      else if non_finite_float val then reject ''non_finite''
      else if unit_val \<noteq> PyStr expected_unit then reject ''unit_mismatch''
      else if unusable_quality quality then reject ''zero_quality''
      else if flt trip_pt (num_of val) then \<lparr>ev_verdict = TRIP, ev_reason = None\<rparr>
      else if fle range_min (num_of val) \<and> fle (num_of val) range_max
        then \<lparr>ev_verdict = NO_TRIP, ev_reason = None\<rparr>
      else reject ''out_of_range'')"

text \<open>A reading the profile can compare: a finite number in the expected unit, of use.\<close>

definition comparable :: "pyval \<Rightarrow> pyval \<Rightarrow> pyval \<Rightarrow> string \<Rightarrow> bool" where
  "comparable val unit_val quality expected_unit =
     (\<not> is_bool val \<and> is_number val \<and> \<not> non_finite_float val
      \<and> unit_val = PyStr expected_unit \<and> \<not> unusable_quality quality)"

text \<open>What the machine's vocabulary check accepts.\<close>

definition verdict_in_vocabulary :: "evaluation_verdict \<Rightarrow> bool" where
  "verdict_in_vocabulary v =
     (ev_verdict v = REJECTED_INPUT \<and> (\<exists>r \<in> set REASON_ORDER. ev_reason v = Some r)
      \<or> ev_verdict v \<in> {TRIP, NO_TRIP} \<and> ev_reason v = None)"

section \<open>Lemmas\<close>

lemma reject_sel [simp]:
  "ev_verdict (reject r) = REJECTED_INPUT" "ev_reason (reject r) = Some r"
  by (simp_all add: reject_def)

lemma evaluate_trip_iff:
  "ev_verdict (evaluate_reading v u q e t lo hi) = TRIP \<longleftrightarrow>
     comparable v u q e \<and> flt t (num_of v)"
  by (simp add: evaluate_reading_def comparable_def)

lemma evaluate_no_trip_iff:
  "ev_verdict (evaluate_reading v u q e t lo hi) = NO_TRIP \<longleftrightarrow>
     comparable v u q e \<and> \<not> flt t (num_of v) \<and> fle lo (num_of v) \<and> fle (num_of v) hi"
  by (auto simp: evaluate_reading_def comparable_def)

lemma evaluate_in_vocabulary: "verdict_in_vocabulary (evaluate_reading v u q e t lo hi)"
  by (simp add: evaluate_reading_def verdict_in_vocabulary_def REASON_ORDER_def)

lemma fle_flt_trans: "fle a b \<Longrightarrow> flt b c \<Longrightarrow> flt a c"
  by (cases a; cases b; cases c) auto

section \<open>Properties\<close>

text \<open>
  The verdict of a reading is decided exactly: it trips when and only when the
  reading is comparable (a finite non-Boolean number in the expected unit with a
  quality above zero) and exceeds the trip point, it is \<open>no_trip\<close> exactly when it is
  comparable, does not exceed the trip point and lies in range, and every verdict is in
  the closed vocabulary, a rejection with one of the six reasons and the others with
  none.
\<close>

theorem evaluate_reading_exact:
  "(ev_verdict (evaluate_reading v u q e t lo hi) = TRIP
      \<longleftrightarrow> comparable v u q e \<and> flt t (num_of v))
   \<and> (ev_verdict (evaluate_reading v u q e t lo hi) = NO_TRIP
      \<longleftrightarrow> comparable v u q e \<and> \<not> flt t (num_of v) \<and> fle lo (num_of v) \<and> fle (num_of v) hi)
   \<and> verdict_in_vocabulary (evaluate_reading v u q e t lo hi)"
  by (simp add: evaluate_trip_iff evaluate_no_trip_iff evaluate_in_vocabulary)

end
