(* ===== verification/Safety_Activation.thy ===== *)
theory Safety_Activation
  imports Safety_Profiles Safety_Evaluation
begin

text \<open>
  \<open>ori/safety/activation.py\<close>: which shipped profiles protect which commissioned zones.
  A failed \<open>assert\<close> is the error of the sum; on a loaded profile set it never occurs.
\<close>

abbreviation POSITIVE_IS_LOAD_DRAW :: string where
  "POSITIVE_IS_LOAD_DRAW \<equiv> ''positive_is_load_draw''"

abbreviation UNDEMONSTRATED :: string where "UNDEMONSTRATED \<equiv> ''undemonstrated''"

record zone_facts =
  zf_zone_id :: string
  zf_sensor_id :: string
  zf_quantity :: string
  zf_unit :: string
  zf_direction :: string
  zf_range_min :: pyfloat
  zf_range_max :: pyfloat
  zf_rated_capacity_parameter :: string
  zf_rated_capacity_value :: pyfloat
  zf_proof_method :: string

record activated_profile =
  ap_zone_id :: string
  ap_sensor_id :: string
  ap_profile_id :: string
  ap_trip_point :: pyfloat
  ap_outcome :: string
  ap_profile_status :: string

record activation_refusal =
  rf_zone_id :: string
  rf_profile_id :: string
  rf_reason :: string

record pending_profile =
  pp_zone_id :: string
  pp_profile_id :: string

record activation_result =
  ar_activated :: "activated_profile list"
  ar_refused :: "activation_refusal list"
  ar_pending :: "pending_profile list"
  ar_uncovered_zones :: "string list"

datatype assertion_failure = AssertionError

datatype startup = START | START_DEGRADED | REFUSE

definition startup_verdict :: "activation_result \<Rightarrow> bool \<Rightarrow> startup" where
  "startup_verdict r hardened =
     (if ar_refused r = [] then START else if hardened then REFUSE else START_DEGRADED)"

definition trip_point :: "profile \<Rightarrow> zone_facts \<Rightarrow> assertion_failure + pyfloat" where
  "trip_point p z =
     (if pr_kind p = ''upper_capacity_multiplier'' then
        (case pr_multiplier p of
           None \<Rightarrow> Inl AssertionError
         | Some m \<Rightarrow> Inr (f64_mul m (zf_rated_capacity_value z)))
      else
        (case pr_threshold p of None \<Rightarrow> Inl AssertionError | Some t \<Rightarrow> Inr t))"

text \<open>\<open>_check_pair\<close>: \<open>None\<close> when the pair activates, otherwise the verdict.\<close>

definition check_pair :: "profile \<Rightarrow> zone_facts \<Rightarrow> assertion_failure + string option" where
  "check_pair p z =
     (if pr_status p \<noteq> ''ratified'' then Inr (Some ''pending_ratification'')
      else if zf_unit z \<noteq> pr_unit p then Inr (Some ''unit_mismatch'')
      else if zf_direction z \<noteq> POSITIVE_IS_LOAD_DRAW then Inr (Some ''direction_unsupported'')
      else if pr_kind p = ''upper_capacity_multiplier''
            \<and> Some (zf_rated_capacity_parameter z) \<noteq> pr_capacity_parameter p
        then Inr (Some ''parameter_mismatch'')
      else bind_res (trip_point p z) (\<lambda>point.
        if \<not> (fle (zf_range_min z) point \<and> fle point (zf_range_max z))
          then Inr (Some ''trip_point_unobservable'')
        else if zf_proof_method z = UNDEMONSTRATED then Inr (Some ''undemonstrated_binding'')
        else Inr None))"

definition activate_pair ::
  "zone_facts \<Rightarrow> profile \<Rightarrow> activation_result \<Rightarrow> assertion_failure + activation_result" where
  "activate_pair z p acc =
     bind_res (check_pair p z) (\<lambda>verdict.
       case verdict of
         None \<Rightarrow>
           bind_res (trip_point p z) (\<lambda>point.
             Inr (acc\<lparr>ar_activated := ar_activated acc @
               [\<lparr>ap_zone_id = zf_zone_id z, ap_sensor_id = zf_sensor_id z, ap_profile_id = pr_id p,
                 ap_trip_point = point, ap_outcome = pr_outcome p, ap_profile_status = pr_status p\<rparr>]\<rparr>))
       | Some v \<Rightarrow>
           if v = ''pending_ratification''
           then Inr (acc\<lparr>ar_pending := ar_pending acc @
             [\<lparr>pp_zone_id = zf_zone_id z, pp_profile_id = pr_id p\<rparr>]\<rparr>)
           else Inr (acc\<lparr>ar_refused := ar_refused acc @
             [\<lparr>rf_zone_id = zf_zone_id z, rf_profile_id = pr_id p, rf_reason = v\<rparr>]\<rparr>))"

definition eligible :: "profile list \<Rightarrow> zone_facts \<Rightarrow> profile list" where
  "eligible ps z = filter (\<lambda>p. pr_quantity p = zf_quantity z) ps"

definition activate_zone ::
  "profile list \<Rightarrow> zone_facts \<Rightarrow> activation_result \<Rightarrow> assertion_failure + activation_result" where
  "activate_zone ps z acc =
     (if eligible ps z = []
      then Inr (acc\<lparr>ar_uncovered_zones := ar_uncovered_zones acc @ [zf_zone_id z]\<rparr>)
      else fold_res (activate_pair z) (eligible ps z) acc)"

definition empty_result :: activation_result where
  "empty_result = \<lparr>ar_activated = [], ar_refused = [], ar_pending = [], ar_uncovered_zones = []\<rparr>"

definition activate :: "profile_set \<Rightarrow> zone_facts list \<Rightarrow> assertion_failure + activation_result" where
  "activate ps zones = fold_res (activate_zone (ps_profiles ps)) zones empty_result"

section \<open>Specification\<close>

text \<open>The conditions under which a pair is protected, in one formula.\<close>

definition pair_activates :: "profile \<Rightarrow> zone_facts \<Rightarrow> pyfloat \<Rightarrow> bool" where
  "pair_activates p z point =
     (pr_status p = ''ratified'' \<and> zf_unit z = pr_unit p
      \<and> zf_direction z = POSITIVE_IS_LOAD_DRAW
      \<and> (pr_kind p = ''upper_capacity_multiplier''
          \<longrightarrow> pr_capacity_parameter p = Some (zf_rated_capacity_parameter z))
      \<and> trip_point p z = Inr point
      \<and> fle (zf_range_min z) point \<and> fle point (zf_range_max z)
      \<and> zf_proof_method z \<noteq> UNDEMONSTRATED)"

definition activated_entry :: "profile \<Rightarrow> zone_facts \<Rightarrow> pyfloat \<Rightarrow> activated_profile" where
  "activated_entry p z point =
     \<lparr>ap_zone_id = zf_zone_id z, ap_sensor_id = zf_sensor_id z, ap_profile_id = pr_id p,
      ap_trip_point = point, ap_outcome = pr_outcome p, ap_profile_status = pr_status p\<rparr>"

text \<open>
  What a set of zone-profile pairs adds to a result: the protected pairs with their trip
  points, the pairs waiting for ratification and the refused pairs with their verdicts.
\<close>

definition activated_of :: "(zone_facts \<times> profile) set \<Rightarrow> activated_profile set" where
  "activated_of S = {activated_entry p z point | z p point. (z, p) \<in> S \<and> pair_activates p z point}"

definition pending_of :: "(zone_facts \<times> profile) set \<Rightarrow> pending_profile set" where
  "pending_of S = {\<lparr>pp_zone_id = zf_zone_id z, pp_profile_id = pr_id p\<rparr> | z p.
                     (z, p) \<in> S \<and> pr_status p \<noteq> ''ratified''}"

definition refused_of :: "(zone_facts \<times> profile) set \<Rightarrow> activation_refusal set" where
  "refused_of S = {\<lparr>rf_zone_id = zf_zone_id z, rf_profile_id = pr_id p, rf_reason = v\<rparr> | z p v.
                     (z, p) \<in> S \<and> check_pair p z = Inr (Some v) \<and> v \<noteq> ''pending_ratification''}"

definition extends_by :: "(zone_facts \<times> profile) set \<Rightarrow> activation_result \<Rightarrow> activation_result \<Rightarrow> bool" where
  "extends_by S r r' =
     (set (ar_activated r') = set (ar_activated r) \<union> activated_of S
      \<and> set (ar_pending r') = set (ar_pending r) \<union> pending_of S
      \<and> set (ar_refused r') = set (ar_refused r) \<union> refused_of S)"

definition eligible_pairs :: "profile list \<Rightarrow> zone_facts list \<Rightarrow> (zone_facts \<times> profile) set" where
  "eligible_pairs ps zones = {(z, p). z \<in> set zones \<and> p \<in> set (eligible ps z)}"

definition accounted :: "activation_result \<Rightarrow> nat" where
  "accounted r = length (ar_activated r) + length (ar_refused r) + length (ar_pending r)"

section \<open>Example inputs\<close>

definition example_profile :: profile where
  "example_profile = \<lparr>pr_id = ''overcurrent.main.v1'', pr_status = ''ratified'',
     pr_quantity = ''current'', pr_unit = ''A'', pr_kind = ''upper_capacity_multiplier'',
     pr_capacity_parameter = Some ''rated_current'', pr_multiplier = Some (FNum (3/2)),
     pr_threshold = None, pr_outcome = ''open_protected_circuit''\<rparr>"

definition example_zone :: zone_facts where
  "example_zone = \<lparr>zf_zone_id = ''z1'', zf_sensor_id = ''s1'', zf_quantity = ''current'',
     zf_unit = ''A'', zf_direction = ''positive_is_load_draw'', zf_range_min = FNum 0,
     zf_range_max = FNum 100, zf_rated_capacity_parameter = ''rated_current'',
     zf_rated_capacity_value = FNum 40, zf_proof_method = ''actuate_and_observe''\<rparr>"

section \<open>Lemmas\<close>

lemma f64_round_60: "f64_round 60 = FNum 60"
proof -
  have "f64_round_pos 60 1 = (60 * 2 ^ 47, - 47)" by code_simp
  then show ?thesis by (simp add: f64_round_def f64_scale_def)
qed

lemma wf_example_profile: "wf_profile example_profile"
proof -
  have txt_ok: "PROFILE_ID_match ''overcurrent.main.v1''" "\<not> list_all is_space ''overcurrent.main.v1''"
      "\<not> list_all is_space ''current''" "\<not> list_all is_space ''A''"
      "\<not> list_all is_space ''rated_current''"
    by code_simp+
  have "agreement_zone (FNum (3/2))" by (simp add: agreement_zone_def f64_1e4_def)
  with txt_ok(5) have "wf_condition example_profile"
    unfolding wf_condition_def example_profile_def by (intro disjI1) auto
  with txt_ok(1-4) show ?thesis
    unfolding wf_profile_def by (intro conjI) (simp_all only: example_profile_def profile.simps, simp_all add: STATUSES_def OUTCOMES_def)
qed

lemma example_activates: "pair_activates example_profile example_zone (FNum 60)"
  by (simp add: pair_activates_def example_profile_def example_zone_def trip_point_def f64_round_60)

lemma trip_point_total:
  assumes "wf_profile p"
  obtains point where "trip_point p z = Inr point"
  using assms by (auto simp: wf_profile_def wf_condition_def trip_point_def)

lemma check_pair_None_iff: "check_pair p z = Inr None \<longleftrightarrow> (\<exists>point. pair_activates p z point)"
  by (cases "trip_point p z") (auto simp: check_pair_def pair_activates_def)

lemma check_pair_total:
  assumes "wf_profile p"
  shows "\<exists>v. check_pair p z = Inr v"
proof -
  from assms obtain point where "trip_point p z = Inr point" by (rule trip_point_total)
  then show ?thesis by (auto simp: check_pair_def)
qed

lemma check_pair_pending: "check_pair p z = Inr (Some ''pending_ratification'') \<longleftrightarrow> pr_status p \<noteq> ''ratified''"
  by (cases "trip_point p z") (auto simp: check_pair_def)

lemma activate_pair_total:
  assumes "wf_profile p"
  shows "\<exists>r'. activate_pair z p r = Inr r' \<and> accounted r' = Suc (accounted r)
    \<and> ar_uncovered_zones r' = ar_uncovered_zones r"
proof -
  obtain v where v: "check_pair p z = Inr v" using check_pair_total [OF assms] by blast
  obtain point where "trip_point p z = Inr point" using trip_point_total [OF assms] by blast
  with v show ?thesis by (cases v) (auto simp: activate_pair_def accounted_def)
qed

lemma activate_pair_entries:
  assumes "activate_pair z p r = Inr r'"
  shows "a \<in> set (ar_activated r') \<longleftrightarrow>
      a \<in> set (ar_activated r) \<or> (\<exists>point. pair_activates p z point \<and> a = activated_entry p z point)"
    and "x \<in> set (ar_pending r') \<longleftrightarrow> x \<in> set (ar_pending r)
      \<or> pr_status p \<noteq> ''ratified'' \<and> x = \<lparr>pp_zone_id = zf_zone_id z, pp_profile_id = pr_id p\<rparr>"
    and "f \<in> set (ar_refused r') \<longleftrightarrow> f \<in> set (ar_refused r)
      \<or> (\<exists>v. check_pair p z = Inr (Some v) \<and> v \<noteq> ''pending_ratification''
            \<and> f = \<lparr>rf_zone_id = zf_zone_id z, rf_profile_id = pr_id p, rf_reason = v\<rparr>)"
proof -
  obtain v where v: "check_pair p z = Inr v"
    using assms by (cases "check_pair p z") (auto simp: activate_pair_def)
  note facts = check_pair_None_iff [of p z] check_pair_pending [of p z] v assms
  show "a \<in> set (ar_activated r') \<longleftrightarrow> a \<in> set (ar_activated r)
      \<or> (\<exists>point. pair_activates p z point \<and> a = activated_entry p z point)"
    using facts by (cases v; cases "trip_point p z")
      (auto simp: activate_pair_def activated_entry_def pair_activates_def split: if_splits)
  show "x \<in> set (ar_pending r') \<longleftrightarrow> x \<in> set (ar_pending r)
      \<or> pr_status p \<noteq> ''ratified'' \<and> x = \<lparr>pp_zone_id = zf_zone_id z, pp_profile_id = pr_id p\<rparr>"
    using facts by (cases v; cases "trip_point p z") (auto simp: activate_pair_def split: if_splits)
  show "f \<in> set (ar_refused r') \<longleftrightarrow> f \<in> set (ar_refused r)
      \<or> (\<exists>v. check_pair p z = Inr (Some v) \<and> v \<noteq> ''pending_ratification''
            \<and> f = \<lparr>rf_zone_id = zf_zone_id z, rf_profile_id = pr_id p, rf_reason = v\<rparr>)"
    using facts by (cases v; cases "trip_point p z") (auto simp: activate_pair_def split: if_splits)
qed

lemma extends_by_Un:
  "extends_by S r r' \<Longrightarrow> extends_by T r' r'' \<Longrightarrow> extends_by (S \<union> T) r r''"
  by (auto simp: extends_by_def activated_of_def pending_of_def refused_of_def)

lemma extends_by_empty [simp]: "extends_by {} r r"
  by (simp add: extends_by_def activated_of_def pending_of_def refused_of_def)

lemma activate_pair_extends:
  assumes "activate_pair z p r = Inr r'"
  shows "extends_by {(z, p)} r r'"
  using activate_pair_entries [OF assms]
  by (auto simp: extends_by_def activated_of_def pending_of_def refused_of_def)

lemma activate_pairs_spec:
  assumes "list_all wf_profile ps"
  shows "\<exists>r'. fold_res (activate_pair z) ps r = Inr r'
    \<and> extends_by ({z} \<times> set ps) r r' \<and> accounted r' = accounted r + length ps
    \<and> ar_uncovered_zones r' = ar_uncovered_zones r"
  using assms
proof (induction ps arbitrary: r)
  case Nil
  then show ?case by simp
next
  case (Cons p ps)
  then obtain r1 where r1: "activate_pair z p r = Inr r1" "accounted r1 = Suc (accounted r)"
      "ar_uncovered_zones r1 = ar_uncovered_zones r"
    using activate_pair_total [of p z r] by auto
  obtain r' where "fold_res (activate_pair z) ps r1 = Inr r'" "extends_by ({z} \<times> set ps) r1 r'"
      "accounted r' = accounted r1 + length ps" "ar_uncovered_zones r' = ar_uncovered_zones r1"
    using Cons.IH [of r1] Cons.prems by auto
  moreover from this(2) have "extends_by ({z} \<times> set (p # ps)) r r'"
    using extends_by_Un [OF activate_pair_extends [OF r1(1)]] by fastforce
  ultimately show ?case using r1 by simp
qed

lemma activate_zone_spec:
  assumes "list_all wf_profile ps"
  shows "\<exists>r'. activate_zone ps z r = Inr r' \<and> extends_by ({z} \<times> set (eligible ps z)) r r'
    \<and> accounted r' = accounted r + length (eligible ps z)
    \<and> ar_uncovered_zones r' = ar_uncovered_zones r @ (if eligible ps z = [] then [zf_zone_id z] else [])"
proof (cases "eligible ps z = []")
  case True
  then show ?thesis
    by (simp add: activate_zone_def extends_by_def activated_of_def pending_of_def refused_of_def
        accounted_def)
next
  case False
  have "list_all wf_profile (eligible ps z)"
    using assms by (auto simp: eligible_def list_all_iff)
  from activate_pairs_spec [OF this, of z r] False show ?thesis by (simp add: activate_zone_def)
qed

lemma eligible_pairs_Cons:
  "eligible_pairs ps (z # zs) = {z} \<times> set (eligible ps z) \<union> eligible_pairs ps zs"
  by (auto simp: eligible_pairs_def)

lemma activate_zones_spec:
  assumes "list_all wf_profile ps"
  shows "\<exists>r'. fold_res (activate_zone ps) zones r = Inr r'
    \<and> extends_by (eligible_pairs ps zones) r r'
    \<and> accounted r' = accounted r + sum_list (map (\<lambda>z. length (eligible ps z)) zones)
    \<and> ar_uncovered_zones r' = ar_uncovered_zones r
        @ map zf_zone_id (filter (\<lambda>z. eligible ps z = []) zones)"
proof (induction zones arbitrary: r)
  case Nil
  then show ?case by (simp add: eligible_pairs_def)
next
  case (Cons z zs)
  obtain r1 where r1: "activate_zone ps z r = Inr r1" "extends_by ({z} \<times> set (eligible ps z)) r r1"
      "accounted r1 = accounted r + length (eligible ps z)"
      "ar_uncovered_zones r1 = ar_uncovered_zones r @ (if eligible ps z = [] then [zf_zone_id z] else [])"
    using activate_zone_spec [OF assms, of z r] by blast
  obtain r' where "fold_res (activate_zone ps) zs r1 = Inr r'" "extends_by (eligible_pairs ps zs) r1 r'"
      "accounted r' = accounted r1 + sum_list (map (\<lambda>z. length (eligible ps z)) zs)"
      "ar_uncovered_zones r' = ar_uncovered_zones r1 @ map zf_zone_id (filter (\<lambda>z. eligible ps z = []) zs)"
    using Cons.IH [of r1] by blast
  with r1 extends_by_Un [OF r1(2)] show ?case by (auto simp: eligible_pairs_Cons)
qed

lemma activate_result:
  assumes "load_profile_set raw d = Inr ps"
  obtains r where "activate ps zones = Inr r"
    and "extends_by (eligible_pairs (ps_profiles ps) zones) empty_result r"
    and "accounted r = sum_list (map (\<lambda>z. length (eligible (ps_profiles ps) z)) zones)"
    and "ar_uncovered_zones r = map zf_zone_id (filter (\<lambda>z. eligible (ps_profiles ps) z = []) zones)"
  using activate_zones_spec [of "ps_profiles ps" zones empty_result] load_profile_set_sound [OF assms]
  by (auto simp: activate_def empty_result_def accounted_def)

lemma activated_sound:
  assumes "load_profile_set raw d = Inr ps" and "activate ps zones = Inr r"
    and "a \<in> set (ar_activated r)"
  obtains z p point where "z \<in> set zones" "p \<in> set (ps_profiles ps)" "pr_quantity p = zf_quantity z"
    "pair_activates p z point" "a = activated_entry p z point"
proof -
  from assms(2) activate_result [OF assms(1), of zones]
  have "extends_by (eligible_pairs (ps_profiles ps) zones) empty_result r" by auto
  with assms(3) obtain z p point where "(z, p) \<in> eligible_pairs (ps_profiles ps) zones"
    and "pair_activates p z point" and "a = activated_entry p z point"
    by (auto simp: extends_by_def activated_of_def empty_result_def)
  moreover from this(1) have "z \<in> set zones" "p \<in> set (ps_profiles ps)" "pr_quantity p = zf_quantity z"
    by (auto simp: eligible_pairs_def eligible_def)
  ultimately show thesis using that by blast
qed

section \<open>Properties\<close>

text \<open>
  C32. Activation of a loaded profile set never fails an assertion and accounts for every
  eligible zone-profile pair once: what it activates is exactly the pairs whose profile
  is ratified, measures the zone's unit in the load-draw direction with the zone's
  capacity parameter, has its trip point inside the sensor's range and a demonstrated
  binding; a pair whose profile is not ratified is pending; the rest are refused with
  the first failing check; and the uncovered zones are those no profile observes.
\<close>

theorem activate_exact:
  assumes "load_profile_set raw d = Inr ps"
  shows "\<exists>r. activate ps zones = Inr r
    \<and> set (ar_activated r) = activated_of (eligible_pairs (ps_profiles ps) zones)
    \<and> set (ar_pending r) = pending_of (eligible_pairs (ps_profiles ps) zones)
    \<and> set (ar_refused r) = refused_of (eligible_pairs (ps_profiles ps) zones)
    \<and> accounted r = sum_list (map (\<lambda>z. length (eligible (ps_profiles ps) z)) zones)
    \<and> ar_uncovered_zones r = map zf_zone_id (filter (\<lambda>z. eligible (ps_profiles ps) z = []) zones)"
proof -
  obtain r where "activate ps zones = Inr r"
    and "extends_by (eligible_pairs (ps_profiles ps) zones) empty_result r"
    and "accounted r = sum_list (map (\<lambda>z. length (eligible (ps_profiles ps) z)) zones)"
    and "ar_uncovered_zones r = map zf_zone_id (filter (\<lambda>z. eligible (ps_profiles ps) z = []) zones)"
    by (rule activate_result [OF assms])
  then show ?thesis by (simp add: extends_by_def empty_result_def)
qed

theorem activate_exact_witness:
  "load_profile_set (PyList [render_profile example_profile]) ''d'' =
     Inr \<lparr>ps_profiles = [example_profile], ps_digest = ''d''\<rparr>
   \<and> (\<exists>r. activate \<lparr>ps_profiles = [example_profile], ps_digest = ''d''\<rparr> [example_zone] = Inr r
        \<and> set (ar_activated r) = {activated_entry example_profile example_zone (FNum 60)})"
proof -
  have load: "load_profile_set (PyList [render_profile example_profile]) ''d'' =
      Inr \<lparr>ps_profiles = [example_profile], ps_digest = ''d''\<rparr>"
    using load_profile_set_complete [of "[example_profile]" "''d''"] wf_example_profile by simp
  have "activated_of (eligible_pairs [example_profile] [example_zone]) =
      {activated_entry example_profile example_zone (FNum 60)}"
    using example_activates by (auto simp: activated_of_def eligible_pairs_def eligible_def
        example_profile_def example_zone_def pair_activates_def)
  with load activate_exact [OF load, of "[example_zone]"] show ?thesis by auto
qed

text \<open>
  A saturating sensor still trips: on every activated pair, a comparable reading
  beyond the sensor's full scale on the hazard side is above the trip point, so its
  verdict is \<open>trip\<close> and never a rejection.
\<close>

theorem beyond_full_scale_trips:
  assumes "load_profile_set raw d = Inr ps" and "activate ps zones = Inr r"
    and "a \<in> set (ar_activated r)"
  shows "\<exists>z \<in> set zones. zf_zone_id z = ap_zone_id a \<and>
    (comparable v u q (zf_unit z) \<and> flt (zf_range_max z) (num_of v) \<longrightarrow>
      ev_verdict (evaluate_reading v u q (zf_unit z) (ap_trip_point a) (zf_range_min z) (zf_range_max z))
        = TRIP)"
proof -
  obtain z p point where z: "z \<in> set zones" and "pair_activates p z point"
    and a: "a = activated_entry p z point"
    using activated_sound [OF assms] by blast
  then have "fle (ap_trip_point a) (zf_range_max z)" by (simp add: pair_activates_def activated_entry_def)
  then have "comparable v u q (zf_unit z) \<and> flt (zf_range_max z) (num_of v) \<longrightarrow>
      ev_verdict (evaluate_reading v u q (zf_unit z) (ap_trip_point a) (zf_range_min z) (zf_range_max z)) = TRIP"
    by (auto simp: evaluate_trip_iff intro: fle_flt_trans)
  moreover have "zf_zone_id z = ap_zone_id a" using a by (simp add: activated_entry_def)
  ultimately show ?thesis using z by blast
qed

theorem beyond_full_scale_trips_witness:
  "ev_verdict (evaluate_reading (PyInt 101) (PyStr ''A'') (PyFloat (FNum 1)) ''A'' (FNum 60)
      (FNum 0) (FNum 100)) = TRIP"
proof -
  have load: "load_profile_set (PyList [render_profile example_profile]) ''d'' =
      Inr \<lparr>ps_profiles = [example_profile], ps_digest = ''d''\<rparr>"
    using load_profile_set_complete [of "[example_profile]" "''d''"] wf_example_profile by simp
  obtain r where r: "activate \<lparr>ps_profiles = [example_profile], ps_digest = ''d''\<rparr> [example_zone] = Inr r"
    and "extends_by (eligible_pairs [example_profile] [example_zone]) empty_result r"
    using activate_result [OF load, of "[example_zone]"] by auto
  then have a: "activated_entry example_profile example_zone (FNum 60) \<in> set (ar_activated r)"
    using example_activates by (auto simp: extends_by_def activated_of_def eligible_pairs_def
        eligible_def example_profile_def example_zone_def)
  show ?thesis
    using beyond_full_scale_trips [OF load r a, of "PyInt 101" "PyStr ''A''" "PyFloat (FNum 1)"]
    by (simp add: example_zone_def activated_entry_def comparable_def is_bool_def is_number_def
        non_finite_float_def unusable_quality_def)
qed

end
