(* ===== verification/Action_Registry.thy ===== *)
theory Action_Registry
  imports Ori_Prelude
begin

text \<open>
  \<open>ori/reasoning/action_registry.py\<close>: the runtime-owned registry of action
  capabilities. The registry is a dictionary from action names to capabilities, the
  capability constructor refuses incoherent entries, and the module refuses to load
  with a Tier D floor. The functions rank tiers, look capabilities up, raise a
  requested tier to an action's floor and decide safe-default eligibility.
\<close>

record action_capability =
  cap_minimum_tier :: string
  cap_physical :: bool
  cap_safe_default_eligible :: bool
  cap_summary :: string
  cap_consequence_class :: string

definition TIER_ORDER :: "(string \<times> nat) list" where
  "TIER_ORDER = [(''A'', 1), (''B'', 2), (''C'', 3), (''D'', 4)]"

definition CONSEQUENCE_CLASSES :: "string list" where
  "CONSEQUENCE_CLASSES = [''informational'', ''soft'', ''hard'']"

datatype capability_error =
    UnknownConsequenceClass | PhysicalSafeDefault | NonInformationalSafeDefault

text \<open>\<open>ActionCapability.__post_init__\<close>: the entry, or the \<open>ValueError\<close> it raises.\<close>

definition post_init :: "action_capability \<Rightarrow> capability_error + action_capability" where
  "post_init c =
     (if cap_consequence_class c \<notin> set CONSEQUENCE_CLASSES then Inl UnknownConsequenceClass
      else if cap_physical c \<and> cap_safe_default_eligible c then Inl PhysicalSafeDefault
      else if cap_consequence_class c \<noteq> ''informational'' \<and> cap_safe_default_eligible c
        then Inl NonInformationalSafeDefault
      else Inr c)"

definition mk_cap :: "string \<Rightarrow> bool \<Rightarrow> bool \<Rightarrow> string \<Rightarrow> string \<Rightarrow> action_capability" where
  "mk_cap t p s d k =
     \<lparr>cap_minimum_tier = t, cap_physical = p, cap_safe_default_eligible = s,
      cap_summary = d, cap_consequence_class = k\<rparr>"

definition ACTION_REGISTRY :: "(string \<times> action_capability) list" where
  "ACTION_REGISTRY =
   [(''alert_whatsapp'', mk_cap ''A'' False True ''sends a WhatsApp message'' ''informational''),
    (''alert_sms'', mk_cap ''A'' False True ''sends an SMS message'' ''informational''),
    (''log_to_dashboard'',
       mk_cap ''A'' False True ''records the decision to the action log'' ''informational''),
    (''terminate_process'', mk_cap ''B'' False False ''terminates a running process'' ''soft''),
    (''reset_kernel_subsystem'', mk_cap ''B'' False False ''resets a kernel subsystem'' ''soft''),
    (''coap_command'',
       mk_cap ''B'' True False ''commands an actuator on a constrained device'' ''soft''),
    (''trip_relay'', mk_cap ''C'' True False ''operates the safety relay'' ''hard''),
    (''release_relay'',
       mk_cap ''C'' True False
         ''de-energises the safety relay, restoring the load circuit'' ''hard''),
    (''close_gas_valve'', mk_cap ''C'' True False ''closes the fail-safe gas valve'' ''hard'')]"

text \<open>The names the module-level check raises for; the module loads when there are none.\<close>

definition TIER_D_FLOORS :: "string list" where
  "TIER_D_FLOORS = map fst (filter (\<lambda>(n, e). cap_minimum_tier e = ''D'') ACTION_REGISTRY)"

definition tier_rank :: "string \<Rightarrow> nat" where
  "tier_rank t = (case map_of TIER_ORDER (str_upper t) of Some n \<Rightarrow> n | None \<Rightarrow> 0)"

definition is_valid_tier :: "string \<Rightarrow> bool" where
  "is_valid_tier t = (map_of TIER_ORDER (str_upper t) \<noteq> None)"

definition capability :: "string \<Rightarrow> action_capability option" where
  "capability a = map_of ACTION_REGISTRY a"

definition minimum_tier :: "string \<Rightarrow> string option" where
  "minimum_tier a = map_option cap_minimum_tier (capability a)"

definition enforce_minimum_tier :: "string \<Rightarrow> string \<Rightarrow> string" where
  "enforce_minimum_tier a t =
     (case minimum_tier a of
        None \<Rightarrow> t
      | Some floor_tier \<Rightarrow> if tier_rank floor_tier > tier_rank t then floor_tier else t)"

definition is_safe_default_eligible :: "string \<Rightarrow> bool" where
  "is_safe_default_eligible a =
     (case capability a of None \<Rightarrow> True | Some e \<Rightarrow> cap_safe_default_eligible e)"

definition is_physical :: "string \<Rightarrow> bool" where
  "is_physical a = (case capability a of None \<Rightarrow> False | Some e \<Rightarrow> cap_physical e)"

section \<open>Lemmas\<close>

lemma mk_cap_sel [simp]:
  "cap_minimum_tier (mk_cap t p s d k) = t"
  "cap_physical (mk_cap t p s d k) = p"
  "cap_safe_default_eligible (mk_cap t p s d k) = s"
  "cap_consequence_class (mk_cap t p s d k) = k"
  by (simp_all add: mk_cap_def)

lemma str_upper_tiers [simp]:
  "str_upper ''A'' = ''A''" "str_upper ''B'' = ''B''"
  "str_upper ''C'' = ''C''" "str_upper ''D'' = ''D''"
  by code_simp+

lemma tier_rank_simps [simp]:
  "tier_rank ''A'' = 1" "tier_rank ''B'' = 2" "tier_rank ''C'' = 3" "tier_rank ''D'' = 4"
  by (simp_all add: tier_rank_def TIER_ORDER_def)

lemma tier_rank_upper [simp]: "tier_rank (str_upper t) = tier_rank t"
  by (simp add: tier_rank_def)

lemma tier_rank_le_4: "tier_rank t \<le> 4"
  by (auto simp: tier_rank_def TIER_ORDER_def split: option.split if_splits)

lemma tier_rank_ge_4_iff: "4 \<le> tier_rank t \<longleftrightarrow> str_upper t = ''D''"
  by (auto simp: tier_rank_def TIER_ORDER_def split: option.split if_splits)

text \<open>The entries of the registry, one by one: what the lookups below are decided on.\<close>

lemma capability_cases:
  assumes "capability a = Some e"
  obtains (informational) "a \<in> {''alert_whatsapp'', ''alert_sms'', ''log_to_dashboard''}"
      "cap_minimum_tier e = ''A''" "\<not> cap_physical e" "cap_safe_default_eligible e"
      "cap_consequence_class e = ''informational''"
    | (host) "a \<in> {''terminate_process'', ''reset_kernel_subsystem''}"
      "cap_minimum_tier e = ''B''" "\<not> cap_physical e" "\<not> cap_safe_default_eligible e"
      "cap_consequence_class e = ''soft''"
    | (coap) "a = ''coap_command''"
      "cap_minimum_tier e = ''B''" "cap_physical e" "\<not> cap_safe_default_eligible e"
      "cap_consequence_class e = ''soft''"
    | (hard) "a \<in> {''trip_relay'', ''release_relay'', ''close_gas_valve''}"
      "cap_minimum_tier e = ''C''" "cap_physical e" "\<not> cap_safe_default_eligible e"
      "cap_consequence_class e = ''hard''"
  using assms
  by (auto simp: capability_def ACTION_REGISTRY_def split: if_splits)

lemma capability_floor_rank:
  assumes "capability a = Some e"
  shows "1 \<le> tier_rank (cap_minimum_tier e) \<and> tier_rank (cap_minimum_tier e) \<le> 3"
  using assms by (cases rule: capability_cases) simp_all

lemma enforce_rank:
  "tier_rank (enforce_minimum_tier a t) =
     max (tier_rank t) (case minimum_tier a of None \<Rightarrow> 0 | Some f \<Rightarrow> tier_rank f)"
  by (auto simp: enforce_minimum_tier_def split: option.split)

section \<open>Properties\<close>

text \<open>
  Enforcing an action's floor raises a requested tier to the floor and never lowers
  it: the resulting rank is the maximum of the request's and the floor's, it is the
  request itself or the floor, and enforcing twice changes nothing more.
\<close>

theorem enforce_minimum_tier_spec:
  "tier_rank (enforce_minimum_tier a t) =
     max (tier_rank t) (case minimum_tier a of None \<Rightarrow> 0 | Some f \<Rightarrow> tier_rank f)
   \<and> (enforce_minimum_tier a t = t \<or> Some (enforce_minimum_tier a t) = minimum_tier a)
   \<and> enforce_minimum_tier a (enforce_minimum_tier a t) = enforce_minimum_tier a t"
proof -
  have "enforce_minimum_tier a t = t \<or> Some (enforce_minimum_tier a t) = minimum_tier a"
    by (auto simp: enforce_minimum_tier_def split: option.split)
  moreover have "enforce_minimum_tier a (enforce_minimum_tier a t) = enforce_minimum_tier a t"
    by (auto simp: enforce_minimum_tier_def split: option.split)
  ultimately show ?thesis by (simp add: enforce_rank)
qed

text \<open>
  The registry the release ships is coherent: every entry passes its constructor's
  checks, the module-level check finds no Tier D floor, no name is registered twice,
  and an action that drives physical actuation is never eligible as a safe default.
\<close>

theorem action_registry_coherent:
  "list_all (\<lambda>(n, e). post_init e = Inr e) ACTION_REGISTRY
   \<and> TIER_D_FLOORS = []
   \<and> distinct (map fst ACTION_REGISTRY)
   \<and> \<not> (is_physical a \<and> is_safe_default_eligible a)"
proof -
  have "list_all (\<lambda>(n, e). post_init e = Inr e) ACTION_REGISTRY"
    by (simp add: ACTION_REGISTRY_def post_init_def CONSEQUENCE_CLASSES_def)
  moreover have "TIER_D_FLOORS = []" and "distinct (map fst ACTION_REGISTRY)"
    by (simp_all add: TIER_D_FLOORS_def ACTION_REGISTRY_def)
  moreover have "\<not> (is_physical a \<and> is_safe_default_eligible a)"
  proof (cases "capability a")
    case (Some e)
    then show ?thesis
      by (cases rule: capability_cases)
        (use Some in \<open>simp_all add: is_physical_def is_safe_default_eligible_def\<close>)
  qed (simp add: is_physical_def)
  ultimately show ?thesis by blast
qed

end
