(* ===== verification/Dispatch_Plan.thy ===== *)
theory Dispatch_Plan
  imports Action_Registry
begin

text \<open>
  \<open>ori/reasoning/dispatch_plan.py\<close>: what a matched trigger licenses. The commissioned
  outcome an action resolves to, the resource it drives, the floor the registry and the
  commissioned binding compose into, the Tier D grant, the tier one action of a plan is
  dispatched at, and the outcome a trigger's cooldown is charged on.
\<close>

abbreviation OPEN_PROTECTED_CIRCUIT :: string where
  "OPEN_PROTECTED_CIRCUIT \<equiv> ''open_protected_circuit''"

abbreviation CLOSE_PROTECTED_CIRCUIT :: string where
  "CLOSE_PROTECTED_CIRCUIT \<equiv> ''close_protected_circuit''"

abbreviation PROTECTIVE_OUTCOME :: string where
  "PROTECTIVE_OUTCOME \<equiv> OPEN_PROTECTED_CIRCUIT"

definition COMMISSIONED_OUTCOMES :: "(string \<times> string) list" where
  "COMMISSIONED_OUTCOMES =
     [(''trip_relay'', OPEN_PROTECTED_CIRCUIT),
      (''close_gas_valve'', OPEN_PROTECTED_CIRCUIT),
      (''release_relay'', CLOSE_PROTECTED_CIRCUIT)]"

definition HOST_SCOPED_ACTIONS :: "string list" where
  "HOST_SCOPED_ACTIONS = [''terminate_process'', ''reset_kernel_subsystem'']"

section \<open>Outcomes of a trigger's actions\<close>

text \<open>\<open>DispatchOutcome\<close>; \<open>Pending\<close> is the empty string, an action not yet resolved.\<close>

datatype dispatch_outcome =
    Pending | Attempted | JoinedAttempt | ProposalOpened | Preempted | FullyRefused
  | ConditionFalse

definition OUTCOME_ORDER :: "dispatch_outcome list" where
  "OUTCOME_ORDER =
     [Attempted, JoinedAttempt, ProposalOpened, Preempted, FullyRefused, ConditionFalse]"

definition CONSUMING_OUTCOMES :: "dispatch_outcome list" where
  "CONSUMING_OUTCOMES = [Attempted, JoinedAttempt, ProposalOpened]"

definition strongest_outcome :: "dispatch_outcome list \<Rightarrow> dispatch_outcome" where
  "strongest_outcome os =
     (case filter (\<lambda>c. c \<in> set os) OUTCOME_ORDER of [] \<Rightarrow> FullyRefused | c # _ \<Rightarrow> c)"

definition consumes_cooldown :: "dispatch_outcome \<Rightarrow> bool" where
  "consumes_cooldown x = (x \<in> set CONSUMING_OUTCOMES)"

section \<open>Resources\<close>

definition is_informational :: "string \<Rightarrow> bool" where
  "is_informational a =
     (case capability a of None \<Rightarrow> False
      | Some e \<Rightarrow> cap_minimum_tier e = ''A'' \<and> \<not> cap_physical e)"

definition commissioned_outcome :: "string \<Rightarrow> string option" where
  "commissioned_outcome a = map_of COMMISSIONED_OUTCOMES a"

definition requires_commissioned_binding :: "string \<Rightarrow> bool" where
  "requires_commissioned_binding a = (commissioned_outcome a \<noteq> None)"

record resource_identity =
  resource_key :: "string list"
  desired_outcome :: string
  join_parameters :: "(string \<times> string) list"

definition join_key :: "resource_identity \<Rightarrow> string list \<times> string \<times> (string \<times> string) list" where
  "join_key r = (resource_key r, desired_outcome r, join_parameters r)"

text \<open>The keyword arguments \<open>resource_identity()\<close> takes beside the action.\<close>

record identity_args =
  ia_zone_identity_key :: "(string \<times> string) option"
  ia_binding_revision :: string
  ia_target :: string
  ia_coap_uri :: string
  ia_coap_parameters :: "(string \<times> string) list"

definition resource_identity_of :: "string \<Rightarrow> identity_args \<Rightarrow> resource_identity option" where
  "resource_identity_of a x =
     (if is_informational a then None
      else case commissioned_outcome a of
        Some out \<Rightarrow>
          (case ia_zone_identity_key x of
             None \<Rightarrow> None
           | Some (k, i) \<Rightarrow>
               Some \<lparr>resource_key = [k, i], desired_outcome = out,
                     join_parameters = [(''binding_revision'', ia_binding_revision x)]\<rparr>)
      | None \<Rightarrow>
          if a = ''coap_command'' then
            (if ia_coap_uri x = [] then None
             else Some \<lparr>resource_key = [''coap'', ia_coap_uri x], desired_outcome = a,
                        join_parameters = ia_coap_parameters x\<rparr>)
          else if a \<in> set HOST_SCOPED_ACTIONS then
            (if ia_target x = [] then None
             else Some \<lparr>resource_key = [''host'', a, ia_target x], desired_outcome = a,
                        join_parameters = []\<rparr>)
          else
            (case capability a of
               None \<Rightarrow> None
             | Some e \<Rightarrow>
                 if \<not> cap_physical e then None
                 else Some \<lparr>resource_key = [''action'', a], desired_outcome = a,
                            join_parameters = []\<rparr>))"

definition opposes :: "resource_identity \<Rightarrow> resource_identity \<Rightarrow> bool" where
  "opposes l r =
     (if resource_key l \<noteq> resource_key r then False
      else desired_outcome l \<noteq> desired_outcome r
        \<and> desired_outcome l \<in> {OPEN_PROTECTED_CIRCUIT, CLOSE_PROTECTED_CIRCUIT}
        \<and> desired_outcome r \<in> {OPEN_PROTECTED_CIRCUIT, CLOSE_PROTECTED_CIRCUIT})"

section \<open>The commissioned binding and the floor\<close>

record binding_view =
  bv_zone_identity_key :: "(string \<times> string) option"
  bv_binding_revision :: string
  bv_consequence_by_outcome :: "string \<rightharpoonup> string"

definition consequence_for :: "binding_view \<Rightarrow> string \<Rightarrow> string option" where
  "consequence_for b out = bv_consequence_by_outcome b out"

definition CONSEQUENCE_FLOOR :: "(string \<times> string) list" where
  "CONSEQUENCE_FLOOR = [(''informational'', ''A''), (''soft'', ''B''), (''hard'', ''C'')]"

definition effective_floor :: "string \<Rightarrow> binding_view option \<Rightarrow> string option" where
  "effective_floor a binding =
     (let registry_floor = (case capability a of Some e \<Rightarrow> cap_minimum_tier e | None \<Rightarrow> ''A'')
      in case commissioned_outcome a of
           None \<Rightarrow> Some registry_floor
         | Some out \<Rightarrow>
             (case binding of
                None \<Rightarrow> None
              | Some b \<Rightarrow>
                  if bv_zone_identity_key b = None then None
                  else case consequence_for b out of
                    None \<Rightarrow> None
                  | Some resolved \<Rightarrow>
                      (case map_of CONSEQUENCE_FLOOR resolved of
                         None \<Rightarrow> Some registry_floor
                       | Some binding_floor \<Rightarrow>
                           if tier_rank binding_floor < tier_rank registry_floor
                           then Some registry_floor else Some binding_floor)))"

section \<open>The Tier D grant\<close>

datatype grant_refusal =
    IncidentNotTierD | DoesNotBypassModel | NotFirstParty | NoCommissionedOutcome
  | NotProtectiveOutcome | NoCommissionedZone | OutcomeHasNoMeaning | NotInDefaults | NoExecutor

text \<open>The keyword arguments \<open>tier_d_grant()\<close> and \<open>assign_action_tier()\<close> share.\<close>

record plan_args =
  pa_action :: string
  pa_incident_tier :: string
  pa_declared_tier :: string
  pa_bypass_llm :: bool
  pa_first_party :: bool
  pa_declared_actions :: "string list"
  pa_binding :: "binding_view option"
  pa_has_executor :: bool
  pa_identity_args :: identity_args

text \<open>\<open>TierDGrant\<close>: the refusal, or nothing when every clause holds.\<close>

definition tier_d_grant :: "plan_args \<Rightarrow> grant_refusal option" where
  "tier_d_grant p =
     (if str_upper (pa_incident_tier p) \<noteq> ''D'' then Some IncidentNotTierD
      else if \<not> pa_bypass_llm p then Some DoesNotBypassModel
      else if \<not> pa_first_party p then Some NotFirstParty
      else case commissioned_outcome (pa_action p) of
        None \<Rightarrow> Some NoCommissionedOutcome
      | Some out \<Rightarrow>
          if out \<noteq> PROTECTIVE_OUTCOME then Some NotProtectiveOutcome
          else case pa_binding p of
            None \<Rightarrow> Some NoCommissionedZone
          | Some b \<Rightarrow>
              if bv_zone_identity_key b = None then Some NoCommissionedZone
              else if consequence_for b out = None then Some OutcomeHasNoMeaning
              else if pa_action p \<notin> set (pa_declared_actions p) then Some NotInDefaults
              else if \<not> pa_has_executor p then Some NoExecutor
              else None)"

definition granted :: "plan_args \<Rightarrow> bool" where
  "granted p = (tier_d_grant p = None)"

section \<open>The tier of one action, and the plan\<close>

text \<open>A refusal at admission, or the reason the gate gave when the action was dispatched.\<close>

datatype plan_refusal = UNGOVERNED_ACTION | UNBOUND_ACTUATOR | RefusedAs string

record planned_action =
  pl_action :: string
  pl_dispatch_tier :: string
  pl_identity :: "resource_identity option"
  pl_tier_d_granted :: bool
  pl_refusal :: "plan_refusal option"
  pl_outcome :: dispatch_outcome

definition planned :: "string \<Rightarrow> string \<Rightarrow> resource_identity option \<Rightarrow> bool \<Rightarrow> plan_refusal option
    \<Rightarrow> planned_action" where
  "planned a t i d r = \<lparr>pl_action = a, pl_dispatch_tier = t, pl_identity = i,
     pl_tier_d_granted = d, pl_refusal = r, pl_outcome = Pending\<rparr>"

definition admitted :: "planned_action \<Rightarrow> bool" where
  "admitted p = (pl_refusal p = None)"

definition assign_action_tier :: "plan_args \<Rightarrow> planned_action" where
  "assign_action_tier p =
     (let a = pa_action p;
          identity = resource_identity_of a (pa_identity_args p)
      in if capability a = None then planned a ''A'' None False (Some UNGOVERNED_ACTION)
         else if is_informational a then planned a ''A'' None False None
         else if granted p then planned a ''D'' identity True None
         else case effective_floor a (pa_binding p) of
           None \<Rightarrow> planned a ''A'' identity False (Some UNBOUND_ACTUATOR)
         | Some fl \<Rightarrow>
             (let declared = (if pa_declared_tier p = [] then fl else pa_declared_tier p);
                  ordinary = enforce_minimum_tier a (str_upper declared);
                  ordinary' = (if tier_rank fl > tier_rank ordinary then fl else ordinary);
                  ordinary'' = (if tier_rank ordinary' > tier_rank ''C'' then ''C'' else ordinary')
              in planned a ordinary'' identity False None))"

record trigger_plan =
  tp_skill_name :: string
  tp_trigger_name :: string
  tp_incident_tier :: string
  tp_bypass_llm :: bool
  tp_first_party :: bool
  tp_actions :: "planned_action list"
  tp_cooldown_seconds :: int
  tp_scheduled :: bool
  tp_holds_in_flight :: bool
  tp_remainder_held :: bool

definition plan_outcome :: "trigger_plan \<Rightarrow> dispatch_outcome" where
  "plan_outcome t = strongest_outcome (map pl_outcome (tp_actions t))"

definition cooldown_outcome :: "trigger_plan \<Rightarrow> dispatch_outcome" where
  "cooldown_outcome t =
     strongest_outcome (map pl_outcome (filter (\<lambda>a. \<not> pl_tier_d_granted a) (tp_actions t)))"

definition is_tier_d_incident :: "trigger_plan \<Rightarrow> bool" where
  "is_tier_d_incident t = (str_upper (tp_incident_tier t) = ''D'')"

definition grants_tier_d :: "trigger_plan \<Rightarrow> bool" where
  "grants_tier_d t = list_ex pl_tier_d_granted (tp_actions t)"

record dispatch_plan =
  dp_skill_name :: string
  dp_correlation_id :: string
  dp_triggers :: "trigger_plan list"

definition tier_d_triggers :: "dispatch_plan \<Rightarrow> trigger_plan list" where
  "tier_d_triggers d = filter grants_tier_d (dp_triggers d)"

section \<open>Example inputs\<close>

definition example_binding :: binding_view where
  "example_binding = \<lparr>bv_zone_identity_key = Some (''gpio'', ''17''),
     bv_binding_revision = ''7'',
     bv_consequence_by_outcome = [''open_protected_circuit'' \<mapsto> ''hard'']\<rparr>"

definition example_args :: "string \<Rightarrow> string \<Rightarrow> plan_args" where
  "example_args a t = \<lparr>pa_action = a, pa_incident_tier = t, pa_declared_tier = ''B'',
     pa_bypass_llm = True, pa_first_party = True, pa_declared_actions = [''trip_relay''],
     pa_binding = Some example_binding, pa_has_executor = True,
     pa_identity_args = \<lparr>ia_zone_identity_key = Some (''gpio'', ''17''),
       ia_binding_revision = ''7'', ia_target = [], ia_coap_uri = [], ia_coap_parameters = []\<rparr>\<rparr>"

section \<open>Lemmas\<close>

lemma planned_sel [simp]:
  "pl_action (planned a t i d r) = a" "pl_dispatch_tier (planned a t i d r) = t"
  "pl_identity (planned a t i d r) = i" "pl_tier_d_granted (planned a t i d r) = d"
  "pl_refusal (planned a t i d r) = r"
  by (simp_all add: planned_def)

lemma commissioned_outcome_Some_iff:
  "commissioned_outcome a = Some out \<longleftrightarrow>
     (a = ''trip_relay'' \<or> a = ''close_gas_valve'') \<and> out = OPEN_PROTECTED_CIRCUIT
     \<or> a = ''release_relay'' \<and> out = CLOSE_PROTECTED_CIRCUIT"
  by (auto simp: commissioned_outcome_def COMMISSIONED_OUTCOMES_def)

lemma commissioned_capability:
  assumes "commissioned_outcome a = Some out"
  obtains e where "capability a = Some e" "cap_minimum_tier e = ''C''" "cap_physical e"
  using assms
  by (auto simp: commissioned_outcome_Some_iff capability_def ACTION_REGISTRY_def)

lemma commissioned_not_informational:
  "commissioned_outcome a = Some out \<Longrightarrow> \<not> is_informational a"
  by (auto elim!: commissioned_capability simp: is_informational_def)

text \<open>Every clause of the grant, as one conjunction.\<close>

lemma granted_iff:
  "granted p \<longleftrightarrow>
     str_upper (pa_incident_tier p) = ''D'' \<and> pa_bypass_llm p \<and> pa_first_party p
     \<and> commissioned_outcome (pa_action p) = Some PROTECTIVE_OUTCOME
     \<and> (\<exists>b. pa_binding p = Some b \<and> bv_zone_identity_key b \<noteq> None
            \<and> consequence_for b PROTECTIVE_OUTCOME \<noteq> None)
     \<and> pa_action p \<in> set (pa_declared_actions p) \<and> pa_has_executor p"
  unfolding granted_def tier_d_grant_def
  by (simp split: option.split)

lemma assign_granted:
  assumes "granted p"
  shows "assign_action_tier p =
    planned (pa_action p) ''D'' (resource_identity_of (pa_action p) (pa_identity_args p)) True None"
proof -
  from assms have "commissioned_outcome (pa_action p) = Some PROTECTIVE_OUTCOME"
    by (simp add: granted_iff)
  then obtain e where "capability (pa_action p) = Some e" and "\<not> is_informational (pa_action p)"
    by (metis commissioned_capability commissioned_not_informational)
  with assms show ?thesis by (simp add: assign_action_tier_def Let_def)
qed

lemma effective_floor_ge_registry:
  assumes "capability a = Some e" and "effective_floor a b = Some fl"
  shows "tier_rank (cap_minimum_tier e) \<le> tier_rank fl"
  using assms by (auto simp: effective_floor_def Let_def split: option.splits if_splits)

lemma effective_floor_le_C:
  assumes "capability a = Some e" and "effective_floor a b = Some fl"
  shows "tier_rank fl \<le> 3"
  using assms capability_floor_rank [OF assms(1)]
  by (auto simp: effective_floor_def CONSEQUENCE_FLOOR_def Let_def split: option.splits if_splits)

lemma assign_not_granted:
  assumes "capability (pa_action p) = Some e" and "\<not> is_informational (pa_action p)"
    and "\<not> granted p" and "effective_floor (pa_action p) (pa_binding p) = Some fl"
  obtains t where "assign_action_tier p =
      planned (pa_action p) t (resource_identity_of (pa_action p) (pa_identity_args p)) False None"
    and "tier_rank fl \<le> tier_rank t" and "tier_rank t \<le> 3"
proof -
  let ?a = "pa_action p"
  let ?decl = "if pa_declared_tier p = [] then fl else pa_declared_tier p"
  let ?o = "enforce_minimum_tier ?a (str_upper ?decl)"
  let ?o' = "if tier_rank fl > tier_rank ?o then fl else ?o"
  let ?t = "if tier_rank ?o' > tier_rank ''C'' then ''C'' else ?o'"
  have "assign_action_tier p = planned ?a ?t (resource_identity_of ?a (pa_identity_args p)) False None"
    using assms by (simp add: assign_action_tier_def Let_def)
  moreover have "tier_rank fl \<le> tier_rank ?t" and "tier_rank ?t \<le> 3"
    using effective_floor_le_C [OF assms(1,4)] by auto
  ultimately show thesis by (rule that)
qed

lemma assign_tier_D_granted:
  assumes "pl_dispatch_tier (assign_action_tier p) = ''D''"
  shows "granted p"
proof (rule ccontr)
  assume ng: "\<not> granted p"
  show False
  proof (cases "capability (pa_action p) = None \<or> is_informational (pa_action p)
      \<or> effective_floor (pa_action p) (pa_binding p) = None")
    case True
    with ng assms show False
      by (auto simp: assign_action_tier_def Let_def split: if_splits)
  next
    case False
    then obtain e fl where "capability (pa_action p) = Some e"
      "\<not> is_informational (pa_action p)" "effective_floor (pa_action p) (pa_binding p) = Some fl"
      by auto
    with ng obtain t i where "assign_action_tier p = planned (pa_action p) t i False None"
      and "tier_rank t \<le> 3"
      by (metis assign_not_granted)
    with assms show False by simp
  qed
qed

lemma opposes_sym: "opposes l r = opposes r l"
  by (auto simp: opposes_def)

lemma opposes_irrefl [simp]: "\<not> opposes r r"
  by (simp add: opposes_def)

lemma opposes_not_join: "opposes l r \<Longrightarrow> join_key l \<noteq> join_key r"
  by (auto simp: opposes_def join_key_def split: if_splits)

lemma granted_identity_outcome:
  assumes "granted p" and "pl_identity (assign_action_tier p) = Some i"
  shows "desired_outcome i = PROTECTIVE_OUTCOME"
proof -
  have "commissioned_outcome (pa_action p) = Some PROTECTIVE_OUTCOME"
    using assms(1) by (simp add: granted_iff)
  with assms commissioned_not_informational [OF this] show ?thesis
    by (auto simp: assign_granted resource_identity_of_def split: option.splits)
qed

section \<open>Properties\<close>

text \<open>
  C23. Tier D is granted, never declared. An action is dispatched at Tier D exactly when
  the incident is Tier D, its trigger bypasses the model and belongs to a first-party
  skill, the action is one of the two that open the protected circuit, a commissioned
  zone covers it and gives that outcome a meaning, the trigger's defaults name it, and
  an executor is registered; whatever tier a skill declared plays no part.
\<close>

theorem tier_d_iff_every_clause:
  "pl_dispatch_tier (assign_action_tier p) = ''D'' \<longleftrightarrow>
     str_upper (pa_incident_tier p) = ''D'' \<and> pa_bypass_llm p \<and> pa_first_party p
     \<and> pa_action p \<in> {''trip_relay'', ''close_gas_valve''}
     \<and> (\<exists>b. pa_binding p = Some b \<and> bv_zone_identity_key b \<noteq> None
            \<and> consequence_for b PROTECTIVE_OUTCOME \<noteq> None)
     \<and> pa_action p \<in> set (pa_declared_actions p) \<and> pa_has_executor p"
proof -
  have "pl_dispatch_tier (assign_action_tier p) = ''D'' \<longleftrightarrow> granted p"
    using assign_tier_D_granted by (auto simp: assign_granted)
  then show ?thesis by (auto simp: granted_iff commissioned_outcome_Some_iff)
qed

text \<open>
  C31. Outside the grant an action runs at its own authority: an informational action is
  always Tier A, an action with no registry entry or an actuator no zone covers is
  refused, and every other action is dispatched at a tier no lower than its registry
  floor and the floor the binding raises it to, and no higher than C.
\<close>

theorem assign_action_tier_bounds:
  assumes "\<not> granted p"
  shows "case capability (pa_action p) of
      None \<Rightarrow> pl_refusal (assign_action_tier p) = Some UNGOVERNED_ACTION
    | Some e \<Rightarrow>
        if is_informational (pa_action p)
        then admitted (assign_action_tier p) \<and> pl_dispatch_tier (assign_action_tier p) = ''A''
        else case effective_floor (pa_action p) (pa_binding p) of
          None \<Rightarrow> pl_refusal (assign_action_tier p) = Some UNBOUND_ACTUATOR
        | Some fl \<Rightarrow>
            admitted (assign_action_tier p)
            \<and> tier_rank (cap_minimum_tier e) \<le> tier_rank fl
            \<and> tier_rank fl \<le> tier_rank (pl_dispatch_tier (assign_action_tier p))
            \<and> tier_rank (pl_dispatch_tier (assign_action_tier p)) \<le> tier_rank ''C''"
proof (cases "capability (pa_action p)")
  case None
  then show ?thesis by (simp add: assign_action_tier_def Let_def)
next
  case (Some e)
  show ?thesis
  proof (cases "is_informational (pa_action p) \<or> effective_floor (pa_action p) (pa_binding p) = None")
    case True
    with Some assms show ?thesis
      by (auto simp: assign_action_tier_def admitted_def Let_def)
  next
    case False
    then obtain fl where fl: "effective_floor (pa_action p) (pa_binding p) = Some fl" by blast
    with Some False assms obtain t i where "assign_action_tier p = planned (pa_action p) t i False None"
      and "tier_rank fl \<le> tier_rank t" and "tier_rank t \<le> 3"
      by (metis assign_not_granted)
    with Some False fl effective_floor_ge_registry [OF Some fl] show ?thesis
      by (simp add: admitted_def)
  qed
qed

theorem assign_action_tier_bounds_witness:
  "\<not> granted (example_args ''trip_relay'' ''C'')
   \<and> tier_rank (pl_dispatch_tier (assign_action_tier (example_args ''trip_relay'' ''C''))) = 3"
proof -
  let ?p = "example_args ''trip_relay'' ''C''"
  have ng: "\<not> granted ?p" by (simp add: granted_iff example_args_def)
  obtain e where e: "capability (pa_action ?p) = Some e" "cap_minimum_tier e = ''C''" "cap_physical e"
    by (rule commissioned_capability [of "pa_action ?p" OPEN_PROTECTED_CIRCUIT])
      (simp add: commissioned_outcome_Some_iff example_args_def)
  moreover have "\<not> is_informational (pa_action ?p)" using e by (simp add: is_informational_def)
  moreover have "effective_floor (pa_action ?p) (pa_binding ?p) = Some ''C''"
    using e by (simp add: effective_floor_def example_args_def example_binding_def
      consequence_for_def commissioned_outcome_def COMMISSIONED_OUTCOMES_def CONSEQUENCE_FLOOR_def)
  ultimately show ?thesis using assign_action_tier_bounds [OF ng] ng by simp
qed

text \<open>
  Two Tier D grants never fight over an actuator: the identities of two granted
  actions are never opposite acts on one resource, whatever triggers, skills and
  bindings they come from.
\<close>

theorem tier_d_grants_never_oppose:
  assumes "granted p" and "granted q"
    and "pl_identity (assign_action_tier p) = Some i"
    and "pl_identity (assign_action_tier q) = Some j"
  shows "\<not> opposes i j"
  using granted_identity_outcome [OF assms(1,3)] granted_identity_outcome [OF assms(2,4)]
  by (simp add: opposes_def)

theorem tier_d_grants_never_oppose_witness:
  "\<not> opposes (the (pl_identity (assign_action_tier (example_args ''trip_relay'' ''D''))))
              (the (pl_identity (assign_action_tier (example_args ''trip_relay'' ''d''))))"
proof -
  have up: "str_upper ''d'' = ''D''" by code_simp
  have g: "granted (example_args ''trip_relay'' t)" if "str_upper t = ''D''" for t
    using that by (simp add: granted_iff example_args_def example_binding_def
      consequence_for_def commissioned_outcome_def COMMISSIONED_OUTCOMES_def)
  have i: "\<exists>i. pl_identity (assign_action_tier (example_args ''trip_relay'' t)) = Some i"
    if "str_upper t = ''D''" for t
    using assign_granted [OF g [OF that]]
    by (simp add: resource_identity_of_def example_args_def commissioned_outcome_def
        COMMISSIONED_OUTCOMES_def is_informational_def capability_def ACTION_REGISTRY_def)
  from i [of "''D''"] i [of "''d''"] up obtain i j where
    "pl_identity (assign_action_tier (example_args ''trip_relay'' ''D'')) = Some i"
    "pl_identity (assign_action_tier (example_args ''trip_relay'' ''d'')) = Some j"
    by auto
  with tier_d_grants_never_oppose [OF g g this] up show ?thesis by simp
qed

text \<open>
  A trigger's cooldown is spent exactly when at least one of the actions it is
  charged on was attempted, joined an attempt or opened a proposal; the outcome of an
  act licensed at Tier D is never counted.
\<close>

theorem cooldown_spent_iff:
  "consumes_cooldown (cooldown_outcome t) \<longleftrightarrow>
     list_ex (\<lambda>a. \<not> pl_tier_d_granted a \<and> consumes_cooldown (pl_outcome a)) (tp_actions t)"
proof -
  have "consumes_cooldown (strongest_outcome os) \<longleftrightarrow> list_ex consumes_cooldown os" for os
    by (auto simp: strongest_outcome_def consumes_cooldown_def OUTCOME_ORDER_def
        CONSUMING_OUTCOMES_def list_ex_iff)
  then show ?thesis by (auto simp: cooldown_outcome_def list_ex_iff)
qed

end
