(* ===== verification/Trip_State.thy ===== *)
theory Trip_State
  imports Safety_Evaluation Dispatch_Plan
begin

text \<open>
  \<open>ori/safety/trip_state.py\<close>: the trip-state machine of one zone-profile pair, the
  grammar its durable journal is loaded under, and the deferred-startup gate. Durable
  inputs are Python values, since the point of the grammar is to refuse what the machine
  never wrote. Each method is a function from the machine to its new state and the
  returned \<open>Transition\<close>, or the exception raised; every method but \<open>startup\<close> raises
  before it writes, and a machine whose \<open>startup\<close> raised is discarded by its caller.
\<close>

datatype trip_phase = INACTIVE | ARMED | TRIPPED

datatype command_status = CS_none | CS_command_pending | CS_driver_refused | CS_command_issued

datatype record_state = Committed | RecordPending

datatype effect_state = E_unknown | E_matched | E_mismatched

datatype trip_error =
    DurableStateError | VerdictError | CommandSequenceError | JournalAttributeError

definition COMMAND_STATUSES :: "(string \<times> command_status) list" where
  "COMMAND_STATUSES =
     [(''none'', CS_none), (''command_pending'', CS_command_pending),
      (''driver_refused'', CS_driver_refused), (''command_issued'', CS_command_issued)]"

definition INTENT_FIELDS :: "string list" where
  "INTENT_FIELDS =
     [''zone_id'', ''profile_id'', ''attempt_id'', ''binding_seq'', ''outcome'',
      ''created_at_ms'', ''resolved'']"

datatype refusal =
    RefusedTripped | SafetyPathUnconfirmed | NoCredibleReading | NotTripped | ConditionActive
  | NoAuthority | NotOrphaned

datatype startup_command = SC_none | SC_de_energised | SC_deferred

datatype retry_answer = RetrySkipped | RetryAttempted

record transition =
  t_state :: trip_phase
  t_refusal :: "refusal option"
  t_outcome :: "string option"
  t_rejected :: "string option"
  t_startup_command :: "startup_command option"
  t_retry :: "retry_answer option"

definition plain :: "trip_phase \<Rightarrow> transition" where
  "plain s = \<lparr>t_state = s, t_refusal = None, t_outcome = None, t_rejected = None,
     t_startup_command = None, t_retry = None\<rparr>"

section \<open>The journal grammar\<close>

fun positive_int :: "pyval \<Rightarrow> bool" where
  "positive_int (PyInt i) = (i > 0)"
| "positive_int _ = False"

fun nonempty_str :: "pyval \<Rightarrow> bool" where
  "nonempty_str (PyStr s) = (s \<noteq> [])"
| "nonempty_str _ = False"

definition field :: "(string \<times> pyval) list \<Rightarrow> string \<Rightarrow> pyval" where
  "field d k = (case map_of d k of Some v \<Rightarrow> v | None \<Rightarrow> PyNone)"

definition intent_is_well_formed :: "pyval \<Rightarrow> string \<Rightarrow> string \<Rightarrow> bool" where
  "intent_is_well_formed v zone_id profile_id =
     (case v of
        PyDict d \<Rightarrow>
          set (map fst d) = set INTENT_FIELDS
          \<and> nonempty_str (field d ''zone_id'') \<and> nonempty_str (field d ''profile_id'')
          \<and> field d ''zone_id'' = PyStr zone_id \<and> field d ''profile_id'' = PyStr profile_id
          \<and> nonempty_str (field d ''attempt_id'')
          \<and> positive_int (field d ''binding_seq'') \<and> positive_int (field d ''created_at_ms'')
          \<and> field d ''outcome'' = PyStr OPEN_PROTECTED_CIRCUIT
          \<and> is_bool (field d ''resolved'')
      | _ \<Rightarrow> False)"

datatype governing = GCorrupt | GIntent "(string \<times> pyval) list"

record journal_scan =
  js_record_status :: "string option"
  js_unresolved :: "governing list"
  js_attempt_ids :: "pyval list"
  js_unjustified :: nat

definition scan_start :: journal_scan where
  "scan_start = \<lparr>js_record_status = None, js_unresolved = [], js_attempt_ids = [], js_unjustified = 0\<rparr>"

definition scan_record :: "pyval \<Rightarrow> journal_scan \<Rightarrow> trip_error + journal_scan" where
  "scan_record v s =
     (case v of
        PyDict d \<Rightarrow>
          (case field d ''command_status'' of
             PyStr st \<Rightarrow>
               if st \<notin> set (map fst COMMAND_STATUSES) \<or> st = ''none'' then Inl DurableStateError
               else Inr (s\<lparr>js_unresolved := [], js_unjustified := 0, js_record_status := Some st\<rparr>)
           | _ \<Rightarrow> Inl DurableStateError)
      | _ \<Rightarrow> Inl JournalAttributeError)"

definition scan_intent :: "string \<Rightarrow> string \<Rightarrow> pyval \<Rightarrow> journal_scan \<Rightarrow> trip_error + journal_scan" where
  "scan_intent zone_id profile_id v s =
     (if \<not> intent_is_well_formed v zone_id profile_id
      then Inr (s\<lparr>js_unresolved := js_unresolved s @ [GCorrupt]\<rparr>)
      else case v of
        PyDict d \<Rightarrow>
          (if field d ''attempt_id'' \<in> set (js_attempt_ids s) then Inl DurableStateError
           else let s' = s\<lparr>js_attempt_ids := field d ''attempt_id'' # js_attempt_ids s\<rparr>
                in if field d ''resolved'' = PyBool True
                   then Inr (s'\<lparr>js_unjustified := Suc (js_unjustified s')\<rparr>)
                   else Inr (s'\<lparr>js_unresolved := js_unresolved s' @ [GIntent d]\<rparr>))
      | _ \<Rightarrow> Inl DurableStateError)"

text \<open>One entry of the journal: a mapping with exactly one of the four keys.\<close>

definition scan_entry :: "string \<Rightarrow> string \<Rightarrow> pyval \<Rightarrow> journal_scan \<Rightarrow> trip_error + journal_scan" where
  "scan_entry zone_id profile_id entry s =
     (case entry of
        PyDict [(k, v)] \<Rightarrow>
          if k = ''corrupt'' then
            (if v = PyStr ''identifiable'' then Inr (s\<lparr>js_unresolved := js_unresolved s @ [GCorrupt]\<rparr>)
             else Inl DurableStateError)
          else if k = ''clear'' then
            Inr (s\<lparr>js_record_status := None, js_unresolved := [], js_unjustified := 0\<rparr>)
          else if k = ''record'' then scan_record v s
          else if k = ''intent'' then scan_intent zone_id profile_id v s
          else Inl DurableStateError
      | _ \<Rightarrow> Inl DurableStateError)"

definition load_journal ::
  "pyval list \<Rightarrow> string \<Rightarrow> string \<Rightarrow> trip_error + string option \<times> governing option" where
  "load_journal journal zone_id profile_id =
     bind_res (fold_res (scan_entry zone_id profile_id) journal scan_start) (\<lambda>s.
       if js_unjustified s > 0 then Inl DurableStateError
       else Inr (js_record_status s,
                 if js_unresolved s = [] then None else Some (last (js_unresolved s))))"

section \<open>The machine\<close>

record trip_machine =
  m_zone_id :: string
  m_profile_id :: string
  m_terminal_state :: string
  m_state :: trip_phase
  m_command_status :: command_status
  m_record_state :: record_state
  m_effect :: effect_state
  m_orphaned :: bool
  m_retired :: bool
  m_safety_path_confirmed :: bool
  m_credible_reading_seen :: bool
  m_condition_active :: bool
  m_retry_cancelled :: bool
  m_driver_attempt_in_flight :: bool

definition new_machine :: "string \<Rightarrow> string \<Rightarrow> string \<Rightarrow> trip_error + trip_machine" where
  "new_machine zone_id profile_id terminal_state =
     (if terminal_state \<notin> {''open'', ''closed''} then Inl DurableStateError
      else Inr \<lparr>m_zone_id = zone_id, m_profile_id = profile_id, m_terminal_state = terminal_state,
        m_state = INACTIVE, m_command_status = CS_none, m_record_state = Committed,
        m_effect = E_unknown, m_orphaned = False, m_retired = False,
        m_safety_path_confirmed = False, m_credible_reading_seen = False,
        m_condition_active = False, m_retry_cancelled = False,
        m_driver_attempt_in_flight = False\<rparr>)"

definition forget_start_facts :: "trip_machine \<Rightarrow> trip_machine" where
  "forget_start_facts m = m\<lparr>m_safety_path_confirmed := False, m_credible_reading_seen := False,
     m_condition_active := False, m_retry_cancelled := False, m_driver_attempt_in_flight := False,
     m_effect := E_unknown\<rparr>"

text \<open>
  The status of the pre-journal durable source: \<open>legacy\<close> when absent or empty. It is
  consulted only for a tripped durable state with an empty journal.
\<close>

definition durable_record_status ::
  "string option \<Rightarrow> pyval list \<Rightarrow> string option \<Rightarrow> string option \<Rightarrow> trip_error + string option" where
  "durable_record_status durable_state journal durable_command_status record_status =
     (if durable_state = Some ''tripped'' \<and> journal = [] then
        (let st = (case durable_command_status of Some (c # cs) \<Rightarrow> c # cs | _ \<Rightarrow> ''legacy'')
         in if st \<notin> set (map fst COMMAND_STATUSES) \<and> st \<noteq> ''legacy'' then Inl DurableStateError
            else Inr (Some st))
      else Inr record_status)"

definition status_of :: "string \<Rightarrow> command_status" where
  "status_of st = (case map_of COMMAND_STATUSES st of Some c \<Rightarrow> c | None \<Rightarrow> CS_command_pending)"

definition m_startup ::
  "trip_machine \<Rightarrow> string option \<Rightarrow> pyval list \<Rightarrow> string option \<Rightarrow> int
     \<Rightarrow> trip_error + trip_machine \<times> transition" where
  "m_startup m0 durable_state journal durable_command_status binding_seq_in_force =
     (if durable_state \<notin> {None, Some ''inactive'', Some ''armed'', Some ''tripped''}
      then Inl DurableStateError
      else let m = forget_start_facts m0 in
        bind_res (load_journal journal (m_zone_id m) (m_profile_id m)) (\<lambda>(record_status0, gov).
        bind_res (durable_record_status durable_state journal durable_command_status record_status0)
          (\<lambda>record_status.
          case gov of
            Some g \<Rightarrow>
              (let m' = m\<lparr>m_state := TRIPPED, m_command_status := CS_command_pending,
                 m_orphaned := (case g of GCorrupt \<Rightarrow> False
                   | GIntent d \<Rightarrow> field d ''binding_seq'' \<noteq> PyInt binding_seq_in_force)\<rparr>
               in Inr (m', (plain TRIPPED)\<lparr>t_startup_command := Some SC_none\<rparr>))
          | None \<Rightarrow>
              (case record_status of
                 Some st \<Rightarrow>
                   if durable_state \<noteq> Some ''tripped'' then Inl DurableStateError
                   else Inr (m\<lparr>m_state := TRIPPED,
                       m_command_status := (if st = ''legacy'' then CS_command_pending else status_of st)\<rparr>,
                     (plain TRIPPED)\<lparr>t_startup_command := Some SC_none\<rparr>)
               | None \<Rightarrow>
                   if durable_state = Some ''tripped'' then Inl DurableStateError
                   else Inr (m\<lparr>m_state := INACTIVE, m_command_status := CS_none\<rparr>,
                     (plain INACTIVE)\<lparr>t_startup_command :=
                        Some (if m_terminal_state m = ''open'' then SC_de_energised else SC_deferred)\<rparr>)))))"

definition confirm_safety_path :: "trip_machine \<Rightarrow> trip_machine \<times> transition" where
  "confirm_safety_path m = (m\<lparr>m_safety_path_confirmed := True\<rparr>, plain (m_state m))"

definition observe :: "trip_machine \<Rightarrow> evaluation_verdict \<Rightarrow> trip_error + trip_machine \<times> transition" where
  "observe m v =
     (if ev_verdict v = REJECTED_INPUT then
        (case ev_reason v of
           Some r \<Rightarrow> if r \<in> set REASON_ORDER then Inr (m, (plain (m_state m))\<lparr>t_rejected := Some r\<rparr>)
                    else Inl VerdictError
         | None \<Rightarrow> Inl VerdictError)
      else if ev_verdict v \<notin> {TRIP, NO_TRIP} \<or> ev_reason v \<noteq> None then Inl VerdictError
      else let m1 = m\<lparr>m_credible_reading_seen := True, m_condition_active := (ev_verdict v = TRIP)\<rparr>
           in if ev_verdict v = TRIP \<and> m_state m1 \<noteq> TRIPPED
              then Inr (m1\<lparr>m_state := TRIPPED, m_retry_cancelled := False,
                          m_command_status := CS_command_pending\<rparr>,
                        (plain TRIPPED)\<lparr>t_outcome := Some OPEN_PROTECTED_CIRCUIT\<rparr>)
              else Inr (m1, plain (m_state m1)))"

definition command_open :: "trip_machine \<Rightarrow> bool" where
  "command_open m = (m_state m = TRIPPED \<and> m_command_status m \<in> {CS_command_pending, CS_driver_refused})"

definition begin_driver_attempt :: "trip_machine \<Rightarrow> trip_error + trip_machine \<times> transition" where
  "begin_driver_attempt m =
     (if \<not> command_open m then Inl CommandSequenceError
      else if m_driver_attempt_in_flight m then Inl CommandSequenceError
      else Inr (m\<lparr>m_driver_attempt_in_flight := True\<rparr>, plain (m_state m)))"

definition release_driver_attempt :: "trip_machine \<Rightarrow> trip_error + trip_machine \<times> transition" where
  "release_driver_attempt m =
     (if \<not> m_driver_attempt_in_flight m then Inl CommandSequenceError
      else Inr (m\<lparr>m_driver_attempt_in_flight := False\<rparr>, plain (m_state m)))"

definition record_driver_result :: "trip_machine \<Rightarrow> bool \<Rightarrow> trip_error + trip_machine \<times> transition" where
  "record_driver_result m accepted =
     (if \<not> command_open m then Inl CommandSequenceError
      else if \<not> m_driver_attempt_in_flight m then Inl CommandSequenceError
      else Inr (m\<lparr>m_driver_attempt_in_flight := False,
                 m_command_status := (if accepted then CS_command_issued else CS_driver_refused)\<rparr>,
               plain (m_state m)))"

definition outcome_retry :: "trip_machine \<Rightarrow> trip_machine \<times> transition" where
  "outcome_retry m =
     (m, (plain (m_state m))\<lparr>t_retry := Some
        (if m_state m \<noteq> TRIPPED \<or> m_retry_cancelled m \<or> m_orphaned m \<or> m_driver_attempt_in_flight m
            \<or> m_command_status m = CS_command_issued
         then RetrySkipped else RetryAttempted)\<rparr>)"

definition record_retry :: "trip_machine \<Rightarrow> bool \<Rightarrow> trip_machine \<times> transition" where
  "record_retry m committed =
     (if m_record_state m = RecordPending \<and> committed then m\<lparr>m_record_state := Committed\<rparr> else m,
      plain (m_state m))"

definition record_write_failed :: "trip_machine \<Rightarrow> trip_machine" where
  "record_write_failed m = m\<lparr>m_record_state := RecordPending\<rparr>"

definition effect_report :: "trip_machine \<Rightarrow> string \<Rightarrow> trip_error + trip_machine \<times> transition" where
  "effect_report m result =
     (if result = ''matched'' then Inr (m\<lparr>m_effect := E_matched\<rparr>, plain (m_state m))
      else if result = ''mismatched'' then Inr (m\<lparr>m_effect := E_mismatched\<rparr>, plain (m_state m))
      else Inl VerdictError)"

definition arm :: "trip_machine \<Rightarrow> trip_machine \<times> transition" where
  "arm m =
     (if m_state m = TRIPPED then (m, (plain TRIPPED)\<lparr>t_refusal := Some RefusedTripped\<rparr>)
      else if \<not> m_safety_path_confirmed m
        then (m, (plain (m_state m))\<lparr>t_refusal := Some SafetyPathUnconfirmed\<rparr>)
      else if \<not> m_credible_reading_seen m
        then (m, (plain (m_state m))\<lparr>t_refusal := Some NoCredibleReading\<rparr>)
      else (m\<lparr>m_state := ARMED\<rparr>, (plain ARMED)\<lparr>t_outcome := Some CLOSE_PROTECTED_CIRCUIT\<rparr>))"

definition m_reset :: "trip_machine \<Rightarrow> trip_machine \<times> transition" where
  "m_reset m =
     (if m_state m \<noteq> TRIPPED then (m, (plain (m_state m))\<lparr>t_refusal := Some NotTripped\<rparr>)
      else if \<not> m_credible_reading_seen m
        then (m, (plain (m_state m))\<lparr>t_refusal := Some NoCredibleReading\<rparr>)
      else if m_condition_active m
        then (m, (plain (m_state m))\<lparr>t_refusal := Some ConditionActive\<rparr>)
      else (m\<lparr>m_state := ARMED, m_retry_cancelled := True\<rparr>,
            (plain ARMED)\<lparr>t_outcome := Some CLOSE_PROTECTED_CIRCUIT\<rparr>))"

definition external :: "trip_machine \<Rightarrow> string \<Rightarrow> trip_machine \<times> transition" where
  "external m source = (m, (plain (m_state m))\<lparr>t_refusal := Some NoAuthority\<rparr>)"

definition binding_removed :: "trip_machine \<Rightarrow> trip_machine \<times> transition" where
  "binding_removed m = (m\<lparr>m_orphaned := True\<rparr>, plain (m_state m))"

definition retire_orphan :: "trip_machine \<Rightarrow> trip_machine \<times> transition" where
  "retire_orphan m =
     (if \<not> m_orphaned m then (m, (plain (m_state m))\<lparr>t_refusal := Some NotOrphaned\<rparr>)
      else (m\<lparr>m_retired := True\<rparr>, plain (m_state m)))"

section \<open>The deferred-startup gate\<close>

record startup_gate =
  g_pending :: bool

definition new_gate :: "bool \<Rightarrow> startup_gate" where
  "new_gate deferred = \<lparr>g_pending = deferred\<rparr>"

definition note_trip :: "startup_gate \<Rightarrow> startup_gate" where
  "note_trip g = g\<lparr>g_pending := False\<rparr>"

text \<open>The command \<open>de_energised\<close> is returned as \<open>True\<close>.\<close>

definition note_credible_reading :: "startup_gate \<Rightarrow> bool \<Rightarrow> startup_gate \<times> bool" where
  "note_credible_reading g any_pair_tripped =
     (if \<not> g_pending g \<or> any_pair_tripped
      then (if any_pair_tripped then g\<lparr>g_pending := False\<rparr> else g, False)
      else (g\<lparr>g_pending := False\<rparr>, True))"

section \<open>Calls on the machine\<close>

datatype trip_op =
    OpStartup "string option" "pyval list" "string option" int
  | OpConfirmSafetyPath | OpObserve evaluation_verdict
  | OpBegin | OpRelease | OpDriverResult bool | OpOutcomeRetry
  | OpRecordRetry bool | OpRecordFailed | OpEffect string
  | OpArm | OpReset | OpExternal string | OpBindingRemoved | OpRetireOrphan

fun trip_call :: "trip_machine \<Rightarrow> trip_op \<Rightarrow> trip_error + trip_machine \<times> transition" where
  "trip_call m (OpStartup ds j dcs b) = m_startup m ds j dcs b"
| "trip_call m OpConfirmSafetyPath = Inr (confirm_safety_path m)"
| "trip_call m (OpObserve v) = observe m v"
| "trip_call m OpBegin = begin_driver_attempt m"
| "trip_call m OpRelease = release_driver_attempt m"
| "trip_call m (OpDriverResult b) = record_driver_result m b"
| "trip_call m OpOutcomeRetry = Inr (outcome_retry m)"
| "trip_call m (OpRecordRetry b) = Inr (record_retry m b)"
| "trip_call m OpRecordFailed = Inr (record_write_failed m, plain (m_state m))"
| "trip_call m (OpEffect r) = effect_report m r"
| "trip_call m OpArm = Inr (arm m)"
| "trip_call m OpReset = Inr (m_reset m)"
| "trip_call m (OpExternal s) = Inr (external m s)"
| "trip_call m OpBindingRemoved = Inr (binding_removed m)"
| "trip_call m OpRetireOrphan = Inr (retire_orphan m)"

section \<open>What the journal grammar means\<close>

text \<open>
  A journal entry as the machine understands it: an intent with its attempt, its content
  and whether it is marked resolved, a malformed but identifiable entry, a full record
  with its status, or a clear. Anything else is unreadable.
\<close>

datatype jentry =
    JIntent pyval "(string \<times> pyval) list" bool | JMalformed | JRecord string | JClear

definition decode_entry :: "string \<Rightarrow> string \<Rightarrow> pyval \<Rightarrow> jentry option" where
  "decode_entry zone_id profile_id e =
     (case e of
        PyDict [(k, v)] \<Rightarrow>
          if k = ''corrupt'' then (if v = PyStr ''identifiable'' then Some JMalformed else None)
          else if k = ''clear'' then Some JClear
          else if k = ''record'' then
            (case v of PyDict d \<Rightarrow>
               (case field d ''command_status'' of PyStr st \<Rightarrow>
                  if st \<in> {''command_pending'', ''driver_refused'', ''command_issued''}
                  then Some (JRecord st) else None
                | _ \<Rightarrow> None)
             | _ \<Rightarrow> None)
          else if k = ''intent'' then
            (if intent_is_well_formed v zone_id profile_id then
               (case v of PyDict d \<Rightarrow>
                  Some (JIntent (field d ''attempt_id'') d (field d ''resolved'' = PyBool True))
                | _ \<Rightarrow> None)
             else Some JMalformed)
          else None
      | _ \<Rightarrow> None)"

fun is_mark :: "jentry \<Rightarrow> bool" where
  "is_mark (JRecord _) = True"
| "is_mark JClear = True"
| "is_mark _ = False"

text \<open>What follows the last record or clear, and the record that survives.\<close>

definition open_tail :: "jentry list \<Rightarrow> jentry list" where
  "open_tail es = rev (takeWhile (\<lambda>e. \<not> is_mark e) (rev es))"

definition surviving_record :: "jentry list \<Rightarrow> string option" where
  "surviving_record es =
     (case dropWhile (\<lambda>e. \<not> is_mark e) (rev es) of JRecord st # _ \<Rightarrow> Some st | _ \<Rightarrow> None)"

fun attempts :: "jentry list \<Rightarrow> pyval list" where
  "attempts [] = []"
| "attempts (JIntent a _ _ # es) = a # attempts es"
| "attempts (_ # es) = attempts es"

fun unresolved :: "jentry list \<Rightarrow> governing list" where
  "unresolved [] = []"
| "unresolved (JIntent _ d False # es) = GIntent d # unresolved es"
| "unresolved (JMalformed # es) = GCorrupt # unresolved es"
| "unresolved (_ # es) = unresolved es"

fun resolved_intent :: "jentry \<Rightarrow> bool" where
  "resolved_intent (JIntent _ _ r) = r"
| "resolved_intent _ = False"

definition governing_of :: "jentry list \<Rightarrow> governing option" where
  "governing_of es = (if unresolved es = [] then None else Some (last (unresolved es)))"

definition scan_of :: "jentry list \<Rightarrow> journal_scan" where
  "scan_of es =
     \<lparr>js_record_status = surviving_record es, js_unresolved = unresolved (open_tail es),
      js_attempt_ids = rev (attempts es),
      js_unjustified = length (filter resolved_intent (open_tail es))\<rparr>"

section \<open>The machine's invariant\<close>

text \<open>
  A driver attempt in flight always answers an open command, and a machine is armed only
  after a credible reading of this start.
\<close>

definition trip_inv :: "trip_machine \<Rightarrow> bool" where
  "trip_inv m =
     ((m_driver_attempt_in_flight m \<longrightarrow> m_command_status m \<in> {CS_command_pending, CS_driver_refused})
      \<and> (m_state m = ARMED \<longrightarrow> m_credible_reading_seen m))"

definition leaves_latch :: "trip_op \<Rightarrow> bool" where
  "leaves_latch x = (case x of OpReset \<Rightarrow> True | OpStartup _ _ _ _ \<Rightarrow> True | _ \<Rightarrow> False)"

definition is_startup_op :: "trip_op \<Rightarrow> bool" where
  "is_startup_op x = (case x of OpStartup _ _ _ _ \<Rightarrow> True | _ \<Rightarrow> False)"

definition command_settled :: "trip_machine \<Rightarrow> bool" where
  "command_settled m = (m_state m = TRIPPED \<and> m_command_status m = CS_command_issued)"

text \<open>The credible verdicts a sequence of calls reports, in order.\<close>

fun credible_verdicts :: "trip_op list \<Rightarrow> string list" where
  "credible_verdicts [] = []"
| "credible_verdicts (OpObserve v # xs) =
     (if ev_verdict v \<in> {TRIP, NO_TRIP} \<and> ev_reason v = None
      then ev_verdict v # credible_verdicts xs else credible_verdicts xs)"
| "credible_verdicts (_ # xs) = credible_verdicts xs"

section \<open>Example inputs\<close>

definition example_machine :: trip_machine where
  "example_machine = \<lparr>m_zone_id = ''z1'', m_profile_id = ''p'', m_terminal_state = ''open'',
     m_state = INACTIVE, m_command_status = CS_none, m_record_state = Committed,
     m_effect = E_unknown, m_orphaned = False, m_retired = False, m_safety_path_confirmed = False,
     m_credible_reading_seen = False, m_condition_active = False, m_retry_cancelled = False,
     m_driver_attempt_in_flight = False\<rparr>"

definition saw :: "string \<Rightarrow> trip_op" where
  "saw v = OpObserve \<lparr>ev_verdict = v, ev_reason = None\<rparr>"

section \<open>Lemmas\<close>

subsection \<open>The journal\<close>

lemma open_tail_snoc: "open_tail (es @ [e]) = (if is_mark e then [] else open_tail es @ [e])"
  by (simp add: open_tail_def)

lemma surviving_record_snoc:
  "surviving_record (es @ [e]) =
     (case e of JRecord st \<Rightarrow> Some st | JClear \<Rightarrow> None | _ \<Rightarrow> surviving_record es)"
  by (cases e) (simp_all add: surviving_record_def)

lemma attempts_append [simp]: "attempts (xs @ ys) = attempts xs @ attempts ys"
  by (induction xs rule: attempts.induct) simp_all

lemma unresolved_append [simp]: "unresolved (xs @ ys) = unresolved xs @ unresolved ys"
  by (induction xs rule: unresolved.induct) simp_all

lemma well_formed_intent_dict:
  "intent_is_well_formed v z p \<Longrightarrow> \<exists>d. v = PyDict d \<and> is_bool (field d ''resolved'')"
  by (auto simp: intent_is_well_formed_def split: pyval.splits)

lemma status_vocabulary:
  "st \<in> set (map fst COMMAND_STATUSES) \<and> st \<noteq> ''none'' \<longleftrightarrow>
     st \<in> {''command_pending'', ''driver_refused'', ''command_issued''}"
  by (auto simp: COMMAND_STATUSES_def)

text \<open>One entry of the scan, against its meaning.\<close>

lemma scan_entry_decode:
  "scan_entry z p e (scan_of es) =
     (case decode_entry z p e of
        None \<Rightarrow> scan_entry z p e (scan_of es)
      | Some (JIntent a d r) \<Rightarrow>
          if a \<in> set (attempts es) then Inl DurableStateError else Inr (scan_of (es @ [JIntent a d r]))
      | Some x \<Rightarrow> Inr (scan_of (es @ [x])))"
proof (cases "decode_entry z p e")
  case None
  then show ?thesis by simp
next
  case (Some x)
  then obtain k v where e: "e = PyDict [(k, v)]"
    by (auto simp: decode_entry_def split: pyval.splits list.splits prod.splits if_splits)
  consider "k = ''corrupt''" | "k = ''clear''" | "k = ''record''" | "k = ''intent''"
    using Some e by (auto simp: decode_entry_def split: if_splits)
  then show ?thesis
  proof cases
    case 1
    with Some e show ?thesis
      by (auto simp: decode_entry_def scan_entry_def scan_of_def open_tail_snoc surviving_record_snoc
          split: if_splits)
  next
    case 2
    with Some e show ?thesis
      by (auto simp: decode_entry_def scan_entry_def scan_of_def open_tail_snoc surviving_record_snoc)
  next
    case 3
    with Some e show ?thesis
      by (auto simp: decode_entry_def scan_entry_def scan_record_def scan_of_def open_tail_snoc
          surviving_record_snoc COMMAND_STATUSES_def split: pyval.splits if_splits)
  next
    case 4
    with Some e show ?thesis
      by (auto simp: decode_entry_def scan_entry_def scan_intent_def scan_of_def open_tail_snoc
          surviving_record_snoc is_bool_def Let_def dest: well_formed_intent_dict
          split: pyval.splits if_splits)
  qed
qed

lemma scan_entry_undecodable:
  assumes "decode_entry z p e = None"
  shows "\<exists>err. scan_entry z p e s = Inl err"
proof (cases "\<exists>k v. e = PyDict [(k, v)]")
  case True
  then obtain k v where e: "e = PyDict [(k, v)]" by blast
  consider "k = ''corrupt''" | "k = ''clear''" | "k = ''record''" | "k = ''intent''"
    | "k \<notin> {''corrupt'', ''clear'', ''record'', ''intent''}" by blast
  then show ?thesis
  proof cases
    case 3
    with assms e show ?thesis
      by (auto simp: decode_entry_def scan_entry_def scan_record_def COMMAND_STATUSES_def
          split: pyval.splits if_splits)
  next
    case 4
    with assms e show ?thesis
      by (auto simp: decode_entry_def scan_entry_def intent_is_well_formed_def
          split: pyval.splits if_splits)
  qed (use assms e in \<open>auto simp: decode_entry_def scan_entry_def split: if_splits\<close>)
next
  case False
  then have "scan_entry z p e s = Inl DurableStateError"
    by (auto simp: scan_entry_def split: pyval.splits list.splits)
  then show ?thesis by blast
qed

lemma scan_journal_iff:
  "fold_res (scan_entry z p) j scan_start = Inr s \<longleftrightarrow>
     (\<exists>es. map (decode_entry z p) j = map Some es \<and> distinct (attempts es) \<and> s = scan_of es)"
proof (induction j arbitrary: s rule: rev_induct)
  case Nil
  then show ?case by (auto simp: scan_start_def scan_of_def open_tail_def surviving_record_def)
next
  case (snoc e j)
  have "fold_res (scan_entry z p) (j @ [e]) scan_start = Inr s \<longleftrightarrow>
      (\<exists>es. map (decode_entry z p) j = map Some es \<and> distinct (attempts es)
          \<and> scan_entry z p e (scan_of es) = Inr s)"
    by (auto simp: fold_res_snoc_Inr snoc.IH)
  also have "\<dots> \<longleftrightarrow> (\<exists>es x. map (decode_entry z p) j = map Some es \<and> distinct (attempts es)
          \<and> decode_entry z p e = Some x \<and> distinct (attempts (es @ [x])) \<and> s = scan_of (es @ [x]))"
  proof -
    have "distinct (attempts es) \<and> scan_entry z p e (scan_of es) = Inr s \<longleftrightarrow>
        distinct (attempts es) \<and> (\<exists>x. decode_entry z p e = Some x \<and> distinct (attempts (es @ [x]))
           \<and> s = scan_of (es @ [x]))" for es
    proof (cases "decode_entry z p e")
      case None
      then show ?thesis using scan_entry_undecodable [OF None, of "scan_of es"] by auto
    next
      case (Some x)
      then show ?thesis using scan_entry_decode [of z p e es] by (cases x) auto
    qed
    then show ?thesis by blast
  qed
  also have "\<dots> \<longleftrightarrow> (\<exists>es. map (decode_entry z p) (j @ [e]) = map Some es
          \<and> distinct (attempts es) \<and> s = scan_of es)" (is "?l \<longleftrightarrow> ?r")
  proof
    assume ?l
    then obtain es x where "map (decode_entry z p) (j @ [e]) = map Some (es @ [x])"
        "distinct (attempts (es @ [x]))" "s = scan_of (es @ [x])" by auto
    then show ?r by blast
  next
    assume ?r
    then obtain es where es: "map (decode_entry z p) (j @ [e]) = map Some es"
        "distinct (attempts es)" "s = scan_of es" by blast
    then obtain us x where "es = us @ [x]" by (cases es rule: rev_cases) auto
    with es show ?l by auto
  qed
  finally show ?case .
qed

lemma load_journal_iff:
  "load_journal j z p = Inr (rs, g) \<longleftrightarrow>
     (\<exists>es. map (decode_entry z p) j = map Some es \<and> distinct (attempts es)
        \<and> \<not> list_ex resolved_intent (open_tail es)
        \<and> rs = surviving_record es \<and> g = governing_of (open_tail es))"
proof -
  have "load_journal j z p = Inr (rs, g) \<longleftrightarrow>
      (\<exists>s. fold_res (scan_entry z p) j scan_start = Inr s \<and> js_unjustified s = 0
         \<and> rs = js_record_status s
         \<and> g = (if js_unresolved s = [] then None else Some (last (js_unresolved s))))"
    by (auto simp: load_journal_def bind_res_Inr_iff split: if_splits)
  then show ?thesis
    by (auto simp: scan_journal_iff scan_of_def governing_of_def filter_empty_conv list_ex_iff)
qed

subsection \<open>The machine\<close>

lemma plain_sel [simp]:
  "t_state (plain s) = s" "t_refusal (plain s) = None" "t_outcome (plain s) = None"
  "t_rejected (plain s) = None" "t_startup_command (plain s) = None" "t_retry (plain s) = None"
  by (simp_all add: plain_def)

lemmas trip_op_defs [step_defs] =
  confirm_safety_path_def observe_def begin_driver_attempt_def release_driver_attempt_def
  record_driver_result_def outcome_retry_def record_retry_def record_write_failed_def
  effect_report_def arm_def m_reset_def external_def binding_removed_def retire_orphan_def
  command_open_def Let_def

lemma new_machine_inv: "new_machine z p t = Inr m \<Longrightarrow> trip_inv m"
  by (auto simp: new_machine_def trip_inv_def split: if_splits)

lemma m_startup_cases:
  assumes "m_startup m ds j dcs b = Inr (m', t)"
  obtains rs0 g where "load_journal j (m_zone_id m) (m_profile_id m) = Inr (rs0, Some g)"
      "m' = (forget_start_facts m)\<lparr>m_state := TRIPPED, m_command_status := CS_command_pending,
         m_orphaned := (case g of GCorrupt \<Rightarrow> False | GIntent d \<Rightarrow> field d ''binding_seq'' \<noteq> PyInt b)\<rparr>"
      "t_startup_command t = Some SC_none" "t_state t = TRIPPED"
    | rs0 st where "load_journal j (m_zone_id m) (m_profile_id m) = Inr (rs0, None)"
      "durable_record_status ds j dcs rs0 = Inr (Some st)" "ds = Some ''tripped''"
      "m' = (forget_start_facts m)\<lparr>m_state := TRIPPED,
         m_command_status := (if st = ''legacy'' then CS_command_pending else status_of st)\<rparr>"
      "t_startup_command t = Some SC_none" "t_state t = TRIPPED"
    | rs0 where "load_journal j (m_zone_id m) (m_profile_id m) = Inr (rs0, None)"
      "durable_record_status ds j dcs rs0 = Inr None" "ds \<noteq> Some ''tripped''"
      "m' = (forget_start_facts m)\<lparr>m_state := INACTIVE, m_command_status := CS_none\<rparr>"
      "t_startup_command t = Some (if m_terminal_state m = ''open'' then SC_de_energised else SC_deferred)"
      "t_state t = INACTIVE"
proof -
  from assms obtain rs0 g rs where
      l: "load_journal j (m_zone_id m) (m_profile_id m) = Inr (rs0, g)"
      and d: "durable_record_status ds j dcs rs0 = Inr rs"
    by (auto simp: m_startup_def Let_def forget_start_facts_def bind_res_Inr_iff split: if_splits)
  show thesis
  proof (cases g)
    case (Some gov)
    with assms l d show thesis
      by (intro that(1) [of rs0 gov])
        (auto simp: m_startup_def Let_def forget_start_facts_def split: if_splits governing.splits)
  next
    case None
    show thesis
    proof (cases rs)
      case (Some st)
      with assms l d None show thesis
        by (intro that(2) [of rs0 st])
          (auto simp: m_startup_def Let_def forget_start_facts_def split: if_splits)
    next
      case rs_None: None
      with assms l d None show thesis
        by (intro that(3) [of rs0])
          (auto simp: m_startup_def Let_def forget_start_facts_def split: if_splits)
    qed
  qed
qed

lemma m_startup_facts:
  assumes "m_startup m ds j dcs b = Inr (m', t)"
  shows "\<not> m_driver_attempt_in_flight m'" and "\<not> m_credible_reading_seen m'"
    and "\<not> m_condition_active m'" and "\<not> m_safety_path_confirmed m'" and "m_state m' \<noteq> ARMED"
    and "m_zone_id m' = m_zone_id m" and "m_profile_id m' = m_profile_id m"
    and "m_state m' = t_state t"
  by (use assms in \<open>cases rule: m_startup_cases; simp add: forget_start_facts_def\<close>)+

lemma trip_inv_call:
  assumes "trip_inv m" and "trip_call m x = Inr (m', t)"
  shows "trip_inv m'"
proof (cases x)
  case (OpStartup ds j dcs b)
  with assms have "m_startup m ds j dcs b = Inr (m', t)" by simp
  from m_startup_facts [OF this] show ?thesis by (simp add: trip_inv_def)
qed (use assms in \<open>auto simp: trip_inv_def step_defs split: if_splits option.splits\<close>)

lemma tripped_call:
  assumes "m_state m = TRIPPED" and "\<not> leaves_latch x" and "trip_call m x = Inr (m', t)"
  shows "m_state m' = TRIPPED"
  using assms by (cases x) (auto simp: leaves_latch_def step_defs split: if_splits option.splits)

lemma settled_call:
  assumes "trip_inv m" and "command_settled m" and "\<not> leaves_latch x" and "trip_call m x = Inr (m', t)"
  shows "command_settled m'"
  using assms
  by (cases x) (auto simp: leaves_latch_def command_settled_def step_defs split: if_splits option.splits)

text \<open>The machine as a latching object, once for the latch and once for an accepted command.\<close>

interpretation trip: latching_object trip_call trip_inv "\<lambda>_ _. True" "\<lambda>m. m_state m = TRIPPED" leaves_latch
  by unfold_locales (auto intro: trip_inv_call tripped_call)

interpretation issued: latching_object trip_call trip_inv "\<lambda>_ _. True" command_settled leaves_latch
  by unfold_locales (auto intro: trip_inv_call settled_call)

lemma credible_after:
  assumes "\<not> list_ex is_startup_op xs"
  shows "m_credible_reading_seen (run_ops trip_call m xs)
           = (m_credible_reading_seen m \<or> credible_verdicts xs \<noteq> [])
    \<and> m_condition_active (run_ops trip_call m xs)
           = (if credible_verdicts xs = [] then m_condition_active m else last (credible_verdicts xs) = TRIP)"
  using assms
proof (induction xs arbitrary: m)
  case Nil
  then show ?case by simp
next
  case (Cons x xs)
  let ?m = "case trip_call m x of Inl _ \<Rightarrow> m | Inr (m', _) \<Rightarrow> m'"
  have step: "m_credible_reading_seen ?m = (m_credible_reading_seen m \<or> credible_verdicts [x] \<noteq> [])
    \<and> m_condition_active ?m = (if credible_verdicts [x] = [] then m_condition_active m
        else last (credible_verdicts [x]) = TRIP)"
    using Cons.prems
    by (cases x) (auto simp: is_startup_op_def step_defs split: if_splits option.splits)
  have "credible_verdicts (x # xs) = credible_verdicts [x] @ credible_verdicts xs"
    by (cases x) auto
  with step Cons.IH [of ?m] Cons.prems show ?case by auto
qed

lemma confirmed_after:
  assumes "\<not> list_ex is_startup_op xs"
  shows "m_safety_path_confirmed (run_ops trip_call m xs)
    = (m_safety_path_confirmed m \<or> OpConfirmSafetyPath \<in> set xs)"
  using assms
proof (induction xs arbitrary: m)
  case Nil
  then show ?case by simp
next
  case (Cons x xs)
  let ?m = "case trip_call m x of Inl _ \<Rightarrow> m | Inr (m', _) \<Rightarrow> m'"
  have "m_safety_path_confirmed ?m = (m_safety_path_confirmed m \<or> x = OpConfirmSafetyPath)"
    using Cons.prems
    by (cases x) (auto simp: is_startup_op_def step_defs split: if_splits option.splits)
  with Cons.IH [of ?m] Cons.prems show ?case by auto
qed

lemma credible_verdicts_range: "v \<in> set (credible_verdicts xs) \<Longrightarrow> v = TRIP \<or> v = NO_TRIP"
  by (induction xs rule: credible_verdicts.induct) (auto split: if_splits)

lemma close_outcome_call:
  assumes "trip_call m x = Inr (m', t)" and "t_outcome t = Some CLOSE_PROTECTED_CIRCUIT"
  shows "x = OpArm \<and> m_state m \<noteq> TRIPPED \<and> m_safety_path_confirmed m \<and> m_credible_reading_seen m
    \<or> x = OpReset \<and> m_state m = TRIPPED \<and> m_credible_reading_seen m \<and> \<not> m_condition_active m"
proof (cases x)
  case (OpStartup ds j dcs b)
  with assms have "m_startup m ds j dcs b = Inr (m', t)" by simp
  then have "t_outcome t = None"
    by (auto simp: m_startup_def Let_def bind_res_Inr_iff split: if_splits option.splits)
  with assms show ?thesis by simp
qed (use assms in \<open>auto simp: step_defs split: if_splits option.splits\<close>)

lemma example_startup:
  "m_startup example_machine None [] None 1 =
     Inr (example_machine, (plain INACTIVE)\<lparr>t_startup_command := Some SC_de_energised\<rparr>)"
  by (simp add: m_startup_def Let_def load_journal_def scan_start_def durable_record_status_def
      forget_start_facts_def example_machine_def)

section \<open>Properties\<close>

text \<open>
  The journal is loaded under exactly its grammar: it loads when every entry is
  readable, no attempt id of a well-formed intent repeats, and no intent after the last
  record or clear is marked resolved; what it yields is the record that survives (a clear
  erases it) and, as the governing intent, the last unresolved or malformed intent
  appended after the last record or clear. Everything else is refused.
\<close>

theorem load_journal_exact:
  "load_journal j z p = Inr (rs, g) \<longleftrightarrow>
     (\<exists>es. map (decode_entry z p) j = map Some es \<and> distinct (attempts es)
        \<and> \<not> list_ex resolved_intent (open_tail es)
        \<and> rs = surviving_record es \<and> g = governing_of (open_tail es))"
  by (rule load_journal_iff)

text \<open>
  C15. A trip latches: from a tripped machine no sequence of calls, however long, other
  than a local reset or a restart moves it out of the tripped state; and when the command
  was accepted it is never issued again in that time: no driver attempt can begin and the
  retry loop is always told to skip.
\<close>

theorem trip_latches:
  assumes "trip_inv m" and "m_state m = TRIPPED" and "list_all (\<lambda>x. \<not> leaves_latch x) xs"
  shows "m_state (run_ops trip_call m xs) = TRIPPED
    \<and> (m_command_status m = CS_command_issued \<longrightarrow>
        begin_driver_attempt (run_ops trip_call m xs) = Inl CommandSequenceError
        \<and> t_retry (snd (outcome_retry (run_ops trip_call m xs))) = Some RetrySkipped)"
proof -
  have "m_state (run_ops trip_call m xs) = TRIPPED"
    using trip.latched_run [OF assms(1,2) runs_ok_True assms(3)] .
  moreover have "m_command_status m = CS_command_issued \<longrightarrow> command_settled (run_ops trip_call m xs)"
    using issued.latched_run [OF assms(1) _ runs_ok_True assms(3)] assms(2) by (simp add: command_settled_def)
  ultimately show ?thesis by (auto simp: command_settled_def step_defs)
qed

theorem trip_latches_witness:
  "m_state (run_ops trip_call (example_machine\<lparr>m_state := TRIPPED, m_command_status := CS_command_issued\<rparr>)
     [OpArm, OpExternal ''skill'', saw NO_TRIP, OpBegin]) = TRIPPED"
  using trip_latches [of "example_machine\<lparr>m_state := TRIPPED, m_command_status := CS_command_issued\<rparr>"
      "[OpArm, OpExternal ''skill'', saw NO_TRIP, OpBegin]"]
  by (simp add: trip_inv_def example_machine_def leaves_latch_def saw_def)

text \<open>
  C16. A protected circuit is closed only with evidence of this start: when, after a
  start and any further calls, an operation answers with the closing outcome, it is
  either an arming of an untripped machine after the safety path was confirmed, or a
  reset of a tripped one whose latest credible reading did not satisfy the condition; in
  both cases at least one credible reading has arrived since the start.
\<close>

theorem close_outcome_licensed:
  assumes "m_startup m0 ds j dcs b = Inr (m, t0)" and "\<not> list_ex is_startup_op xs"
    and "trip_call (run_ops trip_call m xs) x = Inr (m', t)"
    and "t_outcome t = Some CLOSE_PROTECTED_CIRCUIT"
  shows "credible_verdicts xs \<noteq> []
    \<and> (x = OpArm \<and> m_state (run_ops trip_call m xs) \<noteq> TRIPPED \<and> OpConfirmSafetyPath \<in> set xs
       \<or> x = OpReset \<and> m_state (run_ops trip_call m xs) = TRIPPED \<and> last (credible_verdicts xs) = NO_TRIP)"
proof -
  note start = m_startup_facts [OF assms(1)]
  note seen = credible_after [OF assms(2), of m]
  from close_outcome_call [OF assms(3,4)] have ne: "credible_verdicts xs \<noteq> []"
    using seen start(2) by auto
  then have "last (credible_verdicts xs) = TRIP \<or> last (credible_verdicts xs) = NO_TRIP"
    using credible_verdicts_range last_in_set by blast
  with close_outcome_call [OF assms(3,4)] ne seen confirmed_after [OF assms(2), of m] start(4)
  show ?thesis by auto
qed

theorem close_outcome_licensed_witness:
  "credible_verdicts [saw TRIP, saw NO_TRIP] \<noteq> [] \<and> last (credible_verdicts [saw TRIP, saw NO_TRIP]) = NO_TRIP"
proof -
  let ?xs = "[saw TRIP, saw NO_TRIP]"
  let ?r = "m_reset (run_ops trip_call example_machine ?xs)"
  have "\<not> list_ex is_startup_op ?xs" by (simp add: is_startup_op_def saw_def)
  moreover have "trip_call (run_ops trip_call example_machine ?xs) OpReset = Inr (fst ?r, snd ?r)"
    and "t_outcome (snd ?r) = Some CLOSE_PROTECTED_CIRCUIT"
    by (simp_all add: saw_def observe_def m_reset_def example_machine_def)
  ultimately show ?thesis using close_outcome_licensed [OF example_startup] by blast
qed

end
