(* ===== verification/Actuation.thy ===== *)
theory Actuation
  imports Safety_Activation Trip_State
begin

text \<open>
  The way from an outcome to a pin: \<open>ori/actions/relay.py\<close> (the coil driver),
  \<open>ori/actions/commissioned_actuator.py\<close> (outcome to coil state to level) and
  \<open>ori/safety/commander.py\<close> (one actuator per zone, with deferred line acquisition).

  The GPIO library is not modelled: what it answers to each call is an input of the step
  that makes the call, and the calls that reached it are kept, newest last, in the line log
  of the driver. A call leaves the new object together with what it returned or raised,
  because these classes keep what they wrote before an exception.
\<close>

datatype coil = Energised | DeEnergised

text \<open>The calls on the GPIO library: taking a line at a level of the coil, driving it, closing it.\<close>

datatype line_act = LTake int bool coil | LOn | LOff | LClose

datatype gpio_take = TakeImportError | TakeRaises | TakeOk

datatype act_error =
    ActValueError | ActRuntimeError | ActDriverRaised | ActKeyError

section \<open>The relay driver\<close>

record relay =
  rl_pin :: "int option"
  rl_active_high :: bool
  rl_device :: bool
  rl_simulated :: bool
  rl_connected :: bool
  rl_sim_state :: bool
  rl_log :: "line_act list"

definition new_relay :: relay where
  "new_relay = \<lparr>rl_pin = None, rl_active_high = True, rl_device = False, rl_simulated = False,
     rl_connected = False, rl_sim_state = False, rl_log = []\<rparr>"

definition coil_of :: "string \<Rightarrow> coil option" where
  "coil_of s = (if s = ''energised'' then Some Energised
     else if s = ''de_energised'' then Some DeEnergised else None)"

definition take_line ::
  "relay \<Rightarrow> int \<Rightarrow> bool \<Rightarrow> bool \<Rightarrow> string \<Rightarrow> gpio_take \<Rightarrow> relay \<times> (act_error + unit)" where
  "take_line r gpio_pin active_high tolerate_missing_backend initial_coil_state ans =
     (case coil_of initial_coil_state of
        None \<Rightarrow> (r, Inl ActValueError)
      | Some c \<Rightarrow>
          (let r1 = r\<lparr>rl_pin := Some gpio_pin, rl_active_high := active_high\<rparr> in
           case ans of
             TakeOk \<Rightarrow>
               (r1\<lparr>rl_device := True, rl_simulated := False, rl_connected := True,
                  rl_log := rl_log r1 @ [LTake gpio_pin active_high c]\<rparr>, Inr ())
           | TakeRaises \<Rightarrow> (r1\<lparr>rl_log := rl_log r1 @ [LTake gpio_pin active_high c]\<rparr>, Inl ActDriverRaised)
           | TakeImportError \<Rightarrow>
               (if \<not> tolerate_missing_backend
                then (r1\<lparr>rl_device := False, rl_simulated := False, rl_connected := False\<rparr>,
                      Inl ActRuntimeError)
                else (r1\<lparr>rl_device := False, rl_simulated := True, rl_connected := True\<rparr>, Inr ()))))"

definition valid_bcm_pin :: "int \<Rightarrow> bool" where
  "valid_bcm_pin p = (2 \<le> p \<and> p < 28)"

definition relay_connect ::
  "relay \<Rightarrow> int \<Rightarrow> bool \<Rightarrow> bool \<Rightarrow> gpio_take \<Rightarrow> relay \<times> (act_error + unit)" where
  "relay_connect r gpio_pin active_high tolerate_missing_backend ans =
     (if \<not> valid_bcm_pin gpio_pin then (r, Inl ActValueError)
      else take_line r gpio_pin active_high tolerate_missing_backend ''de_energised'' ans)"

definition acquire_at ::
  "relay \<Rightarrow> int \<Rightarrow> bool \<Rightarrow> string \<Rightarrow> bool \<Rightarrow> gpio_take \<Rightarrow> relay \<times> (act_error + unit)" where
  "acquire_at r gpio_pin active_high coil_state tolerate_missing_backend ans =
     take_line r gpio_pin active_high tolerate_missing_backend coil_state ans"

text \<open>
  \<open>_require_device().on()\<close> inside the handler that turns every exception into \<open>False\<close>: with
  no handle nothing reaches the line; otherwise the answer is whether the call returned.
\<close>

definition drive :: "relay \<Rightarrow> line_act \<Rightarrow> bool \<Rightarrow> relay \<times> bool" where
  "drive r a ok = (if \<not> rl_device r then (r, False) else (r\<lparr>rl_log := rl_log r @ [a]\<rparr>, ok))"

definition trigger :: "relay \<Rightarrow> bool \<Rightarrow> bool \<Rightarrow> bool \<Rightarrow> relay \<times> bool" where
  "trigger r pulse on_ok off_ok =
     (if \<not> rl_connected r then (r, False)
      else if rl_simulated r then (r\<lparr>rl_sim_state := \<not> pulse\<rparr>, True)
      else let (r1, ok) = drive r LOn on_ok
           in if \<not> ok then (r1, False) else if pulse then drive r1 LOff off_ok else (r1, True))"

definition release :: "relay \<Rightarrow> bool \<Rightarrow> relay \<times> bool" where
  "release r off_ok =
     (if \<not> rl_connected r then (r, False)
      else if rl_simulated r then (r\<lparr>rl_sim_state := False\<rparr>, True)
      else drive r LOff off_ok)"

definition disconnect :: "relay \<Rightarrow> relay" where
  "disconnect r =
     (let r1 = r\<lparr>rl_device := False, rl_connected := False, rl_simulated := False\<rparr>
      in if rl_device r then r1\<lparr>rl_log := rl_log r @ [LClose]\<rparr> else r1)"

text \<open>\<open>is_active\<close>; \<open>pin_value\<close> is what the library reads from the pin.\<close>

definition is_active :: "relay \<Rightarrow> bool \<Rightarrow> act_error + bool" where
  "is_active r pin_value =
     (if \<not> rl_connected r then Inr False
      else if rl_simulated r then Inr (rl_sim_state r)
      else if \<not> rl_device r then Inl ActRuntimeError else Inr pin_value)"

section \<open>The commissioned actuator\<close>

text \<open>
  The accepted zone: the facts activation reads, and what actuation needs. The identity
  dictionary of a local GPIO zone is the pin and the polarity; \<open>identity_key\<close> is the value
  of the property of that name.
\<close>

record accepted_zone = zone_facts +
  az_kind :: string
  az_gpio_pin :: int
  az_active_high :: bool
  az_identity_key :: "string \<times> string"
  az_mapping :: "(string \<times> string) list"

record actuation =
  an_outcome :: string
  an_coil_state :: string
  an_level :: string
  an_binding_seq :: int
  an_executed :: bool

record actuator =
  ac_driver :: relay
  ac_zone :: accepted_zone
  ac_binding_seq :: int
  ac_last :: "actuation option"

definition new_actuator :: "relay \<Rightarrow> accepted_zone \<Rightarrow> int \<Rightarrow> act_error + actuator" where
  "new_actuator driver zone binding_seq =
     (if az_kind zone \<noteq> ''local_gpio'' then Inl ActValueError
      else Inr \<lparr>ac_driver = driver, ac_zone = zone, ac_binding_seq = binding_seq, ac_last = None\<rparr>)"

definition OUTCOMES :: "string list" where
  "OUTCOMES = [OPEN_PROTECTED_CIRCUIT, CLOSE_PROTECTED_CIRCUIT]"

definition coil_state_for :: "actuator \<Rightarrow> string \<Rightarrow> act_error + string" where
  "coil_state_for a outcome =
     (if outcome \<notin> set OUTCOMES then Inl ActValueError
      else case map_of (az_mapping (ac_zone a)) outcome of
        None \<Rightarrow> Inl ActKeyError
      | Some state \<Rightarrow> if state \<notin> {''energised'', ''de_energised''} then Inl ActValueError else Inr state)"

definition level_for :: "actuator \<Rightarrow> string \<Rightarrow> string" where
  "level_for a coil_state =
     (if (coil_state = ''energised'') = az_active_high (ac_zone a) then ''high'' else ''low'')"

definition note_actuation :: "actuator \<Rightarrow> string \<Rightarrow> string \<Rightarrow> bool \<Rightarrow> actuator" where
  "note_actuation a reason coil_state executed =
     a\<lparr>ac_last := Some \<lparr>an_outcome = reason, an_coil_state = coil_state,
        an_level = level_for a coil_state, an_binding_seq = ac_binding_seq a,
        an_executed = executed\<rparr>\<rparr>"

definition command_coil ::
  "actuator \<Rightarrow> string \<Rightarrow> string \<Rightarrow> bool \<Rightarrow> actuator \<times> (act_error + bool)" where
  "command_coil a coil_state reason ok =
     (if coil_state = ''energised'' then
        (let (r, executed) = trigger (ac_driver a) False ok ok
         in (note_actuation (a\<lparr>ac_driver := r\<rparr>) reason coil_state executed, Inr executed))
      else if coil_state = ''de_energised'' then
        (let (r, executed) = release (ac_driver a) ok
         in (note_actuation (a\<lparr>ac_driver := r\<rparr>) reason coil_state executed, Inr executed))
      else (a, Inl ActValueError))"

definition command :: "actuator \<Rightarrow> string \<Rightarrow> bool \<Rightarrow> actuator \<times> (act_error + bool)" where
  "command a outcome ok =
     (case coil_state_for a outcome of
        Inl e \<Rightarrow> (a, Inl e)
      | Inr coil_state \<Rightarrow> command_coil a coil_state outcome ok)"

definition acquire_coil ::
  "actuator \<Rightarrow> string \<Rightarrow> string \<Rightarrow> gpio_take \<Rightarrow> actuator \<times> (act_error + bool)" where
  "acquire_coil a coil_state reason ans =
     (if coil_state \<notin> {''energised'', ''de_energised''} then (a, Inl ActValueError)
      else case acquire_at (ac_driver a) (az_gpio_pin (ac_zone a)) (az_active_high (ac_zone a))
                  coil_state False ans of
        (r, Inl e) \<Rightarrow> (a\<lparr>ac_driver := r\<rparr>, Inl e)
      | (r, Inr _) \<Rightarrow> (note_actuation (a\<lparr>ac_driver := r\<rparr>) reason coil_state (\<not> rl_simulated r),
                      Inr (\<not> rl_simulated r)))"

definition acquire_commanding ::
  "actuator \<Rightarrow> string \<Rightarrow> gpio_take \<Rightarrow> actuator \<times> (act_error + bool)" where
  "acquire_commanding a outcome ans =
     (case coil_state_for a outcome of
        Inl e \<Rightarrow> (a, Inl e)
      | Inr coil_state \<Rightarrow>
          (case acquire_at (ac_driver a) (az_gpio_pin (ac_zone a)) (az_active_high (ac_zone a))
                  coil_state False ans of
             (r, Inl e) \<Rightarrow> (a\<lparr>ac_driver := r\<rparr>, Inl e)
           | (r, Inr _) \<Rightarrow> (note_actuation (a\<lparr>ac_driver := r\<rparr>) outcome coil_state (\<not> rl_simulated r),
                           Inr (\<not> rl_simulated r))))"

section \<open>The commander\<close>

record commander =
  cm_actuators :: "string \<rightharpoonup> actuator"
  cm_deferred :: "string set"

definition new_commander :: commander where
  "new_commander = \<lparr>cm_actuators = Map.empty, cm_deferred = {}\<rparr>"

definition bind_zone :: "commander \<Rightarrow> string \<Rightarrow> actuator \<Rightarrow> bool \<Rightarrow> commander" where
  "bind_zone c zone_id a defer_acquisition =
     c\<lparr>cm_actuators := (cm_actuators c)(zone_id \<mapsto> a),
       cm_deferred := (if defer_acquisition then insert zone_id (cm_deferred c) else cm_deferred c)\<rparr>"

text \<open>
  The answers of the GPIO library to one command: to taking the line, and to driving it.
\<close>

record gpio_answer =
  ga_take :: gpio_take
  ga_drive :: bool

text \<open>The acquisition branch: the deferral ends exactly when the line was taken.\<close>

definition acquired ::
  "commander \<Rightarrow> string \<Rightarrow> actuator \<times> (act_error + bool) \<Rightarrow> commander \<times> (act_error + bool)" where
  "acquired c zone_id res =
     (case res of (a, ans) \<Rightarrow>
        (c\<lparr>cm_actuators := (cm_actuators c)(zone_id \<mapsto> a),
           cm_deferred := (if ans = Inr True then cm_deferred c - {zone_id} else cm_deferred c)\<rparr>, ans))"

definition commanded ::
  "commander \<Rightarrow> string \<Rightarrow> actuator \<times> (act_error + bool) \<Rightarrow> commander \<times> (act_error + bool)" where
  "commanded c zone_id res =
     (case res of (a, ans) \<Rightarrow> (c\<lparr>cm_actuators := (cm_actuators c)(zone_id \<mapsto> a)\<rparr>, ans))"

definition command_outcome ::
  "commander \<Rightarrow> string \<Rightarrow> string \<Rightarrow> gpio_answer \<Rightarrow> commander \<times> (act_error + bool)" where
  "command_outcome c zone_id outcome ans =
     (case cm_actuators c zone_id of
        None \<Rightarrow> (c, Inr False)
      | Some a \<Rightarrow>
          if zone_id \<in> cm_deferred c
          then acquired c zone_id (acquire_commanding a outcome (ga_take ans))
          else commanded c zone_id (command a outcome (ga_drive ans)))"

definition command_startup_de_energised ::
  "commander \<Rightarrow> string \<Rightarrow> gpio_answer \<Rightarrow> commander \<times> (act_error + bool)" where
  "command_startup_de_energised c zone_id ans =
     (case cm_actuators c zone_id of
        None \<Rightarrow> (c, Inr False)
      | Some a \<Rightarrow>
          if zone_id \<in> cm_deferred c
          then acquired c zone_id (acquire_coil a ''de_energised'' ''safety_startup'' (ga_take ans))
          else commanded c zone_id (command_coil a ''de_energised'' ''safety_startup'' (ga_drive ans)))"

section \<open>Calls\<close>

datatype relay_op =
    RConnect int bool bool gpio_take | RAcquireAt int bool string bool gpio_take
  | RTrigger bool bool bool | RRelease bool | RDisconnect

fun relay_call :: "relay \<Rightarrow> relay_op \<Rightarrow> act_error + relay \<times> (act_error + bool)" where
  "relay_call r (RConnect p h t ans) =
     (case relay_connect r p h t ans of (r', res) \<Rightarrow> Inr (r', map_sum id (\<lambda>_. True) res))"
| "relay_call r (RAcquireAt p h c t ans) =
     (case acquire_at r p h c t ans of (r', res) \<Rightarrow> Inr (r', map_sum id (\<lambda>_. True) res))"
| "relay_call r (RTrigger pulse on_ok off_ok) = (case trigger r pulse on_ok off_ok of (r', b) \<Rightarrow> Inr (r', Inr b))"
| "relay_call r (RRelease ok) = (case release r ok of (r', b) \<Rightarrow> Inr (r', Inr b))"
| "relay_call r RDisconnect = Inr (disconnect r, Inr True)"

text \<open>What the handle's unreachable branch relies on: a connected line that is not simulated is held.\<close>

definition relay_inv :: "relay \<Rightarrow> bool" where
  "relay_inv r = (rl_device r = (rl_connected r \<and> \<not> rl_simulated r))"

datatype command_op = COutcome string string gpio_answer | CStartup string gpio_answer

fun command_call :: "commander \<Rightarrow> command_op \<Rightarrow> act_error + commander \<times> (act_error + bool)" where
  "command_call c (COutcome z out ans) = Inr (command_outcome c z out ans)"
| "command_call c (CStartup z ans) = Inr (command_startup_de_energised c z ans)"

text \<open>The line log of a zone, and whether an act takes the line rather than drives it.\<close>

definition zone_log :: "commander \<Rightarrow> string \<Rightarrow> line_act list" where
  "zone_log c z = (case cm_actuators c z of None \<Rightarrow> [] | Some a \<Rightarrow> rl_log (ac_driver a))"

fun takes_line :: "line_act \<Rightarrow> bool" where
  "takes_line (LTake _ _ _) = True"
| "takes_line _ = False"

text \<open>
  A deferred zone that is not yet taken: its driver holds no line, and everything that has
  reached the library is an acquisition.
\<close>

definition deferral_inv :: "commander \<Rightarrow> bool" where
  "deferral_inv c =
     (\<forall>z a. cm_actuators c z = Some a \<longrightarrow>
        relay_inv (ac_driver a)
        \<and> (z \<in> cm_deferred c \<longrightarrow> \<not> rl_device (ac_driver a) \<and> list_all takes_line (rl_log (ac_driver a))))"

text \<open>
  The acts a command for a coil state puts on the line: an acquisition while the zone is
  deferred (none when the library cannot be imported), one drive when the line is held.
\<close>

definition line_acts :: "commander \<Rightarrow> string \<Rightarrow> string \<Rightarrow> gpio_answer \<Rightarrow> line_act list" where
  "line_acts c z coil_state ans =
     (case (cm_actuators c z, coil_of coil_state) of
        (Some a, Some k) \<Rightarrow>
          if z \<in> cm_deferred c
          then (if ga_take ans = TakeImportError then []
                else [LTake (az_gpio_pin (ac_zone a)) (az_active_high (ac_zone a)) k])
          else if rl_device (ac_driver a) then [if k = Energised then LOn else LOff] else []
      | _ \<Rightarrow> [])"

text \<open>Whether the driver accepts: the line was taken, is simulated, or was driven without an exception.\<close>

definition accepts :: "commander \<Rightarrow> string \<Rightarrow> gpio_answer \<Rightarrow> bool" where
  "accepts c z ans =
     (case cm_actuators c z of
        None \<Rightarrow> False
      | Some a \<Rightarrow>
          if z \<in> cm_deferred c then ga_take ans = TakeOk
          else rl_simulated (ac_driver a) \<and> rl_connected (ac_driver a)
               \<or> rl_device (ac_driver a) \<and> ga_drive ans)"

text \<open>Both commands of the commander as one: a coil state for a zone.\<close>

definition seam :: "commander \<Rightarrow> string \<Rightarrow> string \<Rightarrow> string \<Rightarrow> gpio_answer \<Rightarrow> commander \<times> (act_error + bool)" where
  "seam c z s reason ans =
     (case cm_actuators c z of
        None \<Rightarrow> (c, Inr False)
      | Some a \<Rightarrow> if z \<in> cm_deferred c then acquired c z (acquire_coil a s reason (ga_take ans))
                  else commanded c z (command_coil a s reason (ga_drive ans)))"

section \<open>Example inputs\<close>

definition example_accepted_zone :: accepted_zone where
  "example_accepted_zone = \<lparr>zf_zone_id = ''z1'', zf_sensor_id = ''s1'', zf_quantity = ''current'',
     zf_unit = ''A'', zf_direction = ''positive_is_load_draw'', zf_range_min = FNum 0,
     zf_range_max = FNum 100, zf_rated_capacity_parameter = ''rated_current'',
     zf_rated_capacity_value = FNum 40, zf_proof_method = ''actuate_and_observe'',
     az_kind = ''local_gpio'', az_gpio_pin = 26, az_active_high = False,
     az_identity_key = (''local_gpio'', ''26''),
     az_mapping = [(''open_protected_circuit'', ''energised''),
       (''close_protected_circuit'', ''de_energised''), (''de_energised_terminal_state'', ''closed'')]\<rparr>"

definition example_commander :: commander where
  "example_commander = bind_zone new_commander ''z1''
     \<lparr>ac_driver = new_relay, ac_zone = example_accepted_zone, ac_binding_seq = 1, ac_last = None\<rparr> True"

section \<open>Lemmas\<close>

lemma relay_inv_new: "relay_inv new_relay"
  by (simp add: relay_inv_def new_relay_def)

lemma take_line_inv: "relay_inv r \<Longrightarrow> take_line r p h t s ans = (r', res) \<Longrightarrow> relay_inv r'"
  by (auto simp: take_line_def relay_inv_def Let_def split: option.splits gpio_take.splits if_splits)

lemma drive_inv: "relay_inv r \<Longrightarrow> drive r a ok = (r', b) \<Longrightarrow> relay_inv r'"
  by (auto simp: drive_def relay_inv_def split: if_splits)

lemma trigger_inv: "relay_inv r \<Longrightarrow> trigger r pulse on_ok off_ok = (r', b) \<Longrightarrow> relay_inv r'"
  by (auto simp: trigger_def relay_inv_def Let_def drive_def split: if_splits)

lemma release_inv: "relay_inv r \<Longrightarrow> release r ok = (r', b) \<Longrightarrow> relay_inv r'"
  by (auto simp: release_def relay_inv_def drive_def split: if_splits)

lemma relay_inv_call:
  assumes "relay_inv r" and "relay_call r x = Inr (r', res)"
  shows "relay_inv r'"
proof (cases x)
  case (RConnect p h t ans)
  with assms show ?thesis
    by (auto simp: relay_connect_def split: prod.splits if_splits intro: take_line_inv)
next
  case (RAcquireAt p h c t ans)
  with assms show ?thesis by (auto simp: acquire_at_def split: prod.splits intro: take_line_inv)
next
  case (RTrigger pulse on_ok off_ok)
  with assms show ?thesis by (auto split: prod.splits intro: trigger_inv)
next
  case (RRelease ok)
  with assms show ?thesis by (auto split: prod.splits intro: release_inv)
next
  case RDisconnect
  with assms show ?thesis by (auto simp: disconnect_def relay_inv_def Let_def)
qed

interpretation relay: invariant_object relay_call relay_inv "\<lambda>_ _. True"
  by unfold_locales (rule relay_inv_call)

lemma coil_state_for_coil: "coil_state_for a out = Inr s \<Longrightarrow> \<exists>k. coil_of s = Some k"
  by (auto simp: coil_state_for_def coil_of_def split: option.splits if_splits)

text \<open>A coil command on a held, simulated or absent line.\<close>

lemma command_coil_effect:
  assumes "relay_inv (ac_driver a)" and "coil_of s = Some k"
  shows "\<exists>a'. command_coil a s reason ok
      = (a', Inr (rl_simulated (ac_driver a) \<and> rl_connected (ac_driver a) \<or> rl_device (ac_driver a) \<and> ok))
    \<and> rl_log (ac_driver a') = rl_log (ac_driver a)
        @ (if rl_device (ac_driver a) then [if k = Energised then LOn else LOff] else [])
    \<and> relay_inv (ac_driver a') \<and> rl_device (ac_driver a') = rl_device (ac_driver a)
    \<and> ac_zone a' = ac_zone a \<and> ac_binding_seq a' = ac_binding_seq a"
  using assms
  by (auto simp: command_coil_def coil_of_def trigger_def release_def drive_def Let_def
      note_actuation_def relay_inv_def split: if_splits)

lemma acquire_at_effect:
  assumes "relay_inv r" and "coil_of s = Some k" and "\<not> rl_device r"
  shows "\<exists>r' res. acquire_at r pin h s False ans = (r', res)
    \<and> (res = Inr ()) = (ans = TakeOk) \<and> (ans = TakeOk \<longrightarrow> \<not> rl_simulated r')
    \<and> rl_log r' = rl_log r @ (if ans = TakeImportError then [] else [LTake pin h k])
    \<and> relay_inv r' \<and> rl_device r' = (ans = TakeOk)"
  using assms by (cases ans) (auto simp: acquire_at_def take_line_def Let_def relay_inv_def)

lemma acquire_effect:
  assumes "relay_inv (ac_driver a)" and "\<not> rl_device (ac_driver a)" and "coil_of s = Some k"
  defines "pin \<equiv> az_gpio_pin (ac_zone a)" and "h \<equiv> az_active_high (ac_zone a)"
  shows "\<exists>a' res. acquire_coil a s reason ans = (a', res)
    \<and> (res = Inr True) = (ans = TakeOk) \<and> (res \<noteq> Inr False)
    \<and> rl_log (ac_driver a') = rl_log (ac_driver a)
        @ (if ans = TakeImportError then [] else [LTake pin h k])
    \<and> relay_inv (ac_driver a') \<and> rl_device (ac_driver a') = (ans = TakeOk)
    \<and> ac_zone a' = ac_zone a \<and> ac_binding_seq a' = ac_binding_seq a"
proof -
  obtain r' res where "acquire_at (ac_driver a) pin h s False ans = (r', res)"
    and "(res = Inr ()) = (ans = TakeOk)" "ans = TakeOk \<longrightarrow> \<not> rl_simulated r'"
    and "rl_log r' = rl_log (ac_driver a) @ (if ans = TakeImportError then [] else [LTake pin h k])"
    and "relay_inv r'" "rl_device r' = (ans = TakeOk)"
    using acquire_at_effect [OF assms(1,3,2), of pin h ans] by blast
  then show ?thesis using assms(3) unfolding pin_def h_def
    by (cases res) (auto simp: acquire_coil_def coil_of_def note_actuation_def split: if_splits)
qed

text \<open>Acquiring at an outcome is acquiring at its coil state; both commands are one act.\<close>

lemma acquire_commanding_coil:
  "coil_state_for a out = Inr s \<Longrightarrow> acquire_commanding a out ans = acquire_coil a s out ans"
  by (auto simp: acquire_commanding_def acquire_coil_def coil_state_for_def split: option.splits if_splits)

lemma command_is_coil: "coil_state_for a out = Inr s \<Longrightarrow> command a out ok = command_coil a s out ok"
  by (simp add: command_def)

lemma command_startup_seam:
  "command_startup_de_energised c z ans = seam c z ''de_energised'' ''safety_startup'' ans"
  by (simp add: command_startup_de_energised_def seam_def)

lemma command_outcome_seam:
  assumes "cm_actuators c z = Some a" and "coil_state_for a out = Inr s"
  shows "command_outcome c z out ans = seam c z s out ans"
  using assms
  by (simp add: command_outcome_def seam_def acquire_commanding_coil command_is_coil)

lemma command_outcome_unmapped:
  assumes "cm_actuators c z = Some a" and "coil_state_for a out = Inl e"
  shows "command_outcome c z out ans = (c, Inl e)"
  using assms
  by (auto simp: command_outcome_def acquire_commanding_def command_def acquired_def commanded_def
      map_upd_triv)

lemma deferral_invD:
  assumes "deferral_inv c" and "cm_actuators c z = Some a"
  shows "relay_inv (ac_driver a)"
    and "z \<in> cm_deferred c \<Longrightarrow> \<not> rl_device (ac_driver a) \<and> list_all takes_line (rl_log (ac_driver a))"
  using assms by (auto simp: deferral_inv_def)

lemma deferral_inv_bound:
  assumes "deferral_inv c" and "relay_inv (ac_driver a)" and "D \<subseteq> cm_deferred c"
    and "z \<in> D \<Longrightarrow> \<not> rl_device (ac_driver a) \<and> list_all takes_line (rl_log (ac_driver a))"
  shows "deferral_inv (c\<lparr>cm_actuators := (cm_actuators c)(z \<mapsto> a), cm_deferred := D\<rparr>)"
  using assms by (auto simp: deferral_inv_def)

text \<open>The effect of the seam: one act on the zone's own line, and the deferral's end.\<close>

lemma seam_effect:
  assumes inv: "deferral_inv c" and a: "cm_actuators c z = Some a" and k: "coil_of s = Some k"
  shows "\<exists>c' res a'. seam c z s reason ans = (c', res)
    \<and> (res = Inr True) = accepts c z ans \<and> (res = Inr False \<longrightarrow> z \<notin> cm_deferred c)
    \<and> cm_actuators c' = (cm_actuators c)(z \<mapsto> a') \<and> ac_zone a' = ac_zone a
    \<and> rl_log (ac_driver a') = rl_log (ac_driver a) @ line_acts c z s ans
    \<and> cm_deferred c' = (if accepts c z ans then cm_deferred c - {z} else cm_deferred c)
    \<and> deferral_inv c'"
proof (cases "z \<in> cm_deferred c")
  case True
  note d = deferral_invD [OF inv a]
  from acquire_effect [OF d(1) _ k, of reason "ga_take ans"] d(2) [OF True]
  obtain a' res where acq: "acquire_coil a s reason (ga_take ans) = (a', res)"
    and f: "(res = Inr True) = (ga_take ans = TakeOk)" "res \<noteq> Inr False"
      "rl_log (ac_driver a') = rl_log (ac_driver a) @ line_acts c z s ans"
      "relay_inv (ac_driver a')" "rl_device (ac_driver a') = (ga_take ans = TakeOk)"
      "ac_zone a' = ac_zone a"
    using True a k by (auto simp: line_acts_def)
  have "list_all takes_line (line_acts c z s ans)" using True a k by (simp add: line_acts_def)
  then have "deferral_inv (c\<lparr>cm_actuators := (cm_actuators c)(z \<mapsto> a'),
      cm_deferred := (if res = Inr True then cm_deferred c - {z} else cm_deferred c)\<rparr>)"
    using f d(2) [OF True] True by (intro deferral_inv_bound [OF inv]) auto
  then show ?thesis using True a acq f by (simp add: seam_def acquired_def accepts_def) blast
next
  case False
  note d = deferral_invD [OF inv a]
  from command_coil_effect [OF d(1) k, of reason "ga_drive ans"]
  obtain a' where cmd: "command_coil a s reason (ga_drive ans) = (a', Inr (accepts c z ans))"
    and f: "rl_log (ac_driver a') = rl_log (ac_driver a) @ line_acts c z s ans"
      "relay_inv (ac_driver a')" "ac_zone a' = ac_zone a"
    using False a k by (auto simp: line_acts_def accepts_def)
  have "deferral_inv (c\<lparr>cm_actuators := (cm_actuators c)(z \<mapsto> a')\<rparr>)"
    using deferral_inv_bound [OF inv f(2) subset_refl, of z] False by simp
  then show ?thesis using False a cmd f by (auto simp: seam_def commanded_def)
qed

lemma seam_unbound: "cm_actuators c z = None \<Longrightarrow> seam c z s reason ans = (c, Inr False)"
  by (simp add: seam_def)

lemma seam_inv:
  assumes "deferral_inv c" and "coil_of s = Some k"
  shows "deferral_inv (fst (seam c z s reason ans))"
proof (cases "cm_actuators c z")
  case None
  with assms show ?thesis by (simp add: seam_def)
next
  case (Some a)
  from seam_effect [OF assms(1) this assms(2), of reason ans] show ?thesis by auto
qed

lemma command_call_inv:
  assumes "deferral_inv c" and "command_call c x = Inr (c', res)"
  shows "deferral_inv c'"
proof (cases x)
  case (COutcome z out ans)
  show ?thesis
  proof (cases "cm_actuators c z")
    case None
    with COutcome assms show ?thesis by (simp add: command_outcome_def)
  next
    case (Some a)
    show ?thesis
    proof (cases "coil_state_for a out")
      case (Inl e)
      with COutcome assms Some command_outcome_unmapped show ?thesis by simp
    next
      case (Inr s)
      with coil_state_for_coil obtain k where "coil_of s = Some k" by blast
      with COutcome assms Some Inr command_outcome_seam [OF Some Inr, of ans] seam_inv [OF assms(1), of s k z out ans]
      show ?thesis by simp
    qed
  qed
next
  case (CStartup z ans)
  with assms seam_inv [OF assms(1), of "''de_energised''" DeEnergised z "''safety_startup''" ans]
  show ?thesis by (simp add: command_startup_seam coil_of_def)
qed

interpretation commander: invariant_object command_call deferral_inv "\<lambda>_ _. True"
  by unfold_locales (rule command_call_inv)

lemma deferral_inv_new: "deferral_inv new_commander"
  by (simp add: deferral_inv_def new_commander_def)

lemma deferral_inv_bind:
  assumes "deferral_inv c" and "ac_driver a = new_relay"
  shows "deferral_inv (bind_zone c z a d)"
  using assms by (auto simp: deferral_inv_def bind_zone_def new_relay_def relay_inv_def)

lemma example_commander_inv: "deferral_inv example_commander"
  by (simp add: example_commander_def deferral_inv_bind deferral_inv_new)

section \<open>Properties\<close>

text \<open>
  C30. A command is one physical act, at the commissioned state. For a zone whose mapping
  gives the outcome a coil state, the command puts on that zone's line exactly the acts of
  that coil state: while the zone's acquisition is deferred, taking the commissioned pin,
  with the commissioned polarity, already at that state; afterwards one drive of the held
  line; nothing on any other zone. The answer is true exactly when the line was taken or
  driven (or is simulated), and only a successful acquisition ends the deferral.
\<close>

theorem command_is_one_act:
  assumes "deferral_inv c" and "cm_actuators c z = Some a" and "coil_state_for a out = Inr s"
    and "command_outcome c z out ans = (c', res)"
  shows "zone_log c' z = zone_log c z @ line_acts c z s ans
    \<and> length (line_acts c z s ans) \<le> 1
    \<and> (\<forall>z'. z' \<noteq> z \<longrightarrow> cm_actuators c' z' = cm_actuators c z')
    \<and> (res = Inr True) = accepts c z ans
    \<and> cm_deferred c' = (if res = Inr True then cm_deferred c - {z} else cm_deferred c)"
proof -
  from coil_state_for_coil [OF assms(3)] obtain k where k: "coil_of s = Some k" by blast
  from command_outcome_seam [OF assms(2,3), of ans] assms(4) have "seam c z s out ans = (c', res)" by simp
  with seam_effect [OF assms(1,2) k, of out ans] obtain a' where
    e: "(res = Inr True) = accepts c z ans" "cm_actuators c' = (cm_actuators c)(z \<mapsto> a')"
      "rl_log (ac_driver a') = rl_log (ac_driver a) @ line_acts c z s ans"
      "cm_deferred c' = (if accepts c z ans then cm_deferred c - {z} else cm_deferred c)"
    by auto
  have "zone_log c' z = zone_log c z @ line_acts c z s ans"
    using assms(2) by (simp add: zone_log_def e(2,3))
  moreover have "length (line_acts c z s ans) \<le> 1" by (simp add: line_acts_def assms(2) k)
  moreover have "cm_actuators c' z' = cm_actuators c z'" if "z' \<noteq> z" for z'
    using that by (simp add: e(2))
  ultimately show ?thesis using e(1,4) by simp
qed

theorem command_is_one_act_witness:
  "zone_log (fst (command_outcome example_commander ''z1'' ''open_protected_circuit''
       \<lparr>ga_take = TakeOk, ga_drive = True\<rparr>)) ''z1'' = [LTake 26 False Energised]"
proof -
  let ?ans = "\<lparr>ga_take = TakeOk, ga_drive = True\<rparr>"
  let ?a = "\<lparr>ac_driver = new_relay, ac_zone = example_accepted_zone, ac_binding_seq = 1, ac_last = None\<rparr>"
  have a: "cm_actuators example_commander ''z1'' = Some ?a"
    by (simp add: example_commander_def bind_zone_def)
  have s: "coil_state_for ?a ''open_protected_circuit'' = Inr ''energised''"
    by (simp add: coil_state_for_def OUTCOMES_def example_accepted_zone_def)
  have "line_acts example_commander ''z1'' ''energised'' ?ans = [LTake 26 False Energised]"
    and "zone_log example_commander ''z1'' = []" by code_simp+
  then show ?thesis
    using command_is_one_act [OF example_commander_inv a s prod.collapse [symmetric], of ?ans]
    by simp
qed

text \<open>
  A deferred line is never driven before it is taken: from zones bound with fresh
  drivers, after any sequence of outcome and startup commands, whatever the GPIO library
  answered to each, everything that reached the line of a zone still deferred is an
  acquisition attempt; and a driver that claims a connected, real line always holds its
  device, so the handle error its code calls unreachable is.
\<close>

theorem deferred_line_never_driven:
  assumes "deferral_inv c" and "cm_actuators (run_ops command_call c xs) z = Some a"
  shows "(z \<in> cm_deferred (run_ops command_call c xs) \<longrightarrow>
      list_all takes_line (zone_log (run_ops command_call c xs) z) \<and> \<not> rl_device (ac_driver a))
    \<and> (rl_connected (ac_driver a) \<and> \<not> rl_simulated (ac_driver a) \<longrightarrow> rl_device (ac_driver a))
    \<and> is_active (ac_driver a) v \<noteq> Inl ActRuntimeError"
proof -
  have "deferral_inv (run_ops command_call c xs)"
    using commander.inv_run [OF assms(1) runs_ok_True] .
  from deferral_invD [OF this assms(2)] assms(2) show ?thesis
    by (auto simp: zone_log_def relay_inv_def is_active_def)
qed

theorem deferred_line_never_driven_witness:
  "list_all takes_line (zone_log (run_ops command_call example_commander
      [COutcome ''z1'' ''open_protected_circuit'' \<lparr>ga_take = TakeRaises, ga_drive = True\<rparr>]) ''z1'')"
proof -
  let ?xs = "[COutcome ''z1'' ''open_protected_circuit'' \<lparr>ga_take = TakeRaises, ga_drive = True\<rparr>]"
  have d: "''z1'' \<in> cm_deferred (run_ops command_call example_commander ?xs)" by code_simp
  moreover obtain a where "cm_actuators (run_ops command_call example_commander ?xs) ''z1'' = Some a"
  proof -
    have "cm_actuators (run_ops command_call example_commander ?xs) ''z1'' \<noteq> None" by code_simp
    with that show thesis by blast
  qed
  ultimately show ?thesis using deferred_line_never_driven [OF example_commander_inv] by blast
qed

end
