(* ===== verification/Trip_Journal.thy ===== *)
theory Trip_Journal
  imports Trip_State "HOL-Library.Char_ord" "HOL-Library.List_Lexorder" "HOL-Library.Product_Lexorder"
begin

text \<open>
  \<open>ori/state/_trip_journal.py\<close>: the durable trip-intent journal over the table
  \<open>safety_trip_journal\<close>. The table is its rows in \<open>seq\<close> order with the next value of the
  autoincrementing key; each method is one committed transaction. \<open>load\<close> hands the machine
  of \<open>Trip_State\<close> its journal.
\<close>

record jrow =
  jr_seq :: nat
  jr_zone_id :: string
  jr_profile_id :: string
  jr_entry_kind :: string
  jr_attempt_id :: "string option"
  jr_binding_seq :: "int option"
  jr_outcome :: "string option"
  jr_command_status :: "string option"
  jr_resolved :: bool
  jr_created_at_ms :: int

record journal_db =
  jdb_rows :: "jrow list"
  jdb_next :: nat

datatype journal_error = JournalValueError

definition empty_journal :: journal_db where
  "empty_journal = \<lparr>jdb_rows = [], jdb_next = 1\<rparr>"

definition insert_row :: "journal_db \<Rightarrow> (nat \<Rightarrow> jrow) \<Rightarrow> journal_db" where
  "insert_row db f = \<lparr>jdb_rows = jdb_rows db @ [f (jdb_next db)], jdb_next = Suc (jdb_next db)\<rparr>"

definition append_intent ::
  "journal_db \<Rightarrow> string \<Rightarrow> string \<Rightarrow> string \<Rightarrow> int \<Rightarrow> string \<Rightarrow> int \<Rightarrow> journal_db" where
  "append_intent db z p attempt_id binding_seq outcome created_at_ms =
     insert_row db (\<lambda>n. \<lparr>jr_seq = n, jr_zone_id = z, jr_profile_id = p, jr_entry_kind = ''intent'',
       jr_attempt_id = Some attempt_id, jr_binding_seq = Some binding_seq,
       jr_outcome = Some outcome, jr_command_status = None, jr_resolved = False,
       jr_created_at_ms = created_at_ms\<rparr>)"

definition append_record ::
  "journal_db \<Rightarrow> string \<Rightarrow> string \<Rightarrow> string \<Rightarrow> int \<Rightarrow> journal_error + journal_db" where
  "append_record db z p command_status created_at_ms =
     (if command_status \<notin> {''command_pending'', ''driver_refused'', ''command_issued''}
      then Inl JournalValueError
      else Inr (insert_row db (\<lambda>n. \<lparr>jr_seq = n, jr_zone_id = z, jr_profile_id = p,
        jr_entry_kind = ''record'', jr_attempt_id = None, jr_binding_seq = None, jr_outcome = None,
        jr_command_status = Some command_status, jr_resolved = False,
        jr_created_at_ms = created_at_ms\<rparr>)))"

definition append_clear :: "journal_db \<Rightarrow> string \<Rightarrow> string \<Rightarrow> int \<Rightarrow> journal_db" where
  "append_clear db z p created_at_ms =
     insert_row db (\<lambda>n. \<lparr>jr_seq = n, jr_zone_id = z, jr_profile_id = p, jr_entry_kind = ''clear'',
       jr_attempt_id = None, jr_binding_seq = None, jr_outcome = None, jr_command_status = None,
       jr_resolved = False, jr_created_at_ms = created_at_ms\<rparr>)"

definition of_pair :: "string \<Rightarrow> string \<Rightarrow> jrow \<Rightarrow> bool" where
  "of_pair z p r = (jr_zone_id r = z \<and> jr_profile_id r = p)"

definition mark_row :: "jrow \<Rightarrow> bool" where
  "mark_row r = (jr_entry_kind r = ''record'' \<or> jr_entry_kind r = ''clear'')"

text \<open>\<open>SELECT MAX(seq)\<close> over the pair's records and clears; \<open>None\<close> is SQL's null.\<close>

definition last_mark_seq :: "jrow list \<Rightarrow> string \<Rightarrow> string \<Rightarrow> nat option" where
  "last_mark_seq rows z p =
     (case filter (\<lambda>r. of_pair z p r \<and> mark_row r) rows of
        [] \<Rightarrow> None
      | r # rs \<Rightarrow> Some (foldr (\<lambda>x m. max (jr_seq x) m) rs (jr_seq r)))"

text \<open>The \<open>UPDATE\<close> of \<open>mark_resolved\<close> on one row.\<close>

definition resolve_below :: "string \<Rightarrow> string \<Rightarrow> nat \<Rightarrow> jrow \<Rightarrow> jrow" where
  "resolve_below z p n r =
     (if of_pair z p r \<and> jr_entry_kind r = ''intent'' \<and> \<not> jr_resolved r \<and> jr_seq r < n
      then r\<lparr>jr_resolved := True\<rparr> else r)"

definition mark_resolved :: "journal_db \<Rightarrow> string \<Rightarrow> string \<Rightarrow> journal_db" where
  "mark_resolved db z p =
     (case last_mark_seq (jdb_rows db) z p of
        None \<Rightarrow> db
      | Some threshold \<Rightarrow>
          db\<lparr>jdb_rows := map (resolve_below z p threshold) (jdb_rows db)\<rparr>)"

definition opt_str :: "string option \<Rightarrow> pyval" where
  "opt_str x = (case x of None \<Rightarrow> PyNone | Some s \<Rightarrow> PyStr s)"

definition opt_int :: "int option \<Rightarrow> pyval" where
  "opt_int x = (case x of None \<Rightarrow> PyNone | Some i \<Rightarrow> PyInt i)"

definition intent_dict :: "jrow \<Rightarrow> (string \<times> pyval) list" where
  "intent_dict r =
     [(''zone_id'', PyStr (jr_zone_id r)), (''profile_id'', PyStr (jr_profile_id r)),
      (''attempt_id'', opt_str (jr_attempt_id r)), (''binding_seq'', opt_int (jr_binding_seq r)),
      (''outcome'', opt_str (jr_outcome r)), (''created_at_ms'', PyInt (jr_created_at_ms r)),
      (''resolved'', PyBool (jr_resolved r))]"

text \<open>One row in machine shape, and the record flag the loop of \<open>load\<close> carries.\<close>

definition row_entry :: "jrow \<Rightarrow> pyval" where
  "row_entry r =
     (if jr_entry_kind r = ''intent'' then PyDict [(''intent'', PyDict (intent_dict r))]
      else if jr_entry_kind r = ''record'' then
        PyDict [(''record'', PyDict [(''command_status'', opt_str (jr_command_status r))])]
      else if jr_entry_kind r = ''clear'' then PyDict [(''clear'', PyBool True)]
      else PyDict [(''corrupt'', PyStr ''unidentifiable'')])"

definition record_survives_after :: "bool \<Rightarrow> jrow \<Rightarrow> bool" where
  "record_survives_after b r =
     (if jr_entry_kind r = ''record'' then True else if jr_entry_kind r = ''clear'' then False else b)"

definition load :: "journal_db \<Rightarrow> string \<Rightarrow> string \<Rightarrow> string option \<times> pyval list" where
  "load db z p =
     (let rows = filter (of_pair z p) (jdb_rows db)
      in (if foldl record_survives_after False rows then Some ''tripped'' else None,
          map row_entry rows))"

definition pairs :: "journal_db \<Rightarrow> (string \<times> string) list" where
  "pairs db = sort (remdups (map (\<lambda>r. (jr_zone_id r, jr_profile_id r)) (jdb_rows db)))"

section \<open>Calls on the journal\<close>

datatype journal_op =
    JAppendIntent string string string int string int
  | JAppendRecord string string string int
  | JAppendClear string string int
  | JMarkResolved string string

fun journal_call :: "journal_db \<Rightarrow> journal_op \<Rightarrow> journal_error + journal_db \<times> unit" where
  "journal_call db (JAppendIntent z p a b out t) = Inr (append_intent db z p a b out t, ())"
| "journal_call db (JAppendRecord z p st t) =
     bind_res (append_record db z p st t) (\<lambda>db'. Inr (db', ()))"
| "journal_call db (JAppendClear z p t) = Inr (append_clear db z p t, ())"
| "journal_call db (JMarkResolved z p) = Inr (mark_resolved db z p, ())"

text \<open>
  What the registry appends: an opening intent under a fresh non-empty attempt id, with a
  positive binding sequence and time, on a named pair. Every other call is unrestricted.
\<close>

definition journal_allowed :: "journal_db \<Rightarrow> journal_op \<Rightarrow> bool" where
  "journal_allowed db x =
     (case x of
        JAppendIntent z p a b out t \<Rightarrow>
          z \<noteq> [] \<and> p \<noteq> [] \<and> a \<noteq> [] \<and> b > 0 \<and> t > 0 \<and> out = OPEN_PROTECTED_CIRCUIT
          \<and> Some a \<notin> set (map jr_attempt_id (jdb_rows db))
      | _ \<Rightarrow> True)"

section \<open>Invariant of the table\<close>

definition row_ok :: "jrow \<Rightarrow> bool" where
  "row_ok r =
     ((jr_entry_kind r = ''intent'' \<and> jr_zone_id r \<noteq> [] \<and> jr_profile_id r \<noteq> []
        \<and> (\<exists>a. jr_attempt_id r = Some a \<and> a \<noteq> []) \<and> (\<exists>b. jr_binding_seq r = Some b \<and> b > 0)
        \<and> jr_outcome r = Some OPEN_PROTECTED_CIRCUIT \<and> jr_created_at_ms r > 0)
      \<or> (jr_entry_kind r = ''record'' \<and> jr_attempt_id r = None \<and> \<not> jr_resolved r
        \<and> (\<exists>st \<in> {''command_pending'', ''driver_refused'', ''command_issued''}.
              jr_command_status r = Some st))
      \<or> (jr_entry_kind r = ''clear'' \<and> jr_attempt_id r = None \<and> \<not> jr_resolved r))"

fun justified :: "jrow list \<Rightarrow> bool" where
  "justified [] = True"
| "justified (r # rs) =
     ((jr_resolved r \<longrightarrow> list_ex (\<lambda>x. of_pair (jr_zone_id r) (jr_profile_id r) x \<and> mark_row x) rs)
      \<and> justified rs)"

definition journal_inv :: "journal_db \<Rightarrow> bool" where
  "journal_inv db =
     (list_all row_ok (jdb_rows db)
      \<and> distinct (map jr_attempt_id (filter (\<lambda>r. jr_attempt_id r \<noteq> None) (jdb_rows db)))
      \<and> sorted_wrt (\<lambda>a b. jr_seq a < jr_seq b) (jdb_rows db)
      \<and> list_all (\<lambda>r. jr_seq r < jdb_next db) (jdb_rows db)
      \<and> justified (jdb_rows db))"

text \<open>What a start must come to from the pair's rows: the last row decides.\<close>

definition recalled :: "jrow list \<Rightarrow> trip_phase \<times> command_status" where
  "recalled rows =
     (if rows = [] \<or> jr_entry_kind (last rows) = ''clear'' then (INACTIVE, CS_none)
      else if jr_entry_kind (last rows) = ''record''
        then (TRIPPED, status_of (the (jr_command_status (last rows))))
      else (TRIPPED, CS_command_pending))"

definition row_meaning :: "jrow \<Rightarrow> jentry" where
  "row_meaning r =
     (if jr_entry_kind r = ''intent''
      then JIntent (opt_str (jr_attempt_id r)) (intent_dict r) (jr_resolved r)
      else if jr_entry_kind r = ''record'' then JRecord (the (jr_command_status r)) else JClear)"

text \<open>Example calls: a refused first attempt, its record, a later attempt of another binding.\<close>

definition example_journal :: "journal_op list" where
  "example_journal =
     [JAppendIntent ''z1'' ''p'' ''a1'' 1 OPEN_PROTECTED_CIRCUIT 10,
      JAppendRecord ''z1'' ''p'' ''driver_refused'' 11,
      JMarkResolved ''z1'' ''p'',
      JAppendIntent ''z1'' ''p'' ''a2'' 1 OPEN_PROTECTED_CIRCUIT 12,
      JAppendClear ''z2'' ''p'' 13]"

section \<open>Lemmas\<close>

lemma insert_row_sel [simp]:
  "jdb_rows (insert_row db f) = jdb_rows db @ [f (jdb_next db)]"
  "jdb_next (insert_row db f) = Suc (jdb_next db)"
  by (simp_all add: insert_row_def)

lemma row_meaning_decode:
  assumes "row_ok r" and "of_pair z p r"
  shows "decode_entry z p (row_entry r) = Some (row_meaning r)"
proof -
  consider "jr_entry_kind r = ''intent''" | "jr_entry_kind r = ''record''" | "jr_entry_kind r = ''clear''"
    using assms(1) by (auto simp: row_ok_def)
  then show ?thesis
  proof cases
    case 1
    then have "intent_is_well_formed (PyDict (intent_dict r)) z p"
      using assms by (auto simp: row_ok_def of_pair_def intent_is_well_formed_def intent_dict_def
          INTENT_FIELDS_def field_def opt_str_def opt_int_def is_bool_def)
    with 1 show ?thesis
      by (simp add: decode_entry_def row_entry_def row_meaning_def) (simp add: intent_dict_def field_def)
  next
    case 2
    with assms(1) show ?thesis
      by (auto simp: row_ok_def decode_entry_def row_entry_def row_meaning_def field_def opt_str_def)
  next
    case 3
    then show ?thesis by (simp add: decode_entry_def row_entry_def row_meaning_def)
  qed
qed

lemma justified_append_single:
  "justified rs \<Longrightarrow> \<not> jr_resolved r \<Longrightarrow> justified (rs @ [r])"
  by (induction rs) auto

lemma row_ok_resolved_intent: "row_ok r \<Longrightarrow> jr_resolved r \<Longrightarrow> \<not> mark_row r"
  by (auto simp: row_ok_def mark_row_def)

lemma foldr_max_ge: "n \<le> foldr (\<lambda>x m. max (jr_seq x) m) rs n"
  by (induction rs) auto

lemma foldr_max_in: "foldr (\<lambda>x m. max (jr_seq x) m) rs n = n
    \<or> (\<exists>x \<in> set rs. jr_seq x = foldr (\<lambda>x m. max (jr_seq x) m) rs n)"
  by (induction rs) (auto simp: max_def)

lemma last_mark_seq_row:
  assumes "last_mark_seq rows z p = Some n"
  obtains m where "m \<in> set rows" "of_pair z p m" "mark_row m" "jr_seq m = n"
proof -
  from assms obtain r rs where f: "filter (\<lambda>r. of_pair z p r \<and> mark_row r) rows = r # rs"
    and n: "n = foldr (\<lambda>x m. max (jr_seq x) m) rs (jr_seq r)"
    by (auto simp: last_mark_seq_def split: list.splits)
  from foldr_max_in [of rs "jr_seq r"] n obtain m where "m \<in> set (r # rs)" "jr_seq m = n"
    by fastforce
  moreover from this(1) have "m \<in> set (filter (\<lambda>r. of_pair z p r \<and> mark_row r) rows)"
    by (simp only: f)
  ultimately show thesis using that by auto
qed

lemma resolve_below_sel [simp]:
  "jr_seq (resolve_below z p n r) = jr_seq r" "jr_zone_id (resolve_below z p n r) = jr_zone_id r"
  "jr_profile_id (resolve_below z p n r) = jr_profile_id r"
  "jr_entry_kind (resolve_below z p n r) = jr_entry_kind r"
  "jr_attempt_id (resolve_below z p n r) = jr_attempt_id r"
  "of_pair z' p' (resolve_below z p n r) = of_pair z' p' r"
  "mark_row (resolve_below z p n r) = mark_row r"
  "row_ok (resolve_below z p n r) = row_ok r"
  by (auto simp: resolve_below_def of_pair_def mark_row_def row_ok_def)

lemma justified_resolve_below:
  assumes "sorted_wrt (\<lambda>a b. jr_seq a < jr_seq b) rows" and "justified rows"
    and "of_pair z p m" and "mark_row m"
    and "m \<in> set rows \<or> (\<forall>r \<in> set rows. jr_seq m \<le> jr_seq r)"
  shows "justified (map (resolve_below z p (jr_seq m)) rows)"
  using assms
proof (induction rows)
  case Nil
  then show ?case by simp
next
  case (Cons r rs)
  let ?f = "resolve_below z p (jr_seq m)"
  have "m \<in> set rs \<or> (\<forall>x \<in> set rs. jr_seq m \<le> jr_seq x)"
    using Cons.prems(1,5) by (auto simp: less_imp_le)
  then have tail: "justified (map ?f rs)" using Cons by auto
  have "jr_resolved (?f r) \<Longrightarrow>
    list_ex (\<lambda>x. of_pair (jr_zone_id r) (jr_profile_id r) x \<and> mark_row x) (map ?f rs)"
  proof -
    assume res: "jr_resolved (?f r)"
    show ?thesis
    proof (cases "jr_resolved r")
      case True
      with Cons.prems(2) show ?thesis by (auto simp: list_ex_iff)
    next
      case False
      with res have "of_pair z p r" and "jr_seq r < jr_seq m"
        by (auto simp: resolve_below_def split: if_splits)
      then have "m \<in> set rs" using Cons.prems(5) by auto
      moreover have "of_pair (jr_zone_id r) (jr_profile_id r) m"
        using \<open>of_pair z p r\<close> Cons.prems(3) by (simp add: of_pair_def)
      ultimately show ?thesis using Cons.prems(4) by (auto simp: list_ex_iff)
    qed
  qed
  with tail show ?case by simp
qed

lemma journal_inv_mark_resolved:
  assumes "journal_inv db"
  shows "journal_inv (mark_resolved db z p)"
proof (cases "last_mark_seq (jdb_rows db) z p")
  case None
  with assms show ?thesis by (simp add: mark_resolved_def)
next
  case (Some n)
  then obtain m where m: "m \<in> set (jdb_rows db)" "of_pair z p m" "mark_row m" "jr_seq m = n"
    by (rule last_mark_seq_row)
  then have "justified (map (resolve_below z p n) (jdb_rows db))"
    using justified_resolve_below [of "jdb_rows db" z p m] assms by (auto simp: journal_inv_def)
  with Some assms show ?thesis
    by (simp add: mark_resolved_def journal_inv_def list_all_iff sorted_wrt_map filter_map o_def)
qed

lemma journal_inv_insert:
  assumes "journal_inv db" and "\<And>n. row_ok (f n)" and "\<And>n. jr_seq (f n) = n"
    and "\<And>n. \<not> jr_resolved (f n)"
    and "\<And>n. jr_attempt_id (f n) = None \<or> jr_attempt_id (f n) \<notin> set (map jr_attempt_id (jdb_rows db))"
  shows "journal_inv (insert_row db f)"
proof -
  have "jr_attempt_id (f (jdb_next db)) = None
      \<or> jr_attempt_id (f (jdb_next db)) \<notin> jr_attempt_id ` set (jdb_rows db)"
    using assms(5) [of "jdb_next db"] by simp
  then have "distinct (map jr_attempt_id (filter (\<lambda>r. jr_attempt_id r \<noteq> None) (jdb_rows (insert_row db f))))"
    using assms(1) by (auto simp: journal_inv_def image_iff)
  with assms(1-4) show ?thesis
    by (auto simp: journal_inv_def sorted_wrt_append list_all_iff intro!: justified_append_single)
qed

lemma journal_inv_call:
  assumes "journal_inv db" and "journal_allowed db x" and "journal_call db x = Inr (db', u)"
  shows "journal_inv db'"
proof (cases x)
  case (JAppendIntent z p a b out t)
  with assms show ?thesis
    by (auto simp: append_intent_def journal_allowed_def row_ok_def intro!: journal_inv_insert)
next
  case (JAppendRecord z p st t)
  with assms show ?thesis
    by (auto simp: append_record_def row_ok_def bind_res_Inr_iff intro!: journal_inv_insert
        split: if_splits)
next
  case (JAppendClear z p t)
  with assms show ?thesis
    by (auto simp: append_clear_def row_ok_def intro!: journal_inv_insert)
next
  case (JMarkResolved z p)
  with assms show ?thesis by (auto simp: journal_inv_mark_resolved)
qed

text \<open>The journal store as an object with an invariant.\<close>

interpretation journal: invariant_object journal_call journal_inv journal_allowed
  by unfold_locales (rule journal_inv_call)

lemma journal_inv_empty: "journal_inv empty_journal"
  by (simp add: journal_inv_def empty_journal_def)

subsection \<open>What a restart reads\<close>

lemma is_mark_row: "row_ok r \<Longrightarrow> is_mark (row_meaning r) = mark_row r"
  by (auto simp: row_ok_def row_meaning_def mark_row_def)

lemma open_tail_Cons:
  "open_tail (e # es) = (if list_ex is_mark es then open_tail es else if is_mark e then es else e # es)"
proof (cases "list_ex is_mark es")
  case True
  then have "takeWhile (\<lambda>e. \<not> is_mark e) (rev es @ [e]) = takeWhile (\<lambda>e. \<not> is_mark e) (rev es)"
    by (auto simp: list_ex_iff intro: takeWhile_append1)
  with True show ?thesis by (simp add: open_tail_def)
next
  case False
  then have "takeWhile (\<lambda>e. \<not> is_mark e) (rev es) = rev es"
    by (auto simp: list_ex_iff takeWhile_eq_all_conv)
  with False show ?thesis by (simp add: open_tail_def takeWhile_append)
qed

lemma open_tail_no_mark: "\<not> list_ex is_mark es \<Longrightarrow> open_tail es = es"
  by (induction es) (auto simp: open_tail_Cons, simp add: open_tail_def)

lemma justified_open_tail:
  assumes "justified rows" and "list_all row_ok rows"
  shows "\<not> list_ex resolved_intent (open_tail (map row_meaning (filter (of_pair z p) rows)))"
  using assms
proof (induction rows)
  case Nil
  then show ?case by (simp add: open_tail_def)
next
  case (Cons r rs)
  let ?es = "map row_meaning (filter (of_pair z p) rs)"
  from Cons have IH: "\<not> list_ex resolved_intent (open_tail ?es)" by simp
  show ?case
  proof (cases "of_pair z p r")
    case True
    have marks: "list_ex is_mark ?es" if "jr_resolved r"
      using that True Cons.prems
      by (fastforce simp: list_ex_iff list_all_iff is_mark_row of_pair_def)
    note open_tail_no_mark [of ?es]
    moreover have "\<not> resolved_intent (row_meaning r)" if "\<not> jr_resolved r"
      using that by (auto simp: row_meaning_def)
    ultimately show ?thesis using True marks IH by (auto simp: open_tail_Cons)
  next
    case False
    with IH show ?thesis by simp
  qed
qed

lemma attempts_rows:
  assumes "list_all row_ok rows"
  shows "attempts (map row_meaning rows) = map (opt_str \<circ> jr_attempt_id) (filter (\<lambda>r. jr_attempt_id r \<noteq> None) rows)"
  using assms
proof (induction rows)
  case (Cons r rs)
  then show ?case by (cases "jr_attempt_id r") (auto simp: row_ok_def row_meaning_def)
qed simp

lemma distinct_attempts_rows:
  assumes "journal_inv db"
  shows "distinct (attempts (map row_meaning (filter (of_pair z p) (jdb_rows db))))"
proof -
  let ?rows = "filter (\<lambda>r. jr_attempt_id r \<noteq> None) (filter (of_pair z p) (jdb_rows db))"
  have "distinct (map jr_attempt_id (filter (\<lambda>r. jr_attempt_id r \<noteq> None) (jdb_rows db)))"
    using assms by (simp add: journal_inv_def)
  then have "distinct (map jr_attempt_id (filter (of_pair z p) (filter (\<lambda>r. jr_attempt_id r \<noteq> None) (jdb_rows db))))"
    by (rule distinct_map_filter)
  then have "distinct (map jr_attempt_id ?rows)" by (simp add: conj_commute)
  moreover have "inj opt_str" by (auto simp: inj_on_def opt_str_def split: option.splits)
  ultimately have "distinct (map (opt_str \<circ> jr_attempt_id) ?rows)"
    by (metis distinct_map inj_on_subset list.map_comp subset_UNIV)
  moreover have "list_all row_ok (filter (of_pair z p) (jdb_rows db))"
    using assms by (auto simp: journal_inv_def list_all_iff)
  ultimately show ?thesis by (simp add: attempts_rows)
qed

lemma surviving_rows:
  assumes "list_all row_ok rows"
  shows "foldl record_survives_after False rows = (surviving_record (map row_meaning rows) \<noteq> None)"
  using assms
proof (induction rows rule: rev_induct)
  case Nil
  then show ?case by (simp add: surviving_record_def)
next
  case (snoc r rs)
  then show ?case
    by (auto simp: surviving_record_snoc record_survives_after_def row_meaning_def row_ok_def)
qed

lemma load_journal_of_load:
  assumes "journal_inv db" and "load db z p = (ds, j)"
  defines "es \<equiv> map row_meaning (filter (of_pair z p) (jdb_rows db))"
  shows "load_journal j z p = Inr (surviving_record es, governing_of (open_tail es))"
    and "ds = (if surviving_record es \<noteq> None then Some ''tripped'' else None)"
    and "j = [] \<longleftrightarrow> es = []"
proof -
  let ?rows = "filter (of_pair z p) (jdb_rows db)"
  have ok: "list_all row_ok ?rows" using assms(1) by (auto simp: journal_inv_def list_all_iff)
  have j: "j = map row_entry ?rows" and ds: "ds = (if foldl record_survives_after False ?rows then Some ''tripped'' else None)"
    using assms(2) by (auto simp: load_def Let_def)
  have "map (decode_entry z p) j = map Some es"
    using ok by (auto simp: j es_def list_all_iff intro: row_meaning_decode)
  moreover have "distinct (attempts es)"
    using distinct_attempts_rows [OF assms(1), of z p] by (simp add: es_def)
  moreover have "\<not> list_ex resolved_intent (open_tail es)"
    using justified_open_tail [of "jdb_rows db" z p] assms(1) by (simp add: es_def journal_inv_def)
  ultimately show "load_journal j z p = Inr (surviving_record es, governing_of (open_tail es))"
    unfolding load_journal_iff by (intro exI [of _ es]) simp
  show "ds = (if surviving_record es \<noteq> None then Some ''tripped'' else None)"
    using ds surviving_rows [OF ok] by (simp add: es_def)
  show "j = [] \<longleftrightarrow> es = []" by (simp add: j es_def)
qed

lemma governing_last_intent:
  assumes "\<not> list_ex resolved_intent (open_tail (es @ [JIntent a d r]))"
  shows "governing_of (open_tail (es @ [JIntent a d r])) = Some (GIntent d)"
  using assms by (cases r) (simp_all add: open_tail_snoc governing_of_def)

lemma status_of_not_legacy: "st \<in> {''command_pending'', ''driver_refused'', ''command_issued''} \<Longrightarrow> st \<noteq> ''legacy''"
  by auto

lemma forget_start_facts_keeps [simp]:
  "m_zone_id (forget_start_facts m) = m_zone_id m" "m_profile_id (forget_start_facts m) = m_profile_id m"
  by (simp_all add: forget_start_facts_def)

lemma startup_governed:
  assumes "load_journal j (m_zone_id m) (m_profile_id m) = Inr (rs, Some g)" and "j \<noteq> []"
    and "ds = None \<or> ds = Some ''tripped''"
  shows "\<exists>m' t. m_startup m ds j None b = Inr (m', t) \<and> m_state m' = TRIPPED
    \<and> m_command_status m' = CS_command_pending
    \<and> m_orphaned m' = (case g of GCorrupt \<Rightarrow> False | GIntent d \<Rightarrow> field d ''binding_seq'' \<noteq> PyInt b)"
  using assms by (auto simp: m_startup_def durable_record_status_def Let_def)

lemma startup_recorded:
  assumes "load_journal j (m_zone_id m) (m_profile_id m) = Inr (Some st, None)" and "j \<noteq> []"
    and "ds = Some ''tripped''" and "st \<noteq> ''legacy''"
  shows "\<exists>m' t. m_startup m ds j None b = Inr (m', t) \<and> m_state m' = TRIPPED
    \<and> m_command_status m' = status_of st"
  using assms by (auto simp: m_startup_def durable_record_status_def Let_def)

lemma startup_clean:
  assumes "load_journal j (m_zone_id m) (m_profile_id m) = Inr (None, None)" and "ds = None"
  shows "\<exists>m' t. m_startup m ds j None b = Inr (m', t) \<and> m_state m' = INACTIVE
    \<and> m_command_status m' = CS_none"
  using assms by (auto simp: m_startup_def durable_record_status_def Let_def)

lemma startup_of_load:
  assumes inv: "journal_inv db" and ld: "load db (m_zone_id m) (m_profile_id m) = (ds, j)"
  defines "rows \<equiv> filter (of_pair (m_zone_id m) (m_profile_id m)) (jdb_rows db)"
  shows "\<exists>m' t. m_startup m ds j None b = Inr (m', t)
    \<and> (m_state m', m_command_status m') = recalled rows
    \<and> (rows \<noteq> [] \<and> jr_entry_kind (last rows) = ''intent'' \<longrightarrow>
        m_orphaned m' = (jr_binding_seq (last rows) \<noteq> Some b))"
proof (cases rows rule: rev_cases)
  case Nil
  then have "recalled rows = (INACTIVE, CS_none)" and "map row_meaning rows = []"
    by (simp_all add: recalled_def)
  with load_journal_of_load [OF inv ld] startup_clean [of j m ds b] Nil show ?thesis
    by (simp add: rows_def [symmetric] surviving_record_def governing_of_def open_tail_def)
next
  case (snoc rs r)
  define es where "es = map row_meaning rows"
  note lj = load_journal_of_load [OF inv ld, folded rows_def, folded es_def]
  have es: "es = map row_meaning rs @ [row_meaning r]" by (simp add: es_def snoc)
  have "r \<in> set rows" by (simp add: snoc)
  then have ok: "row_ok r" using inv by (simp add: rows_def journal_inv_def list_all_iff)
  have unres: "\<not> list_ex resolved_intent (open_tail es)"
    using justified_open_tail [of "jdb_rows db" "m_zone_id m" "m_profile_id m"] inv
    by (simp add: es_def rows_def journal_inv_def)
  have j: "j \<noteq> []" using lj(3) es by simp
  from ok consider (i) "jr_entry_kind r = ''intent''" | (r) "jr_entry_kind r = ''record''"
    | (c) "jr_entry_kind r = ''clear''" by (auto simp: row_ok_def)
  then show ?thesis
  proof cases
    case i
    then have rm: "row_meaning r = JIntent (opt_str (jr_attempt_id r)) (intent_dict r) (jr_resolved r)"
      by (simp add: row_meaning_def)
    have "governing_of (open_tail es) = Some (GIntent (intent_dict r))"
      using unres unfolding es rm by (rule governing_last_intent)
    moreover have "(field (intent_dict r) ''binding_seq'' \<noteq> PyInt b) = (jr_binding_seq r \<noteq> Some b)"
      using ok i by (auto simp: intent_dict_def field_def opt_int_def row_ok_def)
    ultimately show ?thesis using lj(1,2) startup_governed [OF _ j, of m _ _ ds b] i snoc
      by (simp add: recalled_def)
  next
    case r
    then obtain st where st: "jr_command_status r = Some st"
        "st \<in> {''command_pending'', ''driver_refused'', ''command_issued''}"
      using ok by (auto simp: row_ok_def)
    with r have "row_meaning r = JRecord st" by (simp add: row_meaning_def)
    then have "open_tail es = []" and "surviving_record es = Some st"
      by (simp_all add: es open_tail_snoc surviving_record_snoc)
    then show ?thesis
      using lj(1,2) startup_recorded [OF _ j _ status_of_not_legacy [OF st(2)], of m ds b] r snoc st(1)
      by (simp add: recalled_def governing_of_def)
  next
    case c
    then have "row_meaning r = JClear" by (simp add: row_meaning_def)
    then have "open_tail es = []" and "surviving_record es = None"
      by (simp_all add: es open_tail_snoc surviving_record_snoc)
    then show ?thesis using lj(1,2) startup_clean [of j m ds b] c snoc
      by (simp add: recalled_def governing_of_def)
  qed
qed

section \<open>Properties\<close>

text \<open>
  C24. What the journal wrote, a restart recalls: after any sequence of journal calls the
  registry makes, from an empty table, loading a pair and starting its machine never fails,
  and the last row of the pair decides the state. A pair with no row, or whose last row is a
  clear, starts inactive; a last record restores tripped with the recorded status; a last
  intent restores tripped with the command pending, orphaned exactly when its binding is no
  longer the one in force. No resolution mark and no other pair's rows change this.
\<close>

theorem restart_recalls_trip:
  fixes m :: trip_machine
  assumes "runs_ok journal_call journal_allowed empty_journal xs"
  defines "db \<equiv> run_ops journal_call empty_journal xs"
  defines "rows \<equiv> filter (of_pair (m_zone_id m) (m_profile_id m)) (jdb_rows db)"
  shows "\<exists>m' t. m_startup m (fst (load db (m_zone_id m) (m_profile_id m)))
        (snd (load db (m_zone_id m) (m_profile_id m))) None b = Inr (m', t)
      \<and> (m_state m', m_command_status m') = recalled rows
      \<and> (rows \<noteq> [] \<and> jr_entry_kind (last rows) = ''intent'' \<longrightarrow>
          m_orphaned m' = (jr_binding_seq (last rows) \<noteq> Some b))"
proof -
  have "journal_inv db"
    using journal.inv_run [OF journal_inv_empty assms(1)] by (simp add: db_def)
  from startup_of_load [OF this prod.collapse [symmetric], of m b] show ?thesis
    unfolding rows_def by metis
qed

theorem restart_recalls_trip_witness:
  "\<exists>m'. m_state m' = TRIPPED \<and> m_command_status m' = CS_command_pending
     \<and> (\<exists>t. m_startup example_machine
         (fst (load (run_ops journal_call empty_journal example_journal) ''z1'' ''p''))
         (snd (load (run_ops journal_call empty_journal example_journal) ''z1'' ''p''))
         None 2 = Inr (m', t))"
proof -
  have ok: "runs_ok journal_call journal_allowed empty_journal example_journal" by code_simp
  have ex: "m_zone_id example_machine = ''z1''" "m_profile_id example_machine = ''p''"
    by code_simp+
  have "recalled (filter (of_pair ''z1'' ''p'')
      (jdb_rows (run_ops journal_call empty_journal example_journal))) = (TRIPPED, CS_command_pending)"
    by code_simp
  with restart_recalls_trip [OF ok, of example_machine 2] show ?thesis unfolding ex by auto
qed

end
