(* ===== verification/Safety_Registry.thy ===== *)
theory Safety_Registry
  imports Actuation Trip_Journal "HOL-Library.AList"
begin

text \<open>
  \<open>ori/safety/registry.py\<close>: activation, the machines of the pairs, the deferred gates, the
  trip sequence, its retries, the safety notices and the measurement-loss watch.

  The registry owns its machines, so they are part of its state, with the journal table and
  the commander it writes through. What the environment answers is an input of the step: the
  fate of a journal write, the answer of the GPIO library, the clock, the notice sink. Each
  method runs as one step; an intent append that outlives its grace keeps running on its own
  and finishes in a step of its own.
\<close>

type_synonym pair = "string \<times> string"

record active_pair =
  a_zone_id :: string
  a_profile_id :: string
  a_sensor_id :: string
  a_trip_point :: pyfloat
  a_outcome :: string
  a_unit :: string
  a_range_min :: pyfloat
  a_range_max :: pyfloat
  a_terminal_state :: string
  a_binding_seq :: int
  a_actuator_identity :: "string \<times> string"
  a_profile_status :: string

datatype registry_error =
    RegPermissionError | RegActuation act_error | RegTrip trip_error | RegKeyError | RegAssertion
  | RegValueError

abbreviation SUPPRESSION_MS :: int where "SUPPRESSION_MS \<equiv> 300000"
abbreviation LOSS_INTERVALS :: int where "LOSS_INTERVALS \<equiv> 5"
abbreviation LOSS_FLOOR_MS :: int where "LOSS_FLOOR_MS \<equiv> 60000"
abbreviation BACKOFF_BASE :: int where "BACKOFF_BASE \<equiv> 1"
abbreviation BACKOFF_CAP :: int where "BACKOFF_CAP \<equiv> 60"

text \<open>An intent append in flight, with the row it will write.\<close>

record intent_task =
  it_pair :: pair
  it_attempt_id :: string
  it_binding_seq :: int
  it_outcome :: string
  it_created_at_ms :: int

text \<open>
  The notices that reached the sink are kept, newest first, as ((pair, kind), time).
\<close>

record registry =
  rg_journal :: journal_db
  rg_commander :: commander
  rg_binding_seq :: int
  rg_running :: "intent_task list"
  rg_unsettled :: "pair \<rightharpoonup> string"
  rg_sink_wired :: bool
  rg_poll_intervals :: "string \<rightharpoonup> int"
  rg_started_ms :: int
  rg_last_credible :: "pair \<rightharpoonup> int"
  rg_degraded :: "pair set"
  rg_rejected :: "pair set"
  rg_rejected_reason :: "pair \<rightharpoonup> string"
  rg_last_alert :: "pair \<times> string \<rightharpoonup> int"
  rg_suppressed :: nat
  rg_notices :: "((pair \<times> string) \<times> int) list"
  rg_terminal :: "(string \<times> string) list"
  rg_activation :: activation_result
  rg_authority :: nat
  rg_active :: "(pair \<times> active_pair) list"
  rg_machines :: "(pair \<times> trip_machine) list"
  rg_gates :: "string \<rightharpoonup> startup_gate"

section \<open>Construction\<close>

definition zones_by_id :: "accepted_zone list \<Rightarrow> (string \<times> accepted_zone) list" where
  "zones_by_id zones = fold (\<lambda>z al. AList.update (zf_zone_id z) z al) zones []"

definition from_accepted_zone :: "accepted_zone \<Rightarrow> zone_facts" where
  "from_accepted_zone z = zone_facts.truncate z"

definition terminal_of :: "accepted_zone \<Rightarrow> string" where
  "terminal_of z =
     (case map_of (az_mapping z) ''de_energised_terminal_state'' of None \<Rightarrow> ''open'' | Some s \<Rightarrow> s)"

definition active_entry :: "accepted_zone \<Rightarrow> activated_profile \<Rightarrow> int \<Rightarrow> active_pair" where
  "active_entry z e binding_seq =
     \<lparr>a_zone_id = ap_zone_id e, a_profile_id = ap_profile_id e, a_sensor_id = ap_sensor_id e,
      a_trip_point = ap_trip_point e, a_outcome = ap_outcome e, a_unit = zf_unit z,
      a_range_min = zf_range_min z, a_range_max = zf_range_max z,
      a_terminal_state = terminal_of z, a_binding_seq = binding_seq,
      a_actuator_identity = az_identity_key z, a_profile_status = ap_profile_status e\<rparr>"

definition add_active ::
  "(string \<times> accepted_zone) list \<Rightarrow> int \<Rightarrow> activated_profile \<Rightarrow> (pair \<times> active_pair) list
     \<Rightarrow> registry_error + (pair \<times> active_pair) list" where
  "add_active zs binding_seq e al =
     (case map_of zs (ap_zone_id e) of
        None \<Rightarrow> Inl RegKeyError
      | Some z \<Rightarrow> Inr (AList.update (ap_zone_id e, ap_profile_id e) (active_entry z e binding_seq) al))"

definition new_registry ::
  "profile_set \<Rightarrow> accepted_zone list \<Rightarrow> journal_db \<Rightarrow> commander \<Rightarrow> int \<Rightarrow> bool
     \<Rightarrow> (string \<rightharpoonup> int) \<Rightarrow> int \<Rightarrow> nat \<Rightarrow> registry_error + registry" where
  "new_registry ps zones journal c binding_seq sink_wired poll_intervals started_ms authority =
     (let zs = zones_by_id zones in
      case activate ps (map (from_accepted_zone \<circ> snd) zs) of
        Inl _ \<Rightarrow> Inl RegAssertion
      | Inr act \<Rightarrow>
          bind_res (fold_res (add_active zs binding_seq) (ar_activated act) []) (\<lambda>active.
            Inr \<lparr>rg_journal = journal, rg_commander = c, rg_binding_seq = binding_seq,
              rg_running = [], rg_unsettled = Map.empty, rg_sink_wired = sink_wired,
              rg_poll_intervals = poll_intervals, rg_started_ms = started_ms,
              rg_last_credible = Map.empty, rg_degraded = {}, rg_rejected = {},
              rg_rejected_reason = Map.empty, rg_last_alert = Map.empty, rg_suppressed = 0,
              rg_notices = [], rg_terminal = map (\<lambda>(k, z). (k, terminal_of z)) zs,
              rg_activation = act, rg_authority = authority, rg_active = active,
              rg_machines = [], rg_gates = Map.empty\<rparr>))"

definition by_sensor :: "registry \<Rightarrow> string \<Rightarrow> pair list" where
  "by_sensor reg sensor_id = map fst (filter (\<lambda>(k, e). a_sensor_id e = sensor_id) (rg_active reg))"

definition zones_with_active_pairs :: "registry \<Rightarrow> string list" where
  "zones_with_active_pairs reg = remdups (map (a_zone_id \<circ> snd) (rg_active reg))"

definition set_machine :: "registry \<Rightarrow> pair \<Rightarrow> trip_machine \<Rightarrow> registry" where
  "set_machine reg pair m = reg\<lparr>rg_machines := AList.update pair m (rg_machines reg)\<rparr>"

definition zone_tripped :: "registry \<Rightarrow> string \<Rightarrow> bool" where
  "zone_tripped reg zone_id =
     list_ex (\<lambda>(k, m). fst k = zone_id \<and> m_state m = TRIPPED) (rg_machines reg)"

section \<open>Startup\<close>

definition load_pair :: "pair \<Rightarrow> registry \<Rightarrow> registry_error + registry" where
  "load_pair pair reg =
     (let entry = map_of (rg_active reg) pair;
          terminal = (case entry of Some e \<Rightarrow> a_terminal_state e
            | None \<Rightarrow> (case map_of (rg_terminal reg) (fst pair) of None \<Rightarrow> ''open'' | Some s \<Rightarrow> s));
          (durable_state, journal) = load (rg_journal reg) (fst pair) (snd pair) in
      case bind_res (new_machine (fst pair) (snd pair) terminal)
             (\<lambda>m. m_startup m durable_state journal None (rg_binding_seq reg)) of
        Inl e \<Rightarrow> Inl (RegTrip e)
      | Inr (m, t) \<Rightarrow>
          (let m' = (if entry = None then fst (binding_removed m) else m);
               reg' = set_machine reg pair m' in
           Inr (if t_startup_command t = Some SC_deferred \<and> rg_gates reg' (fst pair) = None
                then reg'\<lparr>rg_gates := (rg_gates reg')(fst pair \<mapsto> new_gate True)\<rparr> else reg')))"

text \<open>The startup command of one zone; \<open>ans\<close> is the library's answer for the zone.\<close>

definition start_zone :: "(string \<Rightarrow> gpio_answer) \<Rightarrow> string \<Rightarrow> registry \<Rightarrow> registry_error + registry" where
  "start_zone ans zone_id reg =
     (if zone_tripped reg zone_id then
        Inr (case rg_gates reg zone_id of None \<Rightarrow> reg
             | Some g \<Rightarrow> reg\<lparr>rg_gates := (rg_gates reg)(zone_id \<mapsto> note_trip g)\<rparr>)
      else case map_of (rg_terminal reg) zone_id of
        None \<Rightarrow> Inl RegKeyError
      | Some terminal \<Rightarrow>
          if terminal = ''open'' then
            (case command_startup_de_energised (rg_commander reg) zone_id (ans zone_id) of
               (c, Inl e) \<Rightarrow> Inl (RegActuation e)
             | (c, Inr _) \<Rightarrow> Inr (reg\<lparr>rg_commander := c\<rparr>))
          else Inr reg)"

definition start :: "registry \<Rightarrow> (string \<Rightarrow> gpio_answer) \<Rightarrow> registry_error + registry" where
  "start reg ans =
     bind_res (fold_res load_pair (remdups (pairs (rg_journal reg) @ map fst (rg_active reg))) reg) (\<lambda>reg'.
       fold_res (start_zone ans) (zones_with_active_pairs reg') reg')"

section \<open>The executor\<close>

definition execute ::
  "registry \<Rightarrow> nat \<Rightarrow> pair \<Rightarrow> string \<Rightarrow> int \<Rightarrow> string \<times> string \<Rightarrow> gpio_answer
     \<Rightarrow> registry \<times> (registry_error + bool)" where
  "execute reg authority pair outcome binding_seq identity ans =
     (if authority \<noteq> rg_authority reg then (reg, Inl RegPermissionError)
      else case map_of (rg_active reg) pair of
        None \<Rightarrow> (reg, Inl RegPermissionError)
      | Some entry \<Rightarrow>
          if a_binding_seq entry \<noteq> binding_seq \<or> a_actuator_identity entry \<noteq> identity
          then (reg, Inl RegPermissionError)
          else if outcome \<noteq> a_outcome entry then (reg, Inl RegPermissionError)
          else case command_outcome (rg_commander reg) (a_zone_id entry) outcome ans of
            (c, Inl e) \<Rightarrow> (reg\<lparr>rg_commander := c\<rparr>, Inl (RegActuation e))
          | (c, Inr accepted) \<Rightarrow> (reg\<lparr>rg_commander := c\<rparr>, Inr accepted))"

section \<open>One attempt\<close>

text \<open>
  The fates of an intent append: finished by the time the record is written, committed or
  failed, or still running when the record's grace ends. Of a record write: committed and
  the intents marked, failed, or committed with the mark failed.
\<close>

datatype intent_fate = IntentCommits | IntentFails | IntentRuns

datatype record_fate = RecordCommits | RecordFails | MarkFails

record attempt_env =
  e_attempt_id :: string
  e_intent_at :: int
  e_intent :: intent_fate
  e_gpio :: gpio_answer
  e_record :: record_fate
  e_record_at :: int

fun status_name :: "command_status \<Rightarrow> string" where
  "status_name CS_none = ''none''"
| "status_name CS_command_pending = ''command_pending''"
| "status_name CS_driver_refused = ''driver_refused''"
| "status_name CS_command_issued = ''command_issued''"

definition commit_intent :: "journal_db \<Rightarrow> intent_task \<Rightarrow> journal_db" where
  "commit_intent db t = append_intent db (fst (it_pair t)) (snd (it_pair t)) (it_attempt_id t)
     (it_binding_seq t) (it_outcome t) (it_created_at_ms t)"

definition begin_intent :: "registry \<Rightarrow> pair \<Rightarrow> active_pair \<Rightarrow> attempt_env \<Rightarrow> registry" where
  "begin_intent reg pair entry env =
     (let task = \<lparr>it_pair = pair, it_attempt_id = e_attempt_id env, it_binding_seq = a_binding_seq entry,
            it_outcome = a_outcome entry, it_created_at_ms = e_intent_at env\<rparr>;
          reg1 = reg\<lparr>rg_unsettled := (rg_unsettled reg)(pair \<mapsto> e_attempt_id env)\<rparr> in
      case e_intent env of
        IntentCommits \<Rightarrow> reg1\<lparr>rg_journal := commit_intent (rg_journal reg1) task\<rparr>
      | IntentFails \<Rightarrow> reg1
      | IntentRuns \<Rightarrow> reg1\<lparr>rg_running := rg_running reg1 @ [task]\<rparr>)"

definition running :: "registry \<Rightarrow> string \<Rightarrow> bool" where
  "running reg attempt_id = list_ex (\<lambda>t. it_attempt_id t = attempt_id) (rg_running reg)"

text \<open>The two writes of a record; the answer is whether both returned.\<close>

definition write_record ::
  "registry \<Rightarrow> pair \<Rightarrow> trip_machine \<Rightarrow> record_fate \<Rightarrow> int \<Rightarrow> registry \<times> bool" where
  "write_record reg pair m fate at_ms =
     (if fate = RecordFails then (reg, False)
      else case append_record (rg_journal reg) (fst pair) (snd pair) (status_name (m_command_status m)) at_ms of
        Inl _ \<Rightarrow> (reg, False)
      | Inr db \<Rightarrow>
          if fate = MarkFails then (reg\<lparr>rg_journal := db\<rparr>, False)
          else (reg\<lparr>rg_journal := mark_resolved db (fst pair) (snd pair)\<rparr>, True))"

definition persist_record :: "registry \<Rightarrow> pair \<Rightarrow> trip_machine \<Rightarrow> attempt_env \<Rightarrow> registry" where
  "persist_record reg pair m env =
     (if running reg (e_attempt_id env) then set_machine reg pair (record_write_failed m)
      else case write_record (reg\<lparr>rg_unsettled := (rg_unsettled reg)(pair := None)\<rparr>) pair m
                  (e_record env) (e_record_at env) of
        (reg', ok) \<Rightarrow> set_machine reg' pair (if ok then m else record_write_failed m))"

definition attempt_command ::
  "registry \<Rightarrow> pair \<Rightarrow> active_pair \<Rightarrow> trip_machine \<Rightarrow> attempt_env
     \<Rightarrow> registry \<times> (registry_error + bool option)" where
  "attempt_command reg pair entry m env =
     (let reg1 = begin_intent reg pair entry env in
      case begin_driver_attempt m of
        Inl e \<Rightarrow> (reg1, Inl (RegTrip e))
      | Inr (m1, _) \<Rightarrow>
          (case execute reg1 (rg_authority reg1) pair (a_outcome entry) (a_binding_seq entry)
                  (a_actuator_identity entry) (e_gpio env) of
             (reg2, Inl _) \<Rightarrow>
               (case release_driver_attempt m1 of
                  Inl e \<Rightarrow> (set_machine reg2 pair m1, Inl (RegTrip e))
                | Inr (m2, _) \<Rightarrow> (persist_record reg2 pair m2 env, Inr None))
           | (reg2, Inr accepted) \<Rightarrow>
               (case record_driver_result m1 accepted of
                  Inl e \<Rightarrow> (set_machine reg2 pair m1, Inl (RegTrip e))
                | Inr (m2, _) \<Rightarrow> (persist_record reg2 pair m2 env, Inr (Some accepted)))))"

text \<open>An append that outlived its grace finishes, committed or not.\<close>

definition intent_finishes :: "registry \<Rightarrow> string \<Rightarrow> bool \<Rightarrow> registry" where
  "intent_finishes reg attempt_id committed =
     (case filter (\<lambda>t. it_attempt_id t = attempt_id) (rg_running reg) of
        [] \<Rightarrow> reg
      | t # _ \<Rightarrow>
          reg\<lparr>rg_running := filter (\<lambda>t. it_attempt_id t \<noteq> attempt_id) (rg_running reg),
              rg_journal := (if committed then commit_intent (rg_journal reg) t else rg_journal reg)\<rparr>)"

section \<open>Notices\<close>

definition safety_alert :: "registry \<Rightarrow> pair \<Rightarrow> string \<Rightarrow> int \<Rightarrow> bool \<Rightarrow> registry \<times> bool" where
  "safety_alert reg pair kind now delivered =
     (if (case rg_last_alert reg (pair, kind) of None \<Rightarrow> False | Some l \<Rightarrow> now - l < SUPPRESSION_MS)
      then (reg\<lparr>rg_suppressed := Suc (rg_suppressed reg)\<rparr>, False)
      else let reg1 = reg\<lparr>rg_last_alert := (rg_last_alert reg)((pair, kind) \<mapsto> now)\<rparr> in
        if \<not> rg_sink_wired reg1 then (reg1, False)
        else (reg1\<lparr>rg_notices := ((pair, kind), now) # rg_notices reg1\<rparr>, delivered))"

section \<open>Readings\<close>

record reading_decision =
  d_pair :: pair
  d_verdict :: string
  d_reason :: "string option"
  d_tripped :: bool
  d_driver_accepted :: "bool option"

text \<open>What the environment answers during one reading: per pair and, for the gate, per zone.\<close>

record reading_env =
  n_attempt :: "pair \<Rightarrow> attempt_env"
  n_clock :: "pair \<Rightarrow> int"
  n_delivered :: "pair \<Rightarrow> bool"
  n_gate :: "string \<Rightarrow> gpio_answer"

definition note_credible :: "registry \<Rightarrow> pair \<Rightarrow> int \<Rightarrow> registry" where
  "note_credible reg pair now =
     reg\<lparr>rg_last_credible := (rg_last_credible reg)(pair \<mapsto> now),
         rg_rejected := rg_rejected reg - {pair},
         rg_rejected_reason := (rg_rejected_reason reg)(pair := None),
         rg_degraded := rg_degraded reg - {pair}\<rparr>"

definition note_rejected ::
  "registry \<Rightarrow> pair \<Rightarrow> string option \<Rightarrow> int \<Rightarrow> bool \<Rightarrow> registry" where
  "note_rejected reg pair reason now delivered =
     fst (safety_alert
       (reg\<lparr>rg_rejected := insert pair (rg_rejected reg),
            rg_rejected_reason := (rg_rejected_reason reg)(pair \<mapsto> (case reason of None \<Rightarrow> [] | Some r \<Rightarrow> r))\<rparr>)
       pair ''rejected_input'' now delivered)"

definition evaluate_pair :: "active_pair \<Rightarrow> pyval \<Rightarrow> pyval \<Rightarrow> pyval \<Rightarrow> evaluation_verdict" where
  "evaluate_pair entry val unit_val quality =
     evaluate_reading val unit_val quality (a_unit entry) (a_trip_point entry)
       (a_range_min entry) (a_range_max entry)"

definition observe_pair ::
  "pyval \<Rightarrow> pyval \<Rightarrow> pyval \<Rightarrow> reading_env \<Rightarrow> pair \<Rightarrow> registry
     \<Rightarrow> registry \<times> (registry_error + reading_decision)" where
  "observe_pair val unit_val quality env pair reg =
     (case (map_of (rg_active reg) pair, map_of (rg_machines reg) pair) of
        (Some entry, Some machine) \<Rightarrow>
          (let verdict = evaluate_pair entry val unit_val quality in
           case observe machine verdict of
             Inl e \<Rightarrow> (reg, Inl (RegTrip e))
           | Inr (m1, t) \<Rightarrow>
               (let reg1 = set_machine reg pair m1;
                    reg2 = (if ev_verdict verdict = REJECTED_INPUT
                            then note_rejected reg1 pair (ev_reason verdict) (n_clock env pair) (n_delivered env pair)
                            else note_credible reg1 pair (n_clock env pair)) in
                if t_outcome t = Some OPEN_PROTECTED_CIRCUIT then
                  (case attempt_command reg2 pair entry m1 (n_attempt env pair) of
                     (reg3, Inl e) \<Rightarrow> (reg3, Inl e)
                   | (reg3, Inr accepted) \<Rightarrow>
                       (reg3, Inr \<lparr>d_pair = pair, d_verdict = ev_verdict verdict, d_reason = None,
                          d_tripped = True, d_driver_accepted = accepted\<rparr>))
                else (reg2, Inr \<lparr>d_pair = pair, d_verdict = ev_verdict verdict,
                        d_reason = ev_reason verdict, d_tripped = False, d_driver_accepted = None\<rparr>)))
      | _ \<Rightarrow> (reg, Inl RegKeyError))"

fun observe_pairs ::
  "pyval \<Rightarrow> pyval \<Rightarrow> pyval \<Rightarrow> reading_env \<Rightarrow> pair list \<Rightarrow> registry
     \<Rightarrow> registry \<times> (registry_error + reading_decision list)" where
  "observe_pairs val unit_val quality env [] reg = (reg, Inr [])"
| "observe_pairs val unit_val quality env (p # ps) reg =
     (case observe_pair val unit_val quality env p reg of
        (reg1, Inl e) \<Rightarrow> (reg1, Inl e)
      | (reg1, Inr d) \<Rightarrow>
          (case observe_pairs val unit_val quality env ps reg1 of
             (reg2, Inl e) \<Rightarrow> (reg2, Inl e)
           | (reg2, Inr ds) \<Rightarrow> (reg2, Inr (d # ds))))"

definition settle_zone ::
  "reading_decision list \<Rightarrow> reading_env \<Rightarrow> string \<Rightarrow> registry \<Rightarrow> registry \<times> (registry_error + unit)" where
  "settle_zone decisions env zone_id reg =
     (case rg_gates reg zone_id of
        None \<Rightarrow> (reg, Inr ())
      | Some gate \<Rightarrow>
          if \<not> g_pending gate then (reg, Inr ())
          else
            let zone_decisions = filter (\<lambda>d. fst (d_pair d) = zone_id) decisions;
                zone_tripped_now = list_ex d_tripped zone_decisions in
            if zone_tripped_now \<or> list_ex (\<lambda>d. d_verdict d = REJECTED_INPUT) zone_decisions then
              (if zone_tripped_now then reg\<lparr>rg_gates := (rg_gates reg)(zone_id \<mapsto> note_trip gate)\<rparr> else reg, Inr ())
            else
              (case note_credible_reading gate (zone_tripped reg zone_id) of
                 (gate', commanded_now) \<Rightarrow>
                   (let reg1 = reg\<lparr>rg_gates := (rg_gates reg)(zone_id \<mapsto> gate')\<rparr> in
                    if commanded_now then
                      (case command_startup_de_energised (rg_commander reg1) zone_id (n_gate env zone_id) of
                         (c, Inl e) \<Rightarrow> (reg1\<lparr>rg_commander := c\<rparr>, Inl (RegActuation e))
                       | (c, Inr _) \<Rightarrow> (reg1\<lparr>rg_commander := c\<rparr>, Inr ()))
                    else (reg1, Inr ()))))"

fun settle_zones ::
  "reading_decision list \<Rightarrow> reading_env \<Rightarrow> string list \<Rightarrow> registry \<Rightarrow> registry \<times> (registry_error + unit)" where
  "settle_zones decisions env [] reg = (reg, Inr ())"
| "settle_zones decisions env (z # zs) reg =
     (case settle_zone decisions env z reg of
        (reg1, Inl e) \<Rightarrow> (reg1, Inl e)
      | (reg1, Inr _) \<Rightarrow> settle_zones decisions env zs reg1)"

definition settle_deferred_gate ::
  "registry \<Rightarrow> string \<Rightarrow> reading_decision list \<Rightarrow> reading_env \<Rightarrow> registry \<times> (registry_error + unit)" where
  "settle_deferred_gate reg sensor_id decisions env =
     settle_zones decisions env (remdups (map fst (by_sensor reg sensor_id))) reg"

definition observe_reading ::
  "registry \<Rightarrow> string \<Rightarrow> pyval \<Rightarrow> pyval \<Rightarrow> pyval \<Rightarrow> reading_env
     \<Rightarrow> registry \<times> (registry_error + reading_decision list)" where
  "observe_reading reg sensor_id val unit_val quality env =
     (case observe_pairs val unit_val quality env (by_sensor reg sensor_id) reg of
        (reg1, Inl e) \<Rightarrow> (reg1, Inl e)
      | (reg1, Inr decisions) \<Rightarrow>
          if decisions = [] then (reg1, Inr [])
          else case settle_deferred_gate reg1 sensor_id decisions env of
            (reg2, Inl e) \<Rightarrow> (reg2, Inl e)
          | (reg2, Inr _) \<Rightarrow> (reg2, Inr decisions))"

section \<open>Retries\<close>

definition intent_settled :: "registry \<Rightarrow> pair \<Rightarrow> registry \<times> bool" where
  "intent_settled reg pair =
     (case rg_unsettled reg pair of
        None \<Rightarrow> (reg, True)
      | Some attempt_id \<Rightarrow>
          if running reg attempt_id then (reg, False)
          else (reg\<lparr>rg_unsettled := (rg_unsettled reg)(pair := None)\<rparr>, True))"

definition retry_pending_pair ::
  "(pair \<Rightarrow> attempt_env) \<Rightarrow> pair \<Rightarrow> registry \<Rightarrow> registry \<times> (registry_error + nat)" where
  "retry_pending_pair env pair reg =
     (case intent_settled reg pair of
        (reg1, False) \<Rightarrow> (reg1, Inr 0)
      | (reg1, True) \<Rightarrow>
          (case map_of (rg_machines reg1) pair of
             None \<Rightarrow> (reg1, Inr 0)
           | Some m \<Rightarrow>
               if t_retry (snd (outcome_retry m)) \<noteq> Some RetryAttempted then (reg1, Inr 0)
               else (case map_of (rg_active reg1) pair of
                 None \<Rightarrow> (reg1, Inr 0)
               | Some entry \<Rightarrow>
                   (case attempt_command reg1 pair entry m (env pair) of
                      (reg2, Inl e) \<Rightarrow> (reg2, Inl e)
                    | (reg2, Inr _) \<Rightarrow> (reg2, Inr 1)))))"

definition retry_record_pair ::
  "(pair \<Rightarrow> record_fate \<times> int) \<Rightarrow> pair \<Rightarrow> registry \<Rightarrow> registry \<times> (registry_error + nat)" where
  "retry_record_pair env pair reg =
     (case map_of (rg_machines reg) pair of
        None \<Rightarrow> (reg, Inr 0)
      | Some m \<Rightarrow>
          if m_record_state m \<noteq> RecordPending then (reg, Inr 0)
          else (case intent_settled reg pair of
            (reg1, False) \<Rightarrow> (reg1, Inr 0)
          | (reg1, True) \<Rightarrow>
              (case write_record reg1 pair m (fst (env pair)) (snd (env pair)) of
                 (reg2, False) \<Rightarrow> (reg2, Inr 0)
               | (reg2, True) \<Rightarrow> (set_machine reg2 pair (fst (record_retry m True)), Inr 1))))"

text \<open>A pass over the machines, counting; an exception ends it.\<close>

fun pass_over ::
  "(pair \<Rightarrow> registry \<Rightarrow> registry \<times> (registry_error + nat)) \<Rightarrow> pair list \<Rightarrow> registry
     \<Rightarrow> registry \<times> (registry_error + nat)" where
  "pass_over f [] reg = (reg, Inr 0)"
| "pass_over f (p # ps) reg =
     (case f p reg of
        (reg1, Inl e) \<Rightarrow> (reg1, Inl e)
      | (reg1, Inr n) \<Rightarrow>
          (case pass_over f ps reg1 of
             (reg2, Inl e) \<Rightarrow> (reg2, Inl e)
           | (reg2, Inr k) \<Rightarrow> (reg2, Inr (n + k))))"

definition retry_pending_once ::
  "registry \<Rightarrow> (pair \<Rightarrow> attempt_env) \<Rightarrow> registry \<times> (registry_error + nat)" where
  "retry_pending_once reg env = pass_over (retry_pending_pair env) (map fst (rg_machines reg)) reg"

definition retry_records_once ::
  "registry \<Rightarrow> (pair \<Rightarrow> record_fate \<times> int) \<Rightarrow> registry \<times> (registry_error + nat)" where
  "retry_records_once reg env = pass_over (retry_record_pair env) (map fst (rg_machines reg)) reg"

section \<open>Measurement loss\<close>

definition note_losses ::
  "registry \<Rightarrow> pair list \<Rightarrow> (pair \<Rightarrow> int \<times> bool) \<Rightarrow> registry \<times> bool" where
  "note_losses reg lost env =
     fold (\<lambda>p (r, told). case safety_alert r p ''measurement_loss'' (fst (env p)) (snd (env p)) of
             (r', b) \<Rightarrow> (r', told \<or> b)) lost
       (reg\<lparr>rg_degraded := rg_degraded reg \<union> set lost\<rparr>, False)"

definition note_sensor_unavailable ::
  "registry \<Rightarrow> string \<Rightarrow> (pair \<Rightarrow> int \<times> bool) \<Rightarrow> registry \<times> bool" where
  "note_sensor_unavailable reg sensor_id env =
     note_losses reg (filter (\<lambda>p. p \<notin> rg_degraded reg) (by_sensor reg sensor_id)) env"

definition loss_bound :: "registry \<Rightarrow> active_pair \<Rightarrow> int" where
  "loss_bound reg entry =
     max ((case rg_poll_intervals reg (a_sensor_id entry) of None \<Rightarrow> 0 | Some i \<Rightarrow> i) * LOSS_INTERVALS)
         LOSS_FLOOR_MS"

definition last_credible :: "registry \<Rightarrow> pair \<Rightarrow> int" where
  "last_credible reg pair =
     (case rg_last_credible reg pair of None \<Rightarrow> rg_started_ms reg | Some t \<Rightarrow> t)"

definition lost_pairs :: "registry \<Rightarrow> int \<Rightarrow> pair list" where
  "lost_pairs reg now =
     map fst (filter (\<lambda>(p, entry). \<not> (now - last_credible reg p \<le> loss_bound reg entry \<or> p \<in> rg_degraded reg))
       (rg_active reg))"

definition watch_measurement_loss :: "registry \<Rightarrow> int \<Rightarrow> (pair \<Rightarrow> int \<times> bool) \<Rightarrow> registry" where
  "watch_measurement_loss reg now env = fst (note_losses reg (lost_pairs reg now) env)"

text \<open>One pass of the retry loop, with the delay before the next, in seconds.\<close>

record retry_env =
  y_now :: int
  y_losses :: "pair \<Rightarrow> int \<times> bool"
  y_attempts :: "pair \<Rightarrow> attempt_env"
  y_records :: "pair \<Rightarrow> record_fate \<times> int"

definition retry_pass ::
  "registry \<Rightarrow> int \<Rightarrow> retry_env \<Rightarrow> registry \<times> (registry_error + int)" where
  "retry_pass reg delay env =
     (case retry_pending_once (watch_measurement_loss reg (y_now env) (y_losses env)) (y_attempts env) of
        (reg1, Inl e) \<Rightarrow> (reg1, Inl e)
      | (reg1, Inr n) \<Rightarrow>
          (case retry_records_once reg1 (y_records env) of
             (reg2, Inl e) \<Rightarrow> (reg2, Inl e)
           | (reg2, Inr k) \<Rightarrow>
               (reg2, Inr (if n + k > 0 then BACKOFF_BASE else min (delay * 2) BACKOFF_CAP))))"

section \<open>Posture\<close>

definition backend_drivable :: "registry \<Rightarrow> string \<Rightarrow> bool" where
  "backend_drivable reg zone_id = False"

definition qualification_state :: string where
  "qualification_state = ''none''"

definition protection_claim :: "registry \<Rightarrow> pair \<Rightarrow> string \<Rightarrow> string" where
  "protection_claim reg pair activation =
     (if qualification_state \<noteq> ''none'' then ''unavailable''
      else if activation \<noteq> ''active'' then ''unprotected''
      else case map_of (rg_active reg) pair of
        None \<Rightarrow> ''unprotected''
      | Some entry \<Rightarrow>
          if a_profile_status entry \<noteq> ''ratified'' then ''unprotected''
          else if \<not> backend_drivable reg (fst pair) then ''unprotected''
          else if pair \<in> rg_degraded reg \<or> pair \<in> rg_rejected reg then ''unprotected''
          else case map_of (rg_machines reg) pair of
            None \<Rightarrow> ''unprotected''
          | Some m \<Rightarrow>
              if m_state m = TRIPPED \<and> \<not> (m_command_status m = CS_command_issued \<and> m_effect m = E_matched)
              then ''unprotected'' else ''protected'')"

record zone_posture =
  zp_zone_id :: string
  zp_profile_id :: string
  zp_activation :: string
  zp_trip_state :: trip_phase
  zp_command_status :: command_status
  zp_effect_verified :: effect_state
  zp_measurement_degraded :: bool
  zp_rejected_input_active :: bool
  zp_last_rejected_reason :: string
  zp_binding_seq :: int
  zp_qualification :: string
  zp_protection_claim :: string

definition zone_entry ::
  "registry \<Rightarrow> string \<Rightarrow> string \<Rightarrow> int \<Rightarrow> string option \<Rightarrow> registry_error + zone_posture" where
  "zone_entry reg zone_id profile_id binding_seq activation =
     (let pair = (zone_id, profile_id) in
      bind_res (case activation of Some a \<Rightarrow> Inr a
        | None \<Rightarrow> if pair \<notin> fst ` set (rg_active reg) then Inl RegValueError else Inr ''active'') (\<lambda>act.
      let m = map_of (rg_machines reg) pair in
      Inr \<lparr>zp_zone_id = zone_id, zp_profile_id = profile_id, zp_activation = act,
        zp_trip_state = (case m of None \<Rightarrow> INACTIVE | Some m \<Rightarrow> m_state m),
        zp_command_status = (case m of None \<Rightarrow> CS_none | Some m \<Rightarrow> m_command_status m),
        zp_effect_verified = (case m of None \<Rightarrow> E_unknown | Some m \<Rightarrow> m_effect m),
        zp_measurement_degraded = (pair \<in> rg_degraded reg),
        zp_rejected_input_active = (pair \<in> rg_rejected reg),
        zp_last_rejected_reason = (case rg_rejected_reason reg pair of None \<Rightarrow> [] | Some r \<Rightarrow> r),
        zp_binding_seq = binding_seq, zp_qualification = qualification_state,
        zp_protection_claim = protection_claim reg pair act\<rparr>))"

definition collect_entry ::
  "registry \<Rightarrow> string \<times> string \<times> int \<times> string option \<Rightarrow> zone_posture list \<Rightarrow> registry_error + zone_posture list" where
  "collect_entry reg k acc =
     (case k of (z, p, b, a) \<Rightarrow> bind_res (zone_entry reg z p b a) (\<lambda>e. Inr (acc @ [e])))"

definition safety_zones :: "registry \<Rightarrow> registry_error + zone_posture list" where
  "safety_zones reg =
     bind_res (fold_res (collect_entry reg)
       (map (\<lambda>(k, e). (fst k, snd k, a_binding_seq e, None)) (rg_active reg)
        @ map (\<lambda>p. (pp_zone_id p, pp_profile_id p, rg_binding_seq reg, Some ''pending_ratification''))
            (ar_pending (rg_activation reg))
        @ map (\<lambda>r. (rf_zone_id r, rf_profile_id r, rg_binding_seq reg, Some (rf_reason r)))
            (ar_refused (rg_activation reg))) [])
       (\<lambda>zones. Inr (sort_key (\<lambda>z. (zp_zone_id z, zp_profile_id z)) zones))"

section \<open>Calls on the registry\<close>

datatype registry_op =
    RgReading string pyval pyval pyval reading_env
  | RgRetryPending "pair \<Rightarrow> attempt_env"
  | RgRetryRecords "pair \<Rightarrow> record_fate \<times> int"
  | RgWatchLoss int "pair \<Rightarrow> int \<times> bool"
  | RgSensorUnavailable string "pair \<Rightarrow> int \<times> bool"
  | RgIntentFinishes string bool

datatype registry_answer = RgRaised registry_error | RgDecisions "reading_decision list" | RgCount nat | RgTold bool | RgDone

fun registry_call :: "registry \<Rightarrow> registry_op \<Rightarrow> registry_error + registry \<times> registry_answer" where
  "registry_call reg (RgReading s v u q env) =
     (case observe_reading reg s v u q env of
        (r, Inl e) \<Rightarrow> Inr (r, RgRaised e) | (r, Inr ds) \<Rightarrow> Inr (r, RgDecisions ds))"
| "registry_call reg (RgRetryPending env) =
     (case retry_pending_once reg env of
        (r, Inl e) \<Rightarrow> Inr (r, RgRaised e) | (r, Inr n) \<Rightarrow> Inr (r, RgCount n))"
| "registry_call reg (RgRetryRecords env) =
     (case retry_records_once reg env of
        (r, Inl e) \<Rightarrow> Inr (r, RgRaised e) | (r, Inr n) \<Rightarrow> Inr (r, RgCount n))"
| "registry_call reg (RgWatchLoss now env) = Inr (watch_measurement_loss reg now env, RgDone)"
| "registry_call reg (RgSensorUnavailable s env) =
     (case note_sensor_unavailable reg s env of (r, b) \<Rightarrow> Inr (r, RgTold b))"
| "registry_call reg (RgIntentFinishes a ok) = Inr (intent_finishes reg a ok, RgDone)"

end
