(* ===== verification/Registry_Laws.thy ===== *)
theory Registry_Laws
  imports Safety_Registry
begin

text \<open>
  The laws of the safety registry: its invariant, what one attempt does, and the properties
  of readings, retries, notices and posture that follow.
\<close>

section \<open>Invariant and specification\<close>

text \<open>Between calls no attempt is in flight, and only a tripped machine carries a command.\<close>

definition machine_ok :: "trip_machine \<Rightarrow> bool" where
  "machine_ok m =
     (\<not> m_driver_attempt_in_flight m
      \<and> (if m_state m = TRIPPED then m_command_status m \<noteq> CS_none
         else m_state m = INACTIVE \<and> m_command_status m = CS_none))"

definition registry_inv :: "registry \<Rightarrow> bool" where
  "registry_inv reg =
     (distinct (map fst (rg_active reg)) \<and> distinct (map fst (rg_machines reg))
      \<and> (\<forall>p e. map_of (rg_active reg) p = Some e \<longrightarrow>
           a_zone_id e = fst p \<and> a_outcome e = OPEN_PROTECTED_CIRCUIT \<and> a_binding_seq e = rg_binding_seq reg)
      \<and> fst ` set (rg_active reg) \<subseteq> fst ` set (rg_machines reg)
      \<and> (\<forall>p m. map_of (rg_machines reg) p = Some m \<longrightarrow> machine_ok m))"

text \<open>What no call changes: the active set, the authority, the binding, and which pairs there are.\<close>

definition same_config :: "registry \<Rightarrow> registry \<Rightarrow> bool" where
  "same_config reg reg' =
     (rg_active reg' = rg_active reg \<and> rg_authority reg' = rg_authority reg
      \<and> rg_binding_seq reg' = rg_binding_seq reg \<and> rg_activation reg' = rg_activation reg
      \<and> rg_sink_wired reg' = rg_sink_wired reg
      \<and> map fst (rg_machines reg') = map fst (rg_machines reg))"

text \<open>The machine after an attempt the seam answered with \<open>ans\<close>.\<close>

definition attempted :: "trip_machine \<Rightarrow> act_error + bool \<Rightarrow> bool \<Rightarrow> trip_machine" where
  "attempted m ans recorded =
     (let m' = (case ans of Inl _ \<Rightarrow> m
                | Inr b \<Rightarrow> m\<lparr>m_command_status := (if b then CS_command_issued else CS_driver_refused)\<rparr>)
      in if recorded then m' else record_write_failed m')"

definition accepted_of :: "act_error + bool \<Rightarrow> bool option" where
  "accepted_of ans = (case ans of Inl _ \<Rightarrow> None | Inr b \<Rightarrow> Some b)"

text \<open>The machine after an observation, and whether the observation trips it.\<close>

definition newly_trips :: "trip_machine \<Rightarrow> evaluation_verdict \<Rightarrow> bool" where
  "newly_trips m v = (ev_verdict v = TRIP \<and> m_state m \<noteq> TRIPPED)"

definition observed :: "trip_machine \<Rightarrow> evaluation_verdict \<Rightarrow> trip_machine" where
  "observed m v =
     (if ev_verdict v = REJECTED_INPUT then m
      else let m1 = m\<lparr>m_credible_reading_seen := True, m_condition_active := (ev_verdict v = TRIP)\<rparr>
           in if newly_trips m v
              then m1\<lparr>m_state := TRIPPED, m_retry_cancelled := False, m_command_status := CS_command_pending\<rparr>
              else m1)"

text \<open>
  The times of the notices of one pair and kind, newest first, and the spacing the
  suppression keeps: each at least the suppression interval after the one before it.
\<close>

definition times_of :: "registry \<Rightarrow> pair \<times> string \<Rightarrow> int list" where
  "times_of reg key = map snd (filter (\<lambda>n. fst n = key) (rg_notices reg))"

fun spaced :: "int list \<Rightarrow> bool" where
  "spaced (t # t' # ts) = (t - t' \<ge> SUPPRESSION_MS \<and> spaced (t' # ts))"
| "spaced _ = True"

definition key_spaced :: "registry \<Rightarrow> pair \<times> string \<Rightarrow> bool" where
  "key_spaced reg key =
     (spaced (times_of reg key)
      \<and> (case times_of reg key of [] \<Rightarrow> True | t # _ \<Rightarrow> rg_last_alert reg key = Some t \<and> rg_sink_wired reg))"

text \<open>A step that keeps the spacing of every pair and kind.\<close>

definition quiet :: "registry \<Rightarrow> registry \<Rightarrow> bool" where
  "quiet reg reg' = (\<forall>key. key_spaced reg key \<longrightarrow> key_spaced reg' key)"

text \<open>What sending notices leaves alone.\<close>

definition alerts_only :: "registry \<Rightarrow> registry \<Rightarrow> bool" where
  "alerts_only reg reg' =
     (same_config reg reg' \<and> rg_machines reg' = rg_machines reg \<and> rg_commander reg' = rg_commander reg
      \<and> rg_journal reg' = rg_journal reg \<and> rg_running reg' = rg_running reg \<and> rg_unsettled reg' = rg_unsettled reg
      \<and> rg_gates reg' = rg_gates reg \<and> rg_degraded reg' = rg_degraded reg \<and> quiet reg reg')"

text \<open>The bookkeeping of a reading changes the posture of the pair and its notices only.\<close>

definition noted :: "evaluation_verdict \<Rightarrow> int \<Rightarrow> bool \<Rightarrow> pair \<Rightarrow> registry \<Rightarrow> registry" where
  "noted v t b p reg =
     (if ev_verdict v = REJECTED_INPUT then note_rejected reg p (ev_reason v) t b else note_credible reg p t)"

text \<open>The commands one pair's reading gives the commander.\<close>

definition pair_commands ::
  "registry \<Rightarrow> pyval \<Rightarrow> pyval \<Rightarrow> pyval \<Rightarrow> reading_env \<Rightarrow> pair \<Rightarrow> command_op list" where
  "pair_commands reg v u q env p =
     (case (map_of (rg_active reg) p, map_of (rg_machines reg) p) of
        (Some e, Some m) \<Rightarrow>
          if newly_trips m (evaluate_pair e v u q)
          then [COutcome (fst p) OPEN_PROTECTED_CIRCUIT (e_gpio (n_attempt env p))] else []
      | _ \<Rightarrow> [])"

text \<open>The machine one pair's reading leaves: observed, and attempted when it tripped.\<close>

definition reading_result :: "commander \<Rightarrow> trip_machine \<Rightarrow> evaluation_verdict \<Rightarrow> command_op list \<Rightarrow> trip_machine \<Rightarrow> bool" where
  "reading_result c m v ops m' =
     (case ops of
        [] \<Rightarrow> m' = observed m v
      | COutcome z out g # _ \<Rightarrow>
          \<exists>recorded. m' = attempted (observed m v) (snd (command_outcome c z out g)) recorded
      | CStartup z g # _ \<Rightarrow> False)"

text \<open>The decision \<open>d\<close> on a reading that took the registry from \<open>reg\<close> to \<open>reg'\<close>.\<close>

definition decided ::
  "pyval \<Rightarrow> pyval \<Rightarrow> pyval \<Rightarrow> reading_env \<Rightarrow> registry \<Rightarrow> registry \<Rightarrow> reading_decision \<Rightarrow> bool" where
  "decided v u q env reg reg' d =
     (\<exists>e m m' c. map_of (rg_active reg) (d_pair d) = Some e
       \<and> map_of (rg_machines reg) (d_pair d) = Some m \<and> map_of (rg_machines reg') (d_pair d) = Some m'
       \<and> reading_result c m (evaluate_pair e v u q) (pair_commands reg v u q env (d_pair d)) m'
       \<and> d_verdict d = ev_verdict (evaluate_pair e v u q)
       \<and> d_tripped d = newly_trips m (evaluate_pair e v u q))"

text \<open>A zone whose deferred startup command the reading licenses.\<close>

definition settles :: "registry \<Rightarrow> reading_decision list \<Rightarrow> string \<Rightarrow> bool" where
  "settles reg ds z =
     (rg_gates reg z = Some \<lparr>g_pending = True\<rparr> \<and> \<not> zone_tripped reg z
      \<and> \<not> list_ex (\<lambda>d. fst (d_pair d) = z \<and> (d_tripped d \<or> d_verdict d = REJECTED_INPUT)) ds)"

text \<open>
  The effect of a whole reading on sensor \<open>s\<close>: a decision for each of its pairs in order, no
  other machine touched, and as commands the trips in order followed by the startup state of
  the zones whose gate the reading settled.
\<close>

definition reading_effect ::
  "registry \<Rightarrow> string \<Rightarrow> pyval \<Rightarrow> pyval \<Rightarrow> pyval \<Rightarrow> reading_env \<Rightarrow> registry
     \<Rightarrow> reading_decision list \<Rightarrow> string list \<Rightarrow> bool" where
  "reading_effect reg s v u q env reg' ds zs =
     (same_config reg reg' \<and> registry_inv reg' \<and> quiet reg reg' \<and> map d_pair ds = by_sensor reg s
      \<and> (\<forall>d \<in> set ds. decided v u q env reg reg' d)
      \<and> (\<forall>p. p \<notin> set (by_sensor reg s) \<longrightarrow> map_of (rg_machines reg') p = map_of (rg_machines reg) p)
      \<and> rg_commander reg' = run_ops command_call (rg_commander reg)
          (concat (map (pair_commands reg v u q env) (by_sensor reg s)) @ map (\<lambda>z. CStartup z (n_gate env z)) zs)
      \<and> (\<forall>z \<in> set zs. z \<in> fst ` fst ` set (rg_active reg) \<and> \<not> zone_tripped reg' z
           \<and> (\<forall>d \<in> set ds. fst (d_pair d) = z \<longrightarrow> d_verdict d \<noteq> REJECTED_INPUT)))"

text \<open>
  What the registry may tell the commander: the opening outcome on a zone of an active pair,
  and the startup state on such a zone while none of its pairs is tripped.
\<close>

definition licensed :: "registry \<Rightarrow> command_op \<Rightarrow> bool" where
  "licensed reg x =
     (case x of
        COutcome z out _ \<Rightarrow> z \<in> fst ` fst ` set (rg_active reg) \<and> out = OPEN_PROTECTED_CIRCUIT
      | CStartup z _ \<Rightarrow> z \<in> fst ` fst ` set (rg_active reg) \<and> \<not> zone_tripped reg z)"

text \<open>No tripped pair is un-tripped.\<close>

definition keeps_trips :: "registry \<Rightarrow> registry \<Rightarrow> bool" where
  "keeps_trips reg reg' =
     (\<forall>p m. map_of (rg_machines reg) p = Some m \<and> m_state m = TRIPPED \<longrightarrow>
        (\<exists>m'. map_of (rg_machines reg') p = Some m' \<and> m_state m' = TRIPPED))"

definition pair_tripped :: "pair \<Rightarrow> registry \<Rightarrow> bool" where
  "pair_tripped p reg = (\<exists>m. map_of (rg_machines reg) p = Some m \<and> m_state m = TRIPPED)"

text \<open>
  A step of the registry: licensed commands only, no tripped pair is un-tripped, and the
  spacing of the notices is kept.
\<close>

definition steps_to :: "registry \<Rightarrow> registry \<Rightarrow> bool" where
  "steps_to reg reg' =
     (same_config reg reg' \<and> registry_inv reg' \<and> quiet reg reg'
      \<and> (\<exists>xs. rg_commander reg' = run_ops command_call (rg_commander reg) xs \<and> list_all (licensed reg) xs)
      \<and> keeps_trips reg reg')"

section \<open>Example inputs\<close>

text \<open>One zone with one active pair, not tripped, on the deferred example commander.\<close>

definition example_pair :: pair where
  "example_pair = (''z1'', ''p'')"

definition example_active :: active_pair where
  "example_active = \<lparr>a_zone_id = ''z1'', a_profile_id = ''p'', a_sensor_id = ''s1'', a_trip_point = FNum 60,
     a_outcome = OPEN_PROTECTED_CIRCUIT, a_unit = ''A'', a_range_min = FNum 0, a_range_max = FNum 100,
     a_terminal_state = ''closed'', a_binding_seq = 1, a_actuator_identity = (''local_gpio'', ''26''),
     a_profile_status = ''ratified''\<rparr>"

definition example_registry :: registry where
  "example_registry = \<lparr>rg_journal = empty_journal, rg_commander = example_commander, rg_binding_seq = 1,
     rg_running = [], rg_unsettled = Map.empty, rg_sink_wired = True, rg_poll_intervals = Map.empty,
     rg_started_ms = 0, rg_last_credible = Map.empty, rg_degraded = {}, rg_rejected = {},
     rg_rejected_reason = Map.empty, rg_last_alert = Map.empty, rg_suppressed = 0, rg_notices = [],
     rg_terminal = [(''z1'', ''closed'')], rg_activation = empty_result, rg_authority = 0,
     rg_active = [(example_pair, example_active)], rg_machines = [(example_pair, example_machine)],
     rg_gates = [''z1'' \<mapsto> new_gate True]\<rparr>"

definition example_attempt :: attempt_env where
  "example_attempt = \<lparr>e_attempt_id = ''a1'', e_intent_at = 5, e_intent = IntentFails,
     e_gpio = \<lparr>ga_take = TakeOk, ga_drive = True\<rparr>, e_record = RecordFails, e_record_at = 6\<rparr>"

definition example_env :: reading_env where
  "example_env = \<lparr>n_attempt = \<lambda>_. example_attempt, n_clock = \<lambda>_. 7, n_delivered = \<lambda>_. True,
     n_gate = \<lambda>_. \<lparr>ga_take = TakeOk, ga_drive = True\<rparr>\<rparr>"

section \<open>Lemmas\<close>

lemma same_config_refl [simp]: "same_config reg reg"
  by (simp add: same_config_def)

lemma same_config_trans: "same_config a b \<Longrightarrow> same_config b c \<Longrightarrow> same_config a c"
  by (simp add: same_config_def)

lemma keys_update:
  assumes "map_of al k = Some v0"
  shows "map fst (AList.update k v al) = map fst al"
proof -
  have "k \<in> set (map fst al)" using assms by (metis domI dom_map_of_conv_image_fst set_map)
  then show ?thesis by (simp add: update_keys)
qed

lemma set_machine_sel [simp]:
  "map_of (rg_machines (set_machine reg p m)) = (map_of (rg_machines reg))(p \<mapsto> m)"
  "rg_active (set_machine reg p m) = rg_active reg" "rg_authority (set_machine reg p m) = rg_authority reg"
  "rg_binding_seq (set_machine reg p m) = rg_binding_seq reg" "rg_activation (set_machine reg p m) = rg_activation reg"
  "rg_commander (set_machine reg p m) = rg_commander reg" "rg_journal (set_machine reg p m) = rg_journal reg"
  "rg_gates (set_machine reg p m) = rg_gates reg" "rg_running (set_machine reg p m) = rg_running reg"
  "rg_unsettled (set_machine reg p m) = rg_unsettled reg" "rg_notices (set_machine reg p m) = rg_notices reg"
  "rg_last_alert (set_machine reg p m) = rg_last_alert reg" "rg_sink_wired (set_machine reg p m) = rg_sink_wired reg"
  "rg_terminal (set_machine reg p m) = rg_terminal reg"
  by (simp_all add: set_machine_def update_conv')

lemma set_machine_keys:
  "map_of (rg_machines reg) p = Some m0 \<Longrightarrow>
     map fst (rg_machines (set_machine reg p m)) = map fst (rg_machines reg)"
  by (simp add: set_machine_def keys_update)

lemma zone_tripped_iff:
  assumes "distinct (map fst (rg_machines reg))"
  shows "zone_tripped reg z \<longleftrightarrow> (\<exists>p m. map_of (rg_machines reg) p = Some m \<and> fst p = z \<and> m_state m = TRIPPED)"
  using assms by (fastforce simp: zone_tripped_def list_ex_iff)

subsection \<open>One attempt\<close>

lemma begin_intent_sel [simp]:
  "rg_active (begin_intent reg p e env) = rg_active reg"
  "rg_machines (begin_intent reg p e env) = rg_machines reg"
  "rg_commander (begin_intent reg p e env) = rg_commander reg"
  "rg_authority (begin_intent reg p e env) = rg_authority reg"
  "rg_binding_seq (begin_intent reg p e env) = rg_binding_seq reg"
  "rg_activation (begin_intent reg p e env) = rg_activation reg"
  "rg_sink_wired (begin_intent reg p e env) = rg_sink_wired reg"
  "rg_gates (begin_intent reg p e env) = rg_gates reg"
  "rg_notices (begin_intent reg p e env) = rg_notices reg"
  "rg_last_alert (begin_intent reg p e env) = rg_last_alert reg"
  by (simp_all add: begin_intent_def Let_def split: intent_fate.split)

lemma write_record_sel:
  assumes "write_record reg p m fate at_ms = (reg', ok)"
  shows "\<exists>db. reg' = reg\<lparr>rg_journal := db\<rparr>"
  using assms
  by (auto simp: write_record_def intro: exI [of _ "rg_journal reg"] split: if_splits sum.splits)

text \<open>Whatever the writes do, the record step touches the journal and this machine's record flag only.\<close>

lemma persist_record_effect:
  "\<exists>recorded db uns. persist_record reg p m env
     = set_machine (reg\<lparr>rg_unsettled := uns, rg_journal := db\<rparr>) p (if recorded then m else record_write_failed m)"
proof (cases "running reg (e_attempt_id env)")
  case True
  then have "persist_record reg p m env
      = set_machine (reg\<lparr>rg_unsettled := rg_unsettled reg, rg_journal := rg_journal reg\<rparr>) p
          (if False then m else record_write_failed m)"
    by (simp add: persist_record_def)
  then show ?thesis by blast
next
  case False
  let ?r = "reg\<lparr>rg_unsettled := (rg_unsettled reg)(p := None)\<rparr>"
  obtain reg' ok where w: "write_record ?r p m (e_record env) (e_record_at env) = (reg', ok)"
    by (cases "write_record ?r p m (e_record env) (e_record_at env)")
  obtain db where r: "reg' = reg\<lparr>rg_unsettled := (rg_unsettled reg)(p := None), rg_journal := db\<rparr>"
    using write_record_sel [OF w] by auto
  have "persist_record reg p m env = set_machine reg' p (if ok then m else record_write_failed m)"
    using w False by (simp add: persist_record_def)
  with r show ?thesis by metis
qed

lemma idle_attempt [simp]:
  assumes "\<not> m_driver_attempt_in_flight m"
  shows "m\<lparr>m_driver_attempt_in_flight := False\<rparr> = m"
  using assms by (cases m) simp

lemma execute_active:
  assumes "map_of (rg_active reg) p = Some e" and "a_zone_id e = fst p"
    and "command_outcome (rg_commander reg) (fst p) (a_outcome e) ans = (c, res)"
  shows "execute reg (rg_authority reg) p (a_outcome e) (a_binding_seq e) (a_actuator_identity e) ans
    = (reg\<lparr>rg_commander := c\<rparr>, map_sum RegActuation id res)"
  using assms by (cases res) (simp_all add: execute_def)

lemma attempt_command_persist:
  assumes active: "map_of (rg_active reg) p = Some e" "a_zone_id e = fst p"
    and "command_open m" and idle: "\<not> m_driver_attempt_in_flight m"
    and cmd: "command_outcome (rg_commander reg) (fst p) (a_outcome e) (e_gpio env) = (c, ans)"
  shows "attempt_command reg p e m env
      = (persist_record ((begin_intent reg p e env)\<lparr>rg_commander := c\<rparr>) p (attempted m ans True) env,
         Inr (accepted_of ans))"
proof -
  let ?r = "begin_intent reg p e env"
  let ?m1 = "m\<lparr>m_driver_attempt_in_flight := True\<rparr>"
  have lease: "begin_driver_attempt m = Inr (?m1, plain (m_state m))"
    using assms(3) idle by (simp add: begin_driver_attempt_def)
  have ex: "execute ?r (rg_authority ?r) p (a_outcome e) (a_binding_seq e) (a_actuator_identity e) (e_gpio env)
      = (?r\<lparr>rg_commander := c\<rparr>, map_sum RegActuation id ans)"
    using execute_active [of ?r p e "e_gpio env" c ans] active cmd by simp
  show ?thesis
  proof (cases ans)
    case (Inl x)
    then have "attempted m ans True = ?m1\<lparr>m_driver_attempt_in_flight := False\<rparr>"
      using idle by (cases m) (simp add: attempted_def)
    then show ?thesis using lease ex Inl
      by (simp add: attempt_command_def Let_def release_driver_attempt_def accepted_of_def)
  next
    case (Inr b)
    then have "attempted m ans True = ?m1\<lparr>m_driver_attempt_in_flight := False,
        m_command_status := (if b then CS_command_issued else CS_driver_refused)\<rparr>"
      using idle by (cases m) (simp add: attempted_def)
    moreover have "command_open ?m1" using assms(3) by (simp add: command_open_def)
    ultimately show ?thesis using lease ex Inr
      by (simp add: attempt_command_def Let_def record_driver_result_def accepted_of_def)
  qed
qed

lemma attempt_command_effect:
  assumes "map_of (rg_active reg) p = Some e" "a_zone_id e = fst p"
    and "command_open m" and "\<not> m_driver_attempt_in_flight m"
    and "command_outcome (rg_commander reg) (fst p) (a_outcome e) (e_gpio env) = (c, ans)"
  shows "\<exists>recorded db uns. attempt_command reg p e m env
      = (set_machine ((begin_intent reg p e env)\<lparr>rg_commander := c, rg_unsettled := uns, rg_journal := db\<rparr>) p
           (attempted m ans recorded), Inr (accepted_of ans))"
proof -
  let ?r = "(begin_intent reg p e env)\<lparr>rg_commander := c\<rparr>"
  obtain recorded db uns where persisted: "persist_record ?r p (attempted m ans True) env
      = set_machine (?r\<lparr>rg_unsettled := uns, rg_journal := db\<rparr>) p
          (if recorded then attempted m ans True else record_write_failed (attempted m ans True))"
    using persist_record_effect [of ?r p "attempted m ans True" env] by auto
  have "(if recorded then attempted m ans True else record_write_failed (attempted m ans True))
      = attempted m ans recorded" by (simp add: attempted_def Let_def)
  then show ?thesis unfolding attempt_command_persist [OF assms] persisted by auto
qed

subsection \<open>One reading on one pair\<close>

lemma observe_total:
  assumes "verdict_in_vocabulary v"
  shows "\<exists>t. observe m v = Inr (observed m v, t)
    \<and> t_outcome t = (if newly_trips m v then Some OPEN_PROTECTED_CIRCUIT else None)"
  using assms
  by (auto simp: verdict_in_vocabulary_def observe_def observed_def newly_trips_def Let_def)

lemma evaluate_pair_vocabulary: "verdict_in_vocabulary (evaluate_pair e v u q)"
  by (simp add: evaluate_pair_def evaluate_in_vocabulary)

lemma safety_alert_sel [simp]:
  "rg_active (fst (safety_alert reg p k t b)) = rg_active reg"
  "rg_machines (fst (safety_alert reg p k t b)) = rg_machines reg"
  "rg_commander (fst (safety_alert reg p k t b)) = rg_commander reg"
  "rg_journal (fst (safety_alert reg p k t b)) = rg_journal reg"
  "rg_running (fst (safety_alert reg p k t b)) = rg_running reg"
  "rg_unsettled (fst (safety_alert reg p k t b)) = rg_unsettled reg"
  "rg_authority (fst (safety_alert reg p k t b)) = rg_authority reg"
  "rg_binding_seq (fst (safety_alert reg p k t b)) = rg_binding_seq reg"
  "rg_activation (fst (safety_alert reg p k t b)) = rg_activation reg"
  "rg_sink_wired (fst (safety_alert reg p k t b)) = rg_sink_wired reg"
  "rg_gates (fst (safety_alert reg p k t b)) = rg_gates reg"
  "rg_degraded (fst (safety_alert reg p k t b)) = rg_degraded reg"
  by (simp_all add: safety_alert_def Let_def)


lemma times_of_alert:
  "times_of (fst (safety_alert reg p k now b)) key =
     (if key = (p, k) \<and> rg_sink_wired reg
         \<and> \<not> (case rg_last_alert reg (p, k) of None \<Rightarrow> False | Some l \<Rightarrow> now - l < SUPPRESSION_MS)
      then now # times_of reg key else times_of reg key)"
  by (auto simp: safety_alert_def times_of_def Let_def)

lemma last_alert_alert:
  "rg_last_alert (fst (safety_alert reg p k now b)) key =
     (if key = (p, k)
         \<and> \<not> (case rg_last_alert reg (p, k) of None \<Rightarrow> False | Some l \<Rightarrow> now - l < SUPPRESSION_MS)
      then Some now else rg_last_alert reg key)"
  by (auto simp: safety_alert_def Let_def)

lemma key_spaced_alert:
  assumes "key_spaced reg key"
  shows "key_spaced (fst (safety_alert reg p k now b)) key"
  using assms
  by (auto simp: key_spaced_def times_of_alert last_alert_alert split: list.splits option.splits)

lemma quiet_refl [simp]: "quiet reg reg"
  by (simp add: quiet_def)

lemma quiet_trans: "quiet a b \<Longrightarrow> quiet b c \<Longrightarrow> quiet a c"
  unfolding quiet_def by blast

lemma quiet_frame:
  "rg_notices reg' = rg_notices reg \<Longrightarrow> rg_last_alert reg' = rg_last_alert reg \<Longrightarrow>
     rg_sink_wired reg' = rg_sink_wired reg \<Longrightarrow> quiet reg reg'"
  by (simp add: quiet_def key_spaced_def times_of_def split: list.splits)

lemma quiet_alert: "quiet reg (fst (safety_alert reg p k now b))"
  unfolding quiet_def using key_spaced_alert by blast

lemma quiet_noted: "quiet reg (noted v t b p reg)"
proof (cases "ev_verdict v = REJECTED_INPUT")
  case True
  let ?r = "reg\<lparr>rg_rejected := insert p (rg_rejected reg),
    rg_rejected_reason := (rg_rejected_reason reg)(p \<mapsto> (case ev_reason v of None \<Rightarrow> [] | Some r \<Rightarrow> r))\<rparr>"
  have "quiet reg ?r" by (rule quiet_frame) simp_all
  then show ?thesis using True quiet_trans [OF _ quiet_alert] by (simp add: noted_def note_rejected_def)
next
  case False
  then show ?thesis by (intro quiet_frame) (simp_all add: noted_def note_credible_def)
qed

lemma noted_sel [simp]:
  "rg_active (noted v t b p reg) = rg_active reg" "rg_machines (noted v t b p reg) = rg_machines reg"
  "rg_commander (noted v t b p reg) = rg_commander reg" "rg_journal (noted v t b p reg) = rg_journal reg"
  "rg_running (noted v t b p reg) = rg_running reg" "rg_unsettled (noted v t b p reg) = rg_unsettled reg"
  "rg_authority (noted v t b p reg) = rg_authority reg"
  "rg_binding_seq (noted v t b p reg) = rg_binding_seq reg"
  "rg_activation (noted v t b p reg) = rg_activation reg"
  "rg_sink_wired (noted v t b p reg) = rg_sink_wired reg" "rg_gates (noted v t b p reg) = rg_gates reg"
  by (simp_all add: noted_def note_rejected_def note_credible_def)

lemma same_config_set_machine:
  "same_config reg r \<Longrightarrow> map_of (rg_machines r) p = Some m0 \<Longrightarrow> same_config reg (set_machine r p m)"
  by (auto simp: same_config_def set_machine_keys)

lemma same_config_frame:
  "same_config reg (noted v t b p r) = same_config reg r"
  "same_config reg (begin_intent r p e env) = same_config reg r"
  "same_config reg (r\<lparr>rg_commander := c\<rparr>) = same_config reg r"
  "same_config reg (r\<lparr>rg_unsettled := uns\<rparr>) = same_config reg r"
  "same_config reg (r\<lparr>rg_journal := db\<rparr>) = same_config reg r"
  "same_config reg (r\<lparr>rg_gates := g\<rparr>) = same_config reg r"
  by (simp_all add: same_config_def)

lemma registry_inv_step:
  assumes "registry_inv reg" and "same_config reg reg'"
    and "map_of (rg_machines reg') = (map_of (rg_machines reg))(p \<mapsto> m)" and "machine_ok m"
  shows "registry_inv reg'"
proof -
  have "fst ` set (rg_machines reg') = fst ` set (rg_machines reg)"
    using assms(2) by (metis same_config_def list.set_map)
  with assms show ?thesis by (auto simp: registry_inv_def same_config_def)
qed

lemma registry_invD:
  assumes "registry_inv reg" and "map_of (rg_active reg) p = Some e"
  shows "a_zone_id e = fst p" and "a_outcome e = OPEN_PROTECTED_CIRCUIT"
    and "\<exists>m. map_of (rg_machines reg) p = Some m"
proof -
  show "a_zone_id e = fst p" "a_outcome e = OPEN_PROTECTED_CIRCUIT"
    using assms by (auto simp: registry_inv_def)
  have "p \<in> fst ` set (rg_active reg)" using assms(2) by (metis domI dom_map_of_conv_image_fst)
  then have "p \<in> fst ` set (rg_machines reg)" using assms(1) by (auto simp: registry_inv_def)
  then show "\<exists>m. map_of (rg_machines reg) p = Some m" by (metis domD dom_map_of_conv_image_fst)
qed

lemma registry_inv_machine:
  "registry_inv reg \<Longrightarrow> map_of (rg_machines reg) p = Some m \<Longrightarrow> machine_ok m"
  unfolding registry_inv_def by blast

lemma machine_ok_observed: "machine_ok m \<Longrightarrow> machine_ok (observed m v)"
  by (auto simp: machine_ok_def observed_def newly_trips_def Let_def)

lemma machine_ok_attempted: "machine_ok m \<Longrightarrow> m_state m = TRIPPED \<Longrightarrow> machine_ok (attempted m ans r)"
  by (auto simp: machine_ok_def attempted_def Let_def record_write_failed_def split: sum.split)

lemma attempted_sel [simp]:
  "m_state (attempted m ans r) = m_state m" "m_orphaned (attempted m ans r) = m_orphaned m"
  "m_condition_active (attempted m ans r) = m_condition_active m"
  "m_command_status (attempted m ans r) =
     (case ans of Inl _ \<Rightarrow> m_command_status m | Inr b \<Rightarrow> if b then CS_command_issued else CS_driver_refused)"
  by (auto simp: attempted_def Let_def record_write_failed_def split: sum.split)

lemma observe_pair_effect:
  fixes env :: reading_env and v u q :: pyval
  assumes inv: "registry_inv reg" and e: "map_of (rg_active reg) p = Some e"
    and m: "map_of (rg_machines reg) p = Some m"
  defines "verdict \<equiv> evaluate_pair e v u q" and "ops \<equiv> pair_commands reg v u q env p"
  obtains reg' d m' where "observe_pair v u q env p reg = (reg', Inr d)"
    "same_config reg reg'" "rg_gates reg' = rg_gates reg"
    "map_of (rg_machines reg') = (map_of (rg_machines reg))(p \<mapsto> m')" "machine_ok m'"
    "reading_result (rg_commander reg) m verdict ops m'"
    "rg_commander reg' = run_ops command_call (rg_commander reg) ops"
    "d_pair d = p" "d_verdict d = ev_verdict verdict" "d_tripped d = newly_trips m verdict"
    "quiet reg reg'"
proof -
  note D = registry_invD [OF inv e]
  let ?env = "n_attempt env p"
  let ?reg2 = "noted verdict (n_clock env p) (n_delivered env p) p (set_machine reg p (observed m verdict))"
  obtain t where t: "observe m verdict = Inr (observed m verdict, t)"
    "t_outcome t = (if newly_trips m verdict then Some OPEN_PROTECTED_CIRCUIT else None)"
    using observe_total [of verdict m] evaluate_pair_vocabulary by (auto simp: verdict_def)
  have ok: "machine_ok m" using inv m by (rule registry_inv_machine)
  have q: "quiet reg ?reg2" by (rule quiet_trans [OF quiet_frame quiet_noted]) simp_all
  show thesis
  proof (cases "newly_trips m verdict")
    case False
    let ?d = "\<lparr>d_pair = p, d_verdict = ev_verdict verdict, d_reason = ev_reason verdict,
      d_tripped = False, d_driver_accepted = None\<rparr>"
    from False have "observe_pair v u q env p reg = (?reg2, Inr ?d)"
      using e m t by (simp add: observe_pair_def verdict_def noted_def Let_def)
    moreover have "same_config reg ?reg2" using m by (simp add: same_config_frame same_config_set_machine)
    moreover have "ops = []" using False e m by (simp add: ops_def pair_commands_def verdict_def)
    ultimately show thesis using False q machine_ok_observed [OF ok, of verdict]
      by (intro that [of ?reg2 ?d "observed m verdict"]) (simp_all add: reading_result_def)
  next
    case True
    let ?m = "observed m verdict"
    have trip: "m_state ?m = TRIPPED" "command_open ?m"
      using True by (auto simp: observed_def newly_trips_def command_open_def Let_def)
    have idle: "\<not> m_driver_attempt_in_flight ?m" using machine_ok_observed [OF ok] by (simp add: machine_ok_def)
    obtain c ans where ca: "command_outcome (rg_commander reg) (fst p) OPEN_PROTECTED_CIRCUIT (e_gpio ?env) = (c, ans)"
      by (cases "command_outcome (rg_commander reg) (fst p) OPEN_PROTECTED_CIRCUIT (e_gpio ?env)")
    obtain recorded db uns where att: "attempt_command ?reg2 p e ?m ?env =
      (set_machine ((begin_intent ?reg2 p e ?env)\<lparr>rg_commander := c, rg_unsettled := uns, rg_journal := db\<rparr>) p
         (attempted ?m ans recorded), Inr (accepted_of ans))"
      using attempt_command_effect [of ?reg2 p e ?m ?env c ans] e D(1,2) trip(2) idle ca by auto
    define reg' where "reg' = fst (attempt_command ?reg2 p e ?m ?env)"
    let ?d = "\<lparr>d_pair = p, d_verdict = ev_verdict verdict, d_reason = None,
      d_tripped = True, d_driver_accepted = accepted_of ans\<rparr>"
    have "observe_pair v u q env p reg = (reg', Inr ?d)"
      using e m t True att by (simp add: observe_pair_def reg'_def verdict_def noted_def Let_def)
    moreover have "same_config reg reg'"
      unfolding reg'_def att fst_conv using m
      by (intro same_config_set_machine) (auto intro!: same_config_set_machine simp: same_config_frame)
    moreover have "ops = [COutcome (fst p) OPEN_PROTECTED_CIRCUIT (e_gpio ?env)]"
      using True e m by (simp add: ops_def pair_commands_def verdict_def)
    moreover have "rg_commander reg' = c" "rg_gates reg' = rg_gates reg"
      "map_of (rg_machines reg') = (map_of (rg_machines reg))(p \<mapsto> attempted ?m ans recorded)"
      by (simp_all add: reg'_def att)
    moreover have "quiet reg reg'" by (rule quiet_trans [OF q quiet_frame]) (simp_all add: reg'_def att)
    ultimately show thesis
      using True ca machine_ok_attempted [OF machine_ok_observed [OF ok] trip(1), of ans recorded]
      by (intro that [of reg' ?d "attempted ?m ans recorded"]) (auto simp: reading_result_def)
  qed
qed

subsection \<open>One reading on every pair of its sensor\<close>

lemma pair_commands_other:
  assumes "same_config reg reg'" and "map_of (rg_machines reg') p = map_of (rg_machines reg) p"
  shows "pair_commands reg' v u q env p = pair_commands reg v u q env p"
  using assms by (simp add: pair_commands_def same_config_def)

lemma observe_pairs_effect:
  fixes env :: reading_env and v u q :: pyval
  assumes "registry_inv reg" and "distinct ps" and "set ps \<subseteq> fst ` set (rg_active reg)"
  shows "\<exists>reg' ds. observe_pairs v u q env ps reg = (reg', Inr ds)
    \<and> same_config reg reg' \<and> rg_gates reg' = rg_gates reg \<and> registry_inv reg' \<and> quiet reg reg'
    \<and> rg_commander reg' = run_ops command_call (rg_commander reg) (concat (map (pair_commands reg v u q env) ps))
    \<and> map d_pair ds = ps
    \<and> (\<forall>p. p \<notin> set ps \<longrightarrow> map_of (rg_machines reg') p = map_of (rg_machines reg) p)
    \<and> (\<forall>d \<in> set ds. decided v u q env reg reg' d)"
  using assms
proof (induction ps arbitrary: reg)
  case Nil
  then show ?case by simp
next
  case (Cons p ps)
  from Cons.prems(3) obtain e where e: "map_of (rg_active reg) p = Some e"
    by (metis domD dom_map_of_conv_image_fst list.set_intros(1) subsetD)
  from registry_invD [OF Cons.prems(1) e] obtain m where m: "map_of (rg_machines reg) p = Some m" by blast
  obtain reg1 d m1 where o: "observe_pair v u q env p reg = (reg1, Inr d)"
    "same_config reg reg1" "rg_gates reg1 = rg_gates reg"
    "map_of (rg_machines reg1) = (map_of (rg_machines reg))(p \<mapsto> m1)" "machine_ok m1"
    "reading_result (rg_commander reg) m (evaluate_pair e v u q) (pair_commands reg v u q env p) m1"
    "rg_commander reg1 = run_ops command_call (rg_commander reg) (pair_commands reg v u q env p)"
    "d_pair d = p" "d_verdict d = ev_verdict (evaluate_pair e v u q)" "d_tripped d = newly_trips m (evaluate_pair e v u q)"
    "quiet reg reg1"
    by (rule observe_pair_effect [OF Cons.prems(1) e m])
  have inv1: "registry_inv reg1" using registry_inv_step [OF Cons.prems(1) o(2,4,5)] .
  have act: "rg_active reg1 = rg_active reg" using o(2) by (simp add: same_config_def)
  from Cons.IH [OF inv1] Cons.prems(2,3) act obtain reg2 ds where
    r: "observe_pairs v u q env ps reg1 = (reg2, Inr ds)" "same_config reg1 reg2" "rg_gates reg2 = rg_gates reg1"
      "registry_inv reg2"
      "rg_commander reg2 = run_ops command_call (rg_commander reg1) (concat (map (pair_commands reg1 v u q env) ps))"
      "map d_pair ds = ps"
      "\<forall>p. p \<notin> set ps \<longrightarrow> map_of (rg_machines reg2) p = map_of (rg_machines reg1) p"
      "quiet reg1 reg2"
    and rd: "\<forall>d \<in> set ds. decided v u q env reg1 reg2 d"
    by auto
  have same: "map_of (rg_machines reg1) p' = map_of (rg_machines reg) p'" if "p' \<in> set ps" for p'
    using that Cons.prems(2) o(4) by auto
  note same_cmds = pair_commands_other [OF o(2) same, of _ v u q env]
  have "map (pair_commands reg1 v u q env) ps = map (pair_commands reg v u q env) ps" using same_cmds by simp
  with r(5) o(7) have cmd: "rg_commander reg2
      = run_ops command_call (rg_commander reg) (concat (map (pair_commands reg v u q env) (p # ps)))"
    by (simp add: run_ops_append)
  have pd: "map_of (rg_machines reg2) p = Some m1" using r(7) [rule_format, of p] o(4) Cons.prems(2) by simp
  have ds: "d_pair d' \<in> set ps" if "d' \<in> set ds" for d' using that r(6) by (metis image_eqI list.set_map)
  have "observe_pairs v u q env (p # ps) reg = (reg2, Inr (d # ds))" using o(1) r(1) by simp
  moreover have "\<forall>d' \<in> set (d # ds). decided v u q env reg reg2 d'"
  proof
    fix d' assume "d' \<in> set (d # ds)"
    then consider "d' = d" | "d' \<in> set ds" by auto
    then show "decided v u q env reg reg2 d'"
    proof cases
      case 1
      then show ?thesis using e m pd o(6,8,9,10) unfolding decided_def by blast
    next
      case 2
      from same [OF ds [OF this]] same_cmds [OF ds [OF this]] bspec [OF rd this] show ?thesis
        by (simp add: decided_def act)
    qed
  qed
  moreover have "\<forall>p'. p' \<notin> set (p # ps) \<longrightarrow> map_of (rg_machines reg2) p' = map_of (rg_machines reg) p'"
    using r(7) o(4) by simp
  ultimately show ?case
    using same_config_trans [OF o(2) r(2)] quiet_trans [OF o(11) r(8)] r(3,4,6) o(3,8) cmd by simp
qed

subsection \<open>The deferred gate\<close>

lemma list_ex_filter: "list_ex P (filter Q xs) = list_ex (\<lambda>x. Q x \<and> P x) xs"
  by (auto simp: list_ex_iff)

lemma settle_zone_form:
  assumes "settle_zone ds env z reg = (reg', res)"
  shows "\<exists>g. reg' = reg\<lparr>rg_gates := (rg_gates reg)(z := g),
      rg_commander := run_ops command_call (rg_commander reg)
        (if settles reg ds z then [CStartup z (n_gate env z)] else [])\<rparr>"
proof (cases "settles reg ds z")
  case True
  then have "\<not> list_ex d_tripped (filter (\<lambda>d. fst (d_pair d) = z) ds)"
    "\<not> list_ex (\<lambda>d. d_verdict d = REJECTED_INPUT) (filter (\<lambda>d. fst (d_pair d) = z) ds)"
    by (auto simp: settles_def list_ex_iff)
  with True assms show ?thesis
    by (auto simp: settle_zone_def settles_def note_credible_reading_def Let_def split: prod.splits sum.splits)
next
  case False
  have "\<exists>g. reg' = reg\<lparr>rg_gates := (rg_gates reg)(z := g)\<rparr>"
  proof (cases "\<exists>g. rg_gates reg z = Some g \<and> g_pending g
      \<and> \<not> list_ex (\<lambda>d. fst (d_pair d) = z \<and> (d_tripped d \<or> d_verdict d = REJECTED_INPUT)) ds")
    case True
    then obtain g where g: "rg_gates reg z = Some g" "g_pending g"
      and none: "\<not> list_ex d_tripped (filter (\<lambda>d. fst (d_pair d) = z) ds)"
        "\<not> list_ex (\<lambda>d. d_verdict d = REJECTED_INPUT) (filter (\<lambda>d. fst (d_pair d) = z) ds)"
      by (auto simp: list_ex_iff)
    have "g = \<lparr>g_pending = True\<rparr>" using g(2) by (cases g) simp
    with False True g(1) have "zone_tripped reg z" by (auto simp: settles_def)
    with assms g none show ?thesis
      by (auto simp: settle_zone_def note_credible_reading_def Let_def)
  next
    case False
    let ?T = "list_ex d_tripped (filter (\<lambda>d. fst (d_pair d) = z) ds)"
    let ?R = "list_ex (\<lambda>d. d_verdict d = REJECTED_INPUT) (filter (\<lambda>d. fst (d_pair d) = z) ds)"
    have listed: "?T \<or> ?R"
      if "list_ex (\<lambda>d. fst (d_pair d) = z \<and> (d_tripped d \<or> d_verdict d = REJECTED_INPUT)) ds"
      using that by (auto simp: list_ex_iff)
    have "reg' = reg \<or> (\<exists>g. reg' = reg\<lparr>rg_gates := (rg_gates reg)(z \<mapsto> note_trip g)\<rparr>)"
    proof (cases "\<exists>g. rg_gates reg z = Some g \<and> g_pending g")
      case True
      then obtain g where g: "rg_gates reg z = Some g" "g_pending g" by blast
      with False have "?T \<or> ?R" by (intro listed) blast
      with g have "settle_zone ds env z reg
          = (if ?T then reg\<lparr>rg_gates := (rg_gates reg)(z \<mapsto> note_trip g)\<rparr> else reg, Inr ())"
        by (simp add: settle_zone_def Let_def)
      then have "(reg', res) = (if ?T then reg\<lparr>rg_gates := (rg_gates reg)(z \<mapsto> note_trip g)\<rparr> else reg, Inr ())"
        by (rule trans [OF assms [symmetric]])
      then have "reg' = (if ?T then reg\<lparr>rg_gates := (rg_gates reg)(z \<mapsto> note_trip g)\<rparr> else reg)"
        by (rule Pair_inject)
      then show ?thesis by (cases ?T) (blast intro: if_P if_not_P trans)+
    next
      case False
      then have "settle_zone ds env z reg = (reg, Inr ())"
        by (cases "rg_gates reg z") (simp_all add: settle_zone_def)
      with assms have "reg' = reg" by simp
      then show ?thesis by (rule disjI1)
    qed
    then show ?thesis by (auto intro: exI [of _ "rg_gates reg z"])
  qed
  then show ?thesis using False by auto
qed

lemma settles_gates_other:
  "z' \<noteq> z \<Longrightarrow> settles (reg\<lparr>rg_gates := (rg_gates reg)(z := g), rg_commander := c\<rparr>) ds z' = settles reg ds z'"
  by (simp add: settles_def zone_tripped_def)

lemma settle_zones_effect:
  assumes "settle_zones ds env zs reg = (reg', res)" and "distinct zs"
  shows "same_config reg reg' \<and> rg_machines reg' = rg_machines reg \<and> quiet reg reg'
    \<and> (\<exists>zs' rest. filter (settles reg ds) zs = zs' @ rest \<and> (res = Inr () \<longrightarrow> rest = [])
        \<and> rg_commander reg' = run_ops command_call (rg_commander reg) (map (\<lambda>z. CStartup z (n_gate env z)) zs'))"
  using assms
proof (induction zs arbitrary: reg)
  case Nil
  then show ?case by auto
next
  case (Cons z zs)
  obtain reg1 r1 where s: "settle_zone ds env z reg = (reg1, r1)" by (cases "settle_zone ds env z reg")
  from settle_zone_form [OF this] obtain g where
    g: "reg1 = reg\<lparr>rg_gates := (rg_gates reg)(z := g),
      rg_commander := run_ops command_call (rg_commander reg)
        (if settles reg ds z then [CStartup z (n_gate env z)] else [])\<rparr>" by blast
  have frame: "same_config reg reg1" "rg_machines reg1 = rg_machines reg" by (simp_all add: g same_config_frame)
  have q: "quiet reg reg1" by (rule quiet_frame) (simp_all add: g)
  show ?case
  proof (cases r1)
    case (Inl e)
    then have "reg' = reg1" "res = Inl e" using s Cons.prems(1) by simp_all
    then have "filter (settles reg ds) (z # zs) = (if settles reg ds z then [z] else []) @ filter (settles reg ds) zs
      \<and> (res = Inr () \<longrightarrow> filter (settles reg ds) zs = [])
      \<and> rg_commander reg' = run_ops command_call (rg_commander reg)
          (map (\<lambda>z. CStartup z (n_gate env z)) (if settles reg ds z then [z] else []))"
      by (simp add: g)
    with frame q \<open>reg' = reg1\<close> show ?thesis by blast
  next
    case (Inr x)
    then have rest: "settle_zones ds env zs reg1 = (reg', res)" using s Cons.prems(1) by simp
    from Cons.IH [OF this] Cons.prems(2) obtain zs' rest where
      i: "same_config reg1 reg'" "rg_machines reg' = rg_machines reg1"
        "filter (settles reg1 ds) zs = zs' @ rest" "res = Inr () \<longrightarrow> rest = []"
        "rg_commander reg' = run_ops command_call (rg_commander reg1) (map (\<lambda>z. CStartup z (n_gate env z)) zs')"
        "quiet reg1 reg'"
      by auto
    have "settles reg1 ds x = settles reg ds x" if "x \<in> set zs" for x
      unfolding g using that Cons.prems(2) by (intro settles_gates_other) auto
    then have "filter (settles reg1 ds) zs = filter (settles reg ds) zs" by (intro filter_cong) auto
    with i(3) have "filter (settles reg ds) (z # zs) = ((if settles reg ds z then [z] else []) @ zs') @ rest" by simp
    moreover have "rg_commander reg' = run_ops command_call (rg_commander reg)
        (map (\<lambda>z. CStartup z (n_gate env z)) ((if settles reg ds z then [z] else []) @ zs'))"
      using i(5) by (simp add: g)
    ultimately show ?thesis
      using i(2,4) frame same_config_trans [OF frame(1) i(1)] quiet_trans [OF q i(6)] by metis
  qed
qed

subsection \<open>The whole reading\<close>

lemma by_sensor_ok:
  assumes "registry_inv reg"
  shows "distinct (by_sensor reg s)" and "set (by_sensor reg s) \<subseteq> fst ` set (rg_active reg)"
    and "p \<in> set (by_sensor reg s) \<longleftrightarrow> (\<exists>e. map_of (rg_active reg) p = Some e \<and> a_sensor_id e = s)"
proof -
  have d: "distinct (map fst (rg_active reg))" using assms by (simp add: registry_inv_def)
  then show "distinct (by_sensor reg s)" unfolding by_sensor_def by (rule distinct_map_filter)
  show "set (by_sensor reg s) \<subseteq> fst ` set (rg_active reg)" by (auto simp: by_sensor_def)
  show "p \<in> set (by_sensor reg s) \<longleftrightarrow> (\<exists>e. map_of (rg_active reg) p = Some e \<and> a_sensor_id e = s)"
    using d by (cases p) (auto simp: by_sensor_def image_iff)
qed

lemma observe_reading_effect:
  assumes inv: "registry_inv reg" and o: "observe_reading reg s v u q env = (reg', res)"
  shows "\<exists>ds zs. reading_effect reg s v u q env reg' ds zs \<and> (res = Inr ds \<or> (\<exists>e. res = Inl e))"
proof -
  let ?ps = "by_sensor reg s"
  obtain reg1 ds where p: "observe_pairs v u q env ?ps reg = (reg1, Inr ds)" "same_config reg reg1"
    "rg_gates reg1 = rg_gates reg" "registry_inv reg1"
    "rg_commander reg1 = run_ops command_call (rg_commander reg) (concat (map (pair_commands reg v u q env) ?ps))"
    "map d_pair ds = ?ps" "\<forall>p. p \<notin> set ?ps \<longrightarrow> map_of (rg_machines reg1) p = map_of (rg_machines reg) p"
    "\<forall>d \<in> set ds. decided v u q env reg reg1 d" "quiet reg reg1"
    using observe_pairs_effect [OF inv by_sensor_ok(1,2) [OF inv], of v u q env s] by auto
  have same: "by_sensor reg1 s = ?ps" using p(2) by (simp add: by_sensor_def same_config_def)
  show ?thesis
  proof (cases "ds = []")
    case True
    then have "reg' = reg1" "res = Inr ds" using o p(1) by (simp_all add: observe_reading_def)
    moreover from p have "reading_effect reg s v u q env reg1 ds []" by (simp add: reading_effect_def)
    ultimately show ?thesis by blast
  next
    case False
    obtain r2 where st: "settle_zones ds env (remdups (map fst ?ps)) reg1 = (reg', r2)"
      "res = Inr ds \<or> (\<exists>e. res = Inl e)"
      using o p(1) False same
      by (auto simp: observe_reading_def settle_deferred_gate_def split: prod.splits sum.splits)
    obtain zs rest where z: "same_config reg1 reg'" "rg_machines reg' = rg_machines reg1"
      "filter (settles reg1 ds) (remdups (map fst ?ps)) = zs @ rest"
      "rg_commander reg' = run_ops command_call (rg_commander reg1) (map (\<lambda>z. CStartup z (n_gate env z)) zs)"
      "quiet reg1 reg'"
      using settle_zones_effect [OF st(1)] by auto
    have c: "same_config reg reg'" using same_config_trans [OF p(2) z(1)] .
    have inv': "registry_inv reg'"
      using p(4) z(1,2) by (simp add: registry_inv_def same_config_def)
    have "set zs \<subseteq> set (filter (settles reg1 ds) (remdups (map fst ?ps)))" by (simp add: z(3))
    then have zs: "z \<in> fst ` set ?ps \<and> settles reg1 ds z" if "z \<in> set zs" for z using that by auto
    have zs': "z \<in> fst ` fst ` set (rg_active reg) \<and> \<not> zone_tripped reg' z
       \<and> (\<forall>d \<in> set ds. fst (d_pair d) = z \<longrightarrow> d_verdict d \<noteq> REJECTED_INPUT)" if "z \<in> set zs" for z
    proof -
      from zs [OF that] by_sensor_ok(2) [OF inv, of s] have "z \<in> fst ` fst ` set (rg_active reg)" by auto
      with zs [OF that] show ?thesis
        by (auto simp: settles_def z(2) zone_tripped_def list_ex_iff)
    qed
    have dec: "decided v u q env reg reg' d" if "d \<in> set ds" for d
      using bspec [OF p(8) that] by (simp add: decided_def z(2))
    have other: "map_of (rg_machines reg') p = map_of (rg_machines reg) p" if "p \<notin> set ?ps" for p
      using p(7) [rule_format, OF that] by (simp add: z(2))
    have cmd: "rg_commander reg' = run_ops command_call (rg_commander reg)
       (concat (map (pair_commands reg v u q env) ?ps) @ map (\<lambda>z. CStartup z (n_gate env z)) zs)"
      by (simp add: z(4) p(5) run_ops_append)
    have "reading_effect reg s v u q env reg' ds zs"
      unfolding reading_effect_def using c inv' p(6) dec other cmd zs' quiet_trans [OF p(9) z(5)] by blast
    then show ?thesis using st(2) by blast
  qed
qed

lemma pair_commands_licensed:
  assumes "registry_inv reg"
  shows "list_all (licensed reg) (pair_commands reg v u q env p)"
proof (cases "map_of (rg_active reg) p")
  case (Some e)
  then have "fst p \<in> fst ` fst ` set (rg_active reg)" by (metis image_eqI map_of_SomeD fst_conv)
  then show ?thesis
    by (simp add: pair_commands_def licensed_def split: option.splits)
qed (simp add: pair_commands_def)

lemma observed_state:
  "m_state (observed m v) = (if newly_trips m v then TRIPPED else m_state m)"
  by (auto simp: observed_def newly_trips_def Let_def)

lemma reading_result_state:
  assumes "reading_result c m v (pair_commands reg val u q env p) m'"
  shows "m_state m' = (if newly_trips m v then TRIPPED else m_state m)"
  using assms
  by (auto simp: reading_result_def observed_state split: list.splits command_op.splits)

lemma zone_tripped_mono:
  assumes "registry_inv reg" and "registry_inv reg'"
    and "keeps_trips reg reg'" and "zone_tripped reg z"
  shows "zone_tripped reg' z"
proof -
  have "distinct (map fst (rg_machines reg))" "distinct (map fst (rg_machines reg'))"
    using assms(1,2) by (simp_all add: registry_inv_def)
  with assms(3,4) show ?thesis unfolding keeps_trips_def by (metis zone_tripped_iff)
qed

lemma reading_effectD:
  assumes "reading_effect reg s v u q env reg' ds zs"
  shows "same_config reg reg'" and "registry_inv reg'"
    and "p \<in> set (by_sensor reg s) \<Longrightarrow> \<exists>d \<in> set ds. d_pair d = p \<and> decided v u q env reg reg' d"
    and "p \<notin> set (by_sensor reg s) \<Longrightarrow> map_of (rg_machines reg') p = map_of (rg_machines reg) p"
    and "rg_commander reg' = run_ops command_call (rg_commander reg)
      (concat (map (pair_commands reg v u q env) (by_sensor reg s)) @ map (\<lambda>z. CStartup z (n_gate env z)) zs)"
    and "z \<in> set zs \<Longrightarrow> z \<in> fst ` fst ` set (rg_active reg)"
    and "z \<in> set zs \<Longrightarrow> \<not> zone_tripped reg' z" and "quiet reg reg'"
proof -
  note e = assms [unfolded reading_effect_def]
  then have "d_pair ` set ds = set (by_sensor reg s)" by (metis list.set_map)
  moreover have "\<forall>d \<in> set ds. decided v u q env reg reg' d" using e by (elim conjE)
  ultimately show "p \<in> set (by_sensor reg s) \<Longrightarrow> \<exists>d \<in> set ds. d_pair d = p \<and> decided v u q env reg reg' d"
    by (metis imageE)
qed (use assms [unfolded reading_effect_def] in \<open>(elim conjE, blast)+\<close>)

lemma decided_state:
  assumes "decided v u q env reg reg' d"
  obtains e m m' where "map_of (rg_active reg) (d_pair d) = Some e" "map_of (rg_machines reg) (d_pair d) = Some m"
    "map_of (rg_machines reg') (d_pair d) = Some m'"
    "m_state m' = (if newly_trips m (evaluate_pair e v u q) then TRIPPED else m_state m)"
  using assms reading_result_state unfolding decided_def by blast

lemma observe_reading_steps:
  assumes inv: "registry_inv reg" and "observe_reading reg s v u q env = (reg', res)"
  shows "steps_to reg reg'"
proof -
  from observe_reading_effect [OF assms] obtain ds zs where "reading_effect reg s v u q env reg' ds zs" by blast
  note o = reading_effectD [OF this]
  have "\<exists>m'. map_of (rg_machines reg') p = Some m' \<and> m_state m' = TRIPPED"
    if m: "map_of (rg_machines reg) p = Some m" "m_state m = TRIPPED" for p m
  proof (cases "p \<in> set (by_sensor reg s)")
    case True
    from o(3) [OF this] obtain d where "d_pair d = p" "decided v u q env reg reg' d" by blast
    with m show ?thesis by (auto elim!: decided_state)
  next
    case False
    from o(4) [OF this] show ?thesis using m by simp
  qed
  then have keeps: "keeps_trips reg reg'" unfolding keeps_trips_def by blast
  have "list_all (licensed reg) (concat (map (pair_commands reg v u q env) (by_sensor reg s)))"
    using pair_commands_licensed [OF inv] by (auto simp: list_all_iff)
  moreover have "licensed reg (CStartup z g)" if "z \<in> set zs" for z g
    using o(6,7) [OF that] zone_tripped_mono [OF inv o(2) keeps] unfolding licensed_def command_op.case by blast
  ultimately have "list_all (licensed reg) (concat (map (pair_commands reg v u q env) (by_sensor reg s))
      @ map (\<lambda>z. CStartup z (n_gate env z)) zs)"
    by (auto simp: list_all_iff)
  with o(1,2,5,8) keeps show ?thesis unfolding steps_to_def by blast
qed

subsection \<open>Steps of the other calls\<close>

lemma keeps_trips_refl [simp]: "keeps_trips reg reg"
  by (simp add: keeps_trips_def)

lemma keeps_trips_trans: "keeps_trips a b \<Longrightarrow> keeps_trips b c \<Longrightarrow> keeps_trips a c"
  unfolding keeps_trips_def by blast

lemma steps_toI:
  "same_config reg reg' \<Longrightarrow> registry_inv reg' \<Longrightarrow> keeps_trips reg reg' \<Longrightarrow> quiet reg reg' \<Longrightarrow>
   rg_commander reg' = run_ops command_call (rg_commander reg) xs \<Longrightarrow> list_all (licensed reg) xs \<Longrightarrow> steps_to reg reg'"
  unfolding steps_to_def by blast

lemma steps_to_frame:
  assumes "registry_inv reg" and "same_config reg reg'" and "rg_machines reg' = rg_machines reg"
    and "rg_commander reg' = rg_commander reg" and "quiet reg reg'"
  shows "steps_to reg reg'"
proof -
  have "registry_inv reg'" using assms by (simp add: registry_inv_def same_config_def)
  moreover have "rg_commander reg' = run_ops command_call (rg_commander reg) [] \<and> list_all (licensed reg) []"
    using assms(4) by simp
  moreover have "keeps_trips reg reg'" using assms(3) by (simp add: keeps_trips_def)
  ultimately show ?thesis using assms(2,5) unfolding steps_to_def by blast
qed

lemma licensed_mono:
  assumes "same_config reg reg'" and "registry_inv reg" and "registry_inv reg'" and "keeps_trips reg reg'"
    and "licensed reg' x"
  shows "licensed reg x"
  using assms(1,5) zone_tripped_mono [OF assms(2-4)]
  by (auto simp: licensed_def same_config_def split: command_op.splits)

lemma steps_to_trans:
  assumes inv: "registry_inv a" and ab: "steps_to a b" and bc: "steps_to b c"
  shows "steps_to a c"
proof -
  from ab obtain xs where x: "rg_commander b = run_ops command_call (rg_commander a) xs" "list_all (licensed a) xs"
    and b: "same_config a b" "registry_inv b" "keeps_trips a b" "quiet a b" unfolding steps_to_def by blast
  from bc obtain ys where y: "rg_commander c = run_ops command_call (rg_commander b) ys" "list_all (licensed b) ys"
    and c: "same_config b c" "registry_inv c" "keeps_trips b c" "quiet b c" unfolding steps_to_def by blast
  have "list_all (licensed a) (xs @ ys)"
    using x(2) y(2) licensed_mono [OF b(1) inv b(2,3)] by (auto simp: list_all_iff)
  moreover have "rg_commander c = run_ops command_call (rg_commander a) (xs @ ys)"
    by (simp add: run_ops_append x(1) y(1))
  ultimately show ?thesis
    using same_config_trans [OF b(1) c(1)] c(2) keeps_trips_trans [OF b(3) c(3)]
      quiet_trans [OF b(4) c(4)] unfolding steps_to_def by blast
qed

lemma steps_to_inv: "steps_to a b \<Longrightarrow> registry_inv b"
  by (simp add: steps_to_def)

lemma intent_settled_frame:
  assumes "intent_settled reg p = (reg', b)"
  shows "same_config reg reg'" "rg_machines reg' = rg_machines reg" "rg_commander reg' = rg_commander reg"
    "quiet reg reg'"
  using assms by (auto simp: intent_settled_def same_config_frame split: option.splits if_splits intro: quiet_frame)

lemma retry_attempted_open:
  assumes "machine_ok m" and "t_retry (snd (outcome_retry m)) = Some RetryAttempted"
  shows "m_state m = TRIPPED" and "command_open m" and "\<not> m_driver_attempt_in_flight m"
    and "m_command_status m \<noteq> CS_command_issued" and "\<not> m_orphaned m"
proof -
  have t: "m_state m = TRIPPED" "\<not> m_driver_attempt_in_flight m" "m_command_status m \<noteq> CS_command_issued" "\<not> m_orphaned m"
    using assms(2) by (auto simp: outcome_retry_def split: if_splits)
  moreover have "command_open m"
    using t assms(1) by (cases "m_command_status m") (auto simp: command_open_def machine_ok_def)
  ultimately show "m_state m = TRIPPED" and "command_open m" and "\<not> m_driver_attempt_in_flight m"
    and "m_command_status m \<noteq> CS_command_issued" and "\<not> m_orphaned m" by auto
qed

text \<open>An attempt on an active, open pair never raises and is one licensed command.\<close>

lemma attempt_command_steps:
  assumes inv: "registry_inv reg" and e: "map_of (rg_active reg) p = Some e"
    and m: "map_of (rg_machines reg) p = Some m" "m_state m = TRIPPED" "command_open m"
  shows "\<exists>reg' b. attempt_command reg p e m env = (reg', Inr b) \<and> steps_to reg reg'"
proof -
  note D = registry_invD [OF inv e]
  have ok: "machine_ok m" using inv m(1) by (rule registry_inv_machine)
  then have idle: "\<not> m_driver_attempt_in_flight m" by (simp add: machine_ok_def)
  obtain c ans where ca: "command_outcome (rg_commander reg) (fst p) OPEN_PROTECTED_CIRCUIT (e_gpio env) = (c, ans)"
    by (cases "command_outcome (rg_commander reg) (fst p) OPEN_PROTECTED_CIRCUIT (e_gpio env)")
  obtain recorded db uns where att: "attempt_command reg p e m env =
      (set_machine ((begin_intent reg p e env)\<lparr>rg_commander := c, rg_unsettled := uns, rg_journal := db\<rparr>) p
         (attempted m ans recorded), Inr (accepted_of ans))"
    using attempt_command_effect [OF e D(1) m(3) idle, of env c ans] D(2) ca by auto
  let ?reg' = "set_machine ((begin_intent reg p e env)\<lparr>rg_commander := c, rg_unsettled := uns, rg_journal := db\<rparr>) p
         (attempted m ans recorded)"
  have cfg: "same_config reg ?reg'"
    using m(1) by (intro same_config_set_machine) (auto simp: same_config_frame)
  have ms: "map_of (rg_machines ?reg') = (map_of (rg_machines reg))(p \<mapsto> attempted m ans recorded)" by simp
  have inv': "registry_inv ?reg'"
    using registry_inv_step [OF inv cfg ms machine_ok_attempted [OF ok m(2)]] .
  have "keeps_trips reg ?reg'" using m(1,2) ms unfolding keeps_trips_def by simp
  moreover have "list_all (licensed reg) [COutcome (fst p) OPEN_PROTECTED_CIRCUIT (e_gpio env)]"
  proof -
    have "fst p \<in> fst ` fst ` set (rg_active reg)" using e by (metis image_eqI map_of_SomeD fst_conv)
    then show ?thesis by (simp add: licensed_def)
  qed
  moreover have "rg_commander ?reg' = run_ops command_call (rg_commander reg)
      [COutcome (fst p) OPEN_PROTECTED_CIRCUIT (e_gpio env)]" using ca by simp
  moreover have "quiet reg ?reg'" by (rule quiet_frame) simp_all
  ultimately have "steps_to reg ?reg'" using cfg inv' by (blast intro: steps_toI)
  then show ?thesis using att by blast
qed

lemma retry_pending_pair_steps:
  assumes inv: "registry_inv reg"
  shows "\<exists>reg' n. retry_pending_pair env p reg = (reg', Inr n) \<and> steps_to reg reg'"
proof -
  obtain reg1 b where s: "intent_settled reg p = (reg1, b)" by (cases "intent_settled reg p")
  note f = intent_settled_frame [OF s]
  have st: "steps_to reg reg1" using steps_to_frame [OF inv f] .
  have inv1: "registry_inv reg1" using st by (rule steps_to_inv)
  show ?thesis
  proof (cases "\<exists>m e. b \<and> map_of (rg_machines reg1) p = Some m \<and> map_of (rg_active reg1) p = Some e
      \<and> t_retry (snd (outcome_retry m)) = Some RetryAttempted")
    case True
    then obtain m e where me: b "map_of (rg_machines reg1) p = Some m" "map_of (rg_active reg1) p = Some e"
      "t_retry (snd (outcome_retry m)) = Some RetryAttempted" by blast
    have "machine_ok m" using inv1 me(2) by (rule registry_inv_machine)
    note r = retry_attempted_open [OF this me(4)]
    from attempt_command_steps [OF inv1 me(3,2) r(1,2), of "env p"] obtain reg2 x where
      "attempt_command reg1 p e m (env p) = (reg2, Inr x)" "steps_to reg1 reg2" by blast
    then show ?thesis using s me steps_to_trans [OF inv st] by (simp add: retry_pending_pair_def)
  next
    case False
    then have "retry_pending_pair env p reg = (reg1, Inr 0)"
      using s by (cases b) (auto simp: retry_pending_pair_def split: option.splits)
    then show ?thesis using st by blast
  qed
qed

lemma write_record_frame:
  assumes "write_record reg p m fate at_ms = (reg', ok)"
  shows "same_config reg reg'" "rg_machines reg' = rg_machines reg" "rg_commander reg' = rg_commander reg"
    "quiet reg reg'"
  using write_record_sel [OF assms] by (auto simp: same_config_frame intro: quiet_frame)

lemma retry_record_pair_steps:
  assumes inv: "registry_inv reg"
  shows "\<exists>reg' n. retry_record_pair env p reg = (reg', Inr n) \<and> steps_to reg reg'
    \<and> rg_commander reg' = rg_commander reg"
proof (cases "map_of (rg_machines reg) p")
  case None
  then show ?thesis using steps_to_frame [OF inv] by (auto simp: retry_record_pair_def)
next
  case (Some m)
  obtain reg1 b where s: "intent_settled reg p = (reg1, b)" by (cases "intent_settled reg p")
  note f = intent_settled_frame [OF s]
  obtain reg2 ok where w: "write_record reg1 p m (fst (env p)) (snd (env p)) = (reg2, ok)"
    by (cases "write_record reg1 p m (fst (env p)) (snd (env p))")
  note g = write_record_frame [OF w]
  have cfg2: "same_config reg reg2" using same_config_trans [OF f(1) g(1)] .
  let ?m = "fst (record_retry m True)"
  have "machine_ok m" using inv Some by (rule registry_inv_machine)
  then have "machine_ok ?m" "m_state ?m = m_state m" by (auto simp: record_retry_def machine_ok_def)
  note mok = this
  have m2: "map_of (rg_machines reg2) p = Some m" using Some f(2) g(2) by simp
  let ?reg3 = "set_machine reg2 p ?m"
  have cfg3: "same_config reg ?reg3" using cfg2 m2 by (rule same_config_set_machine)
  have ms: "map_of (rg_machines ?reg3) = (map_of (rg_machines reg))(p \<mapsto> ?m)" using f(2) g(2) by simp
  have "registry_inv ?reg3" using registry_inv_step [OF inv cfg3 ms mok(1)] .
  moreover have "keeps_trips reg ?reg3" using ms Some mok(2) unfolding keeps_trips_def by simp
  moreover have "rg_commander ?reg3 = run_ops command_call (rg_commander reg) []" using f(3) g(3) by simp
  moreover have "quiet reg ?reg3"
    by (rule quiet_trans [OF quiet_trans [OF f(4) g(4)] quiet_frame]) simp_all
  ultimately have st3: "steps_to reg ?reg3" using cfg3 by (intro steps_toI [where xs = "[]"]) simp_all
  have st: "steps_to reg reg" "steps_to reg reg1" "steps_to reg reg2"
    using steps_to_frame [OF inv] f g cfg2 quiet_trans [OF f(4) g(4)] by simp_all
  have "retry_record_pair env p reg \<in> {(reg, Inr 0), (reg1, Inr 0), (reg2, Inr 0), (?reg3, Inr 1)}"
    using Some s w by (cases b; cases ok) (simp_all add: retry_record_pair_def)
  then show ?thesis using st st3 f(3) g(3) by auto
qed

lemma pass_over_steps:
  assumes inv: "registry_inv reg"
    and step: "\<And>p r. registry_inv r \<Longrightarrow> \<exists>r' n. f p r = (r', Inr n) \<and> steps_to r r'"
  shows "\<exists>reg' n. pass_over f ps reg = (reg', Inr n) \<and> steps_to reg reg'"
  using inv
proof (induction ps arbitrary: reg)
  case Nil
  then show ?case using steps_to_frame by simp
next
  case (Cons p ps)
  from step [OF Cons.prems] obtain r1 n where 1: "f p reg = (r1, Inr n)" "steps_to reg r1" by blast
  from Cons.IH [OF steps_to_inv [OF 1(2)]] obtain r2 k where 2: "pass_over f ps r1 = (r2, Inr k)" "steps_to r1 r2" by blast
  then show ?case using 1 steps_to_trans [OF Cons.prems 1(2) 2(2)] by simp
qed

lemma alerts_only_trans: "alerts_only a b \<Longrightarrow> alerts_only b c \<Longrightarrow> alerts_only a c"
  unfolding alerts_only_def using same_config_trans quiet_trans by auto

lemma alerts_only_alert: "alerts_only reg (fst (safety_alert reg p k t b))"
  by (simp add: alerts_only_def quiet_alert same_config_def)

lemma alerts_only_fold:
  "alerts_only r (fst (fold (\<lambda>p (r, told). case safety_alert r p k (fst (env p)) (snd (env p)) of
     (r', b) \<Rightarrow> (r', told \<or> b)) ps (r, t)))"
proof (induction ps arbitrary: r t)
  case Nil
  then show ?case by (simp add: alerts_only_def)
next
  case (Cons p ps)
  then show ?case by (auto simp: case_prod_beta intro: alerts_only_trans [OF alerts_only_alert])
qed

lemma note_losses_frame:
  "alerts_only (reg\<lparr>rg_degraded := rg_degraded reg \<union> set ps\<rparr>) (fst (note_losses reg ps env))"
  unfolding note_losses_def by (rule alerts_only_fold)

lemma note_losses_steps:
  assumes "registry_inv reg"
  shows "steps_to reg (fst (note_losses reg ps env))"
proof -
  note a = note_losses_frame [of reg ps env, unfolded alerts_only_def]
  have "quiet reg (reg\<lparr>rg_degraded := rg_degraded reg \<union> set ps\<rparr>)" by (rule quiet_frame) simp_all
  with a have "quiet reg (fst (note_losses reg ps env))" using quiet_trans by blast
  with a show ?thesis by (intro steps_to_frame [OF assms]) (simp_all add: same_config_def)
qed

lemma intent_finishes_frame:
  "same_config reg (intent_finishes reg a ok)" "rg_machines (intent_finishes reg a ok) = rg_machines reg"
  "rg_commander (intent_finishes reg a ok) = rg_commander reg" "quiet reg (intent_finishes reg a ok)"
  by (simp_all add: intent_finishes_def same_config_def quiet_frame split: list.split)

lemma registry_call_steps:
  assumes inv: "registry_inv reg" and "registry_call reg x = Inr (reg', ans)"
  shows "steps_to reg reg'"
proof (cases x)
  case (RgReading s v u q env)
  then have "fst (observe_reading reg s v u q env) = reg'" using assms(2) by (auto split: prod.splits sum.splits)
  then show ?thesis using observe_reading_steps [OF inv] by (metis prod.collapse)
next
  case (RgRetryPending env)
  from pass_over_steps [OF inv, of "retry_pending_pair env" "map fst (rg_machines reg)"]
    retry_pending_pair_steps RgRetryPending assms(2)
  show ?thesis by (auto simp: retry_pending_once_def)
next
  case (RgRetryRecords env)
  have "\<exists>r n. pass_over (retry_record_pair env) (map fst (rg_machines reg)) reg = (r, Inr n) \<and> steps_to reg r"
    using retry_record_pair_steps by (intro pass_over_steps [OF inv]) blast
  with RgRetryRecords assms(2) show ?thesis by (auto simp: retry_records_once_def)
next
  case (RgWatchLoss now env)
  then show ?thesis using note_losses_steps [OF inv] assms(2) by (auto simp: watch_measurement_loss_def)
next
  case (RgSensorUnavailable s env)
  then have "reg' = fst (note_sensor_unavailable reg s env)" using assms(2) by (simp split: prod.splits)
  then show ?thesis using note_losses_steps [OF inv] by (simp add: note_sensor_unavailable_def)
next
  case (RgIntentFinishes a ok)
  then show ?thesis using steps_to_frame [OF inv] intent_finishes_frame assms(2) by auto
qed

text \<open>The registry as a latching object: of every pair, its trip.\<close>

lemma registry_call_latch:
  assumes "registry_inv reg" and "registry_call reg x = Inr (reg', ans)"
  shows "registry_inv reg'" and "pair_tripped p reg \<Longrightarrow> pair_tripped p reg'"
  using registry_call_steps [OF assms] unfolding steps_to_def keeps_trips_def pair_tripped_def by blast+

interpretation registry: latching_object registry_call registry_inv "\<lambda>_ _. True" "pair_tripped p" "\<lambda>_. False" for p
  by unfold_locales (auto intro: registry_call_latch)

lemma registry_run_steps:
  assumes "registry_inv reg"
  shows "steps_to reg (run_ops registry_call reg xs)"
  using assms
proof (induction xs arbitrary: reg)
  case Nil
  then show ?case by (simp add: steps_to_frame)
next
  case (Cons x xs)
  show ?case
  proof (cases "registry_call reg x")
    case (Inl e)
    then show ?thesis using Cons by simp
  next
    case (Inr r)
    then have "steps_to reg (fst r)" using registry_call_steps [OF Cons.prems] by (metis prod.collapse)
    then have "steps_to reg (run_ops registry_call (fst r) xs)"
      using Cons.IH [OF steps_to_inv] steps_to_trans [OF Cons.prems] by blast
    then show ?thesis using Inr by (simp add: case_prod_beta)
  qed
qed

subsection \<open>Zones the registry does not command\<close>

lemma command_call_other:
  assumes "command_call c x = Inr (c', r)" and "z \<noteq> (case x of COutcome z _ _ \<Rightarrow> z | CStartup z _ \<Rightarrow> z)"
  shows "cm_actuators c' z = cm_actuators c z"
  using assms
  by (cases x) (auto simp: command_outcome_def command_startup_de_energised_def acquired_def commanded_def
      split: option.splits if_splits prod.splits)

lemma run_commands_other:
  assumes "list_all (licensed reg) xs" and "z \<notin> fst ` fst ` set (rg_active reg)"
  shows "cm_actuators (run_ops command_call c xs) z = cm_actuators c z"
  using assms(1)
proof (induction xs arbitrary: c)
  case (Cons x xs)
  obtain c' r where c: "command_call c x = Inr (c', r)" by (cases x) (auto intro: that prod.collapse [symmetric])
  have "(case x of COutcome z _ _ \<Rightarrow> z | CStartup z _ \<Rightarrow> z) \<in> fst ` fst ` set (rg_active reg)"
    using Cons.prems by (cases x) (simp_all add: licensed_def)
  then have "cm_actuators c' z = cm_actuators c z" using command_call_other [OF c] assms(2) by metis
  then show ?case using Cons c by simp
qed simp

lemma example_registry_inv: "registry_inv example_registry"
  by (simp add: registry_inv_def example_registry_def example_active_def example_pair_def
      example_machine_def machine_ok_def)

lemma example_registry_sel:
  "map_of (rg_active example_registry) example_pair = Some example_active"
  "map_of (rg_machines example_registry) example_pair = Some example_machine"
  "rg_commander example_registry = example_commander" "rg_notices example_registry = []"
  by (simp_all add: example_registry_def)

section \<open>Properties\<close>



text \<open>
  C13. Nothing gates the command: an attempt on an active pair with an open command never
  raises and gives the zone's commander the opening outcome exactly once, whatever happens
  to the intent append (in time, failed, still running) and to the record write, and whether
  the driver accepts, refuses or raises. The status it leaves is the driver's answer:
  issued, refused, or what it was when the driver raised; the pair stays tripped and no
  attempt is left in flight.
\<close>

theorem attempt_commands_once:
  assumes "registry_inv reg" and "map_of (rg_active reg) p = Some e"
    and "map_of (rg_machines reg) p = Some m" and "command_open m"
    and "command_outcome (rg_commander reg) (fst p) OPEN_PROTECTED_CIRCUIT (e_gpio env) = (c, ans)"
  shows "\<exists>reg' m'. attempt_command reg p e m env = (reg', Inr (accepted_of ans))
    \<and> rg_commander reg' = c
    \<and> map_of (rg_machines reg') = (map_of (rg_machines reg))(p \<mapsto> m')
    \<and> m_state m' = TRIPPED \<and> \<not> m_driver_attempt_in_flight m'
    \<and> m_command_status m' = (case ans of Inl _ \<Rightarrow> m_command_status m
        | Inr accepted \<Rightarrow> if accepted then CS_command_issued else CS_driver_refused)"
proof -
  note D = registry_invD [OF assms(1,2)]
  have ok: "machine_ok m" using assms(1,3) by (rule registry_inv_machine)
  have t: "m_state m = TRIPPED" "\<not> m_driver_attempt_in_flight m"
    using assms(4) ok by (simp_all add: command_open_def machine_ok_def)
  obtain recorded db uns where "attempt_command reg p e m env =
      (set_machine ((begin_intent reg p e env)\<lparr>rg_commander := c, rg_unsettled := uns, rg_journal := db\<rparr>) p
         (attempted m ans recorded), Inr (accepted_of ans))"
    using attempt_command_effect [OF assms(2) D(1) assms(4) t(2), of env c ans] D(2) assms(5) by auto
  moreover have "machine_ok (attempted m ans recorded)" using machine_ok_attempted [OF ok t(1)] .
  ultimately show ?thesis using t(1) by (auto simp: machine_ok_def)
qed

theorem attempt_commands_once_witness:
  "\<exists>reg' m'. attempt_command (set_machine example_registry example_pair
       (example_machine\<lparr>m_state := TRIPPED, m_command_status := CS_driver_refused\<rparr>)) example_pair example_active
       (example_machine\<lparr>m_state := TRIPPED, m_command_status := CS_driver_refused\<rparr>) example_attempt
     = (reg', Inr (Some True)) \<and> map_of (rg_machines reg') example_pair = Some m'
     \<and> m_command_status m' = CS_command_issued"
proof -
  let ?m = "example_machine\<lparr>m_state := TRIPPED, m_command_status := CS_driver_refused\<rparr>"
  let ?r = "set_machine example_registry example_pair ?m"
  have mok: "machine_ok ?m" by (simp add: machine_ok_def example_machine_def)
  have inv: "registry_inv ?r"
    using registry_inv_step [OF example_registry_inv
        same_config_set_machine [OF same_config_refl example_registry_sel(2)] set_machine_sel(1) mok] .
  have pre: "map_of (rg_active ?r) example_pair = Some example_active" "map_of (rg_machines ?r) example_pair = Some ?m"
    "command_open ?m"
    by (simp_all add: example_registry_sel command_open_def)
  obtain c where c: "command_outcome (rg_commander ?r) (fst example_pair) OPEN_PROTECTED_CIRCUIT (e_gpio example_attempt)
      = (c, Inr True)"
  proof -
    have "snd (command_outcome example_commander ''z1'' OPEN_PROTECTED_CIRCUIT (e_gpio example_attempt)) = Inr True"
      by code_simp
    then show thesis
      by (intro that) (simp add: example_registry_sel example_pair_def prod_eq_iff)
  qed
  from attempt_commands_once [OF inv pre c] obtain reg' m' where
    "attempt_command ?r example_pair example_active ?m example_attempt = (reg', Inr (accepted_of (Inr True)))"
    and "map_of (rg_machines reg') = (map_of (rg_machines ?r))(example_pair \<mapsto> m')"
    and "m_command_status m' = CS_command_issued" by auto
  then show ?thesis by (intro exI [of _ reg'] exI [of _ m']) (simp add: accepted_of_def)
qed



text \<open>
  Safety notices are spaced: from a registry that has sent none, after any sequence of
  calls and whatever the clock reads, two consecutive notices of the same pair and kind are
  at least the suppression interval of 300 seconds apart.
\<close>

theorem notices_are_spaced:
  assumes "registry_inv reg" and "rg_notices reg = []"
  shows "spaced (times_of (run_ops registry_call reg xs) key)"
proof -
  have "key_spaced reg key" using assms(2) by (simp add: key_spaced_def times_of_def)
  then have "key_spaced (run_ops registry_call reg xs) key"
    using registry_run_steps [OF assms(1), of xs] unfolding steps_to_def quiet_def by blast
  then show ?thesis by (simp add: key_spaced_def)
qed

theorem notices_are_spaced_witness:
  "spaced (times_of (run_ops registry_call example_registry
     [RgReading ''s1'' (PyBool True) (PyStr ''A'') (PyInt 1) example_env,
      RgReading ''s1'' (PyBool True) (PyStr ''A'') (PyInt 1) example_env]) (example_pair, ''rejected_input''))"
  using notices_are_spaced [OF example_registry_inv example_registry_sel(4)] .

text \<open>
  Measurement loss degrades and holds: the watch marks exactly the active pairs with no
  credible reading within five poll intervals (never less than the floor of a minute),
  beside those already marked, and it changes no machine, no gate, no journal row and gives
  the commander nothing, whatever the sink answers.
\<close>

theorem loss_watch_holds:
  fixes now :: int and env :: "pair \<Rightarrow> int \<times> bool"
  assumes "distinct (map fst (rg_active reg))"
  defines "reg' \<equiv> watch_measurement_loss reg now env"
  shows "rg_machines reg' = rg_machines reg \<and> rg_commander reg' = rg_commander reg
    \<and> rg_journal reg' = rg_journal reg \<and> rg_gates reg' = rg_gates reg
    \<and> rg_degraded reg' = rg_degraded reg \<union> {p. \<exists>e. map_of (rg_active reg) p = Some e
        \<and> now - last_credible reg p > loss_bound reg e}
    \<and> (\<forall>p e. map_of (rg_active reg) p = Some e \<longrightarrow> loss_bound reg e \<ge> LOSS_FLOOR_MS)"
proof -
  note f = note_losses_frame [of reg "lost_pairs reg now" env, unfolded alerts_only_def]
  have "set (lost_pairs reg now) = {p. \<exists>e. map_of (rg_active reg) p = Some e
      \<and> now - last_credible reg p > loss_bound reg e \<and> p \<notin> rg_degraded reg}"
    using assms(1) by (force simp: lost_pairs_def)
  then have "rg_degraded reg \<union> set (lost_pairs reg now) = rg_degraded reg \<union>
      {p. \<exists>e. map_of (rg_active reg) p = Some e \<and> now - last_credible reg p > loss_bound reg e}" by blast
  with f show ?thesis by (simp add: reg'_def watch_measurement_loss_def loss_bound_def)
qed

theorem loss_watch_holds_witness:
  "rg_machines (watch_measurement_loss example_registry 60001 (\<lambda>_. (60001, True))) = rg_machines example_registry"
  using loss_watch_holds [of example_registry 60001 "\<lambda>_. (60001, True)"] example_registry_inv
  by (simp add: registry_inv_def)

text \<open>
  Protection is never overclaimed: no entry of the posture the registry publishes
  claims a pair protected, since nothing tells it the backend can be driven; and whatever its
  state the registry publishes one entry for every active, pending and refused pair.
\<close>

theorem never_claims_protected:
  "\<exists>zones. safety_zones reg = Inr zones
     \<and> list_all (\<lambda>z. zp_protection_claim z = ''unprotected'') zones
     \<and> length zones = length (rg_active reg) + length (ar_pending (rg_activation reg))
         + length (ar_refused (rg_activation reg))"
proof -
  have claim: "protection_claim reg p a = ''unprotected''" for p a
    by (auto simp: protection_claim_def qualification_state_def backend_drivable_def split: option.splits)
  have entry: "\<exists>e. zone_entry reg z p b a = Inr e \<and> zp_protection_claim e = ''unprotected''"
    if "a = None \<Longrightarrow> (z, p) \<in> fst ` set (rg_active reg)" for z p b a
    using that by (cases a) (auto simp: zone_entry_def Let_def claim)
  have fold: "\<exists>zones. fold_res (collect_entry reg) ks acc = Inr zones
      \<and> (\<forall>z \<in> set zones. zp_protection_claim z = ''unprotected'') \<and> length zones = length acc + length ks"
    if "\<forall>(z, p, b, a) \<in> set ks. a = None \<longrightarrow> (z, p) \<in> fst ` set (rg_active reg)"
      "\<forall>z \<in> set acc. zp_protection_claim z = ''unprotected''" for ks acc
    using that
  proof (induction ks arbitrary: acc)
    case (Cons k ks)
    obtain z p b a where k: "k = (z, p, b, a)" by (cases k)
    from entry [of a z p b] Cons.prems(1) obtain e where e: "zone_entry reg z p b a = Inr e"
      "zp_protection_claim e = ''unprotected''" by (auto simp: k)
    from Cons.IH [of "acc @ [e]"] Cons.prems e(2) show ?case by (auto simp: k collect_entry_def e(1))
  qed simp
  let ?ks = "map (\<lambda>(k, e). (fst k, snd k, a_binding_seq e, None)) (rg_active reg)
        @ map (\<lambda>p. (pp_zone_id p, pp_profile_id p, rg_binding_seq reg, Some ''pending_ratification''))
            (ar_pending (rg_activation reg))
        @ map (\<lambda>r. (rf_zone_id r, rf_profile_id r, rg_binding_seq reg, Some (rf_reason r)))
            (ar_refused (rg_activation reg))"
  have "\<forall>(z, p, b, a) \<in> set ?ks. a = None \<longrightarrow> (z, p) \<in> fst ` set (rg_active reg)" by (force simp: image_iff)
  from fold [OF this, of "[]"] show ?thesis by (auto simp: safety_zones_def list_all_iff)
qed

end
