(* ===== verification/Registry_Restart.thy ===== *)
theory Registry_Restart
  imports Registry_Laws
begin

text \<open>
  Crash consistency of the safety registry: what the journal holds after any run agrees with
  the machines, so that a start over it comes back to them.
\<close>

section \<open>Invariant\<close>

definition pair_rows :: "journal_db \<Rightarrow> pair \<Rightarrow> jrow list" where
  "pair_rows db p = filter (of_pair (fst p) (snd p)) (jdb_rows db)"

text \<open>The attempt ids already used, by a row or by an append still running.\<close>

definition journal_ids :: "journal_db \<Rightarrow> string set" where
  "journal_ids db = {a. Some a \<in> set (map jr_attempt_id (jdb_rows db))}"

definition used_ids :: "registry \<Rightarrow> string set" where
  "used_ids reg = journal_ids (rg_journal reg) \<union> it_attempt_id ` set (rg_running reg)"

text \<open>
  The appends still running: each would write a row the journal accepts, under an id of its
  own, and the registry still waits for it.
\<close>

definition tasks_ok :: "registry \<Rightarrow> bool" where
  "tasks_ok reg =
     (distinct (map it_attempt_id (rg_running reg)) \<and>
      (\<forall>t \<in> set (rg_running reg).
        fst (it_pair t) \<noteq> [] \<and> snd (it_pair t) \<noteq> [] \<and> it_attempt_id t \<noteq> [] \<and> it_binding_seq t > 0
        \<and> it_created_at_ms t > 0 \<and> it_outcome t = OPEN_PROTECTED_CIRCUIT
        \<and> it_attempt_id t \<notin> journal_ids (rg_journal reg)
        \<and> rg_unsettled reg (it_pair t) = Some (it_attempt_id t)))"

text \<open>
  What the journal owes a machine: an untripped pair is read back inactive; a tripped pair
  whose record is committed is read back with its status; and while an append of the pair is
  running its record is not claimed committed.
\<close>

definition durable_pair :: "registry \<Rightarrow> pair \<Rightarrow> trip_machine \<Rightarrow> bool" where
  "durable_pair reg p m =
     ((m_state m \<noteq> TRIPPED \<longrightarrow> recalled (pair_rows (rg_journal reg) p) = (INACTIVE, CS_none))
      \<and> (m_state m = TRIPPED \<and> m_record_state m = Committed \<longrightarrow>
           recalled (pair_rows (rg_journal reg) p) = (TRIPPED, m_command_status m))
      \<and> (p \<in> it_pair ` set (rg_running reg) \<longrightarrow> m_state m = TRIPPED \<and> m_record_state m = RecordPending))"

definition names_ok :: "registry \<Rightarrow> bool" where
  "names_ok reg = (rg_binding_seq reg > 0 \<and> (\<forall>p \<in> fst ` set (rg_active reg). fst p \<noteq> [] \<and> snd p \<noteq> []))"

definition durable_but :: "pair \<Rightarrow> registry \<Rightarrow> bool" where
  "durable_but p reg =
     (names_ok reg \<and> journal_inv (rg_journal reg) \<and> tasks_ok reg
      \<and> (\<forall>q m. q \<noteq> p \<longrightarrow> map_of (rg_machines reg) q = Some m \<longrightarrow> durable_pair reg q m))"

definition durable_inv :: "registry \<Rightarrow> bool" where
  "durable_inv reg =
     (names_ok reg \<and> journal_inv (rg_journal reg) \<and> tasks_ok reg
      \<and> (\<forall>q m. map_of (rg_machines reg) q = Some m \<longrightarrow> durable_pair reg q m))"

text \<open>Fresh attempt ids, one per pair, and a clock past zero.\<close>

definition env_ok :: "registry \<Rightarrow> attempt_env \<Rightarrow> bool" where
  "env_ok reg env = (e_attempt_id env \<noteq> [] \<and> e_attempt_id env \<notin> used_ids reg \<and> e_intent_at env > 0)"

definition ids_ok :: "registry \<Rightarrow> (pair \<Rightarrow> attempt_env) \<Rightarrow> pair list \<Rightarrow> bool" where
  "ids_ok reg f ps = ((\<forall>p \<in> set ps. env_ok reg (f p)) \<and> inj_on (\<lambda>p. e_attempt_id (f p)) (set ps))"

definition registry_allowed :: "registry \<Rightarrow> registry_op \<Rightarrow> bool" where
  "registry_allowed reg x =
     (case x of
        RgReading s v u q env \<Rightarrow> ids_ok reg (n_attempt env) (map fst (rg_machines reg))
      | RgRetryPending env \<Rightarrow> ids_ok reg env (map fst (rg_machines reg))
      | _ \<Rightarrow> True)"

text \<open>A registry as its constructor leaves it, before \<open>start\<close>.\<close>

definition terminal_ok :: "string \<Rightarrow> bool" where
  "terminal_ok s = (s = ''open'' \<or> s = ''closed'')"

definition unstarted :: "registry \<Rightarrow> bool" where
  "unstarted reg =
     (rg_machines reg = [] \<and> rg_running reg = [] \<and> distinct (map fst (rg_active reg))
      \<and> (\<forall>p e. map_of (rg_active reg) p = Some e \<longrightarrow>
           a_zone_id e = fst p \<and> a_outcome e = OPEN_PROTECTED_CIRCUIT
           \<and> a_binding_seq e = rg_binding_seq reg \<and> terminal_ok (a_terminal_state e)
           \<and> fst p \<in> fst ` set (rg_terminal reg))
      \<and> (\<forall>z s. map_of (rg_terminal reg) z = Some s \<longrightarrow> terminal_ok s))"

text \<open>What loading keeps, and what it establishes for the pairs it has loaded.\<close>

definition loading :: "registry \<Rightarrow> registry \<Rightarrow> pair set \<Rightarrow> bool" where
  "loading reg r P =
     (rg_journal r = rg_journal reg \<and> rg_active r = rg_active reg \<and> rg_terminal r = rg_terminal reg
      \<and> rg_binding_seq r = rg_binding_seq reg \<and> distinct (map fst (rg_machines r))
      \<and> fst ` set (rg_machines r) = P
      \<and> (\<forall>p m. map_of (rg_machines r) p = Some m \<longrightarrow> machine_ok m \<and> m_record_state m = Committed
           \<and> (m_state m, m_command_status m) = recalled (pair_rows (rg_journal reg) p)))"

section \<open>Example inputs\<close>

definition example_fresh :: "journal_db \<Rightarrow> registry" where
  "example_fresh db = example_registry\<lparr>rg_machines := [], rg_journal := db\<rparr>"

definition example_calls :: "registry_op list" where
  "example_calls = [RgReading ''s1'' (PyInt 61) (PyStr ''A'') (PyInt 1)
     (example_env\<lparr>n_attempt := \<lambda>_. example_attempt\<lparr>e_intent := IntentCommits, e_record := RecordCommits\<rparr>\<rparr>)]"

definition example_answer :: "string \<Rightarrow> gpio_answer" where
  "example_answer z = \<lparr>ga_take = TakeOk, ga_drive = True\<rparr>"

section \<open>Lemmas\<close>

text \<open>Pairs are keys here: statements about all of them stay about pairs.\<close>

declare split_paired_All [simp del] split_paired_Ex [simp del]

subsection \<open>Rows of a pair\<close>

lemma pair_rows_insert:
  "pair_rows (insert_row db f) p =
     pair_rows db p @ (if of_pair (fst p) (snd p) (f (jdb_next db)) then [f (jdb_next db)] else [])"
  by (simp add: pair_rows_def)

lemma recalled_snoc:
  "recalled (rows @ [r]) =
     (if jr_entry_kind r = ''clear'' then (INACTIVE, CS_none)
      else if jr_entry_kind r = ''record'' then (TRIPPED, status_of (the (jr_command_status r)))
      else (TRIPPED, CS_command_pending))"
  by (simp add: recalled_def)

lemma recalled_resolve: "recalled (map (resolve_below z p n) rows) = recalled rows"
  by (cases rows rule: rev_cases) (simp_all add: recalled_snoc, simp_all add: recalled_def resolve_below_def)

lemma pair_rows_mark_resolved:
  "recalled (pair_rows (mark_resolved db z q) p) = recalled (pair_rows db p)"
  by (simp add: pair_rows_def mark_resolved_def filter_map o_def recalled_resolve split: option.split)

lemma journal_ids_mark_resolved [simp]: "journal_ids (mark_resolved db z q) = journal_ids db"
  by (simp add: journal_ids_def mark_resolved_def image_image split: option.split)

lemma of_pair_fst_snd: "of_pair (fst p) (snd p) r \<longleftrightarrow> (jr_zone_id r, jr_profile_id r) = p"
  by (auto simp: of_pair_def)

lemma commit_intent_rows:
  "pair_rows (commit_intent db t) p = pair_rows db p @ (if it_pair t = p then [last (jdb_rows (commit_intent db t))] else [])"
  "jr_entry_kind (last (jdb_rows (commit_intent db t))) = ''intent''"
  "journal_ids (commit_intent db t) = insert (it_attempt_id t) (journal_ids db)"
  by (auto simp: commit_intent_def append_intent_def pair_rows_insert of_pair_fst_snd journal_ids_def)

lemma journal_inv_commit:
  assumes "journal_inv db" and "fst (it_pair t) \<noteq> []" "snd (it_pair t) \<noteq> []" "it_attempt_id t \<noteq> []"
    "it_binding_seq t > 0" "it_created_at_ms t > 0" "it_outcome t = OPEN_PROTECTED_CIRCUIT"
    "it_attempt_id t \<notin> journal_ids db"
  shows "journal_inv (commit_intent db t)"
  using journal_inv_call [OF assms(1), of "JAppendIntent (fst (it_pair t)) (snd (it_pair t)) (it_attempt_id t)
      (it_binding_seq t) (it_outcome t) (it_created_at_ms t)"] assms(2-)
  by (simp add: journal_allowed_def commit_intent_def journal_ids_def)

lemma status_of_name: "st \<noteq> CS_none \<Longrightarrow> status_of (status_name st) = st"
  by (cases st) (simp_all add: status_of_def COMMAND_STATUSES_def)

lemma append_record_status:
  assumes "st \<noteq> CS_none"
  shows "\<exists>db'. append_record db z q (status_name st) t = Inr db'
    \<and> (\<forall>p. recalled (pair_rows db' p) = (if p = (z, q) then (TRIPPED, st) else recalled (pair_rows db p)))
    \<and> journal_ids db' = journal_ids db"
proof -
  have ok: "status_name st \<in> {''command_pending'', ''driver_refused'', ''command_issued''}"
    using assms by (cases st) simp_all
  then obtain db' where a: "append_record db z q (status_name st) t = Inr db'" by (simp add: append_record_def)
  moreover have "recalled (pair_rows db' p) = (if p = (z, q) then (TRIPPED, st) else recalled (pair_rows db p))" for p
    using a ok status_of_name [OF assms]
    by (cases p) (auto simp: append_record_def pair_rows_insert of_pair_def recalled_snoc split: if_splits)
  moreover have "journal_ids db' = journal_ids db"
    using a by (auto simp: append_record_def journal_ids_def split: if_splits)
  ultimately show ?thesis by blast
qed

lemma write_record_durable:
  assumes inv: "journal_inv (rg_journal reg)" and st: "m_command_status m \<noteq> CS_none"
    and w: "write_record reg p m fate t = (reg', ok)"
  shows "journal_inv (rg_journal reg') \<and> journal_ids (rg_journal reg') = journal_ids (rg_journal reg)
    \<and> (\<forall>q. q \<noteq> p \<longrightarrow> recalled (pair_rows (rg_journal reg') q) = recalled (pair_rows (rg_journal reg) q))
    \<and> (ok \<longrightarrow> recalled (pair_rows (rg_journal reg') p) = (TRIPPED, m_command_status m))"
proof (cases "fate = RecordFails")
  case True
  with w inv show ?thesis by (simp add: write_record_def)
next
  case False
  obtain db' where a: "append_record (rg_journal reg) (fst p) (snd p) (status_name (m_command_status m)) t = Inr db'"
    and r: "\<forall>q. recalled (pair_rows db' q) = (if q = (fst p, snd p) then (TRIPPED, m_command_status m)
        else recalled (pair_rows (rg_journal reg) q))" and i: "journal_ids db' = journal_ids (rg_journal reg)"
    using append_record_status [OF st] by blast
  have inv': "journal_inv db'"
    using journal_inv_call [OF inv, of "JAppendRecord (fst p) (snd p) (status_name (m_command_status m)) t"] a
    by (simp add: journal_allowed_def)
  have j: "rg_journal reg' = (if fate = MarkFails then db' else mark_resolved db' (fst p) (snd p))" "ok = (fate \<noteq> MarkFails)"
    using w False a by (auto simp: write_record_def split: if_splits)
  have "recalled (pair_rows (rg_journal reg') q) = recalled (pair_rows db' q)" for q
    by (simp add: j(1) pair_rows_mark_resolved)
  then show ?thesis using r i inv' journal_inv_mark_resolved by (simp add: j(1))
qed

subsection \<open>One attempt\<close>

lemma tasks_ok_unsettle:
  assumes "tasks_ok reg" and "p \<notin> it_pair ` set (rg_running reg)"
  shows "tasks_ok (reg\<lparr>rg_unsettled := (rg_unsettled reg)(p := x)\<rparr>)"
  using assms by (auto simp: tasks_ok_def image_iff)

lemma tasks_ok_frame:
  assumes "tasks_ok reg" and "rg_running reg' = rg_running reg" and "rg_unsettled reg' = rg_unsettled reg"
    and "journal_ids (rg_journal reg') = journal_ids (rg_journal reg)"
  shows "tasks_ok reg'"
  using assms by (simp add: tasks_ok_def)

lemma durable_inv_set_machine:
  assumes "durable_but p reg" and "durable_pair reg p m"
  shows "durable_inv (set_machine reg p m)"
proof -
  have f: "durable_pair (set_machine reg p m) q m' = durable_pair reg q m'" for q m'
    by (simp add: durable_pair_def)
  have "durable_pair reg q m'" if "map_of (rg_machines (set_machine reg p m)) q = Some m'" for q m'
    using that assms unfolding durable_but_def by (cases "q = p") auto
  then show ?thesis using assms(1) tasks_ok_frame [of reg "set_machine reg p m"]
    unfolding durable_inv_def durable_but_def f by (auto simp: names_ok_def)
qed

lemma used_ids_set_machine [simp]: "used_ids (set_machine reg p m) = used_ids reg"
  by (simp add: used_ids_def)

lemma persist_durable:
  assumes d: "durable_but p reg" and m: "m_state m = TRIPPED" "m_command_status m \<noteq> CS_none"
    and run: "p \<in> it_pair ` set (rg_running reg) \<longleftrightarrow> running reg (e_attempt_id env)"
  shows "durable_inv (persist_record reg p m env)"
    and "used_ids (persist_record reg p m env) = used_ids reg"
    and "rg_running (persist_record reg p m env) = rg_running reg"
proof -
  note D = d [unfolded durable_but_def]
  let ?r = "reg\<lparr>rg_unsettled := (rg_unsettled reg)(p := None)\<rparr>"
  obtain reg' ok where w: "write_record ?r p m (e_record env) (e_record_at env) = (reg', ok)"
    by (cases "write_record ?r p m (e_record env) (e_record_at env)")
  obtain db where reg': "reg' = ?r\<lparr>rg_journal := db\<rparr>" using write_record_sel [OF w] by blast
  have W: "journal_inv (rg_journal reg') \<and> journal_ids (rg_journal reg') = journal_ids (rg_journal reg)
    \<and> (\<forall>q. q \<noteq> p \<longrightarrow> recalled (pair_rows (rg_journal reg') q) = recalled (pair_rows (rg_journal reg) q))
    \<and> (ok \<longrightarrow> recalled (pair_rows (rg_journal reg') p) = (TRIPPED, m_command_status m))"
    using write_record_durable [of ?r m p] D m(2) w by simp
  have "durable_inv (persist_record reg p m env) \<and> used_ids (persist_record reg p m env) = used_ids reg
    \<and> rg_running (persist_record reg p m env) = rg_running reg"
  proof (cases "running reg (e_attempt_id env)")
    case True
    then have "persist_record reg p m env = set_machine reg p (record_write_failed m)" by (simp add: persist_record_def)
    moreover have "durable_pair reg p (record_write_failed m)"
      using m(1) by (simp add: durable_pair_def record_write_failed_def)
    ultimately show ?thesis using durable_inv_set_machine [OF d] by simp
  next
    case False
    let ?m = "if ok then m else record_write_failed m"
    have p: "persist_record reg p m env = set_machine reg' p ?m"
      using False w by (simp add: persist_record_def)
    have no: "p \<notin> it_pair ` set (rg_running reg)" using False run by simp
    have "tasks_ok ?r" using tasks_ok_unsettle [OF _ no] D by blast
    then have t: "tasks_ok reg'" using W by (rule_tac tasks_ok_frame [of ?r]) (simp_all add: reg')
    have "durable_pair reg' q m'" if "q \<noteq> p" "map_of (rg_machines reg') q = Some m'" for q m'
    proof -
      have "durable_pair reg q m'" using that D by (simp add: reg')
      then show ?thesis using W that by (simp add: durable_pair_def reg')
    qed
    then have "durable_but p reg'" using t W D by (simp add: durable_but_def names_ok_def reg')
    moreover have "durable_pair reg' p ?m"
      using W no m(1) by (simp add: durable_pair_def record_write_failed_def reg')
    ultimately have "durable_inv (set_machine reg' p ?m)" by (rule durable_inv_set_machine)
    then show ?thesis using W by (simp add: p used_ids_def reg')
  qed
  then show "durable_inv (persist_record reg p m env)" "used_ids (persist_record reg p m env) = used_ids reg"
    "rg_running (persist_record reg p m env) = rg_running reg" by auto
qed

text \<open>The fields the invariant reads.\<close>

lemma durable_frame:
  assumes "rg_journal r = rg_journal reg" "rg_running r = rg_running reg" "rg_unsettled r = rg_unsettled reg"
    "rg_machines r = rg_machines reg" "rg_active r = rg_active reg" "rg_binding_seq r = rg_binding_seq reg"
  shows "durable_but p r = durable_but p reg" and "durable_inv r = durable_inv reg"
    and "used_ids r = used_ids reg" and "env_ok r = env_ok reg"
  using assms
  by (simp_all add: durable_but_def durable_inv_def names_ok_def tasks_ok_def durable_pair_def used_ids_def
      env_ok_def fun_eq_iff)

lemma durable_inv_but: "durable_inv reg \<Longrightarrow> durable_but p reg"
  by (auto simp: durable_inv_def durable_but_def)

lemma durable_but_set_machine [simp]: "durable_but p (set_machine reg p m) = durable_but p reg"
  unfolding durable_but_def names_ok_def tasks_ok_def durable_pair_def by auto

lemma running_iff: "running reg a \<longleftrightarrow> a \<in> it_attempt_id ` set (rg_running reg)"
  by (auto simp: running_def list_ex_iff)

lemma begin_intent_durable:
  assumes d: "durable_but p reg" and free: "p \<notin> it_pair ` set (rg_running reg)" and ok: "env_ok reg env"
    and e: "map_of (rg_active reg) p = Some e" "a_outcome e = OPEN_PROTECTED_CIRCUIT" "a_binding_seq e = rg_binding_seq reg"
  shows "durable_but p (begin_intent reg p e env)"
    and "p \<in> it_pair ` set (rg_running (begin_intent reg p e env)) \<longleftrightarrow> running (begin_intent reg p e env) (e_attempt_id env)"
    and "used_ids (begin_intent reg p e env) \<subseteq> insert (e_attempt_id env) (used_ids reg)"
proof -
  let ?t = "\<lparr>it_pair = p, it_attempt_id = e_attempt_id env, it_binding_seq = a_binding_seq e,
            it_outcome = a_outcome e, it_created_at_ms = e_intent_at env\<rparr>"
  let ?r = "reg\<lparr>rg_unsettled := (rg_unsettled reg)(p \<mapsto> e_attempt_id env)\<rparr>"
  note D = d [unfolded durable_but_def]
  have "p \<in> fst ` set (rg_active reg)" using e(1) by (metis image_eqI map_of_SomeD fst_conv)
  then have names: "fst p \<noteq> []" "snd p \<noteq> []" "a_binding_seq e > 0" using D e(3) by (auto simp: names_ok_def)
  have fresh: "e_attempt_id env \<notin> journal_ids (rg_journal reg)" "e_attempt_id env \<notin> it_attempt_id ` set (rg_running reg)"
    "e_attempt_id env \<noteq> []" "e_intent_at env > 0" using ok by (auto simp: env_ok_def used_ids_def)
  have t: "tasks_ok ?r" using tasks_ok_unsettle [OF _ free] D by blast
  have r: "durable_but p ?r" using D t by (simp add: durable_but_def names_ok_def durable_pair_def)
  have "durable_but p (begin_intent reg p e env)
    \<and> (p \<in> it_pair ` set (rg_running (begin_intent reg p e env)) \<longleftrightarrow> running (begin_intent reg p e env) (e_attempt_id env))
    \<and> used_ids (begin_intent reg p e env) \<subseteq> insert (e_attempt_id env) (used_ids reg)"
  proof (cases "e_intent env")
    case IntentFails
    then have "begin_intent reg p e env = ?r" by (simp add: begin_intent_def)
    then show ?thesis using r free fresh(2) by (auto simp: running_iff used_ids_def)
  next
    case IntentRuns
    let ?r2 = "?r\<lparr>rg_running := rg_running reg @ [?t]\<rparr>"
    have b: "begin_intent reg p e env = ?r2" using IntentRuns by (simp add: begin_intent_def)
    have "tasks_ok ?r2" using t fresh names e(2) by (auto simp: tasks_ok_def)
    then have "durable_but p ?r2" using D by (auto simp: durable_but_def names_ok_def durable_pair_def)
    then show ?thesis by (auto simp: b running_iff used_ids_def)
  next
    case IntentCommits
    let ?r2 = "?r\<lparr>rg_journal := commit_intent (rg_journal reg) ?t\<rparr>"
    have b: "begin_intent reg p e env = ?r2" using IntentCommits by (simp add: begin_intent_def)
    have "journal_inv (commit_intent (rg_journal reg) ?t)"
      using D fresh names e(2) by (intro journal_inv_commit) simp_all
    moreover have "tasks_ok ?r2" using t fresh(2) by (auto simp: tasks_ok_def commit_intent_rows(3) image_iff)
    moreover have "pair_rows (rg_journal ?r2) q = pair_rows (rg_journal reg) q" if "q \<noteq> p" for q
      using that by (simp add: commit_intent_rows(1))
    ultimately have "durable_but p ?r2" using D by (simp add: durable_but_def names_ok_def durable_pair_def)
    then show ?thesis using free fresh(2) by (auto simp: b running_iff used_ids_def commit_intent_rows(3))
  qed
  then show "durable_but p (begin_intent reg p e env)"
    "p \<in> it_pair ` set (rg_running (begin_intent reg p e env)) \<longleftrightarrow> running (begin_intent reg p e env) (e_attempt_id env)"
    "used_ids (begin_intent reg p e env) \<subseteq> insert (e_attempt_id env) (used_ids reg)" by auto
qed

lemma attempt_durable:
  assumes d: "durable_but p reg" and free: "p \<notin> it_pair ` set (rg_running reg)" and ok: "env_ok reg env"
    and inv: "registry_inv reg" and e: "map_of (rg_active reg) p = Some e"
    and m: "m_state m = TRIPPED" "command_open m" "\<not> m_driver_attempt_in_flight m"
  shows "durable_inv (fst (attempt_command reg p e m env))"
    and "used_ids (fst (attempt_command reg p e m env)) \<subseteq> insert (e_attempt_id env) (used_ids reg)"
proof -
  note E = registry_invD [OF inv e]
  have b: "a_binding_seq e = rg_binding_seq reg" using inv e unfolding registry_inv_def by blast
  obtain c ans where "command_outcome (rg_commander reg) (fst p) (a_outcome e) (e_gpio env) = (c, ans)"
    by (cases "command_outcome (rg_commander reg) (fst p) (a_outcome e) (e_gpio env)")
  note att = attempt_command_persist [OF e E(1) m(2,3) this]
  let ?r = "(begin_intent reg p e env)\<lparr>rg_commander := c\<rparr>"
  note B = begin_intent_durable [OF d free ok e E(2) b]
  have f: "durable_but p ?r" "used_ids ?r \<subseteq> insert (e_attempt_id env) (used_ids reg)"
    using B(1,3) durable_frame(1,3) [of ?r "begin_intent reg p e env"] by simp_all
  have run: "p \<in> it_pair ` set (rg_running ?r) \<longleftrightarrow> running ?r (e_attempt_id env)" using B(2) by (simp add: running_iff)
  have st: "m_state (attempted m ans True) = TRIPPED" "m_command_status (attempted m ans True) \<noteq> CS_none"
    using m(1,2) by (auto simp: command_open_def split: sum.split)
  from persist_durable [OF f(1) st run] f(2)
  show "durable_inv (fst (attempt_command reg p e m env))"
    and "used_ids (fst (attempt_command reg p e m env)) \<subseteq> insert (e_attempt_id env) (used_ids reg)"
    by (simp_all add: att)
qed

subsection \<open>Readings\<close>

lemma durable_pair_observed:
  "\<not> newly_trips m v \<Longrightarrow> durable_pair reg p (observed m v) = durable_pair reg p m"
  by (simp add: durable_pair_def observed_def Let_def)

lemma observe_pair_durable:
  fixes env :: reading_env and v u q :: pyval
  assumes inv: "registry_inv reg" and d: "durable_inv reg" and ok: "env_ok reg (n_attempt env p)"
    and e: "map_of (rg_active reg) p = Some e" and m: "map_of (rg_machines reg) p = Some m"
  shows "durable_inv (fst (observe_pair v u q env p reg))
    \<and> used_ids (fst (observe_pair v u q env p reg)) \<subseteq> insert (e_attempt_id (n_attempt env p)) (used_ids reg)"
proof -
  define verdict where "verdict = evaluate_pair e v u q"
  let ?m = "observed m verdict" and ?env = "n_attempt env p"
  let ?reg1 = "set_machine reg p ?m"
  let ?reg2 = "noted verdict (n_clock env p) (n_delivered env p) p ?reg1"
  obtain t where t: "observe m verdict = Inr (?m, t)"
    "t_outcome t = (if newly_trips m verdict then Some OPEN_PROTECTED_CIRCUIT else None)"
    using observe_total [of verdict m] evaluate_pair_vocabulary by (auto simp: verdict_def)
  have mok: "machine_ok ?m" using machine_ok_observed registry_inv_machine [OF inv m] by blast
  have dm: "durable_pair reg p m" using d m unfolding durable_inv_def by blast
  have f2: "durable_but p ?reg2 = durable_but p ?reg1" "durable_inv ?reg2 = durable_inv ?reg1"
    "used_ids ?reg2 = used_ids ?reg1" "env_ok ?reg2 = env_ok ?reg1"
    by (rule durable_frame; simp)+
  have eq: "observe_pair v u q env p reg =
      (if newly_trips m verdict then
         (case attempt_command ?reg2 p e ?m ?env of (r, Inl x) \<Rightarrow> (r, Inl x)
          | (r, Inr acc) \<Rightarrow> (r, Inr \<lparr>d_pair = p, d_verdict = ev_verdict verdict, d_reason = None,
                              d_tripped = True, d_driver_accepted = acc\<rparr>))
       else (?reg2, Inr \<lparr>d_pair = p, d_verdict = ev_verdict verdict, d_reason = ev_reason verdict,
                      d_tripped = False, d_driver_accepted = None\<rparr>))"
    using e m t by (simp add: observe_pair_def verdict_def noted_def Let_def)
  show ?thesis
  proof (cases "newly_trips m verdict")
    case False
    then have "durable_pair reg p ?m" using dm durable_pair_observed by blast
    then show ?thesis
      using False durable_inv_set_machine [OF durable_inv_but [OF d]] f2 by (auto simp: eq)
  next
    case True
    then have st: "m_state ?m = TRIPPED" "command_open ?m" "m_state m \<noteq> TRIPPED"
      by (auto simp: observed_def newly_trips_def command_open_def Let_def)
    have idle: "\<not> m_driver_attempt_in_flight ?m" using mok by (simp add: machine_ok_def)
    have free: "p \<notin> it_pair ` set (rg_running ?reg2)" using dm st(3) by (auto simp: durable_pair_def)
    have d2: "durable_but p ?reg2" using durable_inv_but [OF d] f2(1) by simp
    have ok2: "env_ok ?reg2 ?env" using ok f2(4) by (simp add: env_ok_def)
    have cfg: "same_config reg ?reg2" using m by (simp add: same_config_frame same_config_set_machine)
    have inv2: "registry_inv ?reg2" using registry_inv_step [OF inv cfg _ mok] by simp
    have e2: "map_of (rg_active ?reg2) p = Some e" using e by simp
    from attempt_durable [OF d2 free ok2 inv2 e2 st(1,2) idle] f2(3)
    show ?thesis using True by (auto simp: eq split: prod.split sum.split)
  qed
qed

lemma env_ok_mono:
  assumes "env_ok reg env'" and "used_ids reg' \<subseteq> insert a (used_ids reg)" and "e_attempt_id env' \<noteq> a"
  shows "env_ok reg' env'"
  using assms by (auto simp: env_ok_def)

lemma ids_ok_subset: "ids_ok reg f ps \<Longrightarrow> set qs \<subseteq> set ps \<Longrightarrow> ids_ok reg f qs"
  unfolding ids_ok_def using inj_on_subset by blast

lemma ids_ok_tail:
  assumes "ids_ok reg f (p # ps)" and "distinct (p # ps)"
    and "used_ids reg' \<subseteq> insert (e_attempt_id (f p)) (used_ids reg)"
  shows "ids_ok reg' f ps"
proof -
  have "e_attempt_id (f q) \<noteq> e_attempt_id (f p)" if "q \<in> set ps" for q
    using assms(1,2) that by (auto simp: ids_ok_def inj_on_def)
  moreover have "inj_on (\<lambda>p. e_attempt_id (f p)) (set ps)" using assms(1) by (auto simp: ids_ok_def inj_on_def)
  ultimately show ?thesis using assms(1) env_ok_mono [OF _ assms(3)] by (simp add: ids_ok_def)
qed

lemma observe_pairs_durable:
  fixes env :: reading_env and v u q :: pyval
  assumes "registry_inv reg" and "durable_inv reg" and "ids_ok reg (n_attempt env) ps" and "distinct ps"
    and "set ps \<subseteq> fst ` set (rg_active reg)"
  shows "durable_inv (fst (observe_pairs v u q env ps reg))"
  using assms
proof (induction ps arbitrary: reg)
  case Nil
  then show ?case by simp
next
  case (Cons p ps)
  from Cons.prems(5) obtain e where e: "map_of (rg_active reg) p = Some e"
    by (metis domD dom_map_of_conv_image_fst list.set_intros(1) subsetD)
  from registry_invD [OF Cons.prems(1) e] obtain m where m: "map_of (rg_machines reg) p = Some m" by blast
  have ok: "env_ok reg (n_attempt env p)" using Cons.prems(3) by (simp add: ids_ok_def)
  note D = observe_pair_durable [OF Cons.prems(1,2) ok e m, of v u q]
  obtain reg1 d m1 where o: "observe_pair v u q env p reg = (reg1, Inr d)" "same_config reg reg1"
    "map_of (rg_machines reg1) = (map_of (rg_machines reg))(p \<mapsto> m1)" "machine_ok m1"
    by (rule observe_pair_effect [OF Cons.prems(1) e m])
  have "registry_inv reg1" using registry_inv_step [OF Cons.prems(1) o(2,3,4)] .
  moreover have "ids_ok reg1 (n_attempt env) ps" using ids_ok_tail [OF Cons.prems(3,4)] D o(1) by simp
  moreover have "rg_active reg1 = rg_active reg" using o(2) by (simp add: same_config_def)
  ultimately have "durable_inv (fst (observe_pairs v u q env ps reg1))"
    using Cons.IH [of reg1] D o(1) Cons.prems(4,5) by simp
  then show ?case using o(1) by (auto split: prod.split sum.split)
qed

lemma settle_zone_durable: "durable_inv (fst (settle_zone ds env z reg)) = durable_inv reg"
proof -
  obtain g c where "fst (settle_zone ds env z reg) = reg\<lparr>rg_gates := g, rg_commander := c\<rparr>"
    using settle_zone_form [OF prod.collapse [symmetric], of ds env z reg] by blast
  moreover have "durable_inv (reg\<lparr>rg_gates := g, rg_commander := c\<rparr>) = durable_inv reg"
    by (rule durable_frame(2)) simp_all
  ultimately show ?thesis by simp
qed

lemma settle_zones_durable: "durable_inv reg \<Longrightarrow> durable_inv (fst (settle_zones ds env zs reg))"
proof (induction zs arbitrary: reg)
  case (Cons z zs)
  then have "durable_inv (fst (settle_zone ds env z reg))" using settle_zone_durable by blast
  then show ?case using Cons.IH by (auto split: prod.split sum.split)
qed simp

lemma observe_reading_durable:
  assumes inv: "registry_inv reg" and d: "durable_inv reg" and ok: "ids_ok reg (n_attempt env) (map fst (rg_machines reg))"
  shows "durable_inv (fst (observe_reading reg s v u q env))"
proof -
  have sub: "set (by_sensor reg s) \<subseteq> set (map fst (rg_machines reg))"
    using by_sensor_ok(2) [OF inv, of s] inv by (auto simp: registry_inv_def)
  from ids_ok_subset [OF ok this] have "ids_ok reg (n_attempt env) (by_sensor reg s)" .
  from observe_pairs_durable [OF inv d this by_sensor_ok(1,2) [OF inv]]
  have "durable_inv (fst (observe_pairs v u q env (by_sensor reg s) reg))" .
  then show ?thesis using settle_zones_durable
    by (auto simp: observe_reading_def settle_deferred_gate_def split: prod.split sum.split dest: eq_fst_iff [THEN iffD2])
       (metis fst_conv)+
qed

subsection \<open>Retries\<close>

lemma intent_settled_durable:
  assumes d: "durable_inv reg" and s: "intent_settled reg p = (reg1, b)"
  shows "durable_inv reg1" and "used_ids reg1 = used_ids reg" and "b \<Longrightarrow> p \<notin> it_pair ` set (rg_running reg1)"
    and "rg_machines reg1 = rg_machines reg" and "rg_running reg1 = rg_running reg"
proof -
  have t: "tasks_ok reg" using d by (simp add: durable_inv_def)
  have "(\<exists>x. b = x \<and> reg1 = reg) \<or> b \<and> p \<notin> it_pair ` set (rg_running reg)
      \<and> reg1 = reg\<lparr>rg_unsettled := (rg_unsettled reg)(p := None)\<rparr>"
    using s t by (auto simp: intent_settled_def tasks_ok_def running_iff image_iff split: option.splits if_splits)
  moreover have free: "b \<Longrightarrow> p \<notin> it_pair ` set (rg_running reg)"
    using s t by (auto simp: intent_settled_def tasks_ok_def running_iff image_iff split: option.splits if_splits)
  moreover have "durable_inv (reg\<lparr>rg_unsettled := (rg_unsettled reg)(p := None)\<rparr>)"
    if "p \<notin> it_pair ` set (rg_running reg)"
    using d tasks_ok_unsettle [OF t that] by (simp add: durable_inv_def names_ok_def durable_pair_def)
  ultimately have "durable_inv reg1 \<and> used_ids reg1 = used_ids reg \<and> rg_machines reg1 = rg_machines reg
      \<and> rg_running reg1 = rg_running reg"
    using d by (auto simp: used_ids_def)
  then show "durable_inv reg1" "used_ids reg1 = used_ids reg" "b \<Longrightarrow> p \<notin> it_pair ` set (rg_running reg1)"
    "rg_machines reg1 = rg_machines reg" "rg_running reg1 = rg_running reg" using free by auto
qed

lemma retry_pending_pair_durable:
  assumes inv: "registry_inv reg" and d: "durable_inv reg" and ok: "env_ok reg (env p)"
  shows "durable_inv (fst (retry_pending_pair env p reg))"
    and "used_ids (fst (retry_pending_pair env p reg)) \<subseteq> insert (e_attempt_id (env p)) (used_ids reg)"
proof -
  obtain reg1 b where s: "intent_settled reg p = (reg1, b)" by (cases "intent_settled reg p")
  note S = intent_settled_durable [OF d s] and F = intent_settled_frame [OF s]
  have inv1: "registry_inv reg1" using steps_to_inv [OF steps_to_frame [OF inv F]] .
  have "durable_inv (fst (retry_pending_pair env p reg))
    \<and> used_ids (fst (retry_pending_pair env p reg)) \<subseteq> insert (e_attempt_id (env p)) (used_ids reg)"
  proof (cases "\<exists>m e. b \<and> map_of (rg_machines reg1) p = Some m \<and> map_of (rg_active reg1) p = Some e
      \<and> t_retry (snd (outcome_retry m)) = Some RetryAttempted")
    case True
    then obtain m e where me: b "map_of (rg_machines reg1) p = Some m" "map_of (rg_active reg1) p = Some e"
      "t_retry (snd (outcome_retry m)) = Some RetryAttempted" by blast
    note r = retry_attempted_open [OF registry_inv_machine [OF inv1 me(2)] me(4)]
    have "env_ok reg1 (env p)" using ok S(2) by (simp add: env_ok_def)
    from attempt_durable [OF durable_inv_but [OF S(1)] S(3) [OF me(1)] this inv1 me(3) r(1,2,3)] S(2)
    show ?thesis using s me by (auto simp: retry_pending_pair_def split: prod.split sum.split)
  next
    case False
    then have "retry_pending_pair env p reg = (reg1, Inr 0)"
      using s by (cases b) (auto simp: retry_pending_pair_def split: option.splits)
    then show ?thesis using S(1,2) by auto
  qed
  then show "durable_inv (fst (retry_pending_pair env p reg))"
    "used_ids (fst (retry_pending_pair env p reg)) \<subseteq> insert (e_attempt_id (env p)) (used_ids reg)" by auto
qed

lemma retry_record_pair_durable:
  assumes inv: "registry_inv reg" and d: "durable_inv reg"
  shows "durable_inv (fst (retry_record_pair env p reg))"
proof (cases "\<exists>m. map_of (rg_machines reg) p = Some m \<and> m_record_state m = RecordPending \<and> snd (intent_settled reg p)")
  case False
  obtain reg1 b where s: "intent_settled reg p = (reg1, b)" by (cases "intent_settled reg p")
  then have "fst (retry_record_pair env p reg) = reg \<or> fst (retry_record_pair env p reg) = reg1"
    using False by (auto simp: retry_record_pair_def split: option.split)
  then show ?thesis using d intent_settled_durable(1) [OF d s] by auto
next
  case True
  then obtain m reg1 where m: "map_of (rg_machines reg) p = Some m" "m_record_state m = RecordPending"
    and s: "intent_settled reg p = (reg1, True)" by (metis prod.collapse)
  note S = intent_settled_durable [OF d s]
  obtain reg2 ok where w: "write_record reg1 p m (fst (env p)) (snd (env p)) = (reg2, ok)"
    by (cases "write_record reg1 p m (fst (env p)) (snd (env p))")
  have eq: "fst (retry_record_pair env p reg) = (if ok then set_machine reg2 p (fst (record_retry m True)) else reg2)"
    using m s w by (cases ok) (simp_all add: retry_record_pair_def)
  obtain db where r2: "reg2 = reg1\<lparr>rg_journal := db\<rparr>" using write_record_sel [OF w] by blast
  show ?thesis
  proof (cases "m_command_status m = CS_none")
    case True
    then have "reg2 = reg1" "\<not> ok" using w by (auto simp: write_record_def append_record_def split: if_splits)
    then show ?thesis using eq S(1) by simp
  next
    case False
    then have trip: "m_state m = TRIPPED" using registry_inv_machine [OF inv m(1)] by (auto simp: machine_ok_def split: if_splits)
    note D = S(1) [unfolded durable_inv_def]
    have W: "journal_inv (rg_journal reg2) \<and> journal_ids (rg_journal reg2) = journal_ids (rg_journal reg1)
      \<and> (\<forall>q. q \<noteq> p \<longrightarrow> recalled (pair_rows (rg_journal reg2) q) = recalled (pair_rows (rg_journal reg1) q))
      \<and> (ok \<longrightarrow> recalled (pair_rows (rg_journal reg2) p) = (TRIPPED, m_command_status m))"
      by (rule write_record_durable [OF _ False w]) (use D in blast)
    have t1: "tasks_ok reg1" using D by blast
    have "journal_ids (rg_journal reg2) = journal_ids (rg_journal reg1)" using W by blast
    with t1 have "tasks_ok reg2" by (rule_tac tasks_ok_frame [of reg1]) (simp_all add: r2)
    moreover have "durable_pair reg2 q m'" if "q \<noteq> p" "map_of (rg_machines reg2) q = Some m'" for q m'
    proof -
      have "durable_pair reg1 q m'" using that D by (simp add: r2)
      then show ?thesis using W that by (simp add: durable_pair_def r2)
    qed
    ultimately have but: "durable_but p reg2" using W D by (simp add: durable_but_def names_ok_def r2)
    have no: "p \<notin> it_pair ` set (rg_running reg2)" using S(3) by (simp add: r2)
    have pm: "durable_pair reg2 p m" using trip m(2) no by (simp add: durable_pair_def)
    have "durable_inv reg2"
    proof -
      have "map_of (rg_machines reg2) p = Some m" using m(1) S(4) by (simp add: r2)
      then have "durable_pair reg2 q m'" if "map_of (rg_machines reg2) q = Some m'" for q m'
        using that pm but unfolding durable_but_def by (cases "q = p") auto
      then show ?thesis using but unfolding durable_inv_def durable_but_def by blast
    qed
    moreover have "durable_inv (set_machine reg2 p (fst (record_retry m True)))" if ok
      using W that trip no m(2)
      by (intro durable_inv_set_machine [OF but]) (simp add: durable_pair_def record_retry_def)
    ultimately show ?thesis by (simp add: eq)
  qed
qed

lemma retry_pending_once_durable:
  assumes "registry_inv reg" and "durable_inv reg" and "ids_ok reg env ps" and "distinct ps"
  shows "durable_inv (fst (pass_over (retry_pending_pair env) ps reg))"
  using assms
proof (induction ps arbitrary: reg)
  case (Cons p ps)
  have "env_ok reg (env p)" using Cons.prems(3) by (simp add: ids_ok_def)
  note D = retry_pending_pair_durable [OF Cons.prems(1,2), of env p, OF this]
  obtain r1 n where 1: "retry_pending_pair env p reg = (r1, Inr n)" "steps_to reg r1"
    using retry_pending_pair_steps [OF Cons.prems(1)] by blast
  have "durable_inv (fst (pass_over (retry_pending_pair env) ps r1))"
    using Cons.IH [OF steps_to_inv [OF 1(2)] _ ids_ok_tail [OF Cons.prems(3,4)]] D 1(1) Cons.prems(4) by simp
  then show ?case using 1(1) by (auto split: prod.split sum.split)
qed simp

lemma retry_records_once_durable:
  assumes "registry_inv reg" and "durable_inv reg"
  shows "durable_inv (fst (pass_over (retry_record_pair env) ps reg))"
  using assms
proof (induction ps arbitrary: reg)
  case (Cons p ps)
  obtain r1 n where 1: "retry_record_pair env p reg = (r1, Inr n)" "steps_to reg r1"
    using retry_record_pair_steps [OF Cons.prems(1)] by blast
  have "durable_inv (fst (pass_over (retry_record_pair env) ps r1))"
    using Cons.IH [OF steps_to_inv [OF 1(2)]] retry_record_pair_durable [OF Cons.prems, of env p] 1(1) by simp
  then show ?case using 1(1) by (auto split: prod.split sum.split)
qed simp

subsection \<open>Late appends\<close>

lemma intent_finishes_durable:
  assumes d: "durable_inv reg"
  shows "durable_inv (intent_finishes reg a committed)"
proof (cases "filter (\<lambda>t. it_attempt_id t = a) (rg_running reg)")
  case Nil
  then show ?thesis using d by (simp add: intent_finishes_def)
next
  case (Cons t ts)
  then have "t \<in> set (filter (\<lambda>t. it_attempt_id t = a) (rg_running reg))" by simp
  then have t: "t \<in> set (rg_running reg)" "it_attempt_id t = a" by auto
  note D = d [unfolded durable_inv_def]
  let ?run = "filter (\<lambda>t. it_attempt_id t \<noteq> a) (rg_running reg)"
  let ?db = "if committed then commit_intent (rg_journal reg) t else rg_journal reg"
  let ?r = "reg\<lparr>rg_running := ?run, rg_journal := ?db\<rparr>"
  have eq: "intent_finishes reg a committed = ?r" using Cons by (simp add: intent_finishes_def)
  have T: "fst (it_pair t) \<noteq> []" "snd (it_pair t) \<noteq> []" "it_attempt_id t \<noteq> []" "it_binding_seq t > 0"
    "it_created_at_ms t > 0" "it_outcome t = OPEN_PROTECTED_CIRCUIT" "it_attempt_id t \<notin> journal_ids (rg_journal reg)"
    using D t(1) by (auto simp: tasks_ok_def)
  have j: "journal_inv ?db" using journal_inv_commit [OF _ T] D by simp
  have ids: "journal_ids ?db \<subseteq> insert a (journal_ids (rg_journal reg))" by (auto simp: commit_intent_rows(3) t(2))
  have "tasks_ok ?r" using D ids by (auto simp: tasks_ok_def distinct_map_filter)
  moreover have "durable_pair ?r q m" if "map_of (rg_machines reg) q = Some m" for q m
  proof -
    have q: "durable_pair reg q m" using D that by blast
    have run: "q \<in> it_pair ` set ?run \<Longrightarrow> q \<in> it_pair ` set (rg_running reg)" by auto
    show ?thesis
    proof (cases "q = it_pair t")
      case True
      then have "m_state m = TRIPPED \<and> m_record_state m = RecordPending" using q t(1) by (auto simp: durable_pair_def)
      then show ?thesis by (simp add: durable_pair_def)
    next
      case False
      then have "pair_rows ?db q = pair_rows (rg_journal reg) q" by (simp add: commit_intent_rows(1))
      then show ?thesis using q run by (auto simp: durable_pair_def)
    qed
  qed
  ultimately show ?thesis using D j by (simp add: eq durable_inv_def names_ok_def)
qed

subsection \<open>Every call\<close>

lemma registry_call_durable:
  assumes inv: "registry_inv reg" and d: "durable_inv reg" and ok: "registry_allowed reg x"
    and c: "registry_call reg x = Inr (reg', ans)"
  shows "durable_inv reg'"
proof (cases x)
  case (RgReading s v u q env)
  then have "reg' = fst (observe_reading reg s v u q env)" using c by (auto split: prod.splits sum.splits)
  then show ?thesis using observe_reading_durable [OF inv d] ok RgReading by (simp add: registry_allowed_def)
next
  case (RgRetryPending env)
  then have "reg' = fst (retry_pending_once reg env)" using c by (auto split: prod.splits sum.splits)
  moreover have "distinct (map fst (rg_machines reg))" using inv by (simp add: registry_inv_def)
  ultimately show ?thesis using retry_pending_once_durable [OF inv d] ok RgRetryPending
    by (simp add: registry_allowed_def retry_pending_once_def)
next
  case (RgRetryRecords env)
  then have "reg' = fst (retry_records_once reg env)" using c by (auto split: prod.splits sum.splits)
  then show ?thesis using retry_records_once_durable [OF inv d] by (simp add: retry_records_once_def)
next
  case (RgWatchLoss now env)
  then have r: "reg' = fst (note_losses reg (lost_pairs reg now) env)" using c by (simp add: watch_measurement_loss_def)
  have "durable_inv reg' = durable_inv reg"
    using note_losses_frame [of reg "lost_pairs reg now" env] unfolding r alerts_only_def same_config_def
    by (intro durable_frame(2)) simp_all
  then show ?thesis using d by simp
next
  case (RgSensorUnavailable s env)
  then have r: "reg' = fst (note_losses reg (filter (\<lambda>p. p \<notin> rg_degraded reg) (by_sensor reg s)) env)"
    using c by (auto simp: note_sensor_unavailable_def split: prod.splits)
  have "durable_inv reg' = durable_inv reg"
    using note_losses_frame [of reg "filter (\<lambda>p. p \<notin> rg_degraded reg) (by_sensor reg s)" env]
    unfolding r alerts_only_def same_config_def by (intro durable_frame(2)) simp_all
  then show ?thesis using d by simp
next
  case (RgIntentFinishes a committed)
  then show ?thesis using intent_finishes_durable [OF d] c by auto
qed

interpretation durable: invariant_object registry_call "\<lambda>reg. registry_inv reg \<and> durable_inv reg" registry_allowed
  by unfold_locales (use registry_call_latch(1) registry_call_durable in blast)

subsection \<open>Starting\<close>

lemma recalled_ok:
  assumes "journal_inv db"
  shows "recalled (pair_rows db p) = (INACTIVE, CS_none)
    \<or> (\<exists>st. recalled (pair_rows db p) = (TRIPPED, st) \<and> st \<noteq> CS_none)"
proof (cases "pair_rows db p" rule: rev_cases)
  case Nil
  then show ?thesis by (simp add: recalled_def)
next
  case (snoc rs r)
  then have "r \<in> set (jdb_rows db)" by (metis filter_is_subset in_set_conv_decomp pair_rows_def subsetD)
  then have "row_ok r" using assms by (simp add: journal_inv_def list_all_iff)
  then show ?thesis by (auto simp: snoc recalled_snoc row_ok_def status_of_def COMMAND_STATUSES_def)
qed

lemma load_pair_effect:
  assumes j: "journal_inv (rg_journal reg)"
    and t: "\<forall>p e. map_of (rg_active reg) p = Some e \<longrightarrow> terminal_ok (a_terminal_state e)"
      "\<forall>z s. map_of (rg_terminal reg) z = Some s \<longrightarrow> terminal_ok s"
  shows "\<exists>m g. load_pair p reg = Inr ((set_machine reg p m)\<lparr>rg_gates := g\<rparr>) \<and> machine_ok m
    \<and> (m_state m, m_command_status m) = recalled (pair_rows (rg_journal reg) p) \<and> m_record_state m = Committed"
proof -
  define terminal where "terminal = (case map_of (rg_active reg) p of Some e \<Rightarrow> a_terminal_state e
    | None \<Rightarrow> (case map_of (rg_terminal reg) (fst p) of None \<Rightarrow> ''open'' | Some s \<Rightarrow> s))"
  have "terminal_ok terminal" using t by (auto simp: terminal_def terminal_ok_def split: option.split)
  then obtain m0 where m0: "new_machine (fst p) (snd p) terminal = Inr m0"
    "m_zone_id m0 = fst p" "m_profile_id m0 = snd p" "m_record_state m0 = Committed"
    by (auto simp: new_machine_def terminal_ok_def)
  obtain ds jl where ld: "load (rg_journal reg) (fst p) (snd p) = (ds, jl)" by (cases "load (rg_journal reg) (fst p) (snd p)")
  from startup_of_load [OF j, of m0 ds jl "rg_binding_seq reg"] ld m0(2,3) obtain m1 tr where
    m1: "m_startup m0 ds jl None (rg_binding_seq reg) = Inr (m1, tr)"
      "(m_state m1, m_command_status m1) = recalled (pair_rows (rg_journal reg) p)"
    by (auto simp: pair_rows_def)
  have idle: "\<not> m_driver_attempt_in_flight m1" "m_record_state m1 = Committed"
    using m1(1) m0(4) by (auto elim!: m_startup_cases simp: forget_start_facts_def)
  define m where "m = (if map_of (rg_active reg) p = None then fst (binding_removed m1) else m1)"
  have sel: "m_state m = m_state m1" "m_command_status m = m_command_status m1"
    "m_driver_attempt_in_flight m = m_driver_attempt_in_flight m1" "m_record_state m = m_record_state m1"
    by (simp_all add: m_def binding_removed_def)
  have ok: "machine_ok m" using recalled_ok [OF j, of p] idle sel m1(2) [symmetric] by (auto simp: machine_ok_def)
  have "\<exists>g. load_pair p reg = Inr ((set_machine reg p m)\<lparr>rg_gates := g\<rparr>)"
  proof (cases "t_startup_command tr = Some SC_deferred \<and> rg_gates reg (fst p) = None")
    case True
    then have "load_pair p reg = Inr ((set_machine reg p m)\<lparr>rg_gates := (rg_gates reg)(fst p \<mapsto> new_gate True)\<rparr>)"
      using ld m0(1) m1(1) by (simp add: load_pair_def m_def terminal_def Let_def)
    then show ?thesis by blast
  next
    case False
    then have "load_pair p reg = Inr (set_machine reg p m)"
      using ld m0(1) m1(1) by (auto simp: load_pair_def m_def terminal_def Let_def)
    moreover have "(set_machine reg p m)\<lparr>rg_gates := rg_gates reg\<rparr> = set_machine reg p m" by (simp add: set_machine_def)
    ultimately show ?thesis by metis
  qed
  then show ?thesis using ok m1(2) sel idle(2) by auto
qed

lemma load_pairs_effect:
  assumes j: "journal_inv (rg_journal reg)" and u: "unstarted reg" and l: "loading reg r P"
  shows "\<exists>r'. fold_res load_pair ps r = Inr r' \<and> loading reg r' (P \<union> set ps)"
  using l
proof (induction ps arbitrary: r P)
  case Nil
  then show ?case by simp
next
  case (Cons p ps)
  note L = Cons.prems [unfolded loading_def]
  have "journal_inv (rg_journal r)" "\<forall>p e. map_of (rg_active r) p = Some e \<longrightarrow> terminal_ok (a_terminal_state e)"
    "\<forall>z s. map_of (rg_terminal r) z = Some s \<longrightarrow> terminal_ok s"
    using j u L by (auto simp: unstarted_def)
  from load_pair_effect [OF this, of p] obtain m g where
    r1: "load_pair p r = Inr ((set_machine r p m)\<lparr>rg_gates := g\<rparr>)" and m: "machine_ok m"
      "(m_state m, m_command_status m) = recalled (pair_rows (rg_journal r) p)" "m_record_state m = Committed"
    by blast
  let ?r = "(set_machine r p m)\<lparr>rg_gates := g\<rparr>"
  have "loading reg ?r (insert p P)"
    unfolding loading_def
  proof (intro conjI allI impI)
    show "distinct (map fst (rg_machines ?r))" using L by (simp add: set_machine_def distinct_update)
    have "fst ` set (rg_machines ?r) = insert p (fst ` set (rg_machines r))"
      using dom_map_of_conv_image_fst [of "rg_machines ?r"] dom_map_of_conv_image_fst [of "rg_machines r"] by auto
    then show "fst ` set (rg_machines ?r) = insert p P" using L by simp
  qed (use L m in \<open>auto split: if_splits\<close>)
  from Cons.IH [OF this] r1 show ?case by simp
qed

lemma start_zone_effect:
  assumes "loading reg r P" and "z \<in> fst ` set (rg_terminal r)"
  shows "(\<exists>e. start_zone ans z r = Inl (RegActuation e)) \<or> (\<exists>r'. start_zone ans z r = Inr r' \<and> loading reg r' P)"
proof -
  from assms(2) obtain t where "map_of (rg_terminal r) z = Some t" by (metis domD dom_map_of_conv_image_fst)
  then show ?thesis using assms(1)
    by (auto simp: start_zone_def loading_def split: option.split prod.split sum.split)
qed

lemma start_zones_effect:
  assumes "loading reg r P" and "set zs \<subseteq> fst ` set (rg_terminal reg)"
  shows "(\<exists>e. fold_res (start_zone ans) zs r = Inl (RegActuation e))
    \<or> (\<exists>r'. fold_res (start_zone ans) zs r = Inr r' \<and> loading reg r' P)"
  using assms
proof (induction zs arbitrary: r)
  case (Cons z zs)
  have "z \<in> fst ` set (rg_terminal r)" using Cons.prems by (simp add: loading_def)
  from start_zone_effect [OF Cons.prems(1) this, of ans] show ?case
    using Cons.IH Cons.prems(2) by (elim disjE exE conjE) simp_all
qed simp

lemma start_effect:
  assumes j: "journal_inv (rg_journal reg)" and u: "unstarted reg"
  shows "(\<exists>e. start reg ans = Inl (RegActuation e))
    \<or> (\<exists>r. start reg ans = Inr r \<and> loading reg r (set (pairs (rg_journal reg)) \<union> fst ` set (rg_active reg)))"
proof -
  have "loading reg reg {}" using u by (simp add: loading_def unstarted_def)
  from load_pairs_effect [OF j u this, of "remdups (pairs (rg_journal reg) @ map fst (rg_active reg))"]
  obtain r where r: "fold_res load_pair (remdups (pairs (rg_journal reg) @ map fst (rg_active reg))) reg = Inr r"
    "loading reg r (set (pairs (rg_journal reg)) \<union> fst ` set (rg_active reg))" by auto
  have "set (zones_with_active_pairs r) \<subseteq> fst ` set (rg_terminal reg)"
  proof
    fix z assume "z \<in> set (zones_with_active_pairs r)"
    then obtain p e where "(p, e) \<in> set (rg_active reg)" "z = a_zone_id e"
      using r(2) by (auto simp: zones_with_active_pairs_def loading_def)
    moreover from this(1) have "map_of (rg_active reg) p = Some e" using u by (simp add: unstarted_def)
    ultimately show "z \<in> fst ` set (rg_terminal reg)" using u by (auto simp: unstarted_def)
  qed
  from start_zones_effect [OF r(2) this, of ans] r(1) show ?thesis by (auto simp: start_def)
qed

lemma pairs_rows: "p \<in> set (pairs db) \<longleftrightarrow> pair_rows db p \<noteq> []"
  by (cases p) (force simp: pairs_def pair_rows_def filter_empty_conv of_pair_def)

lemma loading_inv:
  assumes u: "unstarted reg" and l: "loading reg r P" and "fst ` set (rg_active reg) \<subseteq> P"
  shows "registry_inv r"
  using assms unfolding registry_inv_def loading_def unstarted_def by auto

lemma example_unstarted: "unstarted (example_fresh db)"
  by (auto simp: unstarted_def example_fresh_def example_registry_def example_active_def example_pair_def
      terminal_ok_def split: if_splits)

lemma example_durable: "durable_inv example_registry"
proof -
  have "jdb_rows empty_journal = []" by (simp add: empty_journal_def)
  then show ?thesis
    by (auto simp: durable_inv_def names_ok_def tasks_ok_def durable_pair_def example_registry_def example_active_def
        example_pair_def example_machine_def journal_inv_empty pair_rows_def recalled_def split: if_splits)
qed

section \<open>Properties\<close>

text \<open>
  A start brings the journal back: over any journal the registry wrote, a start ends
  with a raising GPIO acquisition or succeeds, never with a durable-state error; a
  successful start holds one machine for every pair that is active or has rows, each in the
  state and with the status its last row recalls, and the registry's invariant.
\<close>

theorem start_restores_journal:
  assumes "journal_inv (rg_journal reg)" and "unstarted reg"
  shows "(\<exists>e. start reg ans = Inl (RegActuation e))
    \<or> (\<exists>r. start reg ans = Inr r \<and> registry_inv r
         \<and> (\<forall>p. p \<in> set (pairs (rg_journal reg)) \<union> fst ` set (rg_active reg) \<longleftrightarrow>
              (\<exists>m. map_of (rg_machines r) p = Some m))
         \<and> (\<forall>p m. map_of (rg_machines r) p = Some m \<longrightarrow>
              (m_state m, m_command_status m) = recalled (pair_rows (rg_journal reg) p)))"
proof -
  have "registry_inv r \<and> (\<forall>p. p \<in> set (pairs (rg_journal reg)) \<union> fst ` set (rg_active reg) \<longleftrightarrow>
              (\<exists>m. map_of (rg_machines r) p = Some m))
         \<and> (\<forall>p m. map_of (rg_machines r) p = Some m \<longrightarrow>
              (m_state m, m_command_status m) = recalled (pair_rows (rg_journal reg) p))"
    if l: "loading reg r (set (pairs (rg_journal reg)) \<union> fst ` set (rg_active reg))" for r
  proof -
    have "dom (map_of (rg_machines r)) = set (pairs (rg_journal reg)) \<union> fst ` set (rg_active reg)"
      using l by (simp add: loading_def dom_map_of_conv_image_fst)
    moreover have "registry_inv r" using loading_inv [OF assms(2) l] by simp
    ultimately show ?thesis using l unfolding loading_def by (metis (no_types, lifting) domD domI)
  qed
  with start_effect [OF assms, of ans] show ?thesis by metis
qed

theorem start_restores_journal_witness:
  "\<exists>r m. start (example_fresh (run_ops journal_call empty_journal example_journal)) example_answer = Inr r
     \<and> map_of (rg_machines r) example_pair = Some m \<and> m_state m = TRIPPED"
proof -
  let ?db = "run_ops journal_call empty_journal example_journal"
  have "runs_ok journal_call journal_allowed empty_journal example_journal" by code_simp
  then have j: "journal_inv (rg_journal (example_fresh ?db))"
    using journal.inv_run [OF journal_inv_empty] by (simp add: example_fresh_def)
  have "\<not> isl (start (example_fresh ?db) example_answer)" by code_simp
  moreover have "example_pair \<in> fst ` set (rg_active (example_fresh ?db))"
    by (simp add: example_fresh_def example_registry_def)
  moreover have "recalled (pair_rows (rg_journal (example_fresh ?db)) example_pair) = (TRIPPED, CS_command_pending)"
    by code_simp
  ultimately show ?thesis
    using start_restores_journal [OF j example_unstarted, of example_answer] by (metis UnI2 isl_def prod.inject)
qed

text \<open>
  C4. A crash loses no committed trip and invents none: after any run of the registry, with
  fresh attempt ids and whatever the journal, the driver and late appends did, a fresh
  registry started over the journal comes back, for every pair with a committed record, to
  the same state and command status; a pair that was not tripped comes back inactive; and a
  pair of which any row has reached the journal since its last clear comes back tripped.
\<close>

theorem restart_after_run:
  assumes "registry_inv reg" and "durable_inv reg" and "runs_ok registry_call registry_allowed reg xs"
    and "reg1 = run_ops registry_call reg xs"
    and "unstarted fresh" and "rg_journal fresh = rg_journal reg1"
    and "start fresh ans = Inr reg2" and "map_of (rg_machines reg1) p = Some m1"
    and "p \<in> fst ` set (rg_active fresh) \<or> pair_rows (rg_journal reg1) p \<noteq> []"
  shows "\<exists>m2. map_of (rg_machines reg2) p = Some m2
    \<and> (m_state m1 \<noteq> TRIPPED \<longrightarrow> m_state m2 = INACTIVE \<and> m_command_status m2 = CS_none)
    \<and> (m_state m1 = TRIPPED \<and> m_record_state m1 = Committed \<longrightarrow>
         m_state m2 = TRIPPED \<and> m_command_status m2 = m_command_status m1)
    \<and> (pair_rows (rg_journal reg1) p \<noteq> [] \<and> jr_entry_kind (last (pair_rows (rg_journal reg1) p)) \<noteq> ''clear''
         \<longrightarrow> m_state m2 = TRIPPED)"
proof -
  have "registry_inv reg1 \<and> durable_inv reg1"
    using durable.inv_run [of reg xs] assms(1-4) by simp
  then have d: "journal_inv (rg_journal reg1)" "durable_pair reg1 p m1"
    using assms(8) unfolding durable_inv_def by blast+
  from start_effect [of fresh ans] d(1) assms(5,6,7)
  have l: "loading fresh reg2 (set (pairs (rg_journal reg1)) \<union> fst ` set (rg_active fresh))" by simp
  have "p \<in> fst ` set (rg_machines reg2)" using l assms(9) pairs_rows by (auto simp: loading_def)
  then obtain m2 where m2: "map_of (rg_machines reg2) p = Some m2" by (metis domD dom_map_of_conv_image_fst)
  then have rec: "(m_state m2, m_command_status m2) = recalled (pair_rows (rg_journal reg1) p)"
    using l assms(6) unfolding loading_def by metis
  have last: "m_state m2 = TRIPPED" if "pair_rows (rg_journal reg1) p \<noteq> []"
      "jr_entry_kind (last (pair_rows (rg_journal reg1) p)) \<noteq> ''clear''"
    using rec that by (simp add: recalled_def split: if_splits)
  show ?thesis using m2 rec d(2) last by (auto simp: durable_pair_def)
qed

theorem restart_after_run_witness:
  "\<exists>reg2 m2. start (example_fresh (rg_journal (run_ops registry_call example_registry example_calls))) example_answer
       = Inr reg2 \<and> map_of (rg_machines reg2) example_pair = Some m2
     \<and> m_state m2 = TRIPPED \<and> m_command_status m2 = CS_command_issued"
proof -
  let ?r = "run_ops registry_call example_registry example_calls"
  have "\<forall>p \<in> set (map fst (rg_machines example_registry)). p = example_pair"
    by (simp add: example_registry_def)
  then have ok: "runs_ok registry_call registry_allowed example_registry example_calls"
    by (simp add: example_calls_def registry_allowed_def ids_ok_def inj_on_def env_ok_def used_ids_def journal_ids_def
        example_registry_def empty_journal_def example_env_def example_attempt_def)
  have "\<not> isl (start (example_fresh (rg_journal ?r)) example_answer)" by code_simp
  then obtain reg2 where s: "start (example_fresh (rg_journal ?r)) example_answer = Inr reg2" by (metis isl_def sum.exhaust)
  have "map_option (\<lambda>m. (m_state m, m_record_state m, m_command_status m)) (map_of (rg_machines ?r) example_pair)
      = Some (TRIPPED, Committed, CS_command_issued)" by code_simp
  then obtain m1 where m1: "map_of (rg_machines ?r) example_pair = Some m1" "m_state m1 = TRIPPED"
    "m_record_state m1 = Committed" "m_command_status m1 = CS_command_issued" by auto
  have jr: "rg_journal (example_fresh (rg_journal ?r)) = rg_journal ?r"
    and act: "example_pair \<in> fst ` set (rg_active (example_fresh (rg_journal ?r)))"
    by (simp_all add: example_fresh_def example_registry_def)
  from restart_after_run [OF example_registry_inv example_durable ok refl example_unstarted jr s m1(1) disjI1 [OF act]]
    m1 s show ?thesis by auto
qed

end
