(* ===== verification/Approval_Replies.thy ===== *)
theory Approval_Replies
  imports Ori_Prelude
begin

text \<open>
  How \<open>ori/reasoning/action_dispatcher.py\<close> reads an operator's reply to a Tier C proposal:
  which texts approve, reject or carry an offline token, for which proposal, and the text the
  store keeps of what was heard. A reply is the list of its code points, so that the guards
  against look-alike letters and lone surrogates mean what they mean in the source.
\<close>

section \<open>Text as code points\<close>

type_synonym cptext = "nat list"

definition cps :: "string \<Rightarrow> cptext" where
  "cps s = map of_char s"

definition cp_ascii :: "nat \<Rightarrow> bool" where
  "cp_ascii c = (c < 128)"

definition text_ascii :: "cptext \<Rightarrow> bool" where
  "text_ascii t = list_all cp_ascii t"

text \<open>\<open>str.upper\<close>, \<open>str.lower\<close> and \<open>str.isalnum\<close> where the source asks them of ASCII only.\<close>

definition ascii_upper :: "nat \<Rightarrow> nat" where
  "ascii_upper c = (if 97 \<le> c \<and> c \<le> 122 then c - 32 else c)"

definition ascii_lower :: "nat \<Rightarrow> nat" where
  "ascii_lower c = (if 65 \<le> c \<and> c \<le> 90 then c + 32 else c)"

definition ascii_alnum :: "nat \<Rightarrow> bool" where
  "ascii_alnum c = (48 \<le> c \<and> c \<le> 57 \<or> 65 \<le> c \<and> c \<le> 90 \<or> 97 \<le> c \<and> c \<le> 122)"

definition ASCII_WHITESPACE :: "nat list" where
  "ASCII_WHITESPACE = [32, 9, 10, 13, 11, 12, 28, 29, 30, 31]"

definition ascii_strip :: "cptext \<Rightarrow> cptext" where
  "ascii_strip t =
     rev (dropWhile (\<lambda>c. c \<in> set ASCII_WHITESPACE) (rev (dropWhile (\<lambda>c. c \<in> set ASCII_WHITESPACE) t)))"

section \<open>Proposal identifiers\<close>

definition PROPOSAL_ID_ALPHABET :: string where
  "PROPOSAL_ID_ALPHABET = ''ABCDEFGHIJKLMNOPQRSTUVWXYZ0123456789''"

text \<open>\<open>secrets.choice\<close> is the argument: the position each draw picks.\<close>

definition generate_proposal_id :: "(nat \<Rightarrow> nat) \<Rightarrow> nat \<Rightarrow> string" where
  "generate_proposal_id choice n =
     map (\<lambda>i. PROPOSAL_ID_ALPHABET ! (choice i mod length PROPOSAL_ID_ALPHABET)) [0..<n]"

definition normalize_proposal_id :: "cptext \<Rightarrow> cptext" where
  "normalize_proposal_id t = map ascii_upper (filter (\<lambda>c. cp_ascii c \<and> ascii_alnum c) t)"

section \<open>Classification\<close>

definition YES_TOKENS :: "cptext list" where
  "YES_TOKENS = map cps [''yes'', ''y'', ''approve'', ''go'', ''ok'', ''confirm'']"

definition NO_TOKENS :: "cptext list" where
  "NO_TOKENS = map cps [''no'', ''n'', ''cancel'', ''stop'', ''reject'', ''deny'']"

datatype reply_kind = Approve | Reject | TokenReply | Invalid

definition token_kind :: "cptext \<Rightarrow> reply_kind" where
  "token_kind t = (if t \<in> set YES_TOKENS then Approve else if t \<in> set NO_TOKENS then Reject else Invalid)"

definition classify_scoped :: "cptext \<Rightarrow> cptext \<Rightarrow> reply_kind" where
  "classify_scoped raw pid =
     (let h = takeWhile (\<lambda>c. c \<noteq> 45) raw; suffix = tl (dropWhile (\<lambda>c. c \<noteq> 45) raw);
          expected = normalize_proposal_id pid
      in if expected = [] \<or> normalize_proposal_id suffix \<noteq> expected then Invalid
         else token_kind (if text_ascii h then map ascii_lower (ascii_strip h) else []))"

definition classify_approval_response ::
  "cptext option \<Rightarrow> cptext \<Rightarrow> bool \<Rightarrow> bool \<Rightarrow> reply_kind" where
  "classify_approval_response response pid allow_offline_token require_scoped =
     (case response of
        None \<Rightarrow> Invalid
      | Some text \<Rightarrow>
          let raw = ascii_strip text;
              token = (if text_ascii raw then map ascii_lower raw else [])
          in if raw = [] then Invalid
             else if allow_offline_token \<and> text_ascii (take 6 raw)
                       \<and> map ascii_upper (take 6 raw) = cps ''TOKEN:'' then TokenReply
             else if \<not> require_scoped \<and> token_kind token \<noteq> Invalid then token_kind token
             else if 45 \<notin> set raw then Invalid
             else classify_scoped raw pid)"

section \<open>What is classified and what is stored of a reply\<close>

datatype reply = NotText | Heard cptext

definition surrogate :: "nat \<Rightarrow> bool" where
  "surrogate c = (0xD800 \<le> c \<and> c \<le> 0xDFFF)"

definition hex_cp :: "nat \<Rightarrow> nat" where
  "hex_cp n = (if n < 10 then 48 + n else 87 + n)"

text \<open>A surrogate as \<open>backslashreplace\<close> writes it, any other code point in UTF-8.\<close>

definition encode_cp :: "nat \<Rightarrow> nat list" where
  "encode_cp c =
     (if surrogate c then
        [92, 117, hex_cp (c div 4096), hex_cp (c div 256 mod 16), hex_cp (c div 16 mod 16), hex_cp (c mod 16)]
      else if c < 0x80 then [c]
      else if c < 0x800 then [192 + c div 64, 128 + c mod 64]
      else if c < 0x10000 then [224 + c div 4096, 128 + c div 64 mod 64, 128 + c mod 64]
      else [240 + c div 262144, 128 + c div 4096 mod 64, 128 + c div 64 mod 64, 128 + c mod 64])"

text \<open>The text of a reply as the bytes its column holds.\<close>

definition storable_reply :: "reply \<Rightarrow> string option" where
  "storable_reply r =
     (case r of NotText \<Rightarrow> None | Heard t \<Rightarrow> Some (map char_of (concat (map encode_cp t))))"

definition UNENCODABLE_REPLY :: cptext where
  "UNENCODABLE_REPLY = [0xFFFD]"

definition classifiable_reply :: "reply \<Rightarrow> cptext option" where
  "classifiable_reply r =
     (case r of
        NotText \<Rightarrow> None
      | Heard t \<Rightarrow> Some (if list_ex surrogate t then UNENCODABLE_REPLY else t))"

section \<open>Lemmas\<close>

text \<open>A generated identifier is its own normal form.\<close>

lemma generated_in_alphabet: "set (generate_proposal_id choice n) \<subseteq> set PROPOSAL_ID_ALPHABET"
proof -
  have "0 < length PROPOSAL_ID_ALPHABET" by (simp add: PROPOSAL_ID_ALPHABET_def)
  then show ?thesis by (auto simp: generate_proposal_id_def intro!: nth_mem)
qed

lemma alphabet_normal:
  "list_all (\<lambda>c. cp_ascii (of_char c) \<and> ascii_alnum (of_char c) \<and> ascii_upper (of_char c) = of_char c)
     PROPOSAL_ID_ALPHABET"
  by code_simp

lemma normalize_cps:
  assumes "set s \<subseteq> set PROPOSAL_ID_ALPHABET"
  shows "normalize_proposal_id (cps s) = cps s"
  using assms
proof (induction s)
  case (Cons c s)
  then have "cp_ascii (of_char c) \<and> ascii_alnum (of_char c) \<and> ascii_upper (of_char c) = of_char c"
    using alphabet_normal by (auto simp: list_all_iff)
  with Cons show ?case by (simp add: normalize_proposal_id_def cps_def)
qed (simp add: normalize_proposal_id_def cps_def)

lemma normalize_generated [simp]:
  "normalize_proposal_id (cps (generate_proposal_id choice n)) = cps (generate_proposal_id choice n)"
  by (rule normalize_cps [OF generated_in_alphabet])

lemma cps_inject [simp]: "cps s = cps t \<longleftrightarrow> s = t"
  by (auto simp: cps_def inj_map_eq_map inj_of_char)

lemma classify_scoped_names:
  "classify_scoped raw pid \<noteq> Invalid
     \<Longrightarrow> normalize_proposal_id (tl (dropWhile (\<lambda>c. c \<noteq> 45) raw)) = normalize_proposal_id pid
       \<and> normalize_proposal_id pid \<noteq> []"
  by (auto simp: classify_scoped_def Let_def split: if_splits)

lemma token_kind_cases: "token_kind t \<noteq> TokenReply"
  by (simp add: token_kind_def)

lemma classify_scoped_reply:
  assumes "classify_approval_response (Some t) pid tok True \<in> {Approve, Reject}"
  shows "classify_scoped (ascii_strip t) pid \<noteq> Invalid"
proof
  assume "classify_scoped (ascii_strip t) pid = Invalid"
  then have "classify_approval_response (Some t) pid tok True \<in> {TokenReply, Invalid}"
    by (simp add: classify_approval_response_def Let_def)
  with assms show False by auto
qed

lemma dropWhile_hd: "t \<noteq> [] \<Longrightarrow> \<not> P (hd t) \<Longrightarrow> dropWhile P t = t"
  by (cases t) simp_all

lemma ascii_strip_solid:
  assumes "t \<noteq> []" and "hd t \<notin> set ASCII_WHITESPACE" and "last t \<notin> set ASCII_WHITESPACE"
  shows "ascii_strip t = t"
proof -
  have "hd (rev t) \<notin> set ASCII_WHITESPACE" using assms(1,3) by (simp add: hd_rev)
  with assms show ?thesis by (simp add: ascii_strip_def dropWhile_hd)
qed

lemma alphabet_solid: "list_all (\<lambda>c. of_char c \<notin> set ASCII_WHITESPACE) PROPOSAL_ID_ALPHABET"
  by code_simp

lemma tokens_plain:
  "list_all (\<lambda>y. y \<noteq> [] \<and> hd y \<notin> set ASCII_WHITESPACE \<and> last y \<notin> set ASCII_WHITESPACE
      \<and> text_ascii y \<and> map ascii_lower y = y \<and> 45 \<notin> set y
      \<and> map ascii_upper (take 6 (y @ [45])) \<noteq> take (length (take 6 (y @ [45]))) (cps ''TOKEN:''))
     (YES_TOKENS @ NO_TOKENS)"
  by code_simp

lemma token_no_dash: "45 \<in> set t \<Longrightarrow> token_kind (map ascii_lower t) = Invalid"
proof -
  assume "45 \<in> set t"
  then have "45 \<in> set (map ascii_lower t)" by (force simp: ascii_lower_def)
  moreover have "45 \<notin> set y" if "y \<in> set YES_TOKENS \<or> y \<in> set NO_TOKENS" for y
    using that tokens_plain by (auto simp: list_all_iff)
  ultimately show ?thesis by (metis token_kind_def)
qed

lemma not_token_text:
  assumes "map ascii_upper (take 6 (y @ [45])) \<noteq> take (length (take 6 (y @ [45]))) (cps ''TOKEN:'')"
  shows "map ascii_upper (take 6 (y @ 45 # s)) \<noteq> cps ''TOKEN:''"
proof
  assume eq: "map ascii_upper (take 6 (y @ 45 # s)) = cps ''TOKEN:''"
  let ?k = "length (take 6 (y @ [45]))"
  have "take ?k (take 6 (y @ 45 # s)) = take 6 (y @ [45])" by (simp add: min_def take_Cons')
  then have "take ?k (map ascii_upper (take 6 (y @ 45 # s))) = map ascii_upper (take 6 (y @ [45]))"
    by (simp only: take_map)
  with eq assms show False by simp
qed

text \<open>A token, a dash and an identifier are read as the token says.\<close>

lemma classify_token_dash:
  assumes "y \<in> set (YES_TOKENS @ NO_TOKENS)" and "set pid \<subseteq> set PROPOSAL_ID_ALPHABET" and "pid \<noteq> []"
  shows "classify_approval_response (Some (y @ 45 # cps pid)) (cps pid) tok scoped = token_kind y"
proof -
  let ?raw = "y @ 45 # cps pid"
  from assms(1) tokens_plain have y: "y \<noteq> []" "hd y \<notin> set ASCII_WHITESPACE" "last y \<notin> set ASCII_WHITESPACE"
    "text_ascii y" "map ascii_lower y = y" "45 \<notin> set y"
    "map ascii_upper (take 6 (y @ [45])) \<noteq> take (length (take 6 (y @ [45]))) (cps ''TOKEN:'')"
    by (auto simp: list_all_iff simp del: set_append)
  have last_pid: "of_char (last pid) \<notin> set ASCII_WHITESPACE"
    using alphabet_solid subsetD [OF assms(2) last_in_set [OF assms(3)]] by (simp add: list_all_iff)
  have raw: "ascii_strip ?raw = ?raw"
    using y last_pid assms(3) by (intro ascii_strip_solid) (auto simp: cps_def last_map hd_append)
  have strip_y: "ascii_strip y = y" by (rule ascii_strip_solid) (use y in simp_all)
  have h: "takeWhile (\<lambda>c. c \<noteq> 45) ?raw = y" and sfx: "dropWhile (\<lambda>c. c \<noteq> 45) ?raw = 45 # cps pid"
    using y(6) by (auto simp: takeWhile_append dropWhile_append takeWhile_eq_all_conv dropWhile_eq_Nil_conv)
  have "normalize_proposal_id (cps pid) \<noteq> []" using assms(3) by (simp add: normalize_cps [OF assms(2)]) (simp add: cps_def)
  then have scoped: "classify_scoped ?raw (cps pid) = token_kind y"
    by (simp only: classify_scoped_def Let_def h sfx list.sel) (simp add: y(4) strip_y y(5))
  have dash: "token_kind (if text_ascii ?raw then map ascii_lower ?raw else []) = Invalid"
  proof (cases "text_ascii ?raw")
    case True
    have "token_kind (map ascii_lower ?raw) = Invalid" by (rule token_no_dash) simp
    with True show ?thesis by (simp only: if_True)
  next
    case False
    have "token_kind [] = Invalid" by code_simp
    with False show ?thesis by simp
  qed
  have mem: "45 \<in> set ?raw" and ne: "?raw \<noteq> []" by simp_all
  show ?thesis
    by (simp only: classify_approval_response_def option.case Let_def raw dash scoped mem ne
        not_token_text [OF y(7)] not_True_eq_False not_False_eq_True simp_thms if_False if_True)
qed

section \<open>Properties\<close>

text \<open>
  C34. A scoped reply decides one proposal: where replies must name their proposal, no text
  approves or rejects two proposals with different generated identifiers, whatever letters,
  case or punctuation it uses.
\<close>

theorem scoped_reply_names_one_proposal:
  assumes "classify_approval_response (Some t) (cps (generate_proposal_id c n)) tok True \<in> {Approve, Reject}"
    and "classify_approval_response (Some t) (cps (generate_proposal_id c' n')) tok' True \<in> {Approve, Reject}"
  shows "generate_proposal_id c n = generate_proposal_id c' n'"
proof -
  have "normalize_proposal_id (cps (generate_proposal_id c n))
      = normalize_proposal_id (cps (generate_proposal_id c' n'))"
    using classify_scoped_names [OF classify_scoped_reply [OF assms(1)]]
      classify_scoped_names [OF classify_scoped_reply [OF assms(2)]] by simp
  then show ?thesis by simp
qed

theorem scoped_reply_names_one_proposal_witness:
  "classify_approval_response (Some (cps '' Yes-aaab'')) (cps (generate_proposal_id (\<lambda>i. i div 3) 4)) True True = Approve
   \<and> generate_proposal_id (\<lambda>i. i div 3) 4 = generate_proposal_id (\<lambda>i. i div 3) 4"
proof -
  have "classify_approval_response (Some (cps '' Yes-aaab'')) (cps (generate_proposal_id (\<lambda>i. i div 3) 4)) True True = Approve"
    by code_simp
  with scoped_reply_names_one_proposal [of "cps '' Yes-aaab''" "\<lambda>i. i div 3" 4 True "\<lambda>i. i div 3" 4 True]
  show ?thesis by simp
qed

text \<open>
  The replies the operator is told to send are read as sent: a listed word, a dash and the
  proposal's identifier approve exactly when the word is one of the affirmative ones and reject
  exactly when it is one of the negative ones, on every channel and in both reply modes.
\<close>

theorem told_reply_read_back:
  assumes "0 < n" and "w \<in> set (YES_TOKENS @ NO_TOKENS)"
  shows "classify_approval_response (Some (w @ cps ''-'' @ cps (generate_proposal_id c n)))
           (cps (generate_proposal_id c n)) tok scoped = (if w \<in> set YES_TOKENS then Approve else Reject)"
proof -
  have "generate_proposal_id c n \<noteq> []" using assms(1) by (simp add: generate_proposal_id_def)
  from classify_token_dash [OF assms(2) generated_in_alphabet this] assms(2)
  have "classify_approval_response (Some (w @ 45 # cps (generate_proposal_id c n)))
      (cps (generate_proposal_id c n)) tok scoped = (if w \<in> set YES_TOKENS then Approve else Reject)"
    by (auto simp: token_kind_def)
  moreover have "cps ''-'' = [45]" by (simp add: cps_def)
  ultimately show ?thesis by simp
qed

theorem told_reply_read_back_witness:
  "classify_approval_response (Some (cps ''deny'' @ cps ''-'' @ cps (generate_proposal_id id 8)))
     (cps (generate_proposal_id id 8)) True False = Reject"
proof -
  have "cps ''deny'' \<in> set (YES_TOKENS @ NO_TOKENS)" "cps ''deny'' \<notin> set YES_TOKENS" by code_simp+
  with told_reply_read_back [of 8 "cps ''deny''" id True False] show ?thesis by simp
qed

end
