(* ===== verification/Canonical_Json.thy ===== *)
theory Canonical_Json
  imports Ori_Prelude "HOL-Library.Word" "HOL-Library.Char_ord" "HOL-Library.List_Lexorder"
begin

text \<open>
  What \<open>json.dumps\<close> with sorted keys and no whitespace, \<open>str.encode\<close> and
  \<open>hashlib.sha256\<close> give, as the sources use them: the canonical text of a document, its
  UTF-8 bytes, and the SHA-256 digest of bytes (FIPS 180-4) in the spelling
  \<open>sha256:<64 hex digits>\<close>. The main fact is that the canonical form of a string,
  followed by anything, can be read back in one way only.
\<close>

unbundle bit_operations_syntax

type_synonym bytes = "8 word list"

section \<open>Documents\<close>

text \<open>
  A JSON document as Python holds it. A finite float is given by its \<open>repr\<close>, which is the
  text \<open>json.dumps\<close> writes and which determines the float; a NaN or an infinity is
  \<open>JNonFinite\<close>. An object is the list of its items in insertion order.
\<close>

datatype json =
    JNull
  | JBool bool
  | JInt int
  | JFloat string
  | JNonFinite
  | JStr string
  | JList "json list"
  | JDict "(string \<times> json) list"

definition hex_digit :: "nat \<Rightarrow> char" where
  "hex_digit n = char_of (if n < 10 then 48 + n else 87 + n)"

text \<open>The escapes of \<open>json\<close> with \<open>ensure_ascii=False\<close>.\<close>

definition json_escape :: "char \<Rightarrow> string" where
  "json_escape c =
     (let n = of_char c :: nat
      in if n = 34 then [CHR 0x5C, CHR 0x22]
         else if n = 92 then [CHR 0x5C, CHR 0x5C]
         else if n = 10 then [CHR 0x5C, CHR ''n'']
         else if n = 13 then [CHR 0x5C, CHR ''r'']
         else if n = 9 then [CHR 0x5C, CHR ''t'']
         else if n = 12 then [CHR 0x5C, CHR ''f'']
         else if n = 8 then [CHR 0x5C, CHR ''b'']
         else if n < 32 then [CHR 0x5C, CHR ''u'', CHR ''0'', CHR ''0'', hex_digit (n div 16), hex_digit (n mod 16)]
         else [c])"

definition json_string :: "string \<Rightarrow> string" where
  "json_string s = CHR 0x22 # concat (map json_escape s) @ [CHR 0x22]"

fun nat_text :: "nat \<Rightarrow> string" where
  "nat_text n = (if n < 10 then [char_of (48 + n)] else nat_text (n div 10) @ [char_of (48 + n mod 10)])"

declare nat_text.simps [simp del]

definition int_text :: "int \<Rightarrow> string" where
  "int_text i = (if i < 0 then CHR ''-'' # nat_text (nat (- i)) else nat_text (nat i))"

fun comma_join :: "string list \<Rightarrow> string" where
  "comma_join [] = []"
| "comma_join [t] = t"
| "comma_join (t # ts) = t @ CHR '','' # comma_join ts"

text \<open>
  \<open>json.dumps(value, sort_keys=True, separators=(",", ":"), ensure_ascii=False,
  allow_nan=False)\<close>: the text, or \<open>None\<close> where it raises for a float that is not finite.
\<close>

fun json_text :: "json \<Rightarrow> string option" where
  "json_text JNull = Some ''null''"
| "json_text (JBool b) = Some (if b then ''true'' else ''false'')"
| "json_text (JInt i) = Some (int_text i)"
| "json_text (JFloat r) = Some r"
| "json_text JNonFinite = None"
| "json_text (JStr s) = Some (json_string s)"
| "json_text (JList xs) = map_option (\<lambda>ts. CHR ''['' # comma_join ts @ '']'') (those (map json_text xs))"
| "json_text (JDict ms) =
     map_option
       (\<lambda>ts. CHR ''{'' # comma_join (map (\<lambda>(k, t). json_string k @ CHR '':'' # t) (sort_key fst ts)) @ ''}'')
       (those (map (\<lambda>(k, v). map_option (Pair k) (json_text v)) ms))"

definition utf8_char :: "char \<Rightarrow> bytes" where
  "utf8_char c =
     (let n = of_char c :: nat
      in if n < 128 then [word_of_nat n] else [word_of_nat (192 + n div 64), word_of_nat (128 + n mod 64)])"

definition utf8 :: "string \<Rightarrow> bytes" where
  "utf8 s = concat (map utf8_char s)"

definition canonical_bytes :: "json \<Rightarrow> bytes option" where
  "canonical_bytes v = map_option utf8 (json_text v)"

section \<open>SHA-256\<close>

definition SHA256_K :: "32 word list" where
  "SHA256_K =
   [1116352408, 1899447441, 3049323471, 3921009573, 961987163, 1508970993,
    2453635748, 2870763221, 3624381080, 310598401, 607225278, 1426881987,
    1925078388, 2162078206, 2614888103, 3248222580, 3835390401, 4022224774,
    264347078, 604807628, 770255983, 1249150122, 1555081692, 1996064986,
    2554220882, 2821834349, 2952996808, 3210313671, 3336571891, 3584528711,
    113926993, 338241895, 666307205, 773529912, 1294757372, 1396182291,
    1695183700, 1986661051, 2177026350, 2456956037, 2730485921, 2820302411,
    3259730800, 3345764771, 3516065817, 3600352804, 4094571909, 275423344,
    430227734, 506948616, 659060556, 883997877, 958139571, 1322822218,
    1537002063, 1747873779, 1955562222, 2024104815, 2227730452, 2361852424,
    2428436474, 2756734187, 3204031479, 3329325298]"

definition SHA256_H0 :: "32 word list" where
  "SHA256_H0 =
   [1779033703, 3144134277, 1013904242, 2773480762, 1359893119, 2600822924, 528734635, 1541459225]"

definition sha256_pad :: "bytes \<Rightarrow> bytes" where
  "sha256_pad m =
     (let l = length m
      in m @ [0x80] @ replicate ((119 - l mod 64) mod 64) 0
           @ map (\<lambda>i. word_of_int (8 * int l div 256 ^ i)) (rev [0..<8]))"

fun be_words :: "bytes \<Rightarrow> 32 word list" where
  "be_words (a # b # c # d # r) =
     (push_bit 24 (ucast a) OR push_bit 16 (ucast b) OR push_bit 8 (ucast c) OR ucast d) # be_words r"
| "be_words _ = []"

text \<open>The message schedule: sixteen words of a block, extended one at a time.\<close>

definition next_word :: "32 word list \<Rightarrow> 32 word" where
  "next_word w =
     (let t = length w; x = w ! (t - 15); y = w ! (t - 2)
      in (word_rotr 17 y XOR word_rotr 19 y XOR drop_bit 10 y) + w ! (t - 7)
           + (word_rotr 7 x XOR word_rotr 18 x XOR drop_bit 3 x) + w ! (t - 16))"

definition schedule :: "32 word list \<Rightarrow> 32 word list" where
  "schedule blk = ((\<lambda>w. w @ [next_word w]) ^^ 48) blk"

fun sha256_round :: "32 word \<times> 32 word \<Rightarrow> 32 word list \<Rightarrow> 32 word list" where
  "sha256_round (k, w) [a, b, c, d, e, f, g, h] =
     (let t1 = h + (word_rotr 6 e XOR word_rotr 11 e XOR word_rotr 25 e)
                 + ((e AND f) XOR (NOT e AND g)) + k + w;
          t2 = (word_rotr 2 a XOR word_rotr 13 a XOR word_rotr 22 a)
                 + ((a AND b) XOR (a AND c) XOR (b AND c))
      in [t1 + t2, a, b, c, d + t1, e, f, g])"
| "sha256_round _ s = s"

definition compress :: "32 word list \<Rightarrow> 32 word list \<Rightarrow> 32 word list" where
  "compress h blk = map2 (+) h (fold sha256_round (zip SHA256_K (schedule blk)) h)"

function sha256_blocks :: "32 word list \<Rightarrow> 32 word list \<Rightarrow> 32 word list" where
  "sha256_blocks h ws = (if length ws < 16 then h else sha256_blocks (compress h (take 16 ws)) (drop 16 ws))"
  by pat_completeness auto
termination
  by (relation "measure (\<lambda>(h, ws). length ws)") auto

declare sha256_blocks.simps [simp del]

definition be_bytes :: "32 word \<Rightarrow> bytes" where
  "be_bytes w = [ucast (drop_bit 24 w), ucast (drop_bit 16 w), ucast (drop_bit 8 w), ucast w]"

definition sha256 :: "bytes \<Rightarrow> bytes" where
  "sha256 m = concat (map be_bytes (sha256_blocks SHA256_H0 (be_words (sha256_pad m))))"

definition hexdigest :: "bytes \<Rightarrow> string" where
  "hexdigest bs = concat (map (\<lambda>b. [hex_digit (unat b div 16), hex_digit (unat b mod 16)]) bs)"

definition sha256_digest :: "bytes \<Rightarrow> string" where
  "sha256_digest data = ''sha256:'' @ hexdigest (sha256 data)"

definition is_hex :: "char \<Rightarrow> bool" where
  "is_hex c = (let n = of_char c :: nat in 48 \<le> n \<and> n \<le> 57 \<or> 97 \<le> n \<and> n \<le> 102)"

section \<open>Reading strings back\<close>

text \<open>What one escaped character and one string literal read as; used to show the text unambiguous.\<close>

definition hex_value :: "char \<Rightarrow> nat" where
  "hex_value c = (let n = of_char c :: nat in if n < 58 then n - 48 else n - 87)"

fun read_escape :: "string \<Rightarrow> (char \<times> string) option" where
  "read_escape [] = None"
| "read_escape (c # r) =
     (if c \<noteq> CHR 0x5C then Some (c, r)
      else case r of
        [] \<Rightarrow> None
      | e # r' \<Rightarrow>
          if e = CHR ''n'' then Some (CHR 0x0A, r')
          else if e = CHR ''r'' then Some (CHR 0x0D, r')
          else if e = CHR ''t'' then Some (CHR 0x09, r')
          else if e = CHR ''f'' then Some (CHR 0x0C, r')
          else if e = CHR ''b'' then Some (CHR 0x08, r')
          else if e = CHR ''u'' then
            (case r' of _ # _ # h # l # r'' \<Rightarrow> Some (char_of (16 * hex_value h + hex_value l), r'') | _ \<Rightarrow> None)
          else Some (e, r'))"

fun read_utf8 :: "bytes \<Rightarrow> char \<times> bytes" where
  "read_utf8 (b # r) =
     (if unat b < 128 then (char_of (unat b), r)
      else (char_of (64 * (unat b - 192) + (unat (hd r) - 128)), tl r))"
| "read_utf8 [] = (CHR 0x00, [])"

section \<open>Lemmas\<close>

lemma of_char_less [simp]: "(of_char c :: nat) < 256"
  by (metis of_char_of char_of_char mod_less_divisor zero_less_numeral)

lemma hex_value_digit: "n < 16 \<Longrightarrow> hex_value (hex_digit n) = n"
  by (simp add: hex_value_def hex_digit_def Let_def of_char_of)

lemma hex_digit_code: "n < 16 \<Longrightarrow> (of_char (hex_digit n) :: nat) = (if n < 10 then 48 + n else 87 + n)"
  by (simp add: hex_digit_def of_char_of)

lemma char_of_eq: "(of_char c :: nat) = n \<Longrightarrow> c = char_of n"
  by (metis char_of_char)

lemma read_escape_escape: "read_escape (json_escape c @ r) = Some (c, r)"
proof -
  let ?n = "of_char c :: nat"
  have "char_of (34 :: nat) = CHR 0x22" "char_of (92 :: nat) = CHR 0x5C" "char_of (10 :: nat) = CHR 0x0A"
    "char_of (13 :: nat) = CHR 0x0D" "char_of (9 :: nat) = CHR 0x09" "char_of (12 :: nat) = CHR 0x0C"
    "char_of (8 :: nat) = CHR 0x08"
    by code_simp+
  then have ch: "?n = 34 \<Longrightarrow> c = CHR 0x22" "?n = 92 \<Longrightarrow> c = CHR 0x5C" "?n = 10 \<Longrightarrow> c = CHR 0x0A"
    "?n = 13 \<Longrightarrow> c = CHR 0x0D" "?n = 9 \<Longrightarrow> c = CHR 0x09" "?n = 12 \<Longrightarrow> c = CHR 0x0C"
    "?n = 8 \<Longrightarrow> c = CHR 0x08"
    by (metis char_of_char)+
  have low: "char_of (16 * hex_value (hex_digit (?n div 16)) + hex_value (hex_digit (?n mod 16))) = c"
    if "?n < 32"
    using that by (simp add: hex_value_digit)
  consider "?n = 34" | "?n = 92" | "?n = 10" | "?n = 13" | "?n = 9" | "?n = 12" | "?n = 8"
    | "?n < 32" "?n \<notin> {10, 13, 9, 12, 8}" | "?n \<ge> 32" "?n \<noteq> 34" "?n \<noteq> 92"
    by force
  then show ?thesis
  proof cases
    case 8
    then show ?thesis using low by (simp add: json_escape_def Let_def)
  next
    case 9
    then have "c \<noteq> CHR 0x5C" by auto
    with 9 show ?thesis by (simp add: json_escape_def)
  qed (frule ch, simp add: json_escape_def)+
qed

lemma json_escape_shape: "json_escape c \<noteq> []" "hd (json_escape c) \<noteq> CHR 0x22"
  by (auto simp: json_escape_def Let_def)

lemma json_escape_split:
  assumes "json_escape c @ r = json_escape d @ r'"
  shows "c = d \<and> r = r'"
proof -
  from read_escape_escape [of c r] have "read_escape (json_escape d @ r') = Some (c, r)"
    unfolding assms .
  then have "Some (d, r') = Some (c, r)" unfolding read_escape_escape .
  then show ?thesis by simp
qed

lemma json_string_split:
  assumes "json_string s @ r = json_string t @ r'"
  shows "s = t \<and> r = r'"
proof -
  have "concat (map json_escape s) @ CHR 0x22 # r = concat (map json_escape t) @ CHR 0x22 # r'
      \<Longrightarrow> s = t \<and> r = r'"
  proof (induction s arbitrary: t)
    case Nil
    show ?case
    proof (cases t)
      case (Cons d t')
      with Nil.prems json_escape_shape [of d] show ?thesis by (cases "json_escape d") auto
    qed (use Nil.prems in simp)
  next
    case (Cons c s)
    show ?case
    proof (cases t)
      case Nil
      with Cons.prems json_escape_shape [of c] show ?thesis
        by (cases "json_escape c") auto
    next
      case (Cons d t')
      with Cons.prems json_escape_split [of c "concat (map json_escape s) @ CHR 0x22 # r" d]
      have "c = d" and "concat (map json_escape s) @ CHR 0x22 # r = concat (map json_escape t') @ CHR 0x22 # r'"
        by auto
      with Cons.IH Cons show ?thesis by simp
    qed
  qed
  with assms show ?thesis by (simp add: json_string_def)
qed

text \<open>A list of texts each of which can be told where it ends can be read back from its joined form.\<close>

lemma comma_join_split:
  assumes "\<forall>k \<in> set ks. \<forall>r r'. F k @ r = G k @ r' \<longrightarrow> F k = G k \<and> r = r'"
    and "comma_join (map F ks) @ r = comma_join (map G ks) @ r'"
  shows "(\<forall>k \<in> set ks. F k = G k) \<and> r = r'"
  using assms
proof (induction ks)
  case (Cons k ks)
  show ?case
  proof (cases ks)
    case Nil
    with Cons.prems show ?thesis by simp
  next
    case (Cons k' ks')
    let ?f = "\<lambda>H. comma_join (map H ks)"
    have join: "comma_join (map H (k # ks)) = H k @ CHR '','' # ?f H" for H
      using Cons by simp
    from Cons.prems(2) have "F k @ CHR '','' # ?f F @ r = G k @ CHR '','' # ?f G @ r'"
      by (simp only: join append_assoc append_Cons)
    moreover have "\<forall>r r'. F k @ r = G k @ r' \<longrightarrow> F k = G k \<and> r = r'"
      using Cons.prems(1) by (rule bspec) simp
    ultimately have k: "F k = G k \<and> CHR '','' # ?f F @ r = CHR '','' # ?f G @ r'" by blast
    then have "?f F @ r = ?f G @ r'" by simp
    with Cons.IH Cons.prems(1) have "(\<forall>k \<in> set ks. F k = G k) \<and> r = r'"
      by (meson list.set_intros(2))
    with k show ?thesis by simp
  qed
qed simp

lemma read_utf8_char: "read_utf8 (utf8_char c @ r) = (c, r)"
proof -
  let ?n = "of_char c :: nat"
  have small: "unat (word_of_nat n :: 8 word) = n" if "n < 256" for n
    using that by (simp add: unat_of_nat)
  show ?thesis
  proof (cases "?n < 128")
    case True
    then have "utf8_char c = [word_of_nat ?n]" by (simp add: utf8_char_def)
    then show ?thesis using True small [of ?n] by simp
  next
    case False
    then have u: "utf8_char c = [word_of_nat (192 + ?n div 64), word_of_nat (128 + ?n mod 64)]"
      by (simp add: utf8_char_def Let_def)
    have "unat (word_of_nat (192 + ?n div 64) :: 8 word) = 192 + ?n div 64"
      and "unat (word_of_nat (128 + ?n mod 64) :: 8 word) = 128 + ?n mod 64"
      using of_char_less [of c] by (intro small; linarith)+
    then show ?thesis unfolding u by (simp del: of_nat_add)
  qed
qed

lemma utf8_char_nonempty: "utf8_char c \<noteq> []"
  by (simp add: utf8_char_def Let_def)

lemma utf8_split: "utf8 s = utf8 t \<Longrightarrow> s = t"
proof (induction s arbitrary: t)
  case Nil
  then show ?case by (cases t) (auto simp: utf8_def utf8_char_nonempty)
next
  case (Cons c s)
  then obtain d t' where t: "t = d # t'" by (cases t) (auto simp: utf8_def utf8_char_nonempty)
  with Cons.prems have "utf8_char c @ utf8 s = utf8_char d @ utf8 t'" by (simp add: utf8_def)
  then have "(c, utf8 s) = (d, utf8 t')" by (metis read_utf8_char)
  with Cons.IH t show ?case by simp
qed

lemma sort_key_fst_map_of:
  fixes d :: "('k :: linorder \<times> 'v) list"
  assumes "distinct (map fst d)"
  shows "sort_key fst d = map (\<lambda>k. (k, the (map_of d k))) (sort (map fst d))"
proof -
  let ?s = "sort_key fst d"
  have keys: "map fst ?s = sort (map fst d)"
    using assms by (intro sorted_distinct_set_unique) (auto simp: distinct_map)
  have "map (\<lambda>k. (k, the (map_of d k))) (map fst ?s) = ?s"
    using assms by (auto simp: comp_def intro!: map_idI)
  with keys show ?thesis by simp
qed

lemma those_map_Some: "(\<And>x. x \<in> set xs \<Longrightarrow> f x = Some (g x)) \<Longrightarrow> those (map f xs) = Some (map g xs)"
  by (induction xs) auto

text \<open>The text of an object whose members' texts are known: the members in key order.\<close>

lemma json_text_dict:
  fixes d :: "(string \<times> json) list"
  assumes dist: "distinct (map fst d)" and tx: "\<And>k x. (k, x) \<in> set d \<Longrightarrow> json_text x = Some (T k)"
  shows "json_text (JDict d)
    = Some (CHR ''{'' # comma_join (map (\<lambda>k. json_string k @ CHR '':'' # T k) (sort (map fst d))) @ ''}'')"
proof -
  let ?d = "map (\<lambda>kx. (fst kx, T (fst kx))) d"
  have keys: "map fst ?d = map fst d" by simp
  have dist': "distinct (map fst ?d)" using dist by (simp only: keys)
  have "those (map (\<lambda>(k, v). map_option (Pair k) (json_text v)) d) = Some ?d"
    by (intro those_map_Some) (auto simp: tx)
  moreover have "map_of ?d k = Some (T k)" if "k \<in> set (map fst d)" for k
    using that by (intro map_of_is_SomeI [OF dist']) auto
  then have "sort_key fst ?d = map (\<lambda>k. (k, T k)) (sort (map fst d))"
    unfolding sort_key_fst_map_of [OF dist'] keys by (intro map_cong) auto
  ultimately show ?thesis by (simp add: comp_def)
qed

subsection \<open>Digests\<close>

lemma length_sha256_round [simp]: "length (sha256_round kw s) = length s"
  by (induction kw s rule: sha256_round.induct) (simp_all add: Let_def)

lemma length_rounds [simp]: "length (fold sha256_round kws s) = length s"
  by (induction kws arbitrary: s) auto

lemma length_sha256_blocks [simp]: "length (sha256_blocks h ws) = length h"
proof (induction h ws rule: sha256_blocks.induct)
  case (1 h ws)
  then show ?case
    by (subst sha256_blocks.simps) (simp add: compress_def)
qed

lemma length_concat_const: "(\<And>x. length (f x) = n) \<Longrightarrow> length (concat (map f xs)) = n * length xs"
  by (induction xs) auto

lemma length_sha256: "length (sha256 m) = 32"
  unfolding sha256_def
  by (subst length_concat_const [where n = 4]) (simp_all add: be_bytes_def SHA256_H0_def)

lemma length_hexdigest: "length (hexdigest bs) = 2 * length bs"
  unfolding hexdigest_def by (rule length_concat_const) simp

lemma is_hex_digit: "n < 16 \<Longrightarrow> is_hex (hex_digit n)"
  by (simp add: is_hex_def hex_digit_code Let_def)

lemma is_hex_hexdigest: "list_all is_hex (hexdigest bs)"
proof -
  have "unat b div 16 < 16" for b :: "8 word" using unsigned_less [of b, where 'a = nat] by simp
  then show ?thesis by (auto simp: hexdigest_def list_all_iff is_hex_digit)
qed

end
