(* ===== verification/Tier_C_Admission.thy ===== *)
theory Tier_C_Admission
  imports Dispatch_Plan Canonical_Json
begin

text \<open>
  \<open>ori/reasoning/tier_c_admission.py\<close>, \<open>approval_bounds.py\<close> and \<open>action_taken.py\<close>: the
  decision states of a Tier C proposal, the authority snapshot a proposal is created under
  and an approval is matched against byte for byte, which proposals the contract governs,
  which actions may stand as a safe default, the bound on a proposal's lifetime, and the
  names the action log reserves for what is not an action.
\<close>

section \<open>Decision states\<close>

abbreviation PROPOSED :: string where "PROPOSED \<equiv> ''proposed''"
abbreviation PROPOSAL_EXPIRED :: string where "PROPOSAL_EXPIRED \<equiv> ''proposal_expired''"
abbreviation REJECTED :: string where "REJECTED \<equiv> ''rejected''"
abbreviation APPROVED_PENDING_DISPATCH :: string where
  "APPROVED_PENDING_DISPATCH \<equiv> ''approved_pending_dispatch''"
abbreviation DISPATCH_STARTED :: string where "DISPATCH_STARTED \<equiv> ''dispatch_started''"
abbreviation EXECUTED :: string where "EXECUTED \<equiv> ''executed''"
abbreviation APPROVAL_EXPIRED_UNDISPATCHED :: string where
  "APPROVAL_EXPIRED_UNDISPATCHED \<equiv> ''approval_expired_undispatched''"
abbreviation APPROVAL_ABORTED_UNDISPATCHED :: string where
  "APPROVAL_ABORTED_UNDISPATCHED \<equiv> ''approval_aborted_undispatched''"
abbreviation PROPOSAL_ABORTED_RESTART :: string where
  "PROPOSAL_ABORTED_RESTART \<equiv> ''proposal_aborted_restart''"
abbreviation APPROVAL_BINDING_CHANGED :: string where
  "APPROVAL_BINDING_CHANGED \<equiv> ''approval_binding_changed''"
abbreviation PROPOSAL_BLOCKED_UNCERTAIN_OUTCOME :: string where
  "PROPOSAL_BLOCKED_UNCERTAIN_OUTCOME \<equiv> ''proposal_blocked_uncertain_outcome''"
abbreviation DISPATCH_REFUSED_CONTENTION :: string where
  "DISPATCH_REFUSED_CONTENTION \<equiv> ''dispatch_refused_contention''"
abbreviation DISPATCH_FAILED :: string where "DISPATCH_FAILED \<equiv> ''dispatch_failed''"
abbreviation DISPATCH_OUTCOME_UNKNOWN :: string where
  "DISPATCH_OUTCOME_UNKNOWN \<equiv> ''dispatch_outcome_unknown''"
abbreviation DISPATCH_NOT_PROVEN :: string where "DISPATCH_NOT_PROVEN \<equiv> ''dispatch_not_proven''"
abbreviation RECONCILED_EXECUTED :: string where "RECONCILED_EXECUTED \<equiv> ''reconciled_executed''"
abbreviation RECONCILED_NOT_EXECUTED :: string where
  "RECONCILED_NOT_EXECUTED \<equiv> ''reconciled_not_executed''"

definition DECISION_STATES :: "string list" where
  "DECISION_STATES =
     [PROPOSED, PROPOSAL_EXPIRED, REJECTED, APPROVED_PENDING_DISPATCH, DISPATCH_STARTED, EXECUTED,
      APPROVAL_EXPIRED_UNDISPATCHED, APPROVAL_ABORTED_UNDISPATCHED, PROPOSAL_ABORTED_RESTART,
      APPROVAL_BINDING_CHANGED, PROPOSAL_BLOCKED_UNCERTAIN_OUTCOME, DISPATCH_REFUSED_CONTENTION,
      DISPATCH_FAILED, DISPATCH_OUTCOME_UNKNOWN, DISPATCH_NOT_PROVEN, RECONCILED_EXECUTED,
      RECONCILED_NOT_EXECUTED]"

definition BLOCKING_STATES :: "string list" where
  "BLOCKING_STATES =
     [APPROVED_PENDING_DISPATCH, DISPATCH_STARTED, DISPATCH_OUTCOME_UNKNOWN, DISPATCH_NOT_PROVEN]"

definition UNCERTAIN_STATES :: "string list" where
  "UNCERTAIN_STATES = [DISPATCH_OUTCOME_UNKNOWN, DISPATCH_NOT_PROVEN]"

definition ADMITTED_STATES :: "string list" where
  "ADMITTED_STATES =
     [APPROVED_PENDING_DISPATCH, DISPATCH_STARTED, EXECUTED, APPROVAL_EXPIRED_UNDISPATCHED,
      APPROVAL_ABORTED_UNDISPATCHED, DISPATCH_REFUSED_CONTENTION, DISPATCH_FAILED,
      DISPATCH_OUTCOME_UNKNOWN, DISPATCH_NOT_PROVEN, RECONCILED_EXECUTED, RECONCILED_NOT_EXECUTED]"

definition RECONCILE_REASONS :: "string list" where
  "RECONCILE_REASONS = [''site_inspection'', ''instrument_measurement'', ''actuator_position_observed'']"

section \<open>The proposal's lifetime\<close>

definition MAX_PROPOSAL_LIFETIME_S :: int where
  "MAX_PROPOSAL_LIFETIME_S = 3600"

definition approval_timeout_accepted :: "pyval \<Rightarrow> bool" where
  "approval_timeout_accepted v =
     (case v of PyInt i \<Rightarrow> 1 \<le> i \<and> i \<le> MAX_PROPOSAL_LIFETIME_S | _ \<Rightarrow> False)"

section \<open>The authority snapshot\<close>

definition DIGEST_match :: "string \<Rightarrow> bool" where
  "DIGEST_match s =
     (starts_with ''sha256:'' s \<and> length s = 71 \<and> list_all is_hex (drop 7 s))"

definition SNAPSHOT_MEMBERS :: "string list" where
  "SNAPSHOT_MEMBERS =
     [''action'', ''action_capability'', ''binding_digest'', ''outcome'', ''policy_digest'',
      ''resource'', ''safety_profile'', ''v'', ''zone_digest'', ''zone_id'']"

type_synonym snapshot = "(string \<times> json) list"

text \<open>\<open>MalformedSnapshotError\<close> by what it names; \<open>NotCanonical\<close> is the \<open>ValueError\<close> of \<open>json.dumps\<close>.\<close>

datatype snapshot_error =
    NotAnObject | WrongMembers | BadVersion | NotADigest string | BadSafetyProfile
  | NotAString string | NoCapability string | NotCanonical

definition member_of :: "snapshot \<Rightarrow> string \<Rightarrow> json" where
  "member_of d k = (case map_of d k of Some v \<Rightarrow> v | None \<Rightarrow> JNull)"

definition is_jstr :: "json \<Rightarrow> bool" where
  "is_jstr v = (case v of JStr _ \<Rightarrow> True | _ \<Rightarrow> False)"

definition jstr_text :: "json \<Rightarrow> string" where
  "jstr_text v = (case v of JStr s \<Rightarrow> s | _ \<Rightarrow> [])"

definition DIGEST_MEMBERS :: "string list" where
  "DIGEST_MEMBERS = [''action_capability'', ''binding_digest'', ''policy_digest'', ''zone_digest'']"

definition TEXT_MEMBERS :: "string list" where
  "TEXT_MEMBERS = [''action'', ''outcome'', ''resource'', ''zone_id'']"

definition check_digest :: "snapshot \<Rightarrow> string \<Rightarrow> unit \<Rightarrow> snapshot_error + unit" where
  "check_digest d k _ =
     (if \<not> is_jstr (member_of d k) \<or> \<not> DIGEST_match (jstr_text (member_of d k))
      then Inl (NotADigest k) else Inr ())"

definition check_text :: "snapshot \<Rightarrow> string \<Rightarrow> unit \<Rightarrow> snapshot_error + unit" where
  "check_text d k _ = (if \<not> is_jstr (member_of d k) then Inl (NotAString k) else Inr ())"

definition validate_snapshot :: "json \<Rightarrow> snapshot_error + snapshot" where
  "validate_snapshot v =
     (case v of
        JDict d \<Rightarrow>
          if sort (map fst d) \<noteq> SNAPSHOT_MEMBERS then Inl WrongMembers
          else if member_of d ''v'' \<noteq> JInt 1 then Inl BadVersion
          else bind_res (fold_res (check_digest d) DIGEST_MEMBERS ()) (\<lambda>_.
            let profile = member_of d ''safety_profile''
            in if \<not> is_jstr profile \<or> (jstr_text profile \<noteq> [] \<and> \<not> DIGEST_match (jstr_text profile))
               then Inl BadSafetyProfile
               else bind_res (fold_res (check_text d) TEXT_MEMBERS ()) (\<lambda>_. Inr d))
      | _ \<Rightarrow> Inl NotAnObject)"

definition canonical_or_raise :: "json \<Rightarrow> snapshot_error + bytes" where
  "canonical_or_raise v = (case canonical_bytes v of None \<Rightarrow> Inl NotCanonical | Some b \<Rightarrow> Inr b)"

definition snapshot_bytes :: "json \<Rightarrow> snapshot_error + bytes" where
  "snapshot_bytes v = bind_res (validate_snapshot v) (\<lambda>d. canonical_or_raise (JDict d))"

definition capability_document :: "action_capability \<Rightarrow> json" where
  "capability_document e =
     JDict [(''consequence_class'', JStr (cap_consequence_class e)),
            (''minimum_tier'', JStr (cap_minimum_tier e)),
            (''physical'', JBool (cap_physical e)),
            (''safe_default_eligible'', JBool (cap_safe_default_eligible e))]"

definition capability_digest :: "action_capability \<Rightarrow> snapshot_error + string" where
  "capability_digest e =
     bind_res (canonical_or_raise (capability_document e)) (\<lambda>b. Inr (sha256_digest b))"

record authority_inputs =
  ai_action :: string
  ai_outcome :: string
  ai_resource :: string
  ai_zone_id :: string
  ai_zone_document :: json
  ai_binding_canonical_hash :: string
  ai_safety_profile_digest :: string
  ai_policy_inputs :: json

definition binding_member :: "string \<Rightarrow> string" where
  "binding_member h =
     (if \<not> starts_with ''sha256:'' h then (if h \<noteq> [] then sha256_digest (utf8 h) else []) else h)"

definition build_snapshot :: "authority_inputs \<Rightarrow> snapshot_error + snapshot" where
  "build_snapshot x =
     (case capability (ai_action x) of
        None \<Rightarrow> Inl (NoCapability (ai_action x))
      | Some entry \<Rightarrow>
          bind_res (capability_digest entry) (\<lambda>cap.
          bind_res (canonical_or_raise (ai_policy_inputs x)) (\<lambda>policy.
          bind_res (canonical_or_raise (ai_zone_document x)) (\<lambda>zone.
          validate_snapshot (JDict
            [(''action'', JStr (ai_action x)),
             (''action_capability'', JStr cap),
             (''binding_digest'', JStr (binding_member (ai_binding_canonical_hash x))),
             (''outcome'', JStr (ai_outcome x)),
             (''policy_digest'', JStr (sha256_digest policy)),
             (''resource'', JStr (ai_resource x)),
             (''safety_profile'', JStr (ai_safety_profile_digest x)),
             (''v'', JInt 1),
             (''zone_digest'', JStr (sha256_digest zone)),
             (''zone_id'', JStr (ai_zone_id x))])))))"

section \<open>Which proposals the contract governs\<close>

abbreviation GOVERNED :: string where "GOVERNED \<equiv> ''governed''"
abbreviation REFUSED :: string where "REFUSED \<equiv> ''refused''"
abbreviation OUTSIDE_CONTRACT :: string where "OUTSIDE_CONTRACT \<equiv> ''outside_contract''"

definition PHYSICALITY :: "(string \<times> string) list" where
  "PHYSICALITY =
     [(''alert_whatsapp'', ''informational''), (''alert_sms'', ''informational''),
      (''log_to_dashboard'', ''informational''), (''terminate_process'', ''host_state''),
      (''reset_kernel_subsystem'', ''host_state''), (''coap_command'', ''physical''),
      (''trip_relay'', ''physical''), (''release_relay'', ''physical''),
      (''close_gas_valve'', ''physical''), (''open_protected_circuit'', ''physical''),
      (''close_protected_circuit'', ''physical'')]"

definition physicality :: "string \<Rightarrow> string" where
  "physicality a = (case map_of PHYSICALITY a of Some k \<Rightarrow> k | None \<Rightarrow> ''unclassified'')"

text \<open>A name that is absent or empty.\<close>

definition blank :: "string option \<Rightarrow> bool" where
  "blank x = (case x of None \<Rightarrow> True | Some s \<Rightarrow> s = [])"

definition proposal_scope :: "string \<Rightarrow> string \<Rightarrow> string option \<Rightarrow> string option \<Rightarrow> string" where
  "proposal_scope a tier zone_id outcome_name =
     (let kind = physicality a
      in if str_upper tier \<noteq> ''C'' then OUTSIDE_CONTRACT
         else if kind \<noteq> ''physical'' then OUTSIDE_CONTRACT
         else if a = ''coap_command'' then REFUSED
         else if blank zone_id \<or> blank outcome_name then REFUSED
         else GOVERNED)"

definition governed_outcome :: "string \<Rightarrow> string option" where
  "governed_outcome a =
     (if a \<in> {''open_protected_circuit'', ''close_protected_circuit''} then Some a
      else commissioned_outcome a)"

section \<open>Safe defaults\<close>

definition safe_default_admitted :: "string \<Rightarrow> action_capability option \<Rightarrow> bool" where
  "safe_default_admitted a entry =
     (if physicality a \<noteq> ''informational'' then False
      else case (case entry of Some e \<Rightarrow> Some e | None \<Rightarrow> capability a) of
        None \<Rightarrow> False
      | Some r \<Rightarrow>
          cap_consequence_class r = ''informational'' \<and> cap_safe_default_eligible r \<and> \<not> cap_physical r)"

definition unclassified_executors :: "string list \<Rightarrow> string list" where
  "unclassified_executors executors = sort (filter (\<lambda>n. n \<notin> set (map fst PHYSICALITY)) executors)"

definition registry_disagreements :: "string list" where
  "registry_disagreements =
     sort (map fst (filter (\<lambda>(name, entry).
       case map_of PHYSICALITY name of
         None \<Rightarrow> True
       | Some kind \<Rightarrow> cap_physical entry \<noteq> (kind = ''physical'')) ACTION_REGISTRY))"

section \<open>What the action log reserves\<close>

abbreviation REFUSED_PREFIX :: string where "REFUSED_PREFIX \<equiv> ''refused_''"
abbreviation UNRECORDED_SUFFIX :: string where "UNRECORDED_SUFFIX \<equiv> ''_unrecorded''"

definition MARKERS :: "string list" where
  "MARKERS = [''coalesced'', ''suppressed'', ''no_executor'', ''not_performed'', ''proposal_not_committed'']
     @ DECISION_STATES"

definition is_reserved :: "string \<Rightarrow> bool" where
  "is_reserved name =
     (let folded = str_lower (str_strip name)
      in folded \<in> set MARKERS \<or> starts_with REFUSED_PREFIX folded \<or> ends_with UNRECORDED_SUFFIX folded)"

section \<open>Example inputs\<close>

definition example_inputs :: authority_inputs where
  "example_inputs =
     \<lparr>ai_action = ''trip_relay'', ai_outcome = ''open_protected_circuit'', ai_resource = ''z1'',
      ai_zone_id = ''z1'', ai_zone_document = JDict [(''zone_id'', JStr ''z1'')],
      ai_binding_canonical_hash = ''b7'', ai_safety_profile_digest = [],
      ai_policy_inputs = JDict []\<rparr>"

text \<open>One member of a well-formed snapshot as the canonical text writes it.\<close>

definition value_text :: "snapshot \<Rightarrow> string \<Rightarrow> string" where
  "value_text d k = (if k = ''v'' then ''1'' else json_string (jstr_text (member_of d k)))"

definition member_text :: "snapshot \<Rightarrow> string \<Rightarrow> string" where
  "member_text d k = json_string k @ CHR '':'' # value_text d k"

text \<open>A non-empty name with no blank at either end.\<close>

definition solid :: "string \<Rightarrow> bool" where
  "solid s = (s \<noteq> [] \<and> \<not> is_space (hd s) \<and> \<not> is_space (last s))"

definition example_digest :: string where
  "example_digest = ''sha256:'' @ replicate 64 CHR ''0''"

definition example_snapshot :: snapshot where
  "example_snapshot =
     [(''action'', JStr ''trip_relay''), (''action_capability'', JStr example_digest),
      (''binding_digest'', JStr example_digest), (''outcome'', JStr ''open_protected_circuit''),
      (''policy_digest'', JStr example_digest), (''resource'', JStr ''z1''), (''safety_profile'', JStr []),
      (''v'', JInt 1), (''zone_digest'', JStr example_digest), (''zone_id'', JStr ''z1'')]"

text \<open>The same authority with the binding named by its digest already.\<close>

definition example_inputs_digest :: authority_inputs where
  "example_inputs_digest =
     example_inputs\<lparr>ai_binding_canonical_hash := sha256_digest (utf8 ''b7'')\<rparr>"

section \<open>Lemmas\<close>

lemma starts_with_append: "starts_with p (p @ s)" and ends_with_append: "ends_with p (s @ p)"
  by (simp_all add: starts_with_def ends_with_def)

lemma DIGEST_match_sha256_digest [simp]: "DIGEST_match (sha256_digest b)"
  by (simp add: DIGEST_match_def sha256_digest_def starts_with_def length_hexdigest length_sha256
      is_hex_hexdigest)

lemma SNAPSHOT_MEMBERS_distinct: "distinct SNAPSHOT_MEMBERS"
  by (simp add: SNAPSHOT_MEMBERS_def)

lemma SNAPSHOT_MEMBERS_parts:
  "set SNAPSHOT_MEMBERS = {''v'', ''safety_profile''} \<union> set DIGEST_MEMBERS \<union> set TEXT_MEMBERS"
  by (simp add: SNAPSHOT_MEMBERS_def DIGEST_MEMBERS_def TEXT_MEMBERS_def insert_commute)

lemma fold_checks:
  "fold_res (check_digest d) ks u = Inr u' \<longleftrightarrow> (\<forall>k \<in> set ks. check_digest d k () = Inr ())"
  "fold_res (check_text d) ks u = Inr u' \<longleftrightarrow> (\<forall>k \<in> set ks. check_text d k () = Inr ())"
  by (induction ks arbitrary: u) (auto split: sum.split)

text \<open>A snapshot is well formed exactly when each member is what the contract says.\<close>

lemma validate_snapshot_iff:
  "validate_snapshot v = Inr d \<longleftrightarrow>
     v = JDict d \<and> sort (map fst d) = SNAPSHOT_MEMBERS \<and> member_of d ''v'' = JInt 1
     \<and> (\<forall>k \<in> set DIGEST_MEMBERS. is_jstr (member_of d k) \<and> DIGEST_match (jstr_text (member_of d k)))
     \<and> is_jstr (member_of d ''safety_profile'')
     \<and> (jstr_text (member_of d ''safety_profile'') = [] \<or> DIGEST_match (jstr_text (member_of d ''safety_profile'')))
     \<and> (\<forall>k \<in> set TEXT_MEMBERS. is_jstr (member_of d k))"
  by (cases v)
     (auto simp: validate_snapshot_def bind_res_Inr_iff fold_checks check_digest_def check_text_def Let_def)

text \<open>The members of a well-formed snapshot are strings, the version apart.\<close>

lemma snapshot_member:
  assumes "validate_snapshot v = Inr d" and "k \<in> set SNAPSHOT_MEMBERS" and "k \<noteq> ''v''"
  shows "map_of d k = Some (JStr (jstr_text (member_of d k)))"
proof -
  from assms have "is_jstr (member_of d k)"
    unfolding validate_snapshot_iff SNAPSHOT_MEMBERS_parts by auto
  then show ?thesis
    by (auto simp: member_of_def is_jstr_def jstr_text_def split: option.splits json.splits)
qed

lemma snapshot_keys:
  assumes "validate_snapshot v = Inr d"
  shows "distinct (map fst d)" and "set (map fst d) = set SNAPSHOT_MEMBERS"
    and "map_of d ''v'' = Some (JInt 1)"
proof -
  from assms have keys: "sort (map fst d) = SNAPSHOT_MEMBERS" and v: "member_of d ''v'' = JInt 1"
    by (simp_all add: validate_snapshot_iff)
  show "distinct (map fst d)" using keys SNAPSHOT_MEMBERS_distinct by (metis distinct_sort)
  show "set (map fst d) = set SNAPSHOT_MEMBERS" using keys by (metis set_sort)
  show "map_of d ''v'' = Some (JInt 1)" using v by (auto simp: member_of_def split: option.splits)
qed

lemma snapshot_text:
  assumes "validate_snapshot v = Inr d"
  shows "json_text (JDict d) = Some (CHR ''{'' # comma_join (map (member_text d) SNAPSHOT_MEMBERS) @ ''}'')"
proof -
  note keys = snapshot_keys [OF assms]
  have one: "int_text 1 = ''1''" by code_simp
  have tx: "json_text x = Some (value_text d k)" if "(k, x) \<in> set d" for k x
  proof -
    have x: "map_of d k = Some x" using keys(1) that by simp
    have k: "k \<in> set SNAPSHOT_MEMBERS" using that keys(2) by force
    show ?thesis
    proof (cases "k = ''v''")
      case True
      with x keys(3) have "x = JInt 1" by simp
      with True one show ?thesis by (simp add: value_text_def)
    next
      case False
      with x snapshot_member [OF assms k] have "x = JStr (jstr_text (member_of d k))" by simp
      with False show ?thesis unfolding value_text_def by (metis json_text.simps(6))
    qed
  qed
  have "sort (map fst d) = SNAPSHOT_MEMBERS" using assms by (simp add: validate_snapshot_iff)
  with json_text_dict [OF keys(1) tx] show ?thesis
    by (simp only: member_text_def [abs_def])
qed

lemma member_text_split:
  assumes "member_text a k @ r = member_text b k @ r'"
  shows "member_text a k = member_text b k \<and> r = r'"
  using assms json_string_split [of "jstr_text (member_of a k)" r "jstr_text (member_of b k)" r']
  by (auto simp: member_text_def value_text_def split: if_splits)

lemma snapshot_bytes_eq:
  assumes "validate_snapshot v = Inr d"
  shows "snapshot_bytes v = Inr (utf8 (CHR ''{'' # comma_join (map (member_text d) SNAPSHOT_MEMBERS) @ ''}''))"
  using assms snapshot_text [OF assms]
  by (simp add: snapshot_bytes_def canonical_or_raise_def canonical_bytes_def del: json_text.simps)

lemma snapshot_bytes_members:
  assumes a: "validate_snapshot v = Inr a" and b: "validate_snapshot w = Inr b"
    and eq: "snapshot_bytes v = snapshot_bytes w"
  shows "map_of a k = map_of b k"
proof (cases "k \<in> set SNAPSHOT_MEMBERS")
  case True
  from eq have "comma_join (map (member_text a) SNAPSHOT_MEMBERS) @ ''}''
      = comma_join (map (member_text b) SNAPSHOT_MEMBERS) @ ''}''"
    unfolding snapshot_bytes_eq [OF a] snapshot_bytes_eq [OF b] by (auto dest: utf8_split)
  from comma_join_split [OF _ this] member_text_split True
  have "member_text a k = member_text b k" by blast
  then have "k = ''v'' \<or> jstr_text (member_of a k) = jstr_text (member_of b k)"
    using json_string_split [of "jstr_text (member_of a k)" "[]" "jstr_text (member_of b k)" "[]"]
    by (auto simp: member_text_def value_text_def split: if_splits)
  then show ?thesis
    using snapshot_member [OF a True] snapshot_member [OF b True] snapshot_keys(3) [OF a] snapshot_keys(3) [OF b]
    by metis
next
  case False
  then show ?thesis
    using snapshot_keys(2) [OF a] snapshot_keys(2) [OF b] by (metis list.set_map map_of_eq_None_iff)
qed

lemma canonical_or_raise_iff: "canonical_or_raise v = Inr b \<longleftrightarrow> canonical_bytes v = Some b"
  by (auto simp: canonical_or_raise_def split: option.splits)

lemma capability_digest_total: "\<exists>b. capability_digest e = Inr (sha256_digest b)"
proof -
  have "\<exists>t. json_text (capability_document e) = Some t" by (simp add: capability_document_def)
  then show ?thesis by (auto simp: capability_digest_def canonical_or_raise_def canonical_bytes_def)
qed

text \<open>The snapshot the inputs describe, once its digests are computed.\<close>

lemma validate_built:
  "validate_snapshot (JDict
     [(''action'', JStr a), (''action_capability'', JStr (sha256_digest c)), (''binding_digest'', JStr b),
      (''outcome'', JStr out), (''policy_digest'', JStr (sha256_digest p)), (''resource'', JStr r),
      (''safety_profile'', JStr s), (''v'', JInt 1), (''zone_digest'', JStr (sha256_digest z)),
      (''zone_id'', JStr i)]) = Inr d \<longleftrightarrow>
   DIGEST_match b \<and> (s = [] \<or> DIGEST_match s)
   \<and> d = [(''action'', JStr a), (''action_capability'', JStr (sha256_digest c)), (''binding_digest'', JStr b),
      (''outcome'', JStr out), (''policy_digest'', JStr (sha256_digest p)), (''resource'', JStr r),
      (''safety_profile'', JStr s), (''v'', JInt 1), (''zone_digest'', JStr (sha256_digest z)),
      (''zone_id'', JStr i)]"
proof -
  have "sort SNAPSHOT_MEMBERS = SNAPSHOT_MEMBERS" by code_simp
  then show ?thesis
    unfolding validate_snapshot_iff
    by (auto simp: SNAPSHOT_MEMBERS_def member_of_def is_jstr_def jstr_text_def DIGEST_MEMBERS_def TEXT_MEMBERS_def)
qed

lemma binding_member_digest:
  "DIGEST_match (binding_member h) \<longleftrightarrow> h \<noteq> [] \<and> (starts_with ''sha256:'' h \<longrightarrow> DIGEST_match h)"
  by (auto simp: binding_member_def DIGEST_match_def starts_with_def
      simp del: DIGEST_match_sha256_digest)
     (use DIGEST_match_sha256_digest in \<open>auto simp: DIGEST_match_def starts_with_def\<close>)

lemma build_snapshot_iff:
  "(\<exists>s. build_snapshot x = Inr s) \<longleftrightarrow>
     capability (ai_action x) \<noteq> None
     \<and> canonical_bytes (ai_policy_inputs x) \<noteq> None \<and> canonical_bytes (ai_zone_document x) \<noteq> None
     \<and> ai_binding_canonical_hash x \<noteq> []
     \<and> \<not> (starts_with ''sha256:'' (ai_binding_canonical_hash x) \<and> \<not> DIGEST_match (ai_binding_canonical_hash x))
     \<and> (ai_safety_profile_digest x = [] \<or> DIGEST_match (ai_safety_profile_digest x))"
proof (cases "capability (ai_action x)")
  case None
  then show ?thesis by (simp add: build_snapshot_def)
next
  case (Some e)
  obtain c where c: "capability_digest e = Inr (sha256_digest c)" using capability_digest_total by blast
  show ?thesis
    by (auto simp: build_snapshot_def Some c bind_res_Inr_iff canonical_or_raise_iff validate_built
        binding_member_digest)
qed

lemma map_of_rev_distinct: "distinct (map fst xs) \<Longrightarrow> map_of (rev xs) = map_of xs"
  by (intro map_of_eqI) (auto simp: distinct_map distinct_rev map_of_is_SomeI intro!: map_of_is_SomeI)

lemma example_builds: "\<exists>s. build_snapshot example_inputs = Inr s"
proof -
  have "capability ''trip_relay'' \<noteq> None" "\<not> starts_with ''sha256:'' ''b7''" by code_simp+
  then show ?thesis unfolding build_snapshot_iff by (simp add: example_inputs_def canonical_bytes_def)
qed

lemma example_builds_digest: "build_snapshot example_inputs_digest = build_snapshot example_inputs"
proof -
  have "\<not> starts_with ''sha256:'' ''b7''" by code_simp
  moreover have "starts_with ''sha256:'' (sha256_digest b)" for b by (simp add: sha256_digest_def starts_with_def)
  ultimately show ?thesis
    by (simp add: build_snapshot_def example_inputs_digest_def example_inputs_def binding_member_def cong: option.case_cong)
qed

subsection \<open>Names with blanks around them\<close>

lemma str_strip_blanks:
  assumes "list_all is_space b" and "solid s"
  shows "str_strip (b @ s @ b) = s"
proof -
  have drop: "dropWhile is_space (b @ x) = dropWhile is_space x" if "list_all is_space b" for b x
    using that by (induction b) auto
  have keep: "dropWhile is_space (s @ b) = s @ b" using assms(2) by (cases s) (auto simp: solid_def)
  have "dropWhile is_space (rev (s @ b)) = dropWhile is_space (rev s)"
    using drop [of "rev b" "rev s"] assms(1) by (simp add: list_all_iff)
  also have "\<dots> = rev s" using assms(2) by (cases s rule: rev_cases) (auto simp: solid_def)
  finally show ?thesis by (simp only: str_strip_def drop [OF assms(1)] keep rev_rev_ident)
qed

lemma solid_append: "solid s \<Longrightarrow> solid t \<Longrightarrow> solid (s @ t)"
  by (auto simp: solid_def)

lemma str_lower_append: "str_lower (s @ t) = str_lower s @ str_lower t"
  by (simp add: str_lower_def)

section \<open>Properties\<close>

text \<open>
  The bytes an approval is matched against decide the whole authority: two well-formed
  snapshots have the same canonical bytes exactly when every member is the same.
\<close>

theorem snapshot_bytes_exact:
  assumes "validate_snapshot v = Inr a" and "validate_snapshot w = Inr b"
  shows "snapshot_bytes v = snapshot_bytes w \<longleftrightarrow> map_of a = map_of b"
proof
  assume "snapshot_bytes v = snapshot_bytes w"
  then show "map_of a = map_of b" using snapshot_bytes_members [OF assms] by blast
next
  assume eq: "map_of a = map_of b"
  then have "member_text a = member_text b"
    by (intro ext) (simp add: member_text_def value_text_def member_of_def)
  then show "snapshot_bytes v = snapshot_bytes w"
    by (simp only: snapshot_bytes_eq [OF assms(1)] snapshot_bytes_eq [OF assms(2)])
qed

theorem snapshot_bytes_exact_witness:
  "snapshot_bytes (JDict example_snapshot) = snapshot_bytes (JDict (rev example_snapshot))"
proof -
  have "validate_snapshot (JDict example_snapshot) = Inr example_snapshot"
    and "validate_snapshot (JDict (rev example_snapshot)) = Inr (rev example_snapshot)"
    and "distinct (map fst example_snapshot)"
    by code_simp+
  then show ?thesis
    using snapshot_bytes_exact [of "JDict example_snapshot" example_snapshot
        "JDict (rev example_snapshot)" "rev example_snapshot"]
    by (simp add: map_of_rev_distinct)
qed

text \<open>
  When the runtime can state a proposal's authority, and what the statement is: the
  action has a registry capability, the zone document and the policy inputs have a canonical
  form, a binding hash is present and a digest where it claims to be one, and the profile
  digest is a digest or empty; the snapshot then names the inputs themselves and the digests
  of the documents, and is well formed.
\<close>

theorem build_snapshot_exact:
  "(\<exists>s. build_snapshot x = Inr s) \<longleftrightarrow>
     capability (ai_action x) \<noteq> None
     \<and> canonical_bytes (ai_policy_inputs x) \<noteq> None \<and> canonical_bytes (ai_zone_document x) \<noteq> None
     \<and> ai_binding_canonical_hash x \<noteq> []
     \<and> \<not> (starts_with ''sha256:'' (ai_binding_canonical_hash x) \<and> \<not> DIGEST_match (ai_binding_canonical_hash x))
     \<and> (ai_safety_profile_digest x = [] \<or> DIGEST_match (ai_safety_profile_digest x))"
  by (rule build_snapshot_iff)

lemma matching_authority_binds_parts:
  assumes "build_snapshot x = Inr s" and "build_snapshot y = Inr t"
    and "snapshot_bytes (JDict s) = snapshot_bytes (JDict t)"
  shows "ai_action x = ai_action y" and "ai_outcome x = ai_outcome y"
    and "ai_resource x = ai_resource y" and "ai_zone_id x = ai_zone_id y"
    and "ai_safety_profile_digest x = ai_safety_profile_digest y"
    and "binding_member (ai_binding_canonical_hash x) = binding_member (ai_binding_canonical_hash y)"
    and "map_option sha256_digest (canonical_bytes (ai_zone_document x))
           = map_option sha256_digest (canonical_bytes (ai_zone_document y))"
    and "map_option sha256_digest (canonical_bytes (ai_policy_inputs x))
           = map_option sha256_digest (canonical_bytes (ai_policy_inputs y))"
proof -
  let ?built = "\<lambda>x c p z. [(''action'', JStr (ai_action x)), (''action_capability'', JStr (sha256_digest c)),
      (''binding_digest'', JStr (binding_member (ai_binding_canonical_hash x))),
      (''outcome'', JStr (ai_outcome x)), (''policy_digest'', JStr (sha256_digest p)),
      (''resource'', JStr (ai_resource x)), (''safety_profile'', JStr (ai_safety_profile_digest x)),
      (''v'', JInt 1), (''zone_digest'', JStr (sha256_digest z)), (''zone_id'', JStr (ai_zone_id x))]"
  have shape: "\<exists>c p z. s = ?built x c p z \<and> validate_snapshot (JDict s) = Inr s
      \<and> canonical_bytes (ai_policy_inputs x) = Some p \<and> canonical_bytes (ai_zone_document x) = Some z"
    if built: "build_snapshot x = Inr s" for x s
  proof -
    from built obtain e where e: "capability (ai_action x) = Some e"
      by (auto simp: build_snapshot_def split: option.splits)
    obtain c where c: "capability_digest e = Inr (sha256_digest c)" using capability_digest_total by blast
    from built show ?thesis
      by (auto simp: build_snapshot_def e c bind_res_Inr_iff canonical_or_raise_iff validate_built)
  qed
  from shape [OF assms(1)] obtain c p z where s: "s = ?built x c p z" "validate_snapshot (JDict s) = Inr s"
    "canonical_bytes (ai_policy_inputs x) = Some p" "canonical_bytes (ai_zone_document x) = Some z" by blast
  from shape [OF assms(2)] obtain c' p' z' where t: "t = ?built y c' p' z'" "validate_snapshot (JDict t) = Inr t"
    "canonical_bytes (ai_policy_inputs y) = Some p'" "canonical_bytes (ai_zone_document y) = Some z'" by blast
  note same = snapshot_bytes_members [OF s(2) t(2) assms(3)]
  from same [of "''action''"] show "ai_action x = ai_action y" by (simp add: s(1) t(1))
  from same [of "''outcome''"] show "ai_outcome x = ai_outcome y" by (simp add: s(1) t(1))
  from same [of "''resource''"] show "ai_resource x = ai_resource y" by (simp add: s(1) t(1))
  from same [of "''zone_id''"] show "ai_zone_id x = ai_zone_id y" by (simp add: s(1) t(1))
  from same [of "''safety_profile''"] show "ai_safety_profile_digest x = ai_safety_profile_digest y"
    by (simp add: s(1) t(1))
  from same [of "''binding_digest''"]
  show "binding_member (ai_binding_canonical_hash x) = binding_member (ai_binding_canonical_hash y)"
    by (simp add: s(1) t(1))
  from same [of "''zone_digest''"] show "map_option sha256_digest (canonical_bytes (ai_zone_document x))
      = map_option sha256_digest (canonical_bytes (ai_zone_document y))" by (simp add: s t)
  from same [of "''policy_digest''"] show "map_option sha256_digest (canonical_bytes (ai_policy_inputs x))
      = map_option sha256_digest (canonical_bytes (ai_policy_inputs y))" by (simp add: s t)
qed

text \<open>
  C27. A reply can only act under the authority its proposal was created under: when the
  snapshot built for the reply has the bytes of the snapshot built for the proposal, the
  action, outcome, resource, zone and profile are the same, and so are the digests of the
  capability, the binding, the zone document and the policy inputs.
\<close>

theorem matching_authority_binds:
  assumes "build_snapshot x = Inr s" and "build_snapshot y = Inr t"
    and "snapshot_bytes (JDict s) = snapshot_bytes (JDict t)"
  shows "ai_action x = ai_action y \<and> ai_outcome x = ai_outcome y \<and> ai_resource x = ai_resource y
    \<and> ai_zone_id x = ai_zone_id y \<and> ai_safety_profile_digest x = ai_safety_profile_digest y
    \<and> binding_member (ai_binding_canonical_hash x) = binding_member (ai_binding_canonical_hash y)
    \<and> map_option sha256_digest (canonical_bytes (ai_zone_document x))
        = map_option sha256_digest (canonical_bytes (ai_zone_document y))
    \<and> map_option sha256_digest (canonical_bytes (ai_policy_inputs x))
        = map_option sha256_digest (canonical_bytes (ai_policy_inputs y))"
  using matching_authority_binds_parts [OF assms] by blast

theorem matching_authority_binds_witness:
  "\<exists>s t. build_snapshot example_inputs = Inr s \<and> build_snapshot example_inputs_digest = Inr t
     \<and> binding_member (ai_binding_canonical_hash example_inputs)
         = binding_member (ai_binding_canonical_hash example_inputs_digest)"
proof -
  from example_builds obtain s where s: "build_snapshot example_inputs = Inr s" by blast
  then have t: "build_snapshot example_inputs_digest = Inr s" by (simp only: example_builds_digest)
  from matching_authority_binds [OF s t refl] s t show ?thesis by blast
qed

text \<open>
  A safe default never actuates: whatever registry entry is handed in, an action admitted
  as a safe default is classified informational, commands no commissioned outcome, and no
  proposal of it is governed or refused by the contract; and the classification agrees with
  the shipped registry.
\<close>

theorem safe_default_never_actuates:
  assumes "safe_default_admitted a entry"
  shows "physicality a = ''informational'' \<and> governed_outcome a = None \<and> \<not> is_physical a
    \<and> proposal_scope a tier zone out = OUTSIDE_CONTRACT \<and> registry_disagreements = []"
proof -
  from assms have info: "physicality a = ''informational''"
    by (simp add: safe_default_admitted_def split: if_splits)
  then have a: "a \<in> {''alert_whatsapp'', ''alert_sms'', ''log_to_dashboard''}"
    by (auto simp: physicality_def PHYSICALITY_def split: if_splits)
  have "registry_disagreements = []" by code_simp
  moreover have "governed_outcome a = None \<and> \<not> is_physical a"
    using a by (auto simp: governed_outcome_def commissioned_outcome_def COMMISSIONED_OUTCOMES_def
        is_physical_def capability_def ACTION_REGISTRY_def mk_cap_def)
  ultimately show ?thesis using info by (simp add: proposal_scope_def Let_def)
qed

theorem safe_default_never_actuates_witness:
  "governed_outcome ''alert_sms'' = None
     \<and> proposal_scope ''alert_sms'' ''C'' (Some ''z1'') (Some ''open_protected_circuit'') = OUTSIDE_CONTRACT"
proof -
  have "safe_default_admitted ''alert_sms'' None" by code_simp
  then show ?thesis using safe_default_never_actuates by blast
qed

lemma action_log_names_disjoint_parts:
  assumes "d \<in> set DECISION_STATES" and "capability a = Some e" and "list_all is_space b"
  shows "is_reserved (b @ d @ b)" and "is_reserved (b @ (d @ UNRECORDED_SUFFIX) @ b)"
    and "is_reserved (b @ (REFUSED_PREFIX @ d) @ b)" and "\<not> is_reserved a"
proof -
  have states: "list_all (\<lambda>d. str_lower d = d \<and> solid d) DECISION_STATES" by code_simp
  then have d: "str_lower d = d" "solid d" using assms(1) by (simp_all add: list_all_iff)
  have ends: "solid UNRECORDED_SUFFIX" "solid REFUSED_PREFIX" "str_lower UNRECORDED_SUFFIX = UNRECORDED_SUFFIX"
    "str_lower REFUSED_PREFIX = REFUSED_PREFIX" by code_simp+
  have actions: "list_all (\<lambda>a. \<not> is_reserved a) (map fst ACTION_REGISTRY)" by code_simp
  from assms(2) have "a \<in> set (map fst ACTION_REGISTRY)"
    unfolding capability_def by (rule map_of_mem_fst)
  with actions show "\<not> is_reserved a" unfolding list_all_iff by blast
  show "is_reserved (b @ d @ b)"
    using assms(1) by (simp add: is_reserved_def MARKERS_def str_strip_blanks [OF assms(3) d(2)] d(1) Let_def)
  show "is_reserved (b @ (d @ UNRECORDED_SUFFIX) @ b)"
    unfolding is_reserved_def str_strip_blanks [OF assms(3) solid_append [OF d(2) ends(1)]]
    by (simp only: str_lower_append ends ends_with_append Let_def simp_thms)
  show "is_reserved (b @ (REFUSED_PREFIX @ d) @ b)"
    unfolding is_reserved_def str_strip_blanks [OF assms(3) solid_append [OF ends(2) d(2)]]
    by (simp only: str_lower_append ends starts_with_append Let_def simp_thms)
qed

text \<open>
  The action log column is unambiguous: every decision state, also one marked unrecorded
  or refused, is reserved whatever blanks surround it, and no action of the registry is.
\<close>

theorem action_log_names_disjoint:
  assumes "d \<in> set DECISION_STATES" and "capability a = Some e" and "list_all is_space b"
  shows "is_reserved (b @ d @ b) \<and> is_reserved (b @ (d @ UNRECORDED_SUFFIX) @ b)
    \<and> is_reserved (b @ (REFUSED_PREFIX @ d) @ b) \<and> \<not> is_reserved a"
  using action_log_names_disjoint_parts [OF assms] by blast

theorem action_log_names_disjoint_witness:
  "is_reserved ('' '' @ REJECTED @ '' '') \<and> \<not> is_reserved ''trip_relay''"
proof -
  have "list_all is_space '' ''" "REJECTED \<in> set DECISION_STATES" by code_simp+
  moreover obtain e where "capability ''trip_relay'' = Some e"
    by (simp add: capability_def ACTION_REGISTRY_def)
  ultimately show ?thesis using action_log_names_disjoint by blast
qed

end
