(* ===== verification/Tier_C_Store.thy ===== *)
theory Tier_C_Store
  imports Tier_C_Admission "HOL-Library.Product_Lexorder"
begin

text \<open>
  \<open>ori/state/_tier_c.py\<close>: the store of Tier C proposals, their records, safe-default intents,
  reconciliations and consumed offline tokens. A table is the list of its rows in insertion
  order. Every method is one transaction of the single writer: it commits and answers, or the
  store raises and nothing is changed. The current time is an argument.
\<close>

section \<open>Tables\<close>

record tc_proposal =
  tp_proposal_id :: string
  tp_device_id :: string
  tp_action :: string
  tp_target :: string
  tp_zone_id :: string
  tp_outcome :: string
  tp_event_id :: string
  tp_skill_name :: string
  tp_trigger_name :: string
  tp_safe_default_action :: string
  tp_binding_digest :: string
  tp_authority_json :: string
  tp_created_at_ms :: int
  tp_expires_at_ms :: int
  tp_decision_state :: string
  tp_state_reason :: string
  tp_ingress_channel :: string
  tp_ingress_from :: string
  tp_ingress_message_id :: string
  tp_operator_response :: string
  tp_offline_token_id :: string
  tp_committed_at_ms :: "int option"
  tp_outcome_json :: "string option"
  tp_updated_at_ms :: int

record tc_record =
  tr_proposal_id :: string
  tr_decision_state :: string
  tr_state_reason :: string
  tr_recorded_at_ms :: int

record tc_intent =
  ti_proposal_id :: string
  ti_action :: string
  ti_reason :: string
  ti_outcome :: string
  ti_created_at_ms :: int
  ti_updated_at_ms :: int

record tc_reconciliation =
  rc_proposal_id :: string
  rc_device_id :: string
  rc_zone_id :: string
  rc_decision_state :: string
  rc_reason :: string
  rc_note :: "string option"
  rc_source :: string
  rc_principal_uid :: "int option"
  rc_principal_account :: "string option"
  rc_principal_login_uid :: "int option"
  rc_entry_point :: string
  rc_recorded_at_ms :: int

record tc_attempt =
  ta_proposal_id :: string
  ta_kind :: string
  ta_principal_uid :: "int option"
  ta_principal_account :: "string option"
  ta_principal_login_uid :: "int option"
  ta_recorded_at_ms :: int

record tc_token =
  tk_token_id :: string
  tk_device_id :: string
  tk_action :: string
  tk_consumed_at :: int

record tier_c_db =
  td_proposals :: "tc_proposal list"
  td_records :: "tc_record list"
  td_intents :: "tc_intent list"
  td_reconciliations :: "tc_reconciliation list"
  td_attempts :: "tc_attempt list"
  td_tokens :: "tc_token list"

definition empty_tier_c :: tier_c_db where
  "empty_tier_c = \<lparr>td_proposals = [], td_records = [], td_intents = [], td_reconciliations = [],
     td_attempts = [], td_tokens = []\<rparr>"

section \<open>Queries\<close>

text \<open>The row of a primary key: \<open>SELECT * ... WHERE proposal_id = ?\<close>.\<close>

definition get_tier_c_proposal :: "tier_c_db \<Rightarrow> string \<Rightarrow> tc_proposal option" where
  "get_tier_c_proposal db pid = List.find (\<lambda>r. tp_proposal_id r = pid) (td_proposals db)"

definition get_tier_c_proposals :: "tier_c_db \<Rightarrow> string list \<Rightarrow> tc_proposal list" where
  "get_tier_c_proposals db states =
     sort_key (\<lambda>r. (tp_created_at_ms r, tp_proposal_id r))
       (if states = [] then td_proposals db
        else filter (\<lambda>r. tp_decision_state r \<in> set states) (td_proposals db))"

definition get_tier_c_proposal_records :: "tier_c_db \<Rightarrow> string \<Rightarrow> string list" where
  "get_tier_c_proposal_records db pid =
     map tr_decision_state (filter (\<lambda>r. tr_proposal_id r = pid) (td_records db))"

definition tier_c_outcome_blocked ::
  "tier_c_db \<Rightarrow> string \<Rightarrow> string \<Rightarrow> string option \<Rightarrow> bool \<Rightarrow> bool" where
  "tier_c_outcome_blocked db zone_id out except_proposal in_flight_blocks =
     (let states = (if in_flight_blocks
        then [''approved_pending_dispatch'', ''dispatch_started'', ''dispatch_outcome_unknown'', ''dispatch_not_proven'']
        else [''dispatch_outcome_unknown'', ''dispatch_not_proven''])
      in list_ex (\<lambda>r. tp_zone_id r = zone_id \<and> tp_outcome r = out \<and> tp_decision_state r \<in> set states
           \<and> (case except_proposal of None \<Rightarrow> True | Some p \<Rightarrow> tp_proposal_id r \<noteq> p)) (td_proposals db))"

definition get_tier_c_intent :: "tier_c_db \<Rightarrow> string \<Rightarrow> tc_intent option" where
  "get_tier_c_intent db pid = List.find (\<lambda>i. ti_proposal_id i = pid) (td_intents db)"

record pending_intent =
  pi_proposal_id :: string
  pi_safe_default_action :: string
  pi_reason :: string
  pi_action :: string
  pi_device_id :: string
  pi_zone_id :: string
  pi_outcome :: string
  pi_event_id :: string
  pi_trigger_name :: string
  pi_decision_state :: string

definition join_intent :: "tc_intent \<Rightarrow> tc_proposal \<Rightarrow> pending_intent" where
  "join_intent i p =
     \<lparr>pi_proposal_id = ti_proposal_id i, pi_safe_default_action = ti_action i, pi_reason = ti_reason i,
      pi_action = tp_action p, pi_device_id = tp_device_id p, pi_zone_id = tp_zone_id p,
      pi_outcome = tp_outcome p, pi_event_id = tp_event_id p, pi_trigger_name = tp_trigger_name p,
      pi_decision_state = tp_decision_state p\<rparr>"

definition get_pending_tier_c_safe_default_intents :: "tier_c_db \<Rightarrow> pending_intent list" where
  "get_pending_tier_c_safe_default_intents db =
     List.map_filter (\<lambda>i. map_option (join_intent i) (get_tier_c_proposal db (ti_proposal_id i)))
       (sort_key (\<lambda>i. (ti_created_at_ms i, ti_proposal_id i))
          (filter (\<lambda>i. ti_outcome i = ''pending'') (td_intents db)))"

section \<open>Writes shared by the transactions\<close>

definition append_tier_c_record :: "tier_c_db \<Rightarrow> string \<Rightarrow> string \<Rightarrow> string \<Rightarrow> int \<Rightarrow> tier_c_db" where
  "append_tier_c_record db pid state reason at_ms =
     db\<lparr>td_records := td_records db @
       [\<lparr>tr_proposal_id = pid, tr_decision_state = state, tr_state_reason = reason,
         tr_recorded_at_ms = at_ms\<rparr>]\<rparr>"

definition update_where :: "(tc_proposal \<Rightarrow> bool) \<Rightarrow> (tc_proposal \<Rightarrow> tc_proposal) \<Rightarrow> tier_c_db \<Rightarrow> tier_c_db" where
  "update_where sel f db = db\<lparr>td_proposals := map (\<lambda>r. if sel r then f r else r) (td_proposals db)\<rparr>"

text \<open>The assignments of the two forward moves; \<open>COALESCE\<close> keeps the outcome that is there.\<close>

definition set_state :: "string \<Rightarrow> string \<Rightarrow> string option \<Rightarrow> int \<Rightarrow> tc_proposal \<Rightarrow> tc_proposal" where
  "set_state state reason outcome_json now r =
     r\<lparr>tp_decision_state := state, tp_state_reason := reason,
       tp_outcome_json := (case outcome_json of Some j \<Rightarrow> Some j | None \<Rightarrow> tp_outcome_json r),
       tp_updated_at_ms := now\<rparr>"

definition move_tier_c :: "tier_c_db \<Rightarrow> string \<Rightarrow> string \<Rightarrow> string \<Rightarrow> int \<Rightarrow> tier_c_db" where
  "move_tier_c db pid state reason now =
     append_tier_c_record (update_where (\<lambda>r. tp_proposal_id r = pid) (set_state state reason None now) db)
       pid state reason now"

definition insert_tier_c_intent ::
  "tier_c_db \<Rightarrow> string \<Rightarrow> string \<Rightarrow> string \<Rightarrow> int \<Rightarrow> tier_c_db \<times> bool" where
  "insert_tier_c_intent db pid act reason at_ms =
     (if act = [] then (db, False)
      else if get_tier_c_intent db pid \<noteq> None then (db, False)
      else (db\<lparr>td_intents := td_intents db @
              [\<lparr>ti_proposal_id = pid, ti_action = act, ti_reason = reason, ti_outcome = ''pending'',
                ti_created_at_ms = at_ms, ti_updated_at_ms = at_ms\<rparr>]\<rparr>, True))"

definition claim_token :: "tier_c_db \<Rightarrow> string \<Rightarrow> string \<Rightarrow> string \<Rightarrow> int \<Rightarrow> tier_c_db \<times> bool" where
  "claim_token db token_id device_id act at_ms =
     (if list_ex (\<lambda>t. tk_token_id t = token_id) (td_tokens db) then (db, False)
      else (db\<lparr>td_tokens := td_tokens db @
              [\<lparr>tk_token_id = token_id, tk_device_id = device_id, tk_action = act, tk_consumed_at = at_ms\<rparr>]\<rparr>,
            True))"

section \<open>Creation and admission\<close>

record new_proposal =
  np_proposal_id :: string
  np_device_id :: string
  np_action :: string
  np_target :: string
  np_zone_id :: string
  np_outcome :: string
  np_event_id :: string
  np_skill_name :: string
  np_trigger_name :: string
  np_safe_default_action :: string
  np_binding_digest :: string
  np_authority_json :: string
  np_created_at_ms :: int
  np_expires_at_ms :: int

definition proposal_row :: "new_proposal \<Rightarrow> int \<Rightarrow> tc_proposal" where
  "proposal_row n now =
     \<lparr>tp_proposal_id = np_proposal_id n, tp_device_id = np_device_id n, tp_action = np_action n,
      tp_target = np_target n, tp_zone_id = np_zone_id n, tp_outcome = np_outcome n,
      tp_event_id = np_event_id n, tp_skill_name = np_skill_name n, tp_trigger_name = np_trigger_name n,
      tp_safe_default_action = np_safe_default_action n, tp_binding_digest = np_binding_digest n,
      tp_authority_json = np_authority_json n, tp_created_at_ms = np_created_at_ms n,
      tp_expires_at_ms = np_expires_at_ms n, tp_decision_state = ''proposed'', tp_state_reason = [],
      tp_ingress_channel = [], tp_ingress_from = [], tp_ingress_message_id = [],
      tp_operator_response = [], tp_offline_token_id = [], tp_committed_at_ms = None,
      tp_outcome_json = None, tp_updated_at_ms = now\<rparr>"

definition create_tier_c_proposal :: "tier_c_db \<Rightarrow> new_proposal \<Rightarrow> int \<Rightarrow> tier_c_db \<times> string" where
  "create_tier_c_proposal db n now =
     (if tier_c_outcome_blocked db (np_zone_id n) (np_outcome n) None False then (db, ''blocked'')
      else if get_tier_c_proposal db (np_proposal_id n) \<noteq> None then (db, ''duplicate'')
      else (append_tier_c_record (db\<lparr>td_proposals := td_proposals db @ [proposal_row n now]\<rparr>)
              (np_proposal_id n) ''proposed'' [] now, ''committed''))"

record ingress =
  ig_channel :: string
  ig_from :: string
  ig_message_id :: string
  ig_operator_response :: string
  ig_offline_token_id :: string

text \<open>Closing a proposal at admission: the move and its safe-default intent together.\<close>

definition close_at_admission :: "tier_c_db \<Rightarrow> tc_proposal \<Rightarrow> string \<Rightarrow> int \<Rightarrow> tier_c_db" where
  "close_at_admission db row state now =
     fst (insert_tier_c_intent (move_tier_c db (tp_proposal_id row) state [] now)
       (tp_proposal_id row) (tp_safe_default_action row) state now)"

definition approve_row :: "ingress \<Rightarrow> int \<Rightarrow> tc_proposal \<Rightarrow> tc_proposal" where
  "approve_row ig now r =
     r\<lparr>tp_decision_state := ''approved_pending_dispatch'', tp_state_reason := [],
       tp_ingress_channel := ig_channel ig, tp_ingress_from := ig_from ig,
       tp_ingress_message_id := ig_message_id ig, tp_operator_response := ig_operator_response ig,
       tp_offline_token_id := ig_offline_token_id ig, tp_committed_at_ms := Some now,
       tp_updated_at_ms := now\<rparr>"

definition reserved_count :: "tier_c_db \<Rightarrow> nat" where
  "reserved_count db =
     length (filter (\<lambda>r. tp_decision_state r \<in> {''approved_pending_dispatch'', ''dispatch_started''})
       (td_proposals db))"

definition admit_tier_c_approval ::
  "tier_c_db \<Rightarrow> string \<Rightarrow> string \<Rightarrow> string \<Rightarrow> int \<Rightarrow> ingress \<Rightarrow> int \<Rightarrow> tier_c_db \<times> string" where
  "admit_tier_c_approval db pid binding_digest authority_json limit ig now =
     (case get_tier_c_proposal db pid of
        None \<Rightarrow> (db, ''closed:none'')
      | Some row \<Rightarrow>
          if tp_decision_state row \<noteq> ''proposed'' then
            (db, if tp_decision_state row \<in> {''approved_pending_dispatch'', ''dispatch_started'', ''executed'',
                      ''approval_expired_undispatched'', ''approval_aborted_undispatched'',
                      ''dispatch_refused_contention'', ''dispatch_failed'', ''dispatch_outcome_unknown'',
                      ''dispatch_not_proven'', ''reconciled_executed'', ''reconciled_not_executed''}
                 then ''duplicate'' else ''closed:'' @ tp_decision_state row)
          else if tp_binding_digest row \<noteq> binding_digest \<or> tp_authority_json row \<noteq> authority_json then
            (close_at_admission db row ''approval_binding_changed'' now, ''binding_changed'')
          else if tier_c_outcome_blocked db (tp_zone_id row) (tp_outcome row) (Some pid) True then
            (close_at_admission db row ''proposal_blocked_uncertain_outcome'' now, ''blocked'')
          else if int (reserved_count db) \<ge> limit then (db, ''reservation_unavailable'')
          else
            let token_id = ig_offline_token_id ig;
                (db', claimed) = (if token_id = [] then (db, True)
                  else claim_token db token_id (tp_device_id row) (tp_action row) now)
            in if \<not> claimed then (db, ''token_replayed'')
               else (append_tier_c_record
                       (update_where (\<lambda>r. tp_proposal_id r = pid \<and> tp_decision_state r = ''proposed'')
                          (approve_row ig now) db')
                       pid ''approved_pending_dispatch'' [] now, ''committed''))"

section \<open>Forward moves and intents\<close>

definition TIER_C_DECISION_STATES :: "string list" where
  "TIER_C_DECISION_STATES =
     [''proposed'', ''proposal_expired'', ''rejected'', ''approved_pending_dispatch'', ''dispatch_started'',
      ''executed'', ''approval_expired_undispatched'', ''approval_aborted_undispatched'',
      ''proposal_aborted_restart'', ''approval_binding_changed'', ''proposal_blocked_uncertain_outcome'',
      ''dispatch_refused_contention'', ''dispatch_failed'', ''dispatch_outcome_unknown'',
      ''dispatch_not_proven'', ''reconciled_executed'', ''reconciled_not_executed'']"

definition advance_refused :: "string \<Rightarrow> bool" where
  "advance_refused state = (state \<notin> set TIER_C_DECISION_STATES \<or> state = ''proposed'')"

definition advance_tier_c_proposal ::
  "tier_c_db \<Rightarrow> string \<Rightarrow> string \<Rightarrow> string list \<Rightarrow> string \<Rightarrow> string option \<Rightarrow> string option \<Rightarrow> int
     \<Rightarrow> tier_c_db \<times> bool" where
  "advance_tier_c_proposal db pid state from_states reason outcome_json safe_default_action now =
     (if advance_refused state then (db, False)
      else
        let sel = (\<lambda>r. tp_proposal_id r = pid \<and> tp_decision_state r \<in> set from_states);
            moved = list_ex sel (td_proposals db);
            db1 = update_where sel (set_state state reason outcome_json now) db
        in if \<not> moved then (db1, False)
           else
             let db2 = append_tier_c_record db1 pid state reason now
             in (case safe_default_action of
                   None \<Rightarrow> db2
                 | Some act \<Rightarrow> if act = [] then db2 else fst (insert_tier_c_intent db2 pid act reason now), True))"

definition create_tier_c_safe_default_intent ::
  "tier_c_db \<Rightarrow> string \<Rightarrow> string \<Rightarrow> string \<Rightarrow> int \<Rightarrow> tier_c_db \<times> bool" where
  "create_tier_c_safe_default_intent db pid act reason now = insert_tier_c_intent db pid act reason now"

definition ensure_tier_c_safe_default_intent ::
  "tier_c_db \<Rightarrow> string \<Rightarrow> string \<Rightarrow> string \<Rightarrow> int \<Rightarrow> tier_c_db \<times> string" where
  "ensure_tier_c_safe_default_intent db pid act reason now =
     (let db' = fst (insert_tier_c_intent db pid act reason now)
      in (db', case get_tier_c_intent db' pid of Some i \<Rightarrow> ti_outcome i | None \<Rightarrow> ''pending''))"

definition mark_intent :: "string \<Rightarrow> string \<Rightarrow> int \<Rightarrow> tc_intent \<Rightarrow> tc_intent" where
  "mark_intent pid out now i =
     (if ti_proposal_id i = pid then i\<lparr>ti_outcome := out, ti_updated_at_ms := now\<rparr> else i)"

definition mark_tier_c_safe_default_intent :: "tier_c_db \<Rightarrow> string \<Rightarrow> string \<Rightarrow> int \<Rightarrow> tier_c_db" where
  "mark_tier_c_safe_default_intent db pid out now =
     db\<lparr>td_intents := map (mark_intent pid out now) (td_intents db)\<rparr>"

section \<open>Reconciliation\<close>

record reconcile_request =
  rq_proposal_id :: string
  rq_device_id :: string
  rq_runtime_device_id :: string
  rq_zone_id :: string
  rq_outcome :: string
  rq_reason :: string
  rq_note :: "string option"
  rq_source :: string
  rq_entry_point :: string
  rq_principal_uid :: "int option"
  rq_principal_account :: "string option"
  rq_principal_login_uid :: "int option"

text \<open>\<open>{"ok": False, "error": code}\<close>, or the record and whether it was there already.\<close>

datatype reconcile_answer = ReconcileError string | Reconciled bool tc_reconciliation

definition get_reconciliation :: "tier_c_db \<Rightarrow> string \<Rightarrow> tc_reconciliation option" where
  "get_reconciliation db pid = List.find (\<lambda>r. rc_proposal_id r = pid) (td_reconciliations db)"

definition reconciled_state :: "string \<Rightarrow> string" where
  "reconciled_state out = (if out = ''executed'' then ''reconciled_executed'' else ''reconciled_not_executed'')"

definition reconciliation_row :: "reconcile_request \<Rightarrow> int \<Rightarrow> tc_reconciliation" where
  "reconciliation_row q now =
     \<lparr>rc_proposal_id = rq_proposal_id q, rc_device_id = rq_device_id q, rc_zone_id = rq_zone_id q,
      rc_decision_state = reconciled_state (rq_outcome q), rc_reason = rq_reason q, rc_note = rq_note q,
      rc_source = rq_source q, rc_principal_uid = rq_principal_uid q,
      rc_principal_account = rq_principal_account q, rc_principal_login_uid = rq_principal_login_uid q,
      rc_entry_point = rq_entry_point q, rc_recorded_at_ms = now\<rparr>"

definition repeat_attempt :: "reconcile_request \<Rightarrow> int \<Rightarrow> tc_attempt" where
  "repeat_attempt q now =
     \<lparr>ta_proposal_id = rq_proposal_id q, ta_kind = ''identical_repeat'', ta_principal_uid = rq_principal_uid q,
      ta_principal_account = rq_principal_account q, ta_principal_login_uid = rq_principal_login_uid q,
      ta_recorded_at_ms = now\<rparr>"

definition reconcile_tier_c :: "tier_c_db \<Rightarrow> reconcile_request \<Rightarrow> int \<Rightarrow> tier_c_db \<times> reconcile_answer" where
  "reconcile_tier_c db q now =
     (if rq_outcome q \<notin> {''executed'', ''not-executed''} then (db, ReconcileError ''invalid_arguments'')
      else if rq_device_id q \<noteq> rq_runtime_device_id q then (db, ReconcileError ''device_mismatch'')
      else case get_tier_c_proposal db (rq_proposal_id q) of
        None \<Rightarrow> (db, ReconcileError ''unknown_proposal'')
      | Some row \<Rightarrow>
          if tp_device_id row \<noteq> rq_device_id q then (db, ReconcileError ''unknown_proposal'')
          else if tp_zone_id row \<noteq> rq_zone_id q then (db, ReconcileError ''zone_mismatch'')
          else case get_reconciliation db (rq_proposal_id q) of
            Some existing \<Rightarrow>
              if \<not> (rc_decision_state existing = reconciled_state (rq_outcome q)
                    \<and> rc_reason existing = rq_reason q \<and> rc_note existing = rq_note q)
              then (db, ReconcileError ''already_reconciled'')
              else
                (if rc_principal_uid existing = rq_principal_uid q
                    \<and> rc_principal_login_uid existing = rq_principal_login_uid q
                 then db else db\<lparr>td_attempts := td_attempts db @ [repeat_attempt q now]\<rparr>,
                 Reconciled True existing)
          | None \<Rightarrow>
              if tp_decision_state row \<notin> {''dispatch_outcome_unknown'', ''dispatch_not_proven''}
              then (db, ReconcileError ''not_uncertain'')
              else
                (move_tier_c (db\<lparr>td_reconciliations := td_reconciliations db @ [reconciliation_row q now]\<rparr>)
                   (rq_proposal_id q) (reconciled_state (rq_outcome q)) (rq_source q) now,
                 Reconciled False (reconciliation_row q now)))"

section \<open>The store as an object\<close>

datatype tier_c_op =
    CreateProposal new_proposal int
  | AdmitApproval string string string int ingress int
  | Advance string string "string list" string "string option" "string option" int
  | CreateIntent string string string int
  | EnsureIntent string string string int
  | MarkIntent string string int
  | Reconcile reconcile_request int
  | ClaimToken string string string int

datatype tier_c_answer = TCText string | TCBool bool | TCReconcile reconcile_answer | TCNone

datatype store_error = StoreUnavailable

fun apply_tier_c :: "tier_c_db \<Rightarrow> tier_c_op \<Rightarrow> tier_c_db \<times> tier_c_answer" where
  "apply_tier_c db (CreateProposal n now) = map_prod id TCText (create_tier_c_proposal db n now)"
| "apply_tier_c db (AdmitApproval pid b a c ig now) = map_prod id TCText (admit_tier_c_approval db pid b a c ig now)"
| "apply_tier_c db (Advance pid s fs reason j d now) =
     map_prod id TCBool (advance_tier_c_proposal db pid s fs reason j d now)"
| "apply_tier_c db (CreateIntent pid act reason now) =
     map_prod id TCBool (create_tier_c_safe_default_intent db pid act reason now)"
| "apply_tier_c db (EnsureIntent pid act reason now) =
     map_prod id TCText (ensure_tier_c_safe_default_intent db pid act reason now)"
| "apply_tier_c db (MarkIntent pid out now) = (mark_tier_c_safe_default_intent db pid out now, TCNone)"
| "apply_tier_c db (Reconcile q now) = map_prod id TCReconcile (reconcile_tier_c db q now)"
| "apply_tier_c db (ClaimToken t d a now) = map_prod id TCBool (claim_token db t d a now)"

text \<open>A call and whether the store takes the transaction; one it does not take raises.\<close>

definition tier_c_call :: "tier_c_db \<Rightarrow> tier_c_op \<times> bool \<Rightarrow> store_error + tier_c_db \<times> tier_c_answer" where
  "tier_c_call db x = (if snd x then Inr (apply_tier_c db (fst x)) else Inl StoreUnavailable)"

text \<open>
  The moves the dispatcher asks for (\<open>_close_now\<close>, the dispatch marker, \<open>_record_outcome\<close>,
  \<open>recover_tier_c_at_start\<close> and \<open>_abort_open_proposal\<close> of \<open>action_dispatcher.py\<close>), each with
  the states it names.
\<close>

definition DISPATCHER_MOVES :: "(string \<times> string list) list" where
  "DISPATCHER_MOVES =
     [(PROPOSAL_EXPIRED, [PROPOSED]), (REJECTED, [PROPOSED]), (PROPOSAL_ABORTED_RESTART, [PROPOSED]),
      (APPROVAL_EXPIRED_UNDISPATCHED, [APPROVED_PENDING_DISPATCH]),
      (DISPATCH_REFUSED_CONTENTION, [APPROVED_PENDING_DISPATCH]),
      (DISPATCH_STARTED, [APPROVED_PENDING_DISPATCH]),
      (EXECUTED, [APPROVED_PENDING_DISPATCH, DISPATCH_STARTED]),
      (DISPATCH_FAILED, [APPROVED_PENDING_DISPATCH, DISPATCH_STARTED]),
      (DISPATCH_OUTCOME_UNKNOWN, [APPROVED_PENDING_DISPATCH, DISPATCH_STARTED]),
      (DISPATCH_NOT_PROVEN, [APPROVED_PENDING_DISPATCH]),
      (DISPATCH_OUTCOME_UNKNOWN, [DISPATCH_STARTED])]"

fun dispatcher_call :: "tier_c_db \<Rightarrow> tier_c_op \<times> bool \<Rightarrow> bool" where
  "dispatcher_call db (Advance pid s fs reason j d now, c) = ((s, fs) \<in> set DISPATCHER_MOVES)"
| "dispatcher_call db x = True"

end
