(* ===== verification/Resource_Gate.thy ===== *)
theory Resource_Gate
  imports Dispatch_Plan "HOL-Library.AList"
begin

text \<open>
  \<open>ori/reasoning/resource_gate.py\<close>: the runtime-global gate that decides what may drive a
  resource, and when. An attempt's record is an object with an identity, so records live in a
  list and an index into it is the object; the gate maps a resource to the record that holds
  it. The arbitration scope of the task that calls (a context variable) and the clock are
  arguments. Every method runs under the gate's lock without suspending, so a method is one
  step; so is the dispatcher's request together with the entry of its executor
  (\<open>action_dispatcher.py\<close>), between which nothing suspends either.
\<close>

section \<open>Holders, contributors and entries\<close>

datatype holder_state = Reserved | Proposal | Running | Uncertain | Retired

datatype admission = Admitted | Joined | Refused | PreemptedHolder

abbreviation OPPOSING_EQUAL_TIER :: string where "OPPOSING_EQUAL_TIER \<equiv> ''opposing_equal_tier''"
abbreviation OPPOSING_HIGHER_TIER_HOLDS :: string where
  "OPPOSING_HIGHER_TIER_HOLDS \<equiv> ''opposing_higher_tier_holds''"
abbreviation OPPOSING_ACT_RUNNING :: string where "OPPOSING_ACT_RUNNING \<equiv> ''opposing_act_running''"
abbreviation OPPOSING_COMMAND_UNCERTAIN :: string where
  "OPPOSING_COMMAND_UNCERTAIN \<equiv> ''opposing_command_uncertain''"
abbreviation FORECLOSED_BY_COMPLETED_ACT :: string where
  "FORECLOSED_BY_COMPLETED_ACT \<equiv> ''foreclosed_by_completed_act''"
abbreviation PROPOSAL_INVALIDATED :: string where "PROPOSAL_INVALIDATED \<equiv> ''proposal_invalidated''"
abbreviation PROPOSAL_NO_LONGER_HELD :: string where
  "PROPOSAL_NO_LONGER_HELD \<equiv> ''proposal_no_longer_held''"
abbreviation UNRESOLVED_SAFETY_CONFLICT :: string where
  "UNRESOLVED_SAFETY_CONFLICT \<equiv> ''unresolved_safety_conflict''"

text \<open>\<open>record_future\<close> is an object compared by identity: a number.\<close>

record contributor =
  ct_skill_name :: string
  ct_trigger_name :: string
  ct_action :: string
  ct_dispatch_tier :: string
  ct_correlation_id :: string
  ct_tier_d_granted :: bool
  ct_record_key :: string
  ct_record_future :: "nat option"
  ct_scope :: string

record gate_entry =
  ge_identity :: resource_identity
  ge_tier :: string
  ge_entered :: bool
  ge_ran :: bool
  ge_holds_tier_d :: bool
  ge_asked :: bool
  ge_contributors :: "contributor list"

definition forecloses :: "gate_entry \<Rightarrow> bool" where
  "forecloses e = ge_entered e"

record gate_record =
  gr_identity :: resource_identity
  gr_tier :: string
  gr_state :: holder_state
  gr_contributors :: "contributor list"
  gr_admitted_at_ms :: int
  gr_proposal_id :: string
  gr_invalidated :: bool
  gr_result :: "bool option"
  gr_scope :: string
  gr_entered :: bool
  gr_asked :: bool
  gr_entries :: "(string \<times> gate_entry) list"
  gr_done :: bool

definition holds_tier_d :: "gate_record \<Rightarrow> bool" where
  "holds_tier_d r = list_ex ct_tier_d_granted (gr_contributors r)"

text \<open>The token of a decision: the record, or the completed entry a joiner attaches to.\<close>

datatype gate_token = RecordToken nat | EntryToken gate_entry

record gate_decision =
  gd_admission :: admission
  gd_reason :: string
  gd_token :: "gate_token option"
  gd_displaced :: "nat option"
  gd_safety_conflict :: bool

definition may_execute :: "gate_decision \<Rightarrow> bool" where
  "may_execute d = (gd_admission d \<in> {Admitted, PreemptedHolder})"

definition refused_for :: "string \<Rightarrow> gate_decision" where
  "refused_for reason =
     \<lparr>gd_admission = Refused, gd_reason = reason, gd_token = None, gd_displaced = None,
      gd_safety_conflict = False\<rparr>"

definition joined_to :: "gate_token \<Rightarrow> gate_decision" where
  "joined_to t =
     \<lparr>gd_admission = Joined, gd_reason = [], gd_token = Some t, gd_displaced = None,
      gd_safety_conflict = False\<rparr>"

section \<open>The gate\<close>

datatype event_field = FText string | FKey "string list" | FBool bool | FState holder_state

record gate_event =
  ev_kind :: string
  ev_at_ms :: int
  ev_fields :: "(string \<times> event_field) list"

record gate =
  g_heap :: "gate_record list"
  g_records :: "(string list \<times> nat) list"
  g_suppressions :: "gate_event list"
  g_scopes :: "(string \<times> gate_entry list) list"

definition new_gate :: gate where
  "new_gate = \<lparr>g_heap = [], g_records = [], g_suppressions = [], g_scopes = []\<rparr>"

definition SUPPRESSION_HISTORY :: nat where
  "SUPPRESSION_HISTORY = 256"

definition record_event :: "gate \<Rightarrow> string \<Rightarrow> (string \<times> event_field) list \<Rightarrow> int \<Rightarrow> gate" where
  "record_event g kind flds now =
     (let es = g_suppressions g @ [\<lparr>ev_kind = kind, ev_at_ms = now, ev_fields = flds\<rparr>]
      in g\<lparr>g_suppressions := (if length es > SUPPRESSION_HISTORY
             then drop (length es - SUPPRESSION_HISTORY) es else es)\<rparr>)"

definition rec_at :: "gate \<Rightarrow> nat \<Rightarrow> gate_record" where
  "rec_at g a = g_heap g ! a"

definition set_rec :: "nat \<Rightarrow> (gate_record \<Rightarrow> gate_record) \<Rightarrow> gate \<Rightarrow> gate" where
  "set_rec a f g = g\<lparr>g_heap := (g_heap g)[a := f (g_heap g ! a)]\<rparr>"

definition open_scope :: "gate \<Rightarrow> string \<Rightarrow> gate" where
  "open_scope g s =
     (if map_of (g_scopes g) s = None then g\<lparr>g_scopes := g_scopes g @ [(s, [])]\<rparr> else g)"

definition close_scope :: "gate \<Rightarrow> string \<Rightarrow> gate" where
  "close_scope g s = g\<lparr>g_scopes := AList.delete s (g_scopes g)\<rparr>"

definition all_entries :: "gate \<Rightarrow> gate_entry list" where
  "all_entries g = concat (map snd (g_scopes g))"

definition foreclosures :: "gate \<Rightarrow> string list \<Rightarrow> (string \<times> string) list" where
  "foreclosures g k =
     map (\<lambda>e. (desired_outcome (ge_identity e), ge_tier e))
       (filter (\<lambda>e. forecloses e \<and> resource_key (ge_identity e) = k) (all_entries g))"

section \<open>Requests\<close>

text \<open>Rules 1 to 3: \<open>None\<close> when nothing refuses the request yet.\<close>

definition refuse_opposing ::
  "gate \<Rightarrow> nat option \<Rightarrow> resource_identity \<Rightarrow> string \<Rightarrow> contributor \<Rightarrow> int \<Rightarrow> gate \<times> gate_decision option" where
  "refuse_opposing g holder ident tier c now =
     (let arriving_d = tier_rank tier \<ge> tier_rank ''D'';
          entries = filter (\<lambda>e. forecloses e \<and> resource_key (ge_identity e) = resource_key ident
                       \<and> opposes (ge_identity e) ident) (all_entries g);
          holder_opposes = (case holder of None \<Rightarrow> False | Some a \<Rightarrow> opposes (gr_identity (rec_at g a)) ident);
          holder_d = (case holder of None \<Rightarrow> False | Some a \<Rightarrow> holds_tier_d (rec_at g a));
          foreclosing = filter (\<lambda>e. tier_rank tier \<le> tier_rank (ge_tier e)) entries
      in if arriving_d \<and> (holder_opposes \<and> holder_d \<or> list_ex ge_holds_tier_d entries) then
           (record_event g ''safety_conflict''
              [(''resource'', FKey (resource_key ident)), (''arriving'', FText (desired_outcome ident)),
               (''contributor'', FText (ct_trigger_name c))] now,
            Some ((refused_for UNRESOLVED_SAFETY_CONFLICT)\<lparr>gd_safety_conflict := True\<rparr>))
         else if holder_opposes \<and> (case holder of None \<Rightarrow> False | Some a \<Rightarrow> gr_state (rec_at g a) = Uncertain) then
           (record_event g ''refused''
              [(''resource'', FKey (resource_key ident)), (''reason'', FText OPPOSING_COMMAND_UNCERTAIN),
               (''contributor'', FText (ct_trigger_name c))] now,
            Some (refused_for OPPOSING_COMMAND_UNCERTAIN))
         else case foreclosing of
           e # _ \<Rightarrow>
             (record_event g ''refused''
                [(''resource'', FKey (resource_key ident)), (''reason'', FText FORECLOSED_BY_COMPLETED_ACT),
                 (''contributor'', FText (ct_trigger_name c)),
                 (''holder'', FText (desired_outcome (ge_identity e)))] now,
              Some (refused_for FORECLOSED_BY_COMPLETED_ACT))
         | [] \<Rightarrow> (g, None))"

definition joinable :: "resource_identity \<Rightarrow> bool \<Rightarrow> gate_entry \<Rightarrow> bool" where
  "joinable ident arriving_d e =
     (join_key (ge_identity e) = join_key ident
      \<and> (ge_ran e \<or> \<not> arriving_d \<and> \<not> ge_entered e \<and> ge_asked e))"

definition join_completed ::
  "gate \<Rightarrow> string \<Rightarrow> resource_identity \<Rightarrow> string \<Rightarrow> contributor \<Rightarrow> int \<Rightarrow> gate \<times> gate_decision option" where
  "join_completed g scope ident tier c now =
     (case map_of (g_scopes g) scope of
        None \<Rightarrow> (g, None)
      | Some entries \<Rightarrow>
          (case List.find (joinable ident (tier_rank tier \<ge> tier_rank ''D'')) entries of
             None \<Rightarrow> (g, None)
           | Some e \<Rightarrow>
               let joined = \<lparr>ge_identity = ge_identity e, ge_tier = tier, ge_entered = True, ge_ran = True,
                     ge_holds_tier_d = ct_tier_d_granted c, ge_asked = False,
                     ge_contributors = ge_contributors e\<rparr>;
                   g' = (if ge_ran e then g\<lparr>g_scopes := AList.update scope (entries @ [joined]) (g_scopes g)\<rparr> else g)
               in (record_event g' ''coalesced''
                     [(''resource'', FKey (resource_key ident)), (''holder_state'', FText ''completed''),
                      (''contributor'', FText (ct_trigger_name c))] now,
                   Some (joined_to (EntryToken e)))))"

definition admit ::
  "gate \<Rightarrow> string \<Rightarrow> resource_identity \<Rightarrow> string \<Rightarrow> contributor \<Rightarrow> bool \<Rightarrow> int \<Rightarrow> gate \<times> gate_decision" where
  "admit g scope ident tier c awaits_operator now =
     (let r = \<lparr>gr_identity = ident, gr_tier = tier,
            gr_state = (if awaits_operator then Proposal else Reserved),
            gr_contributors = [c\<lparr>ct_scope := scope\<rparr>], gr_admitted_at_ms = now, gr_proposal_id = [],
            gr_invalidated = False, gr_result = None, gr_scope = scope, gr_entered = False,
            gr_asked = False, gr_entries = [], gr_done = False\<rparr>;
          a = length (g_heap g)
      in (g\<lparr>g_heap := g_heap g @ [r], g_records := AList.update (resource_key ident) a (g_records g)\<rparr>,
          \<lparr>gd_admission = Admitted, gd_reason = [], gd_token = Some (RecordToken a), gd_displaced = None,
           gd_safety_conflict = False\<rparr>))"

definition invalidate_event :: "gate \<Rightarrow> nat \<Rightarrow> string list \<Rightarrow> contributor \<Rightarrow> int \<Rightarrow> gate" where
  "invalidate_event g a k c now =
     record_event (set_rec a (\<lambda>r. r\<lparr>gr_invalidated := True\<rparr>) g) ''proposal_invalidated''
       [(''resource'', FKey k), (''by'', FText (ct_trigger_name c)),
        (''proposal_id'', FText (gr_proposal_id (rec_at g a)))] now"

definition same_outcome ::
  "gate \<Rightarrow> nat \<Rightarrow> string \<Rightarrow> string \<Rightarrow> contributor \<Rightarrow> bool \<Rightarrow> int \<Rightarrow> gate \<times> gate_decision" where
  "same_outcome g a scope tier c awaits_operator now =
     (let holder = rec_at g a; k = resource_key (gr_identity holder)
      in if gr_state holder = Proposal \<and> tier_rank tier \<ge> tier_rank ''D'' then
           (let (g', d) = admit (invalidate_event g a k c now) scope (gr_identity holder) tier c awaits_operator now
            in (g', d\<lparr>gd_displaced := Some a\<rparr>))
         else
           (record_event (set_rec a (\<lambda>r. r\<lparr>gr_contributors := gr_contributors r @ [c\<lparr>ct_scope := scope\<rparr>]\<rparr>) g)
              ''coalesced''
              [(''resource'', FKey k), (''holder_state'', FState (gr_state holder)),
               (''contributor'', FText (ct_trigger_name c))] now,
            joined_to (RecordToken a)))"

definition retire_record :: "gate_record \<Rightarrow> gate_record" where
  "retire_record r = r\<lparr>gr_state := Retired, gr_done := True\<rparr>"

definition opposing ::
  "gate \<Rightarrow> nat \<Rightarrow> string \<Rightarrow> resource_identity \<Rightarrow> string \<Rightarrow> contributor \<Rightarrow> bool \<Rightarrow> int \<Rightarrow> gate \<times> gate_decision" where
  "opposing g a scope ident tier c awaits_operator now =
     (let holder = rec_at g a; k = resource_key ident;
          refuse = (\<lambda>g reason extra. (record_event g ''refused''
              ([(''resource'', FKey k), (''reason'', FText reason),
                (''contributor'', FText (ct_trigger_name c))] @ extra) now, refused_for reason))
      in if gr_state holder = Running then
           refuse g OPPOSING_ACT_RUNNING [(''latched'', FBool (tier_rank tier \<ge> tier_rank ''D''))]
         else if gr_state holder = Proposal then
           (if tier_rank tier > tier_rank (gr_tier holder) then
              (let (g', d) = admit (invalidate_event g a k c now) scope ident tier c awaits_operator now
               in (g', d\<lparr>gd_displaced := Some a\<rparr>))
            else refuse g OPPOSING_HIGHER_TIER_HOLDS [])
         else if tier_rank tier > tier_rank (gr_tier holder) then
           (let (g', d) = admit (record_event (set_rec a retire_record g) ''preempted''
                  [(''resource'', FKey k), (''holder'', FText (desired_outcome (gr_identity holder))),
                   (''by'', FText (ct_trigger_name c))] now) scope ident tier c awaits_operator now
            in (g', d\<lparr>gd_admission := PreemptedHolder, gd_displaced := Some a\<rparr>))
         else if tier_rank tier = tier_rank (gr_tier holder) then
           (let g' = set_rec a retire_record g
            in refuse (g'\<lparr>g_records := AList.delete k (g_records g')\<rparr>) OPPOSING_EQUAL_TIER
                 [(''holder_also_refused'', FBool True)])
         else refuse g OPPOSING_HIGHER_TIER_HOLDS [])"

definition current_holder :: "gate \<Rightarrow> resource_identity \<Rightarrow> nat option" where
  "current_holder g ident =
     (case map_of (g_records g) (resource_key ident) of
        None \<Rightarrow> None
      | Some a \<Rightarrow> if gr_state (rec_at g a) = Retired then None else Some a)"

definition request ::
  "gate \<Rightarrow> string \<Rightarrow> resource_identity \<Rightarrow> string \<Rightarrow> contributor \<Rightarrow> bool \<Rightarrow> int \<Rightarrow> gate \<times> gate_decision" where
  "request g scope ident tier c awaits_operator now =
     (let holder = current_holder g ident
      in case refuse_opposing g holder ident tier c now of
        (g1, Some d) \<Rightarrow> (g1, d)
      | (g1, None) \<Rightarrow>
          (case holder of
             None \<Rightarrow>
               (case join_completed g1 scope ident tier c now of
                  (g2, Some d) \<Rightarrow> (g2, d)
                | (g2, None) \<Rightarrow> admit g2 scope ident tier c awaits_operator now)
           | Some a \<Rightarrow>
               if join_key (gr_identity (rec_at g1 a)) = join_key ident
               then same_outcome g1 a scope tier c awaits_operator now
               else if opposes (gr_identity (rec_at g1 a)) ident
               then opposing g1 a scope ident tier c awaits_operator now
               else (record_event g1 ''refused''
                       [(''resource'', FKey (resource_key ident)), (''reason'', FText OPPOSING_HIGHER_TIER_HOLDS),
                        (''contributor'', FText (ct_trigger_name c))] now,
                     refused_for OPPOSING_HIGHER_TIER_HOLDS)))"

section \<open>The life of an attempt\<close>

definition enter_executor :: "gate_record \<Rightarrow> gate_record" where
  "enter_executor r = r\<lparr>gr_state := Running, gr_entered := True\<rparr>"

definition reply_admitted :: "gate \<Rightarrow> nat \<Rightarrow> int \<Rightarrow> gate \<times> bool" where
  "reply_admitted g a now =
     (let token = rec_at g a; k = resource_key (gr_identity token);
          late = (\<lambda>reason. record_event g ''late_reply_refused''
             [(''resource'', FKey k), (''proposal_id'', FText (gr_proposal_id token)), (''reason'', FText reason)] now)
      in if gr_invalidated token then (late PROPOSAL_INVALIDATED, False)
         else if map_of (g_records g) k \<noteq> Some a then (late PROPOSAL_NO_LONGER_HELD, False)
         else (set_rec a enter_executor g, True))"

definition mark_proposal :: "gate \<Rightarrow> nat \<Rightarrow> string \<Rightarrow> gate" where
  "mark_proposal g a pid =
     set_rec a (\<lambda>r. r\<lparr>gr_asked := True, gr_proposal_id := pid,
       gr_state := (if gr_state r = Reserved then Proposal else gr_state r)\<rparr>) g"

definition mark_running :: "gate \<Rightarrow> nat \<Rightarrow> gate" where
  "mark_running g a = set_rec a enter_executor g"

text \<open>\<open>max(tiers, key=tier_rank)\<close>: the first of the highest; the callers' list is never empty.\<close>

fun max_tier :: "string list \<Rightarrow> string" where
  "max_tier [] = []"
| "max_tier [t] = t"
| "max_tier (t # ts) = (let m = max_tier ts in if tier_rank m > tier_rank t then m else t)"

text \<open>\<open>dict.fromkeys\<close>: the names in the order they first occur.\<close>

definition claiming_scopes :: "gate_record \<Rightarrow> string list" where
  "claiming_scopes r =
     filter (\<lambda>s. s \<noteq> []) (rev (remdups (rev (gr_scope r # map ct_scope (gr_contributors r)))))"

definition claim_tiers :: "gate_record \<Rightarrow> string \<Rightarrow> string list" where
  "claim_tiers r scope =
     map ct_dispatch_tier (filter (\<lambda>c. ct_scope c = scope) (gr_contributors r))
       @ (if gr_scope r = scope then [gr_tier r] else [])"

definition entry_for :: "gate_record \<Rightarrow> string \<Rightarrow> bool \<Rightarrow> gate_entry" where
  "entry_for r scope did_run =
     \<lparr>ge_identity = gr_identity r, ge_tier = max_tier (claim_tiers r scope), ge_entered = gr_entered r,
      ge_ran = (did_run \<and> gr_entered r),
      ge_holds_tier_d = list_ex ct_tier_d_granted (filter (\<lambda>c. ct_scope c = scope) (gr_contributors r)),
      ge_asked = gr_asked r, ge_contributors = gr_contributors r\<rparr>"

text \<open>\<open>entries[entries.index(old)] = new\<close>.\<close>

fun replace_first :: "'a \<Rightarrow> 'a \<Rightarrow> 'a list \<Rightarrow> 'a list" where
  "replace_first old new [] = []"
| "replace_first old new (x # xs) = (if x = old then new # xs else x # replace_first old new xs)"

definition record_entry :: "nat \<Rightarrow> bool \<Rightarrow> string \<Rightarrow> gate \<Rightarrow> gate" where
  "record_entry a did_run scope g =
     (case map_of (g_scopes g) scope of
        None \<Rightarrow> g
      | Some entries \<Rightarrow>
          let new = entry_for (rec_at g a) scope did_run;
              entries' = (case map_of (gr_entries (rec_at g a)) scope of
                 Some old \<Rightarrow> if old \<in> set entries then replace_first old new entries else entries @ [new]
               | None \<Rightarrow> entries @ [new])
          in set_rec a (\<lambda>r. r\<lparr>gr_entries := AList.update scope new (gr_entries r)\<rparr>)
               (g\<lparr>g_scopes := AList.update scope entries' (g_scopes g)\<rparr>))"

definition record_entries :: "gate \<Rightarrow> nat \<Rightarrow> bool \<Rightarrow> gate" where
  "record_entries g a did_run = fold (record_entry a did_run) (claiming_scopes (rec_at g a)) g"

definition mark_uncertain :: "gate \<Rightarrow> nat \<Rightarrow> int \<Rightarrow> gate" where
  "mark_uncertain g a now =
     (let g1 = set_rec a (\<lambda>r. r\<lparr>gr_state := Uncertain, gr_entered := True\<rparr>) g;
          g2 = record_entries g1 a False
      in record_event g2 ''command_uncertain''
           [(''resource'', FKey (resource_key (gr_identity (rec_at g2 a)))),
            (''outcome'', FText (desired_outcome (gr_identity (rec_at g2 a))))] now)"

definition release_holder :: "nat \<Rightarrow> gate \<Rightarrow> gate" where
  "release_holder a g =
     (let k = resource_key (gr_identity (rec_at g a))
      in if map_of (g_records g) k = Some a then g\<lparr>g_records := AList.delete k (g_records g)\<rparr> else g)"

definition retire :: "gate \<Rightarrow> nat \<Rightarrow> bool option \<Rightarrow> gate" where
  "retire g a result =
     (if gr_state (rec_at g a) = Uncertain then g
      else
        let g1 = set_rec a (\<lambda>r. r\<lparr>gr_result := result, gr_done := True\<rparr>) g;
            g2 = record_entries g1 a (result = Some True)
        in release_holder a (set_rec a (\<lambda>r. r\<lparr>gr_state := Retired\<rparr>) g2))"

definition resolve_uncertain :: "gate \<Rightarrow> nat \<Rightarrow> bool \<Rightarrow> int \<Rightarrow> gate" where
  "resolve_uncertain g a accepted now =
     (if gr_state (rec_at g a) \<noteq> Uncertain then g
      else
        let g1 = set_rec a (\<lambda>r. r\<lparr>gr_state := Retired, gr_result := Some accepted, gr_done := True\<rparr>) g;
            g2 = release_holder a (record_entries g1 a accepted)
        in record_event g2 ''command_resolved''
             [(''resource'', FKey (resource_key (gr_identity (rec_at g2 a)))), (''accepted'', FBool accepted)] now)"

definition state_of :: "gate \<Rightarrow> string list \<Rightarrow> holder_state" where
  "state_of g k = (case map_of (g_records g) k of None \<Rightarrow> Retired | Some a \<Rightarrow> gr_state (rec_at g a))"

definition uncertain_resources :: "gate \<Rightarrow> string list list" where
  "uncertain_resources g = map fst (filter (\<lambda>(k, a). gr_state (rec_at g a) = Uncertain) (g_records g))"

section \<open>The gate as the dispatcher drives it\<close>

text \<open>
  The dispatcher's admission of one action: the contributor it builds, whether the action
  awaits an operator, the request, and the entry of the executor when it may run at once.
\<close>

definition awaits_operator :: "string \<Rightarrow> bool \<Rightarrow> bool" where
  "awaits_operator tier requires_approval = (tier = ''C'' \<or> tier = ''B'' \<and> requires_approval)"

definition gate_dispatch ::
  "gate \<Rightarrow> string \<Rightarrow> resource_identity \<Rightarrow> string \<Rightarrow> contributor \<Rightarrow> bool \<Rightarrow> int \<Rightarrow> gate \<times> gate_decision" where
  "gate_dispatch g scope ident tier c requires_approval now =
     (let awaits = awaits_operator tier requires_approval;
          (g', d) = request g scope ident tier
            (c\<lparr>ct_dispatch_tier := tier, ct_tier_d_granted := (tier = ''D'')\<rparr>) awaits now
      in case gd_token d of
           Some (RecordToken a) \<Rightarrow> if may_execute d \<and> \<not> awaits then (mark_running g' a, d) else (g', d)
         | _ \<Rightarrow> (g', d))"

datatype gate_op =
    OpenScope string
  | CloseScope string
  | Dispatch string resource_identity string contributor bool int
  | Reply nat int
  | MarkProposal nat string
  | MarkUncertain nat int
  | Retire nat "bool option"
  | ResolveUncertain nat bool int

datatype gate_answer = GDecision gate_decision | GBool bool | GNone

fun gate_apply :: "gate \<Rightarrow> gate_op \<Rightarrow> gate \<times> gate_answer" where
  "gate_apply g (OpenScope s) = (open_scope g s, GNone)"
| "gate_apply g (CloseScope s) = (close_scope g s, GNone)"
| "gate_apply g (Dispatch s ident tier c ra now) = map_prod id GDecision (gate_dispatch g s ident tier c ra now)"
| "gate_apply g (Reply a now) = map_prod id GBool (reply_admitted g a now)"
| "gate_apply g (MarkProposal a pid) = (mark_proposal g a pid, GNone)"
| "gate_apply g (MarkUncertain a now) = (mark_uncertain g a now, GNone)"
| "gate_apply g (Retire a res) = (retire g a res, GNone)"
| "gate_apply g (ResolveUncertain a acc now) = (resolve_uncertain g a acc now, GNone)"

definition gate_call :: "gate \<Rightarrow> gate_op \<Rightarrow> unit + gate \<times> gate_answer" where
  "gate_call g x = Inr (gate_apply g x)"

text \<open>
  The dispatcher passes tokens the gate gave it, offers a reply only for a proposal, and calls a
  command uncertain only while its executor is running.
\<close>

fun gate_allowed :: "gate \<Rightarrow> gate_op \<Rightarrow> bool" where
  "gate_allowed g (Reply a now) = (a < length (g_heap g) \<and> gr_state (rec_at g a) = Proposal)"
| "gate_allowed g (MarkProposal a pid) = (a < length (g_heap g))"
| "gate_allowed g (MarkUncertain a now) = (a < length (g_heap g) \<and> gr_state (rec_at g a) = Running)"
| "gate_allowed g (Retire a res) = (a < length (g_heap g))"
| "gate_allowed g (ResolveUncertain a acc now) = (a < length (g_heap g))"
| "gate_allowed g _ = True"

end
