(* ===== verification/Device_Policy.thy ===== *)
theory Device_Policy
  imports Ori_Prelude
begin

text \<open>
  \<open>ori/policy/device_policy.py\<close>: the commercial policy of a device, what it permits at each
  action tier, and the caps and preferences on alerts. The current time is an argument.
\<close>

record device_policy =
  po_tier :: string
  po_relay_b_enabled :: bool
  po_relay_c_enabled :: bool
  po_cloud_llm_enabled :: bool
  po_valid_until :: int
  po_policy_version :: int
  po_issued_at :: int
  po_signature :: string
  po_alert_sms_monthly_cap :: "int option"
  po_alert_whatsapp_monthly_cap :: "int option"
  po_alerts :: "(string \<times> pyval) list"

definition ALERT_CLASSES :: "string list" where
  "ALERT_CLASSES =
     [''generator_running_too_long'', ''unusual_consumption_spike'', ''battery_underperforming'',
      ''grid_power_restored'']"

definition TRIGGER_ALERT_CLASS :: "((string \<times> string) \<times> string) list" where
  "TRIGGER_ALERT_CLASS = []"

definition UNBOUND_ALERT_CLASSES :: "string list" where
  "UNBOUND_ALERT_CLASSES = filter (\<lambda>c. c \<notin> set (map snd TRIGGER_ALERT_CLASS)) ALERT_CLASSES"

definition alert_class_for_trigger :: "string \<Rightarrow> string \<Rightarrow> bool \<Rightarrow> string option" where
  "alert_class_for_trigger skill_name trigger_name first_party =
     (let k = (str_strip skill_name, str_strip trigger_name)
      in if \<not> first_party \<or> fst k = [] \<or> snd k = [] then None else map_of TRIGGER_ALERT_CLASS k)"

text \<open>Construction: a cap below -1 raises, and only known classes with a Boolean are kept.\<close>

definition cap_ok :: "int option \<Rightarrow> bool" where
  "cap_ok cap = (case cap of None \<Rightarrow> True | Some k \<Rightarrow> k \<ge> -1)"

definition policy_init :: "device_policy \<Rightarrow> string + device_policy" where
  "policy_init p =
     (if \<not> cap_ok (po_alert_sms_monthly_cap p) then Inl ''alert_sms_monthly_cap''
      else if \<not> cap_ok (po_alert_whatsapp_monthly_cap p) then Inl ''alert_whatsapp_monthly_cap''
      else Inr (p\<lparr>po_alerts := filter (\<lambda>(name, v). name \<in> set ALERT_CLASSES \<and> is_bool v) (po_alerts p)\<rparr>))"

definition policy_expired :: "device_policy \<Rightarrow> int \<Rightarrow> bool" where
  "policy_expired p now_s = (now_s > po_valid_until p)"

definition permits_alert_class :: "device_policy \<Rightarrow> string option \<Rightarrow> string \<Rightarrow> int \<Rightarrow> bool" where
  "permits_alert_class p alert_class tier now_s =
     (if str_upper tier = ''D'' then True
      else case alert_class of
        None \<Rightarrow> True
      | Some k \<Rightarrow> if k = [] then True
                  else if policy_expired p now_s then True
                  else map_of (po_alerts p) k \<noteq> Some (PyBool False))"

definition permits_action :: "device_policy \<Rightarrow> string \<Rightarrow> int \<Rightarrow> bool" where
  "permits_action p tier now_s =
     (if tier \<in> {''D'', ''A''} then True
      else if policy_expired p now_s then False
      else if tier = ''B'' then po_relay_b_enabled p
      else if tier = ''C'' then po_relay_c_enabled p
      else False)"

definition alert_monthly_cap :: "device_policy \<Rightarrow> string \<Rightarrow> int option" where
  "alert_monthly_cap p channel =
     (let normalized = str_lower (str_strip channel)
      in if normalized = ''sms'' then po_alert_sms_monthly_cap p
         else if normalized = ''whatsapp'' then po_alert_whatsapp_monthly_cap p
         else None)"

definition permits_external_alert :: "device_policy \<Rightarrow> string \<Rightarrow> string \<Rightarrow> int \<Rightarrow> bool" where
  "permits_external_alert p channel tier current_month_count =
     (if tier = ''D'' then True
      else case alert_monthly_cap p channel of
        None \<Rightarrow> True
      | Some cap \<Rightarrow> if cap = -1 then True else current_month_count < cap)"

definition policy_unrestricted :: device_policy where
  "policy_unrestricted =
     \<lparr>po_tier = ''self_hosted'', po_relay_b_enabled = True, po_relay_c_enabled = True,
      po_cloud_llm_enabled = True, po_valid_until = 2 ^ 63 - 1, po_policy_version = 0, po_issued_at = 0,
      po_signature = ''self_hosted'', po_alert_sms_monthly_cap = None,
      po_alert_whatsapp_monthly_cap = None, po_alerts = []\<rparr>"

section \<open>Lemmas\<close>

lemma unbound_alert_classes: "UNBOUND_ALERT_CLASSES = ALERT_CLASSES"
  by (simp add: UNBOUND_ALERT_CLASSES_def TRIGGER_ALERT_CLASS_def)

lemma init_alert_silenced:
  assumes "policy_init p = Inr q" and "map_of (po_alerts q) k = Some v"
  shows "k \<in> set ALERT_CLASSES \<and> is_bool v"
  using assms map_of_SomeD [OF assms(2)] by (auto simp: policy_init_def split: if_splits)

section \<open>Properties\<close>

text \<open>
  C35. A policy never blocks safety and silences only what a customer named: a constructed policy
  permits every action and every alert at Tier D, and a class of notice is silenced only below
  Tier D, on a live policy, for a known class, by an explicit false. With no policy loaded
  nothing is withheld before the year the lease bound names.
\<close>

theorem policy_never_blocks_safety:
  assumes "policy_init p = Inr q"
  shows "permits_action q ''D'' t \<and> permits_external_alert q ch ''D'' n \<and> permits_alert_class q k ''D'' t
    \<and> (\<not> permits_alert_class q k tier t
        \<longrightarrow> tier \<noteq> ''D'' \<and> t \<le> po_valid_until q
          \<and> (\<exists>name. k = Some name \<and> name \<in> set ALERT_CLASSES \<and> map_of (po_alerts q) name = Some (PyBool False)))
    \<and> (t < 2 ^ 63 \<longrightarrow> permits_action policy_unrestricted ''B'' t \<and> permits_action policy_unrestricted ''C'' t)"
proof -
  have upper: "str_upper ''D'' = ''D''" by code_simp
  have "tier \<noteq> ''D'' \<and> t \<le> po_valid_until q
      \<and> (\<exists>name. k = Some name \<and> name \<in> set ALERT_CLASSES \<and> map_of (po_alerts q) name = Some (PyBool False))"
    if "\<not> permits_alert_class q k tier t"
    using that upper init_alert_silenced [OF assms]
    by (fastforce simp: permits_alert_class_def policy_expired_def split: if_splits option.splits)
  moreover have "permits_alert_class q k ''D'' t" by (simp add: permits_alert_class_def upper)
  ultimately show ?thesis
    by (auto simp: permits_action_def permits_external_alert_def policy_expired_def policy_unrestricted_def)
qed

theorem policy_never_blocks_safety_witness:
  "permits_action (policy_unrestricted\<lparr>po_relay_c_enabled := False, po_valid_until := 0\<rparr>) ''D'' 5
   \<and> \<not> permits_action (policy_unrestricted\<lparr>po_relay_c_enabled := False, po_valid_until := 0\<rparr>) ''C'' 5
   \<and> \<not> permits_alert_class (policy_unrestricted\<lparr>po_alerts := [(''grid_power_restored'', PyBool False)]\<rparr>)
         (Some ''grid_power_restored'') ''A'' 5"
proof -
  have "policy_init (policy_unrestricted\<lparr>po_relay_c_enabled := False, po_valid_until := 0\<rparr>)
      = Inr (policy_unrestricted\<lparr>po_relay_c_enabled := False, po_valid_until := 0\<rparr>)" by code_simp
  from policy_never_blocks_safety [OF this]
  have "permits_action (policy_unrestricted\<lparr>po_relay_c_enabled := False, po_valid_until := 0\<rparr>) ''D'' 5" by blast
  moreover have "\<not> permits_action (policy_unrestricted\<lparr>po_relay_c_enabled := False, po_valid_until := 0\<rparr>) ''C'' 5"
    "\<not> permits_alert_class (policy_unrestricted\<lparr>po_alerts := [(''grid_power_restored'', PyBool False)]\<rparr>)
         (Some ''grid_power_restored'') ''A'' 5" by code_simp+
  ultimately show ?thesis by blast
qed

end
