(* ===== verification/Approval_Steps.thy ===== *)
theory Approval_Steps
  imports Approval_Replies Tier_C_Store Resource_Gate Device_Policy
begin

text \<open>
  The steps of the governed Tier C approval in \<open>ori/reasoning/action_dispatcher.py\<close>: the final
  gate before an executor, the close of a proposal with its safe default, the ask, one wait for
  a reply, the dispatch of an admitted approval, the outcome record and its retries, and one
  round of the reply loop. A coroutine is a function on a world: the dispatcher's shared maps
  and store, the resource gate, the monotonic clock, and what this task has done so far. Every
  await is a point where the environment acts: other tasks change the shared state, time passes,
  the task may be cancelled, and the awaited party gives its answer.
\<close>

section \<open>The dispatcher's shared state\<close>

text \<open>Tasks the dispatcher leaves running: the dispatch marker and the outcome's retries.\<close>

datatype job =
    MarkStarted string
  | AppendOutcome string string string "string \<times> string"

record dispatcher =
  dp_store :: tier_c_db
  dp_pending_outcomes :: "(string \<times> rat) list"
  dp_unknown_live :: "(string \<times> string \<times> string) list"
  dp_append_failed :: "(string \<times> string \<times> string) list"
  dp_proposal_deadlines :: "(string \<times> rat) list"
  dp_uncertain :: "(string \<times> string) list"
  dp_recovery_failed :: string
  dp_decisions_lost :: nat
  dp_jobs :: "job list"

definition PENDING_OUTCOME_CEILING :: int where
  "PENDING_OUTCOME_CEILING = 64"

definition MAX_REPLIES_PER_PROPOSAL :: nat where
  "MAX_REPLIES_PER_PROPOSAL = 20"

abbreviation APPROVAL_WINDOW_ELAPSED :: string where "APPROVAL_WINDOW_ELAPSED \<equiv> ''window_elapsed''"
abbreviation APPROVAL_UNDELIVERED :: string where "APPROVAL_UNDELIVERED \<equiv> ''undelivered''"
abbreviation APPROVAL_LISTENER_ENDED :: string where "APPROVAL_LISTENER_ENDED \<equiv> ''listener_ended''"
abbreviation DEFAULT_SAFE_DEFAULT_ACTION :: string where "DEFAULT_SAFE_DEFAULT_ACTION \<equiv> ''log_to_dashboard''"
abbreviation NOT_PERFORMED :: string where "NOT_PERFORMED \<equiv> ''not_performed''"
abbreviation SUPPRESSED :: string where "SUPPRESSED \<equiv> ''suppressed''"
abbreviation NO_EXECUTOR :: string where "NO_EXECUTOR \<equiv> ''no_executor''"
abbreviation PROPOSAL_NOT_COMMITTED :: string where "PROPOSAL_NOT_COMMITTED \<equiv> ''proposal_not_committed''"

definition APPROVAL_END_DECISION :: "(string \<times> string) list" where
  "APPROVAL_END_DECISION =
     [(APPROVAL_WINDOW_ELAPSED, ''timeout''), (APPROVAL_UNDELIVERED, ''undelivered''),
      (APPROVAL_LISTENER_ENDED, ''no_reply'')]"

definition end_decision :: "string \<Rightarrow> string \<Rightarrow> string" where
  "end_decision approval_end otherwise =
     (case map_of APPROVAL_END_DECISION approval_end of Some d \<Rightarrow> d | None \<Rightarrow> otherwise)"

record action_result =
  ar_action_name :: string
  ar_tier :: string
  ar_executed :: bool
  ar_approved :: "bool option"
  ar_action_taken :: string
  ar_timestamp :: int
  ar_operator_response :: "string option"
  ar_proposal_id :: "string option"
  ar_safe_default_used :: bool

text \<open>
  What a dispatcher is constructed with. \<open>dc_store\<close>: a state store with the Tier C methods is
  there; \<open>dc_executors\<close>: the names an executor is registered for.
\<close>

record authority_facts =
  fa_zone_id :: string
  fa_zone_document :: json
  fa_binding_digest :: string
  fa_safety_profile_digest :: string
  fa_resource_for :: "(string \<times> string) list"
  fa_deployment_inputs :: "(string \<times> json) list"

record dispatcher_config =
  dc_store :: bool
  dc_executors :: "string list"
  dc_alert_sender :: bool
  dc_operator_contact :: string
  dc_secondary_contact :: string
  dc_local_console_enabled :: bool
  dc_comms_posture :: "bool option"
  dc_require_scoped_replies :: bool
  dc_token_verifier :: bool
  dc_policy :: "device_policy option"
  dc_relay_b_c_enabled :: bool

text \<open>The skill context of a dispatch: its event's device and identifier, the skill and trigger.\<close>

record skill_context =
  sc_event :: "(string \<times> string) option"
  sc_skill_name :: string
  sc_first_party :: bool
  sc_trigger_name :: string

section \<open>The world of a task\<close>

datatype deferred =
    DecisionRecord string action_result
  | RejectionPattern string string
  | TokenAudit string string bool string
  | RejectionOverride string string "string option"
  | TierDOverride string
  | ActRow action_result
  | InlineRow action_result
  | ContributorRow string action_result

text \<open>
  A Tier D executor whose caller was interrupted while it drives: the gate's token and the result
  the dispatch could report without it.
\<close>

record driving =
  dv_token :: "nat option"
  dv_interrupted :: action_result

record world =
  w_disp :: dispatcher
  w_gate :: gate
  w_clock :: rat
  w_tick :: nat
  w_acts :: "(string \<times> string) list"
  w_notices :: "(string \<times> string \<times> string) list"
  w_deferred :: "deferred list"
  w_driving :: "driving list"

text \<open>The rows of acts: those handed to the writer, and those that wait for a driving executor.\<close>

fun is_act_row :: "deferred \<Rightarrow> bool" where
  "is_act_row (ActRow r) = True"
| "is_act_row (ContributorRow k r) = True"
| "is_act_row _ = False"

definition act_rows :: "world \<Rightarrow> nat" where
  "act_rows w = length (filter is_act_row (w_deferred w)) + length (w_driving w)"

text \<open>
  A cancellation of the task, or an exception by its type's name. \<open>'a io\<close> is a coroutine: it
  leaves a world and either is left by an interrupt or answers.
\<close>

datatype interrupt = Cancelled | Raised string

type_synonym 'a io = "world \<Rightarrow> world \<times> (interrupt + 'a)"

definition then_io :: "world \<times> (interrupt + 'a) \<Rightarrow> ('a \<Rightarrow> 'b io) \<Rightarrow> world \<times> (interrupt + 'b)" where
  "then_io r k = (case r of (w, Inl e) \<Rightarrow> (w, Inl e) | (w, Inr a) \<Rightarrow> k a w)"

datatype executor_answer = XFalse | XSuppressed | XNotPerformed | XDone | XRaised

record inbound_response =
  ib_body :: cptext
  ib_channel :: string
  ib_from_number :: string
  ib_provider_message_id :: string

datatype heard = HNone | HText cptext | HInbound inbound_response | HTimeout | HRaised

record token_verdict =
  tv_approved :: bool
  tv_reason :: string
  tv_token_id :: string

text \<open>
  What the environment does at the n-th await: what other tasks make of the dispatcher's state
  and of the gate, how much time passes, whether the task is cancelled there, whether the store
  takes the transaction (and the exception otherwise), and the answers of the clock on the wall,
  the executors, the operator's channel, the alert sender, the token verifier (None when it
  raises), the commissioned facts (None when there are none or they cannot be read) and the
  random source.
\<close>

record environment =
  en_others :: "nat \<Rightarrow> dispatcher \<Rightarrow> dispatcher"
  en_gate :: "nat \<Rightarrow> gate \<Rightarrow> gate"
  en_elapsed :: "nat \<Rightarrow> rat"
  en_cancel :: "nat \<Rightarrow> bool"
  en_takes :: "nat \<Rightarrow> bool"
  en_error :: "nat \<Rightarrow> string"
  en_now :: "nat \<Rightarrow> int"
  en_executor :: "nat \<Rightarrow> executor_answer"
  en_heard :: "nat \<Rightarrow> heard"
  en_sent :: "nat \<Rightarrow> bool"
  en_verify :: "nat \<Rightarrow> token_verdict option"
  en_facts :: "nat \<Rightarrow> string option \<Rightarrow> authority_facts option"
  en_choice :: "nat \<Rightarrow> nat \<Rightarrow> nat"

definition pass :: "environment \<Rightarrow> rat \<Rightarrow> world \<Rightarrow> world" where
  "pass e least w =
     (let n = w_tick w
      in w\<lparr>w_disp := en_others e n (w_disp w), w_gate := en_gate e n (w_gate w),
           w_clock := w_clock w + least + \<bar>en_elapsed e n\<bar>, w_tick := Suc n\<rparr>)"

text \<open>An await that only gives way: \<open>asyncio.sleep\<close>, or a send whose failure is caught.\<close>

definition sleep :: "environment \<Rightarrow> rat \<Rightarrow> unit io" where
  "sleep e s w = (pass e s w, if en_cancel e (w_tick w) then Inl Cancelled else Inr ())"

text \<open>
  One call of the store: the writer takes the transaction or refuses it, whether or not the
  caller is still there to hear the answer.
\<close>

definition set_store :: "tier_c_db \<Rightarrow> world \<Rightarrow> world" where
  "set_store db w = w\<lparr>w_disp := (w_disp w)\<lparr>dp_store := db\<rparr>\<rparr>"

definition store_call :: "environment \<Rightarrow> (int \<Rightarrow> tier_c_op) \<Rightarrow> tier_c_answer io" where
  "store_call e mk w =
     (let n = w_tick w; w1 = pass e 0 w
      in case tier_c_call (dp_store (w_disp w1)) (mk (en_now e n), en_takes e n) of
           Inl _ \<Rightarrow> (w1, Inl (if en_cancel e n then Cancelled else Raised (en_error e n)))
         | Inr (db, ans) \<Rightarrow> (set_store db w1, if en_cancel e n then Inl Cancelled else Inr ans))"

text \<open>A read of the store: what it finds when it is answered.\<close>

definition store_read :: "environment \<Rightarrow> (tier_c_db \<Rightarrow> 'a) \<Rightarrow> 'a io" where
  "store_read e q w =
     (let n = w_tick w; w1 = pass e 0 w
      in (w1, if en_cancel e n then Inl Cancelled
              else if en_takes e n then Inr (q (dp_store (w_disp w1))) else Inl (Raised (en_error e n))))"

definition defer_record :: "deferred \<Rightarrow> world \<Rightarrow> world" where
  "defer_record r w = w\<lparr>w_deferred := w_deferred w @ [r]\<rparr>"

definition update_disp :: "(dispatcher \<Rightarrow> dispatcher) \<Rightarrow> world \<Rightarrow> world" where
  "update_disp f w = w\<lparr>w_disp := f (w_disp w)\<rparr>"

definition note_decision_lost :: "world \<Rightarrow> world" where
  "note_decision_lost = update_disp (\<lambda>d. d\<lparr>dp_decisions_lost := Suc (dp_decisions_lost d)\<rparr>)"

definition governed_notify ::
  "dispatcher_config \<Rightarrow> string \<Rightarrow> skill_context \<Rightarrow> string \<Rightarrow> world \<Rightarrow> world" where
  "governed_notify c act cx what w =
     (if \<not> dc_alert_sender c \<or> dc_operator_contact c = [] then w
      else w\<lparr>w_notices := w_notices w
             @ [(act, case sc_event cx of Some (dev, _) \<Rightarrow> dev | None \<Rightarrow> [], what)]\<rparr>)"

section \<open>The executors\<close>

definition action_taken :: "string \<Rightarrow> bool \<Rightarrow> bool \<Rightarrow> bool \<Rightarrow> string" where
  "action_taken act executed suppressed missing_executor =
     (if executed then act else if suppressed then SUPPRESSED
      else if missing_executor then NO_EXECUTOR else [])"

definition unapproved :: "string \<Rightarrow> string \<Rightarrow> bool \<Rightarrow> string \<Rightarrow> int \<Rightarrow> action_result" where
  "unapproved act tier executed taken now =
     \<lparr>ar_action_name = act, ar_tier = tier, ar_executed = executed, ar_approved = None,
      ar_action_taken = taken, ar_timestamp = now, ar_operator_response = None,
      ar_proposal_id = None, ar_safe_default_used = False\<rparr>"

text \<open>
  \<open>_execute_immediately\<close>. A refusal is logged, which is an await; an executor that raises or is
  cancelled under its caller is a failure of the act and not of the caller.
\<close>

definition execute_immediately ::
  "environment \<Rightarrow> dispatcher_config \<Rightarrow> string \<Rightarrow> string \<Rightarrow> skill_context \<Rightarrow> action_result io" where
  "execute_immediately e c act tier cx w =
     (let n = w_tick w;
          refuse = (\<lambda>taken. then_io (sleep e 0 w) (\<lambda>_ w1. (w1, Inr (unapproved act tier False taken (en_now e n)))))
      in if tier = ''D'' \<and> \<not> sc_first_party cx then refuse ''refused_tier_d_without_provenance''
         else if enforce_minimum_tier act tier \<noteq> tier then refuse ''refused_below_minimum_tier''
         else if act \<in> set (dc_executors c) then
           (let w1 = (pass e 0 w)\<lparr>w_acts := w_acts w @ [(act, tier)]\<rparr>;
                ans = (if en_cancel e n then XRaised else en_executor e n);
                executed = (ans = XDone); suppressed = (ans = XSuppressed \<and> tier \<noteq> ''D'')
            in (w1, Inr (unapproved act tier executed
                  (if ans = XNotPerformed then NOT_PERFORMED else action_taken act executed suppressed False)
                  (en_now e n))))
         else (w, Inr (unapproved act tier False (action_taken act False False True) (en_now e n))))"

section \<open>Closing a proposal\<close>

text \<open>
  \<open>_close_now\<close>: at most six attempts while the store raises; a refused move is the same
  decision when the row already holds the state, and a lost one otherwise.
\<close>

fun close_attempts ::
  "environment \<Rightarrow> nat \<Rightarrow> string \<Rightarrow> string \<Rightarrow> string list \<Rightarrow> string \<Rightarrow> string option \<Rightarrow> bool io" where
  "close_attempts e 0 pid state froms reason sd w = (w, Inr False)"
| "close_attempts e (Suc k) pid state froms reason sd w =
     (case store_call e (Advance pid state froms reason None sd) w of
        (w1, Inl Cancelled) \<Rightarrow> (w1, Inl Cancelled)
      | (w1, Inl (Raised _)) \<Rightarrow>
          if k = 0 then (note_decision_lost w1, Inr False)
          else then_io (sleep e 0 w1) (\<lambda>_. close_attempts e k pid state froms reason sd)
      | (w1, Inr ans) \<Rightarrow>
          if ans = TCBool True then (w1, Inr True)
          else (case store_read e (\<lambda>db. get_tier_c_proposal db pid) w1 of
                  (w2, Inl Cancelled) \<Rightarrow> (w2, Inl Cancelled)
                | (w2, Inl (Raised _)) \<Rightarrow>
                    if k = 0 then (note_decision_lost w2, Inr False)
                    else then_io (sleep e 0 w2) (\<lambda>_. close_attempts e k pid state froms reason sd)
                | (w2, Inr row) \<Rightarrow>
                    if map_option tp_decision_state row = Some state then (w2, Inr True)
                    else (note_decision_lost w2, Inr False)))"

definition close_now ::
  "environment \<Rightarrow> dispatcher_config \<Rightarrow> string \<Rightarrow> string \<Rightarrow> string list \<Rightarrow> string \<Rightarrow> string option \<Rightarrow> bool io" where
  "close_now e c pid state froms reason sd w =
     (if \<not> dc_store c then (note_decision_lost w, Inr False)
      else close_attempts e 6 pid state froms reason sd w)"

text \<open>
  \<open>_safe_default_intent\<close>: the intent is created when it is not there and attempted while it is
  pending; the attempt's result is marked, or left for the next start when the mark fails.
\<close>

definition answer_text :: "tier_c_answer \<Rightarrow> string" where
  "answer_text a = (case a of TCText s \<Rightarrow> s | _ \<Rightarrow> [])"

definition safe_default_intent ::
  "environment \<Rightarrow> dispatcher_config \<Rightarrow> string \<Rightarrow> string \<Rightarrow> skill_context \<Rightarrow> string \<Rightarrow> action_result option io" where
  "safe_default_intent e c pid sd cx reason w =
     then_io
       (if \<not> dc_store c then (w, Inr ''pending'')
        else case store_call e (EnsureIntent pid sd reason) w of
               (w1, Inl Cancelled) \<Rightarrow> (w1, Inl Cancelled)
             | (w1, Inl (Raised _)) \<Rightarrow> (w1, Inr ''pending'')
             | (w1, Inr ans) \<Rightarrow> (w1, Inr (answer_text ans)))
       (\<lambda>outcome w1.
          if outcome \<noteq> ''pending'' then (w1, Inr None)
          else then_io (execute_immediately e c sd ''A'' cx w1) (\<lambda>inner w2.
            if \<not> dc_store c then (w2, Inr (Some inner))
            else case store_call e (MarkIntent pid (if ar_executed inner then ''executed'' else ''failed'')) w2 of
                   (w3, Inl Cancelled) \<Rightarrow> (w3, Inl Cancelled)
                 | (w3, _) \<Rightarrow> (w3, Inr (Some inner))))"

section \<open>Authority\<close>

definition permits_relay_action :: "dispatcher_config \<Rightarrow> string \<Rightarrow> int \<Rightarrow> bool" where
  "permits_relay_action c tier now_s =
     (if tier = ''D'' \<or> tier = ''A'' then True
      else dc_relay_b_c_enabled c
        \<and> permits_action (case dc_policy c of Some p \<Rightarrow> p | None \<Rightarrow> policy_unrestricted) tier now_s)"

definition policy_inputs :: "dispatcher_config \<Rightarrow> json" where
  "policy_inputs c =
     (let p = (case dc_policy c of Some p \<Rightarrow> p | None \<Rightarrow> policy_unrestricted)
      in JDict [(''tier'', JStr (po_tier p)), (''relay_c_enabled'', JBool (po_relay_c_enabled p)),
                (''policy_version'', JInt (po_policy_version p)),
                (''relay_enabled'', JBool (dc_relay_b_c_enabled c))])"

definition resource_of :: "authority_facts \<Rightarrow> string \<Rightarrow> string" where
  "resource_of f outcome_name =
     (case map_of (fa_resource_for f) outcome_name of Some r \<Rightarrow> r | None \<Rightarrow> [])"

definition authority_inputs_of ::
  "dispatcher_config \<Rightarrow> string \<Rightarrow> string \<Rightarrow> authority_facts \<Rightarrow> authority_inputs" where
  "authority_inputs_of c act outcome_name f =
     \<lparr>ai_action = act, ai_outcome = outcome_name, ai_resource = resource_of f outcome_name,
      ai_zone_id = fa_zone_id f, ai_zone_document = fa_zone_document f,
      ai_binding_canonical_hash = fa_binding_digest f,
      ai_safety_profile_digest = fa_safety_profile_digest f,
      ai_policy_inputs = JDict
        [(''release'', JDict [(''max_proposal_lifetime_s'', JInt MAX_PROPOSAL_LIFETIME_S),
                              (''pending_outcome_ceiling'', JInt PENDING_OUTCOME_CEILING)]),
         (''device_policy'', policy_inputs c),
         (''deployment'', JDict (fa_deployment_inputs f))]\<rparr>"

text \<open>
  \<open>_authority_now\<close>: the snapshot's text and binding digest, None where the facts, the outcome or
  a well-formed snapshot are missing; the \<open>ValueError\<close> of a document with no canonical form is
  not caught.
\<close>

definition authority_now ::
  "dispatcher_config \<Rightarrow> string \<Rightarrow> authority_facts option \<Rightarrow> interrupt + (string \<times> string) option" where
  "authority_now c act facts =
     (case (facts, governed_outcome act) of
        (Some f, Some outcome_name) \<Rightarrow>
          (case bind_res (build_snapshot (authority_inputs_of c act outcome_name f))
                  (\<lambda>d. bind_res (snapshot_bytes (JDict d)) (\<lambda>_. Inr d)) of
             Inl NotCanonical \<Rightarrow> Inl (Raised ''ValueError'')
           | Inl _ \<Rightarrow> Inr None
           | Inr d \<Rightarrow> Inr (Some (case json_text (JDict d) of Some t \<Rightarrow> t | None \<Rightarrow> [],
                                jstr_text (member_of d ''binding_digest''))))
      | _ \<Rightarrow> Inr None)"

section \<open>Asking and listening\<close>

definition comms_available :: "dispatcher_config \<Rightarrow> bool" where
  "comms_available c =
     (case dc_comms_posture c of
        Some b \<Rightarrow> b
      | None \<Rightarrow> dc_alert_sender c \<and> dc_operator_contact c \<noteq> [])"

text \<open>\<open>_ask_operator\<close>: whether the ask was accepted for delivery and whether a console listens.\<close>

definition ask_operator ::
  "environment \<Rightarrow> dispatcher_config \<Rightarrow> nat option \<Rightarrow> string \<Rightarrow> (bool \<times> bool) io" where
  "ask_operator e c token pid w =
     (let console = (\<not> comms_available c \<and> dc_local_console_enabled c)
      in then_io
           (if comms_available c \<and> dc_alert_sender c \<and> dc_operator_contact c \<noteq> [] then
              (let n = w_tick w in then_io (sleep e 0 w) (\<lambda>_ w1. (w1, Inr (en_sent e n))))
            else (w, Inr False))
           (\<lambda>accepted w1.
              case token of
                Some a \<Rightarrow>
                  if console \<or> accepted then
                    then_io (sleep e 0 w1) (\<lambda>_ w2.
                      (w2\<lparr>w_gate := mark_proposal (w_gate w2) a pid\<rparr>, Inr (accepted, console)))
                  else (w1, Inr (accepted, console))
              | None \<Rightarrow> (w1, Inr (accepted, console))))"

definition unanswered_end :: "rat \<Rightarrow> int \<Rightarrow> rat \<Rightarrow> string" where
  "unanswered_end started window now =
     (if now - started < of_int window then APPROVAL_LISTENER_ENDED else APPROVAL_WINDOW_ELAPSED)"

text \<open>
  \<open>_governed_listen\<close>: one reply with the provider record that carried it, or why the wait ended.
\<close>

definition governed_listen ::
  "environment \<Rightarrow> int \<Rightarrow> bool \<Rightarrow> bool \<Rightarrow> (cptext option \<times> inbound_response option \<times> string) io" where
  "governed_listen e window console accepted w =
     (let n = w_tick w
      in then_io (sleep e 0 w) (\<lambda>_ w1.
           (w1, Inr
             (let unanswered = unanswered_end (w_clock w) window (w_clock w1)
              in case en_heard e n of
                   HText t \<Rightarrow> (Some t, None, [])
                 | HInbound i \<Rightarrow> if console then (None, None, unanswered) else (Some (ib_body i), Some i, [])
                 | HNone \<Rightarrow> (None, None, if console \<or> accepted then unanswered else APPROVAL_UNDELIVERED)
                 | HTimeout \<Rightarrow> (None, None, if console then unanswered else APPROVAL_WINDOW_ELAPSED)
                 | HRaised \<Rightarrow> (None, None, if console then unanswered else APPROVAL_LISTENER_ENDED)))))"

section \<open>Dispatching an admitted approval\<close>

text \<open>\<open>json.dumps\<close> with its default separators and ASCII escapes, of a flat outcome record.\<close>

definition ascii_escape :: "char \<Rightarrow> string" where
  "ascii_escape ch =
     (let n = of_char ch :: nat
      in if n < 127 then json_escape ch
         else [CHR 0x5C, CHR ''u'', CHR ''0'', CHR ''0'', hex_digit (n div 16), hex_digit (n mod 16)])"

definition dumps_value :: "json \<Rightarrow> string" where
  "dumps_value v =
     (case v of JBool b \<Rightarrow> if b then ''true'' else ''false''
      | JStr s \<Rightarrow> CHR 0x22 # concat (map ascii_escape s) @ [CHR 0x22] | _ \<Rightarrow> ''null'')"

fun dumps_members :: "(string \<times> json) list \<Rightarrow> string" where
  "dumps_members [] = []"
| "dumps_members [(k, v)] = dumps_value (JStr k) @ '': '' @ dumps_value v"
| "dumps_members ((k, v) # ms) = dumps_value (JStr k) @ '': '' @ dumps_value v @ '', '' @ dumps_members ms"

definition dumps :: "(string \<times> json) list \<Rightarrow> string" where
  "dumps ms = ''{'' @ dumps_members (sort_key fst ms) @ ''}''"

text \<open>
  \<open>_record_outcome\<close>: an outcome the live process cannot hold is unknown until reconciled; any
  other is a task that appends it.
\<close>

definition record_outcome ::
  "dispatcher_config \<Rightarrow> new_proposal \<Rightarrow> string \<Rightarrow> (string \<times> json) list \<Rightarrow> dispatcher \<Rightarrow> dispatcher" where
  "record_outcome c row state outcome_members d =
     (let pid = np_proposal_id row; commanded = (np_zone_id row, np_outcome row)
      in if int (length (dp_pending_outcomes d)) > PENDING_OUTCOME_CEILING \<or> \<not> dc_store c then
           d\<lparr>dp_pending_outcomes := AList.delete pid (dp_pending_outcomes d),
             dp_unknown_live := AList.update pid commanded (dp_unknown_live d)\<rparr>
         else d\<lparr>dp_jobs := dp_jobs d @ [AppendOutcome pid state (dumps outcome_members) commanded]\<rparr>)"

definition drop_nth :: "nat \<Rightarrow> 'a list \<Rightarrow> 'a list" where
  "drop_nth i xs = take i xs @ drop (Suc i) xs"

text \<open>
  One attempt of a background task: the marker is tried once; an outcome is tried until the
  store takes the call.
\<close>

definition run_job :: "nat \<Rightarrow> bool \<Rightarrow> int \<Rightarrow> dispatcher \<Rightarrow> dispatcher" where
  "run_job i takes now d =
     (if i \<ge> length (dp_jobs d) then d
      else case dp_jobs d ! i of
        MarkStarted pid \<Rightarrow>
          (case tier_c_call (dp_store d)
                  (Advance pid DISPATCH_STARTED [APPROVED_PENDING_DISPATCH] [] None None now, takes) of
             Inl _ \<Rightarrow> d\<lparr>dp_jobs := drop_nth i (dp_jobs d)\<rparr>
           | Inr (db, _) \<Rightarrow> d\<lparr>dp_store := db, dp_jobs := drop_nth i (dp_jobs d)\<rparr>)
      | AppendOutcome pid state text commanded \<Rightarrow>
          (case tier_c_call (dp_store d)
                  (Advance pid state [APPROVED_PENDING_DISPATCH, DISPATCH_STARTED] [] (Some text) None now, takes) of
             Inl _ \<Rightarrow>
               if map_of (dp_append_failed d) pid = None
               then d\<lparr>dp_append_failed := AList.update pid commanded (dp_append_failed d)\<rparr> else d
           | Inr (db, _) \<Rightarrow>
               d\<lparr>dp_store := db, dp_jobs := drop_nth i (dp_jobs d),
                 dp_pending_outcomes := AList.delete pid (dp_pending_outcomes d),
                 dp_append_failed := AList.delete pid (dp_append_failed d),
                 dp_uncertain := (if state \<in> set UNCERTAIN_STATES then AList.update pid state (dp_uncertain d)
                                  else dp_uncertain d)\<rparr>))"

definition approved_result ::
  "string \<Rightarrow> string \<Rightarrow> bool \<Rightarrow> string \<Rightarrow> int \<Rightarrow> string option \<Rightarrow> bool \<Rightarrow> action_result" where
  "approved_result act pid executed taken now response safe_used =
     \<lparr>ar_action_name = act, ar_tier = ''C'', ar_executed = executed, ar_approved = Some True,
      ar_action_taken = taken, ar_timestamp = now, ar_operator_response = response,
      ar_proposal_id = Some pid, ar_safe_default_used = safe_used\<rparr>"

text \<open>An approval that is not carried out: closed with its safe default, and the operator told.\<close>

definition decline_dispatch ::
  "environment \<Rightarrow> dispatcher_config \<Rightarrow> string \<Rightarrow> skill_context \<Rightarrow> new_proposal \<Rightarrow> string \<Rightarrow> string \<Rightarrow> string
     \<Rightarrow> string \<Rightarrow> string option \<Rightarrow> action_result io" where
  "decline_dispatch e c act cx row state close_reason intent_reason what response w =
     then_io (close_now e c (np_proposal_id row) state [APPROVED_PENDING_DISPATCH] close_reason
                (Some (np_safe_default_action row)) w) (\<lambda>recorded w1.
     then_io (safe_default_intent e c (np_proposal_id row) (np_safe_default_action row) cx intent_reason w1)
       (\<lambda>safe w2.
          (governed_notify c act cx what w2,
           Inr (approved_result act (np_proposal_id row) False
             (if recorded then state else state @ UNRECORDED_SUFFIX) (en_now e (w_tick w2)) response
             (case safe of Some r \<Rightarrow> ar_executed r | None \<Rightarrow> False)))))"

definition dispatched_state :: "action_result \<Rightarrow> string" where
  "dispatched_state inner =
     (if ar_executed inner then EXECUTED
      else if ar_action_taken inner = NOT_PERFORMED then DISPATCH_FAILED
      else DISPATCH_OUTCOME_UNKNOWN)"

definition carry_out ::
  "environment \<Rightarrow> dispatcher_config \<Rightarrow> string \<Rightarrow> skill_context \<Rightarrow> new_proposal \<Rightarrow> string option
     \<Rightarrow> action_result io" where
  "carry_out e c act cx row response w =
     (let pid = np_proposal_id row;
          w1 = update_disp (\<lambda>d. d\<lparr>dp_pending_outcomes := AList.update pid (w_clock w) (dp_pending_outcomes d),
                 dp_jobs := dp_jobs d @ (if dc_store c then [MarkStarted pid] else [])\<rparr>) w
      in case execute_immediately e c act ''C'' cx w1 of
           (w2, Inl Cancelled) \<Rightarrow>
             (update_disp (record_outcome c row DISPATCH_OUTCOME_UNKNOWN [(''interrupted'', JBool True)]) w2,
              Inl Cancelled)
         | (w2, Inl (Raised ex)) \<Rightarrow>
             (update_disp (record_outcome c row DISPATCH_OUTCOME_UNKNOWN [(''raised'', JStr ex)]) w2,
              Inr (approved_result act pid False DISPATCH_OUTCOME_UNKNOWN (en_now e (w_tick w2)) response False))
         | (w2, Inr inner) \<Rightarrow>
             (let state = dispatched_state inner;
                  w3 = update_disp (record_outcome c row state
                         [(''executed'', JBool (ar_executed inner)),
                          (''action_taken'', JStr (ar_action_taken inner))]) w2;
                  w4 = (if state \<noteq> EXECUTED
                        then governed_notify c act cx (''approval '' @ pid @ '' dispatched: outcome '' @ state) w3
                        else w3)
              in (w4, Inr (approved_result act pid (ar_executed inner) (ar_action_taken inner)
                    (en_now e (w_tick w2)) response False))))"

definition gate_admits :: "environment \<Rightarrow> nat option \<Rightarrow> bool io" where
  "gate_admits e token w =
     (case token of
        None \<Rightarrow> (w, Inr True)
      | Some a \<Rightarrow>
          (let n = w_tick w in then_io (sleep e 0 w) (\<lambda>_ w1.
             (let (g, ok) = reply_admitted (w_gate w1) a (en_now e n) in (w1\<lparr>w_gate := g\<rparr>, Inr ok)))))"

definition dispatch_admitted ::
  "environment \<Rightarrow> dispatcher_config \<Rightarrow> string \<Rightarrow> skill_context \<Rightarrow> new_proposal \<Rightarrow> nat option \<Rightarrow> rat
     \<Rightarrow> string option \<Rightarrow> action_result io" where
  "dispatch_admitted e c act cx row token deadline response w =
     (if w_clock w > deadline then
        decline_dispatch e c act cx row APPROVAL_EXPIRED_UNDISPATCHED ''expired'' ''expired''
          (''approval '' @ np_proposal_id row @ '' not carried out: expired'') response w
      else then_io (gate_admits e token w) (\<lambda>ok w1.
        if \<not> ok then
          decline_dispatch e c act cx row DISPATCH_REFUSED_CONTENTION ''resource_held'' ''contention''
            (''approval '' @ np_proposal_id row
               @ '' not carried out: the resource is held; a fresh evaluation is required'') response w1
        else carry_out e c act cx row response w1))"

section \<open>One round of the reply loop\<close>

text \<open>
  The locals a round changes: how many replies were heard, why an admission did not commit, what
  the last reply said and the provider record that carried it. A round ends the loop with the act
  it dispatched, the decision it reached or why the wait ended, or continues it (None).
\<close>

record reply_state =
  rs_replies :: nat
  rs_state_reason :: string
  rs_operator_response :: "string option"
  rs_inbound :: "inbound_response option"

datatype loop_end = Acted action_result | Decided string | Ended string

definition ingress_of ::
  "dispatcher_config \<Rightarrow> bool \<Rightarrow> reply_state \<Rightarrow> string \<Rightarrow> ingress" where
  "ingress_of c console rs token_id =
     \<lparr>ig_channel = (case rs_inbound rs of Some i \<Rightarrow> ib_channel i
                    | None \<Rightarrow> if console then ''local_console'' else ''reply''),
      ig_from = (case rs_inbound rs of Some i \<Rightarrow> ib_from_number i | None \<Rightarrow> dc_operator_contact c),
      ig_message_id = (case rs_inbound rs of Some i \<Rightarrow> ib_provider_message_id i | None \<Rightarrow> []),
      ig_operator_response = (case rs_operator_response rs of Some r \<Rightarrow> r | None \<Rightarrow> []),
      ig_offline_token_id = token_id\<rparr>"

text \<open>What becomes of the proposal after the store's answer to an affirmative reply.\<close>

definition after_admission ::
  "environment \<Rightarrow> dispatcher_config \<Rightarrow> string \<Rightarrow> skill_context \<Rightarrow> new_proposal \<Rightarrow> nat option \<Rightarrow> rat
     \<Rightarrow> reply_state \<Rightarrow> string \<Rightarrow> (loop_end option \<times> reply_state) io" where
  "after_admission e c act cx row token deadline rs admission w =
     (let pid = np_proposal_id row; notify = governed_notify c act cx
      in if admission = ''committed'' then
           then_io (dispatch_admitted e c act cx row token deadline (rs_operator_response rs) w)
             (\<lambda>r w1. (w1, Inr (Some (Acted r), rs)))
         else if admission = ''binding_changed'' then
           (notify (''proposal '' @ pid @ '' refused: the commissioned binding or authority changed; a fresh proposal is required'') w,
            Inr (Some (Decided APPROVAL_BINDING_CHANGED), rs))
         else if admission = ''blocked'' then
           (notify (''proposal '' @ pid @ '' refused: an earlier outcome is unresolved'') w,
            Inr (Some (Decided PROPOSAL_BLOCKED_UNCERTAIN_OUTCOME), rs))
         else if admission = ''duplicate'' then (w, Inr (None, rs))
         else if admission = ''token_replayed'' then
           (notify (''token already used for proposal '' @ pid) w,
            Inr (None, rs\<lparr>rs_operator_response := Some ''LOCAL:TOKEN_REJECTED:replay_detected''\<rparr>))
         else if starts_with ''closed:'' admission then
           (w, Inr (Some (Decided (drop 7 admission)), rs))
         else
           (notify (''approval '' @ pid @ '' could not be recorded; reply again to approve'') w,
            Inr (None, rs\<lparr>rs_state_reason := admission\<rparr>)))"

definition admit_reply ::
  "environment \<Rightarrow> dispatcher_config \<Rightarrow> string \<Rightarrow> skill_context \<Rightarrow> new_proposal \<Rightarrow> nat option \<Rightarrow> rat
     \<Rightarrow> bool \<Rightarrow> string \<Rightarrow> reply_state \<Rightarrow> (loop_end option \<times> reply_state) io" where
  "admit_reply e c act cx row token deadline console token_id rs w =
     (let pid = np_proposal_id row
      in if w_clock w > deadline then
           (governed_notify c act cx (''proposal '' @ pid @ '' had expired; not approved'') w,
            Inr (Some (Decided PROPOSAL_EXPIRED), rs))
         else case authority_now c act (en_facts e (w_tick w) (Some (np_zone_id row))) of
           Inl x \<Rightarrow> (w, Inl x)
         | Inr a \<Rightarrow>
             (let (text, digest) = (case a of Some p \<Rightarrow> p | None \<Rightarrow> ([], []))
              in then_io
                   (if \<not> dc_store c then (w, Inr ''store_unavailable'')
                    else case store_call e
                           (AdmitApproval pid digest text PENDING_OUTCOME_CEILING (ingress_of c console rs token_id)) w of
                           (w1, Inl Cancelled) \<Rightarrow> (w1, Inl Cancelled)
                         | (w1, Inl (Raised _)) \<Rightarrow> (w1, Inr ''store_unavailable'')
                         | (w1, Inr ans) \<Rightarrow> (w1, Inr (answer_text ans)))
                   (after_admission e c act cx row token deadline rs)))"

definition token_verdict_of :: "environment \<Rightarrow> dispatcher_config \<Rightarrow> nat \<Rightarrow> token_verdict" where
  "token_verdict_of e c n =
     (case (if dc_token_verifier c then en_verify e n else None) of
        Some v \<Rightarrow> v
      | None \<Rightarrow> \<lparr>tv_approved = False, tv_reason = ''verifier_unavailable'', tv_token_id = []\<rparr>)"

definition token_reply ::
  "environment \<Rightarrow> dispatcher_config \<Rightarrow> string \<Rightarrow> skill_context \<Rightarrow> new_proposal \<Rightarrow> nat option \<Rightarrow> rat
     \<Rightarrow> bool \<Rightarrow> reply_state \<Rightarrow> (loop_end option \<times> reply_state) io" where
  "token_reply e c act cx row token deadline console rs w =
     (let v = token_verdict_of e c (w_tick w);
          w1 = (if dc_store c
                then defer_record (TokenAudit (tv_token_id v) act (tv_approved v) (tv_reason v)) w else w)
      in if \<not> tv_approved v then
           (governed_notify c act cx
              (''token refused for proposal '' @ np_proposal_id row @ '' ('' @ tv_reason v @ '')'') w1,
            Inr (None, rs\<lparr>rs_operator_response := Some (''LOCAL:TOKEN_REJECTED:'' @ tv_reason v)\<rparr>))
         else admit_reply e c act cx row token deadline console (tv_token_id v)
                (rs\<lparr>rs_operator_response := Some (''LOCAL:TOKEN_APPROVED:'' @ tv_token_id v)\<rparr>) w1)"

definition answer_reply ::
  "environment \<Rightarrow> dispatcher_config \<Rightarrow> string \<Rightarrow> skill_context \<Rightarrow> new_proposal \<Rightarrow> nat option \<Rightarrow> rat
     \<Rightarrow> bool \<Rightarrow> cptext \<Rightarrow> reply_state \<Rightarrow> (loop_end option \<times> reply_state) io" where
  "answer_reply e c act cx row token deadline console t rs w =
     (case classify_approval_response (classifiable_reply (Heard t)) (cps (np_proposal_id row))
             console (dc_require_scoped_replies c) of
        TokenReply \<Rightarrow> token_reply e c act cx row token deadline console rs w
      | Invalid \<Rightarrow> (w, Inr (None, rs))
      | Reject \<Rightarrow> (w, Inr (Some (Decided REJECTED), rs))
      | Approve \<Rightarrow> admit_reply e c act cx row token deadline console [] rs w)"

definition listen_once ::
  "environment \<Rightarrow> dispatcher_config \<Rightarrow> string \<Rightarrow> skill_context \<Rightarrow> new_proposal \<Rightarrow> nat option \<Rightarrow> rat
     \<Rightarrow> bool \<Rightarrow> bool \<Rightarrow> int \<Rightarrow> reply_state \<Rightarrow> (loop_end option \<times> reply_state) io" where
  "listen_once e c act cx row token deadline console accepted window rs w =
     then_io (governed_listen e window console accepted w) (\<lambda>(reply, inbound, ended) w1.
       case reply of
         None \<Rightarrow> (w1, Inr (Some (Ended ended), rs\<lparr>rs_inbound := inbound\<rparr>))
       | Some t \<Rightarrow>
           then_io (sleep e 0 w1) (\<lambda>_.
             answer_reply e c act cx row token deadline console t
               (rs\<lparr>rs_replies := Suc (rs_replies rs), rs_inbound := inbound,
                   rs_operator_response :=
                     map_option (\<lambda>s. if console then ''LOCAL:'' @ s else s) (storable_reply (Heard t))\<rparr>)))"

definition approval_round ::
  "environment \<Rightarrow> dispatcher_config \<Rightarrow> string \<Rightarrow> skill_context \<Rightarrow> new_proposal \<Rightarrow> nat option \<Rightarrow> rat
     \<Rightarrow> bool \<Rightarrow> bool \<Rightarrow> reply_state \<Rightarrow> (loop_end option \<times> reply_state) io" where
  "approval_round e c act cx row token deadline console accepted rs w =
     then_io (if rs_replies rs \<ge> MAX_REPLIES_PER_PROPOSAL then sleep e 1 w else (w, Inr ()))
       (\<lambda>_. listen_once e c act cx row token deadline console accepted (max 1 \<lfloor>deadline - w_clock w\<rfloor>) rs)"

section \<open>Lemmas\<close>

lemma then_io_simps [simp]:
  "then_io (w, Inl x) k = (w, Inl x)"
  "then_io (w, Inr a) k = k a w"
  by (simp_all add: then_io_def)

lemma then_io_Inr:
  "then_io r k = (w', Inr b) \<longleftrightarrow> (\<exists>w1 a. r = (w1, Inr a) \<and> k a w1 = (w', Inr b))"
  by (cases r; cases "snd r") auto

declare act_rows_def [simp]

lemma gate_heap [simp]:
  "length (g_heap (mark_proposal g a pid)) = length (g_heap g)"
  "length (g_heap (fst (reply_admitted g a now))) = length (g_heap g)"
  by (simp_all add: mark_proposal_def reply_admitted_def set_rec_def record_event_def Let_def)

lemma pass_sel [simp]:
  "w_acts (pass e s w) = w_acts w"
  "w_clock (pass e s w) = w_clock w + s + \<bar>en_elapsed e (w_tick w)\<bar>"
  "w_disp (pass e s w) = en_others e (w_tick w) (w_disp w)"
  "w_gate (pass e s w) = en_gate e (w_tick w) (w_gate w)" "w_tick (pass e s w) = Suc (w_tick w)"
  "w_deferred (pass e s w) = w_deferred w" "w_driving (pass e s w) = w_driving w"
  by (simp_all add: pass_def Let_def)

lemma set_store_sel [simp]:
  "w_acts (set_store db w) = w_acts w" "w_clock (set_store db w) = w_clock w"
  "dp_store (w_disp (set_store db w)) = db" "w_gate (set_store db w) = w_gate w"
  "w_deferred (set_store db w) = w_deferred w" "w_driving (set_store db w) = w_driving w"
  by (simp_all add: set_store_def)

lemma fst_sleep [simp]: "fst (sleep e s w) = pass e s w"
  by (simp add: sleep_def)

subsection \<open>What a coroutine guarantees\<close>

definition keeps :: "(world \<Rightarrow> world \<Rightarrow> bool) \<Rightarrow> world \<Rightarrow> world \<times> (interrupt + 'a) \<Rightarrow> bool" where
  "keeps R w r = R w (fst r)"

text \<open>
  A guarantee is a relation between the world a coroutine enters and the world it leaves. It is
  enough that it holds across an await, across the task's own quiet writes, across a store call
  the dispatcher makes, and across an executor run that is licensed where it happens and at least
  at the tier the registry asks for; a licence is not lost on the way. Then every coroutine keeps the guarantee, whatever interrupts it.
\<close>

locale coroutine_guarantee =
  fixes e :: environment and c :: dispatcher_config
    and R :: "world \<Rightarrow> world \<Rightarrow> bool" and licensed :: "world \<Rightarrow> string \<times> string \<Rightarrow> bool"
  assumes quiet: "dp_store (w_disp w') = dp_store (w_disp w) \<Longrightarrow> w_acts w' = w_acts w
      \<Longrightarrow> w_clock w' = w_clock w \<Longrightarrow> act_rows w' = act_rows w
      \<Longrightarrow> length (g_heap (w_gate w)) \<le> length (g_heap (w_gate w'))
      \<Longrightarrow> dp_decisions_lost (w_disp w) \<le> dp_decisions_lost (w_disp w') \<Longrightarrow> R w w'"
    and R_trans: "R w w' \<Longrightarrow> R w' w'' \<Longrightarrow> R w w''"
    and awaits: "0 \<le> s \<Longrightarrow> R w (pass e s w)"
    and calls: "dispatcher_call (dp_store (w_disp w)) (op, True)
      \<Longrightarrow> R w (set_store (fst (apply_tier_c (dp_store (w_disp w)) op)) w)"
    and acts: "licensed w x \<Longrightarrow> enforce_minimum_tier (fst x) (snd x) = snd x
      \<Longrightarrow> R w (w\<lparr>w_acts := w_acts w @ [x]\<rparr>)"
    and keeps_licence: "licensed w x \<Longrightarrow> R w w' \<Longrightarrow> licensed w' x"
begin

lemma R_refl: "R w w"
  by (rule quiet) simp_all

lemma keepsI: "R w w' \<Longrightarrow> keeps R w (w', x)"
  by (simp add: keeps_def)

lemma keeps_here: "keeps R w (w, x)"
  by (simp add: keeps_def R_refl)

lemma keeps_quiet:
  "dp_store (w_disp w') = dp_store (w_disp w) \<Longrightarrow> w_acts w' = w_acts w \<Longrightarrow> w_clock w' = w_clock w
   \<Longrightarrow> act_rows w' = act_rows w \<Longrightarrow> length (g_heap (w_gate w)) \<le> length (g_heap (w_gate w'))
   \<Longrightarrow> dp_decisions_lost (w_disp w) \<le> dp_decisions_lost (w_disp w') \<Longrightarrow> keeps R w (w', x)"
  by (intro keepsI quiet)

lemma keeps_then:
  assumes "keeps R w r" and "\<And>a w'. R w w' \<Longrightarrow> r = (w', Inr a) \<Longrightarrow> keeps R w' (k a w')"
  shows "keeps R w (then_io r k)"
proof (cases r)
  case (Pair w' x)
  with assms show ?thesis by (cases x) (auto simp: keeps_def intro: R_trans)
qed

lemma keeps_trans: "R w w' \<Longrightarrow> keeps R w' r \<Longrightarrow> keeps R w r"
  by (auto simp: keeps_def intro: R_trans)

lemma keeps_sleep: "0 \<le> s \<Longrightarrow> keeps R w (sleep e s w)"
  by (simp add: keeps_def awaits)

lemma keeps_store_call:
  assumes "\<And>db now. dispatcher_call db (mk now, True)"
  shows "keeps R w (store_call e mk w)"
proof -
  have "R w (pass e 0 w)" by (simp add: awaits)
  moreover have "R (pass e 0 w)
      (set_store (fst (apply_tier_c (dp_store (w_disp (pass e 0 w))) (mk (en_now e (w_tick w))))) (pass e 0 w))"
    by (rule calls) (rule assms)
  ultimately show ?thesis
    by (auto simp: keeps_def store_call_def Let_def tier_c_call_def split: prod.split intro: R_trans)
qed

lemma keeps_store_read: "keeps R w (store_read e q w)"
  by (simp add: keeps_def store_read_def Let_def awaits)

lemma keeps_execute:
  assumes "licensed w (a, tier)"
  shows "keeps R w (execute_immediately e c a tier cx w)"
proof -
  have here: "licensed (pass e 0 w) (a, tier)" by (rule keeps_licence [OF assms awaits]) simp
  have "R w ((pass e 0 w)\<lparr>w_acts := w_acts w @ [(a, tier)]\<rparr>)" if "enforce_minimum_tier a tier = tier"
    using R_trans [OF awaits acts [OF here]] that by simp
  then show ?thesis
    by (auto simp: execute_immediately_def Let_def intro!: keepsI keeps_then keeps_sleep R_refl)
qed

lemma keeps_close_attempts:
  assumes "(state, froms) \<in> set DISPATCHER_MOVES"
  shows "keeps R w (close_attempts e k pid' state froms reason sd w)"
proof (induction k arbitrary: w)
  case (Suc k)
  have lost: "R w' (note_decision_lost w')" for w'
    by (rule quiet) (simp_all add: note_decision_lost_def update_disp_def)
  have again: "keeps R w' (then_io (sleep e 0 w') (\<lambda>_. close_attempts e k pid' state froms reason sd))" for w'
    by (rule keeps_then [OF keeps_sleep]) (simp_all add: Suc.IH)
  have call: "keeps R w (store_call e (Advance pid' state froms reason None sd) w)"
    by (rule keeps_store_call) (simp add: assms)
  have read: "keeps R w' (store_read e (\<lambda>db. get_tier_c_proposal db pid') w')" for w'
    by (rule keeps_store_read)
  show ?case
    using call read lost again
    by (auto simp: keeps_def split: prod.split sum.split interrupt.split intro: R_trans) (metis R_trans fst_conv)+
qed (simp add: keeps_here)

lemma keeps_close_now:
  "(state, froms) \<in> set DISPATCHER_MOVES \<Longrightarrow> keeps R w (close_now e c pid' state froms reason sd w)"
  by (auto simp: close_now_def note_decision_lost_def update_disp_def intro!: keeps_quiet keeps_close_attempts)

text \<open>A call whose exceptions are caught: the interrupt is a cancellation, or the answer stands in.\<close>

lemma keeps_caught:
  "keeps R w r \<Longrightarrow> keeps R w (case r of (w1, Inl Cancelled) \<Rightarrow> (w1, Inl Cancelled)
     | (w1, Inl (Raised x)) \<Rightarrow> (w1, Inr (d x)) | (w1, Inr ans) \<Rightarrow> (w1, Inr (f ans)))"
  by (auto simp: keeps_def split: prod.split sum.split interrupt.split)

lemma keeps_safe_default:
  assumes "licensed w (sd, ''A'')"
  shows "keeps R w (safe_default_intent e c pid' sd cx reason w)"
proof -
  have mark: "keeps R w' (case store_call e (MarkIntent pid' out) w' of
      (w3, Inl Cancelled) \<Rightarrow> (w3, Inl Cancelled) | (w3, _) \<Rightarrow> (w3, Inr (Some inner)))" for w' out inner
    using keeps_store_call [of "MarkIntent pid' out" w']
    by (auto simp: keeps_def split: prod.split sum.split interrupt.split)
  have rest: "keeps R w' (then_io (execute_immediately e c sd ''A'' cx w') (\<lambda>inner w2.
      if \<not> dc_store c then (w2, Inr (Some inner))
      else case store_call e (MarkIntent pid' (if ar_executed inner then ''executed'' else ''failed'')) w2 of
         (w3, Inl Cancelled) \<Rightarrow> (w3, Inl Cancelled) | (w3, _) \<Rightarrow> (w3, Inr (Some inner))))"
    if "R w w'" for w'
    using keeps_licence [OF assms that] mark
    by (intro keeps_then keeps_execute) (auto intro: keeps_here)
  have ensure: "keeps R w (if \<not> dc_store c then (w, Inr ''pending'')
      else case store_call e (EnsureIntent pid' sd reason) w of
         (w1, Inl Cancelled) \<Rightarrow> (w1, Inl Cancelled) | (w1, Inl (Raised _)) \<Rightarrow> (w1, Inr ''pending'')
       | (w1, Inr ans) \<Rightarrow> (w1, Inr (answer_text ans)))"
    using keeps_caught [OF keeps_store_call [of "EnsureIntent pid' sd reason" w],
        where d = "\<lambda>_. ''pending''" and f = answer_text] by (simp add: keeps_here)
  show ?thesis
    unfolding safe_default_intent_def
    by (rule keeps_then [OF ensure]) (auto intro: keeps_here rest)
qed

lemma quiet_notify: "R w (governed_notify c a cx what w)"
  by (rule quiet) (simp_all add: governed_notify_def)

lemma quiet_record_outcome: "R w (update_disp (record_outcome c row state ms) w)"
  by (rule quiet) (simp_all add: update_disp_def record_outcome_def Let_def)

lemma keeps_ask: "keeps R w (ask_operator e c token pid' w)"
proof -
  have gate: "keeps R w' (then_io (sleep e 0 w') (\<lambda>_ w2. (w2\<lparr>w_gate := mark_proposal (w_gate w2) a pid'\<rparr>, Inr z)))"
    for w' a z by (rule keeps_then [OF keeps_sleep]) (auto intro: keeps_quiet)
  have send: "keeps R w' (then_io (sleep e 0 w') (\<lambda>_ w1. (w1, Inr z)))" for w' z
    by (rule keeps_then [OF keeps_sleep]) (auto intro: keeps_here)
  show ?thesis
    unfolding ask_operator_def Let_def
    by (rule keeps_then) (auto intro: send keeps_here gate split: option.split)
qed

lemma keeps_listen: "keeps R w (governed_listen e window console accepted w)"
  unfolding governed_listen_def Let_def by (rule keeps_then [OF keeps_sleep]) (auto intro: keeps_here)

lemma keeps_gate_admits: "keeps R w (gate_admits e token w)"
proof (cases token)
  case (Some a)
  show ?thesis
    unfolding gate_admits_def Some option.case Let_def
    by (rule keeps_then [OF keeps_sleep]) (auto simp: case_prod_beta intro!: keeps_quiet)
qed (simp add: gate_admits_def keeps_here)

lemma keeps_decline:
  assumes "(state, [APPROVED_PENDING_DISPATCH]) \<in> set DISPATCHER_MOVES"
    and "licensed w (np_safe_default_action row, ''A'')"
  shows "keeps R w (decline_dispatch e c a cx row state r1 r2 what resp w)"
  unfolding decline_dispatch_def
  by (intro keeps_then keeps_close_now keeps_safe_default assms(1))
     (auto intro: keepsI quiet_notify keeps_licence [OF assms(2)])

lemma keeps_carry_out:
  assumes "licensed w (a, ''C'')"
  shows "keeps R w (carry_out e c a cx row resp w)"
proof -
  let ?w1 = "update_disp (\<lambda>d. d\<lparr>dp_pending_outcomes := AList.update (np_proposal_id row) (w_clock w) (dp_pending_outcomes d),
    dp_jobs := dp_jobs d @ (if dc_store c then [MarkStarted (np_proposal_id row)] else [])\<rparr>) w"
  have w1: "R w ?w1" by (rule quiet) (simp_all add: update_disp_def)
  note ran = keeps_trans [OF w1 keeps_execute [OF keeps_licence [OF assms w1]], of cx]
  have noted: "R w w'' \<Longrightarrow> R w (if b then governed_notify c a cx t (update_disp (record_outcome c row st ms) w'')
      else update_disp (record_outcome c row st ms) w'')" for w'' b t st ms
    by (auto intro: R_trans [OF _ quiet_record_outcome] R_trans [OF R_trans [OF _ quiet_record_outcome] quiet_notify])
  show ?thesis
    unfolding carry_out_def Let_def using ran
    by (auto simp: keeps_def noted R_trans [OF _ quiet_record_outcome] R_trans [OF _ quiet_notify]
        split: prod.split sum.split interrupt.split)
qed

lemma keeps_dispatch_admitted:
  assumes "licensed w (a, ''C'')" and "licensed w (np_safe_default_action row, ''A'')"
  shows "keeps R w (dispatch_admitted e c a cx row token deadline resp w)"
proof -
  have moves: "(APPROVAL_EXPIRED_UNDISPATCHED, [APPROVED_PENDING_DISPATCH]) \<in> set DISPATCHER_MOVES"
    "(DISPATCH_REFUSED_CONTENTION, [APPROVED_PENDING_DISPATCH]) \<in> set DISPATCHER_MOVES"
    by (simp_all add: DISPATCHER_MOVES_def)
  show ?thesis
    using keeps_licence [OF assms(1)] keeps_licence [OF assms(2)] assms
    by (auto simp: dispatch_admitted_def intro!: keeps_decline moves keeps_then keeps_gate_admits keeps_carry_out)
qed

end

text \<open>Where the commit of an approval licenses the approved act, the whole approval keeps the guarantee.\<close>

locale approval_guarantee = coroutine_guarantee e c R licensed
  for e :: environment and c :: dispatcher_config and R :: "world \<Rightarrow> world \<Rightarrow> bool"
    and licensed :: "world \<Rightarrow> string \<times> string \<Rightarrow> bool" +
  fixes act :: string and pid :: string
  assumes commit_licenses:
    "apply_tier_c (dp_store (w_disp w)) (AdmitApproval pid digest auth k ig now) = (db, TCText ''committed'')
     \<Longrightarrow> licensed (set_store db w) (act, ''C'')"
begin

lemma keeps_after_admission:
  assumes "admission = ''committed'' \<Longrightarrow> licensed w (act, ''C'')"
    and "licensed w (np_safe_default_action row, ''A'')"
  shows "keeps R w (after_admission e c act cx row token deadline rs admission w)"
proof (cases "admission = ''committed''")
  case True
  show ?thesis
    unfolding after_admission_def Let_def if_P [OF True]
    by (rule keeps_then [OF keeps_dispatch_admitted [OF assms(1) [OF True] assms(2)]]) (rule keeps_here)
next
  case False
  then show ?thesis
    by (simp add: after_admission_def Let_def keeps_here keepsI [OF quiet_notify])
qed

lemma store_call_committed:
  assumes "store_call e (AdmitApproval pid digest auth k ig) w = (w', Inr (TCText ''committed''))"
  shows "licensed w' (act, ''C'')"
proof -
  let ?w1 = "pass e 0 w" and ?op = "AdmitApproval pid digest auth k ig (en_now e (w_tick w))"
  obtain db ans where ap: "apply_tier_c (dp_store (w_disp ?w1)) ?op = (db, ans)" by (rule prod.exhaust)
  with assms have "ans = TCText ''committed''" and w': "w' = set_store db ?w1"
    by (auto simp: store_call_def Let_def tier_c_call_def split: if_splits)
  with commit_licenses [of ?w1] ap show ?thesis by simp
qed

lemma keeps_admit_reply:
  assumes "np_proposal_id row = pid" and "licensed w (np_safe_default_action row, ''A'')"
  shows "keeps R w (admit_reply e c act cx row token deadline console token_id rs w)"
proof -
  have admit: "keeps R w (then_io
      (if \<not> dc_store c then (w, Inr ''store_unavailable'')
       else case store_call e (AdmitApproval pid digest auth k ig) w of
          (w1, Inl Cancelled) \<Rightarrow> (w1, Inl Cancelled) | (w1, Inl (Raised _)) \<Rightarrow> (w1, Inr ''store_unavailable'')
        | (w1, Inr ans) \<Rightarrow> (w1, Inr (answer_text ans)))
      (after_admission e c act cx row token deadline rs))" (is "keeps R w (then_io ?call _)") for digest auth k ig
  proof (rule keeps_then)
    show "keeps R w ?call"
      using keeps_caught [OF keeps_store_call [of "AdmitApproval pid digest auth k ig" w],
          where d = "\<lambda>_. ''store_unavailable''" and f = answer_text] by (simp add: keeps_here)
    fix a w' assume R: "R w w'" and r: "?call = (w', Inr a)"
    have "licensed w' (act, ''C'')" if "a = ''committed''"
    proof (rule store_call_committed)
      show "store_call e (AdmitApproval pid digest auth k ig) w = (w', Inr (TCText ''committed''))"
        using r that
        by (auto simp: answer_text_def split: if_splits prod.splits sum.splits interrupt.splits tier_c_answer.splits)
    qed
    then show "keeps R w' (after_admission e c act cx row token deadline rs a w')"
      by (rule keeps_after_admission) (simp_all add: keeps_licence [OF assms(2) R])
  qed
  show ?thesis
    unfolding admit_reply_def Let_def assms(1)
    using admit
    by (auto intro: keeps_here keepsI quiet_notify split: sum.split prod.split option.split)
qed

lemma keeps_answer_reply:
  assumes "np_proposal_id row = pid" and "licensed w (np_safe_default_action row, ''A'')"
  shows "keeps R w (answer_reply e c act cx row token deadline console t rs w)"
proof -
  have deferred: "R w (defer_record (TokenAudit t a ok reason) w)" for t a ok reason
    by (rule quiet) (simp_all add: defer_record_def)
  have "keeps R w (token_reply e c act cx row token deadline console rs w)"
    unfolding token_reply_def Let_def
    using keeps_trans [OF deferred keeps_admit_reply [OF assms(1) keeps_licence [OF assms(2) deferred]]]
      keeps_admit_reply [OF assms]
    by (simp add: keepsI [OF R_trans [OF deferred quiet_notify]] keepsI [OF quiet_notify])
  then show ?thesis
    unfolding answer_reply_def
    by (auto intro: keeps_here keeps_admit_reply [OF assms] split: reply_kind.split)
qed

lemma keeps_listen_once:
  assumes "np_proposal_id row = pid" and "licensed w (np_safe_default_action row, ''A'')"
  shows "keeps R w (listen_once e c act cx row token deadline console accepted window rs w)"
  unfolding listen_once_def
proof (rule keeps_then [OF keeps_listen])
  fix a w' assume R: "R w w'"
  have "keeps R w' (then_io (sleep e 0 w') (\<lambda>_. answer_reply e c act cx row token deadline console t rs'))" for t rs'
    by (rule keeps_then [OF keeps_sleep])
       (auto intro: keeps_answer_reply [OF assms(1)] keeps_licence [OF keeps_licence [OF assms(2) R]])
  then show "keeps R w' ((\<lambda>(reply, inbound, ended) w1. case reply of
      None \<Rightarrow> (w1, Inr (Some (Ended ended), rs\<lparr>rs_inbound := inbound\<rparr>))
    | Some t \<Rightarrow> then_io (sleep e 0 w1) (\<lambda>_. answer_reply e c act cx row token deadline console t
        (rs\<lparr>rs_replies := Suc (rs_replies rs), rs_inbound := inbound,
          rs_operator_response := map_option (\<lambda>s. if console then ''LOCAL:'' @ s else s) (storable_reply (Heard t))\<rparr>)))
      a w')"
    by (auto intro: keeps_here split: prod.split option.split)
qed

lemma keeps_approval_round:
  assumes "np_proposal_id row = pid" and "licensed w (np_safe_default_action row, ''A'')"
  shows "keeps R w (approval_round e c act cx row token deadline console accepted rs w)"
  unfolding approval_round_def
  by (rule keeps_then)
     (auto intro: keeps_here keeps_sleep keeps_listen_once [OF assms(1)] keeps_licence [OF assms(2)])

end

text \<open>Time never runs back, and sleeping takes at least what was asked.\<close>

interpretation clock: approval_guarantee e c "\<lambda>w w'. w_clock w \<le> w_clock w'" "\<lambda>_ _. True" act pid for e c act pid
  by unfold_locales auto

subsection \<open>The reply loop makes progress\<close>

lemma round_clock: "w_clock w \<le> w_clock (fst (approval_round e c act cx row token deadline console accepted rs w))"
  using clock.keeps_approval_round [of row "np_proposal_id row"] by (simp add: keeps_def)

lemma round_slows:
  assumes "MAX_REPLIES_PER_PROPOSAL \<le> rs_replies rs"
    and "approval_round e c act cx row token deadline console accepted rs w = (w', Inr x)"
  shows "w_clock w + 1 \<le> w_clock w'"
proof -
  let ?w1 = "pass e 1 w"
  have "listen_once e c act cx row token deadline console accepted (max 1 \<lfloor>deadline - w_clock w\<rfloor>) rs ?w1 = (w', Inr x)"
    using assms by (auto simp: approval_round_def sleep_def split: if_splits)
  then have "w_clock ?w1 \<le> w_clock w'"
    using clock.keeps_listen_once [of row "np_proposal_id row"] by (metis fst_conv keeps_def)
  then show ?thesis by simp
qed

lemma admit_replies:
  "admit_reply e c act cx row token deadline console tid rs w = (w', Inr (None, rs')) \<Longrightarrow> rs_replies rs' = rs_replies rs"
  by (auto simp: admit_reply_def after_admission_def Let_def then_io_Inr
      split: if_splits sum.splits prod.splits)

lemma answer_replies:
  "answer_reply e c act cx row token deadline console t rs w = (w', Inr (None, rs'))
   \<Longrightarrow> rs_replies rs' = rs_replies rs"
  using admit_replies
  by (fastforce simp: answer_reply_def token_reply_def Let_def split: reply_kind.splits if_splits)

lemma round_counts:
  assumes "approval_round e c act cx row token deadline console accepted rs w = (w', Inr (None, rs'))"
  shows "rs_replies rs' = Suc (rs_replies rs)"
proof -
  from assms obtain w1 where "listen_once e c act cx row token deadline console accepted
      (max 1 \<lfloor>deadline - w_clock w\<rfloor>) rs w1 = (w', Inr (None, rs'))"
    by (auto simp: approval_round_def then_io_Inr)
  then obtain t inb resp w2 where "answer_reply e c act cx row token deadline console t
      (rs\<lparr>rs_replies := Suc (rs_replies rs), rs_inbound := inb, rs_operator_response := resp\<rparr>) w2
      = (w', Inr (None, rs'))"
    by (auto simp: listen_once_def then_io_Inr split: option.splits)
  from answer_replies [OF this] show ?thesis by simp
qed

end
