(* ===== verification/Approval_Workflow.thy ===== *)
theory Approval_Workflow
  imports Approval_Steps
begin

text \<open>
  The governed Tier C approval of \<open>ori/reasoning/action_dispatcher.py\<close> as a whole: the reply
  loop, the workflow from the proposal's row to its resolution, the settling of a previous
  process's proposals at a start, the close of open ones at a stop, the reconciliations, and the
  records health reads. The loop's recursion is well-founded: the first twenty replies are
  counted, and from then on every round sleeps a second of the time left to the deadline.
\<close>

section \<open>The reply loop\<close>

function approval_loop ::
  "environment \<Rightarrow> dispatcher_config \<Rightarrow> string \<Rightarrow> skill_context \<Rightarrow> new_proposal \<Rightarrow> nat option \<Rightarrow> rat
     \<Rightarrow> bool \<Rightarrow> bool \<Rightarrow> reply_state \<Rightarrow> (loop_end \<times> reply_state) io" where
  "approval_loop e c act cx row token deadline console accepted rs w =
     (if deadline - w_clock w \<le> 0 then (w, Inr (Ended APPROVAL_WINDOW_ELAPSED, rs))
      else case approval_round e c act cx row token deadline console accepted rs w of
        (w1, Inl x) \<Rightarrow> (w1, Inl x)
      | (w1, Inr (Some ended, rs1)) \<Rightarrow> (w1, Inr (ended, rs1))
      | (w1, Inr (None, rs1)) \<Rightarrow> approval_loop e c act cx row token deadline console accepted rs1 w1)"
  by pat_completeness auto

definition rounds_left :: "rat \<Rightarrow> reply_state \<Rightarrow> world \<Rightarrow> nat" where
  "rounds_left deadline rs w =
     (MAX_REPLIES_PER_PROPOSAL - rs_replies rs) + nat \<lceil>deadline - w_clock w\<rceil>"

lemma rounds_left_decreases:
  assumes "\<not> deadline - w_clock w \<le> 0"
    and "approval_round e c act cx row token deadline console accepted rs w = (w1, Inr (None, rs1))"
  shows "rounds_left deadline rs1 w1 < rounds_left deadline rs w"
proof -
  note n = round_counts [OF assms(2)]
  have t: "w_clock w \<le> w_clock w1"
    using round_clock [of w e c act cx row token deadline console accepted rs] assms(2) by simp
  then have le: "\<lceil>deadline - w_clock w1\<rceil> \<le> \<lceil>deadline - w_clock w\<rceil>" by (intro ceiling_mono) simp
  show ?thesis
  proof (cases "rs_replies rs < MAX_REPLIES_PER_PROPOSAL")
    case True
    with n le show ?thesis by (simp add: rounds_left_def)
  next
    case False
    then have "w_clock w + 1 \<le> w_clock w1" using round_slows [OF _ assms(2)] by simp
    then have "\<lceil>deadline - w_clock w1\<rceil> \<le> \<lceil>deadline - w_clock w - 1\<rceil>" by (intro ceiling_mono) simp
    then have "\<lceil>deadline - w_clock w1\<rceil> < \<lceil>deadline - w_clock w\<rceil>" by simp
    moreover have "0 < \<lceil>deadline - w_clock w\<rceil>" using assms(1) by simp
    ultimately show ?thesis using False n by (simp add: rounds_left_def)
  qed
qed

termination approval_loop
  by (relation "measure (\<lambda>(e, c, act, cx, row, token, deadline, console, accepted, rs, w). rounds_left deadline rs w)")
     (auto intro: rounds_left_decreases)

declare approval_loop.simps [simp del]

section \<open>The workflow\<close>

definition outcome_held_live :: "dispatcher \<Rightarrow> string \<Rightarrow> string \<Rightarrow> bool" where
  "outcome_held_live d zone_id outcome_name =
     ((zone_id, outcome_name) \<in> set (map snd (dp_unknown_live d)) \<union> set (map snd (dp_append_failed d)))"

text \<open>
  The proposal's row: three attempts, each refused identifier replaced by a fresh one whose
  deadline is held instead. Answers the last creation answer and the row as it then stands.
\<close>

definition redraw :: "environment \<Rightarrow> rat \<Rightarrow> new_proposal \<Rightarrow> world \<Rightarrow> world \<times> new_proposal" where
  "redraw e deadline row w =
     (let fresh = generate_proposal_id (en_choice e (w_tick w)) 8
      in (update_disp (\<lambda>d. d\<lparr>dp_proposal_deadlines :=
            AList.update fresh deadline (AList.delete (np_proposal_id row) (dp_proposal_deadlines d))\<rparr>) w,
          row\<lparr>np_proposal_id := fresh\<rparr>))"

fun create_attempts ::
  "environment \<Rightarrow> rat \<Rightarrow> nat \<Rightarrow> string \<Rightarrow> new_proposal \<Rightarrow> (string \<times> new_proposal) io" where
  "create_attempts e deadline 0 creation row w = (w, Inr (creation, row))"
| "create_attempts e deadline (Suc k) creation row w =
     (case store_call e (CreateProposal row) w of
        (w1, Inl Cancelled) \<Rightarrow> (w1, Inl Cancelled)
      | (w1, Inl (Raised _)) \<Rightarrow> (w1, Inr (''store_unavailable'', row))
      | (w1, Inr ans) \<Rightarrow>
          if answer_text ans \<noteq> ''duplicate'' then (w1, Inr (answer_text ans, row))
          else (case redraw e deadline row w1 of
                  (w2, row2) \<Rightarrow> create_attempts e deadline k ''duplicate'' row2 w2))"

definition create_proposal ::
  "environment \<Rightarrow> dispatcher_config \<Rightarrow> rat \<Rightarrow> new_proposal \<Rightarrow> (string \<times> new_proposal) io" where
  "create_proposal e c deadline row w =
     (if outcome_held_live (w_disp w) (np_zone_id row) (np_outcome row) then (w, Inr (''blocked'', row))
      else if dc_store c then create_attempts e deadline 3 ''store_unavailable'' row w
      else (w, Inr (''store_unavailable'', row)))"

definition workflow_result ::
  "string \<Rightarrow> string \<Rightarrow> bool \<Rightarrow> bool option \<Rightarrow> string \<Rightarrow> int \<Rightarrow> string option \<Rightarrow> bool \<Rightarrow> action_result" where
  "workflow_result act pid executed approved taken now response safe_used =
     \<lparr>ar_action_name = act, ar_tier = ''C'', ar_executed = executed, ar_approved = approved,
      ar_action_taken = taken, ar_timestamp = now, ar_operator_response = response,
      ar_proposal_id = Some pid, ar_safe_default_used = safe_used\<rparr>"

text \<open>No row was committed: nobody is asked, and the safe default is attempted.\<close>

definition uncommitted ::
  "environment \<Rightarrow> dispatcher_config \<Rightarrow> string \<Rightarrow> skill_context \<Rightarrow> string \<Rightarrow> new_proposal \<Rightarrow> string
     \<Rightarrow> action_result io" where
  "uncommitted e c act cx sd row creation w =
     (let w1 = governed_notify c act cx
                 (if creation = ''blocked'' then ''proposal refused: an earlier outcome is unresolved''
                  else ''proposal could not be recorded'') w
      in then_io (execute_immediately e c sd ''A'' cx w1) (\<lambda>inner w2.
           (w2, Inr (workflow_result act (np_proposal_id row) False None
              (if creation = ''blocked'' then ''refused_outcome_uncertain'' else PROPOSAL_NOT_COMMITTED)
              (en_now e (w_tick w2)) None (creation = ''blocked'' \<and> ar_executed inner)))))"

text \<open>
  What did not dispatch is closed with its safe default. The decision and why the wait ended are
  what the loop left of them.
\<close>

definition final_decision :: "loop_end \<Rightarrow> string \<times> string" where
  "final_decision ended =
     (let ds = (case ended of Decided d \<Rightarrow> d | _ \<Rightarrow> []); ae = (case ended of Ended a \<Rightarrow> a | _ \<Rightarrow> [])
      in if ds = [] then (PROPOSAL_EXPIRED, if ae = [] then APPROVAL_WINDOW_ELAPSED else ae) else (ds, ae))"

definition close_reason :: "string \<Rightarrow> string \<Rightarrow> reply_state \<Rightarrow> string" where
  "close_reason ds ae rs =
     (if ds = PROPOSAL_EXPIRED
      then (if rs_state_reason rs \<noteq> [] then rs_state_reason rs else end_decision ae [])
      else rs_state_reason rs)"

definition operator_decision :: "string \<Rightarrow> string \<Rightarrow> bool \<Rightarrow> string" where
  "operator_decision ds ae recorded =
     (if ds = REJECTED then ''rejected'' else if ds = PROPOSAL_EXPIRED then end_decision ae ds else ds)
     @ (if recorded then [] else ''_unrecorded'')"

definition escalate_to_secondary :: "environment \<Rightarrow> dispatcher_config \<Rightarrow> unit io" where
  "escalate_to_secondary e c w =
     (if dc_secondary_contact c = [] \<or> \<not> dc_alert_sender c then (w, Inr ()) else sleep e 0 w)"

definition resolve_undispatched ::
  "environment \<Rightarrow> dispatcher_config \<Rightarrow> string \<Rightarrow> skill_context \<Rightarrow> string \<Rightarrow> string \<Rightarrow> loop_end \<Rightarrow> reply_state
     \<Rightarrow> action_result io" where
  "resolve_undispatched e c act cx sd pid ended rs w =
     (case final_decision ended of (ds, ae) \<Rightarrow>
        then_io
          (if ds \<in> {REJECTED, PROPOSAL_EXPIRED}
           then close_now e c pid ds [PROPOSED] (close_reason ds ae rs) (Some sd) w
           else (w, Inr True)) (\<lambda>recorded w1.
        then_io (safe_default_intent e c pid sd cx ds w1) (\<lambda>safe w2.
        then_io (if ds = PROPOSAL_EXPIRED \<and> ae \<noteq> [] then escalate_to_secondary e c w2 else (w2, Inr ())) (\<lambda>_ w3.
          (let ran = (case safe of Some r \<Rightarrow> ar_executed r | None \<Rightarrow> False);
               taken = (case safe of Some r \<Rightarrow> ar_action_taken r | None \<Rightarrow> []);
               res = workflow_result act pid ran (Some False)
                       (if recorded then taken else ds @ UNRECORDED_SUFFIX) (en_now e (w_tick w3))
                       (rs_operator_response rs) ran;
               w4 = (case rs_operator_response rs of
                       Some r \<Rightarrow> if ds = REJECTED then defer_record (RejectionPattern act r) w3 else w3
                     | None \<Rightarrow> w3)
           in (defer_record (DecisionRecord (operator_decision ds ae recorded) res) w4, Inr res))))))"

definition run_governed_workflow ::
  "environment \<Rightarrow> dispatcher_config \<Rightarrow> string \<Rightarrow> skill_context \<Rightarrow> string \<Rightarrow> nat option \<Rightarrow> new_proposal \<Rightarrow> rat
     \<Rightarrow> action_result io" where
  "run_governed_workflow e c act cx sd token row deadline w =
     then_io (create_proposal e c deadline row w) (\<lambda>(creation, row1) w1.
       if creation \<noteq> ''committed'' then uncommitted e c act cx sd row1 creation w1
       else
         then_io (ask_operator e c token (np_proposal_id row1) w1) (\<lambda>(accepted, console) w2.
         then_io (approval_loop e c act cx row1 token deadline console accepted
                    \<lparr>rs_replies = 0, rs_state_reason = [], rs_operator_response = None, rs_inbound = None\<rparr> w2)
           (\<lambda>(ended, rs) w3.
              case ended of
                Acted res \<Rightarrow> (defer_record (DecisionRecord ''approved'' res) w3, Inr res)
              | _ \<Rightarrow> resolve_undispatched e c act cx sd (np_proposal_id row1) ended rs w3)))"

text \<open>A proposal that is refused before there is one: only the safe default runs.\<close>

definition refuse_proposal ::
  "environment \<Rightarrow> dispatcher_config \<Rightarrow> string \<Rightarrow> skill_context \<Rightarrow> string \<Rightarrow> string \<Rightarrow> string \<Rightarrow> action_result io" where
  "refuse_proposal e c act cx sd why notice w =
     then_io (execute_immediately e c sd ''A'' cx w) (\<lambda>inner w1.
       (let w2 = (if notice = [] then w1 else governed_notify c act cx notice w1);
            res = (unapproved act ''C'' False why (en_now e (w_tick w1)))\<lparr>ar_safe_default_used := ar_executed inner\<rparr>
        in (defer_record (DecisionRecord why res) w2, Inr res)))"

definition proposal_lifetime :: "int \<Rightarrow> int" where
  "proposal_lifetime timeout = max 1 (min timeout MAX_PROPOSAL_LIFETIME_S)"

definition vetted_default :: "string \<Rightarrow> string" where
  "vetted_default sd = (if safe_default_admitted sd None then sd else DEFAULT_SAFE_DEFAULT_ACTION)"

definition proposal_of ::
  "environment \<Rightarrow> string \<Rightarrow> skill_context \<Rightarrow> string \<Rightarrow> string \<Rightarrow> authority_facts \<Rightarrow> string \<times> string \<Rightarrow> int \<Rightarrow> nat
     \<Rightarrow> new_proposal" where
  "proposal_of e act cx sd outcome_name f authority lifetime n =
     \<lparr>np_proposal_id = generate_proposal_id (en_choice e n) 8,
      np_device_id = (case sc_event cx of Some (dev, _) \<Rightarrow> dev | None \<Rightarrow> ''unknown''),
      np_action = act, np_target = resource_of f outcome_name, np_zone_id = fa_zone_id f,
      np_outcome = outcome_name,
      np_event_id = (case sc_event cx of Some (_, ev) \<Rightarrow> ev | None \<Rightarrow> []),
      np_skill_name = sc_skill_name cx, np_trigger_name = sc_trigger_name cx,
      np_safe_default_action = sd, np_binding_digest = snd authority, np_authority_json = fst authority,
      np_created_at_ms = en_now e n, np_expires_at_ms = en_now e n + lifetime * 1000\<rparr>"

definition hold_deadline :: "string \<Rightarrow> rat \<Rightarrow> world \<Rightarrow> world" where
  "hold_deadline pid deadline =
     update_disp (\<lambda>d. d\<lparr>dp_proposal_deadlines := AList.update pid deadline (dp_proposal_deadlines d)\<rparr>)"

definition drop_deadline :: "string \<Rightarrow> world \<Rightarrow> world" where
  "drop_deadline pid =
     update_disp (\<lambda>d. d\<lparr>dp_proposal_deadlines := AList.delete pid (dp_proposal_deadlines d)\<rparr>)"

definition governed_approval_workflow ::
  "environment \<Rightarrow> dispatcher_config \<Rightarrow> string \<Rightarrow> skill_context \<Rightarrow> string \<Rightarrow> int \<Rightarrow> nat option
     \<Rightarrow> action_result io" where
  "governed_approval_workflow e c act cx sd timeout token w =
     (let n = w_tick w; facts = en_facts e n None
      in case authority_now c act facts of
           Inl x \<Rightarrow> (w, Inl x)
         | Inr authority \<Rightarrow>
             (case (facts, governed_outcome act, authority) of
                (Some f, Some outcome_name, Some auth) \<Rightarrow>
                  if dp_recovery_failed (w_disp w) \<noteq> [] then
                    refuse_proposal e c act cx sd ''refused_recovery_incomplete''
                      ''no Tier C proposal can be raised: the runtime could not settle the previous process's proposals at start'' w
                  else if \<not> permits_relay_action c ''C'' (en_now e n div 1000) then
                    refuse_proposal e c act cx sd ''refused_policy'' [] w
                  else
                    (let sd1 = vetted_default sd; lifetime = proposal_lifetime timeout;
                         row = proposal_of e act cx sd1 outcome_name f auth lifetime n;
                         deadline = w_clock w + of_int lifetime
                     in case run_governed_workflow e c act cx sd1 token row deadline
                               (hold_deadline (np_proposal_id row) deadline w) of
                          (w1, x) \<Rightarrow> (drop_deadline (np_proposal_id row) w1, x))
              | _ \<Rightarrow> refuse_proposal e c act cx sd ''refused_uncommissioned'' [] w))"

section \<open>Settling a previous process's proposals\<close>

text \<open>A context for a proposal read back from the store: no skill, and the event its row names.\<close>

definition recovery_context :: "string \<Rightarrow> string \<Rightarrow> string \<Rightarrow> string \<Rightarrow> skill_context" where
  "recovery_context device_id event_id pid trigger_name =
     \<lparr>sc_event = Some (device_id, if event_id \<noteq> [] then event_id else pid), sc_skill_name = [],
      sc_first_party = False, sc_trigger_name = trigger_name\<rparr>"

definition row_context :: "tc_proposal \<Rightarrow> skill_context" where
  "row_context r = recovery_context (tp_device_id r) (tp_event_id r) (tp_proposal_id r) (tp_trigger_name r)"

definition row_default :: "string \<Rightarrow> string" where
  "row_default sd = vetted_default (if sd \<noteq> [] then sd else DEFAULT_SAFE_DEFAULT_ACTION)"

definition underscores_to_blanks :: "string \<Rightarrow> string" where
  "underscores_to_blanks s = map (\<lambda>ch. if ch = CHR ''_'' then CHR '' '' else ch) s"

definition abort_open_proposal ::
  "environment \<Rightarrow> dispatcher_config \<Rightarrow> string \<Rightarrow> tc_proposal \<Rightarrow> unit io" where
  "abort_open_proposal e c reason row w =
     (let pid = tp_proposal_id row; sd = row_default (tp_safe_default_action row)
      in then_io (close_now e c pid PROPOSAL_ABORTED_RESTART [PROPOSED] reason (Some sd) w) (\<lambda>moved w1.
           if \<not> moved then (w1, Inr ())
           else then_io (safe_default_intent e c pid sd (row_context row) reason w1) (\<lambda>_ w2.
             (governed_notify c (tp_action row) (row_context row)
                (''proposal '' @ pid @ '' closed: '' @ underscores_to_blanks reason) w2, Inr ()))))"

fun each_io :: "('a \<Rightarrow> unit io) \<Rightarrow> 'a list \<Rightarrow> unit io" where
  "each_io f [] w = (w, Inr ())"
| "each_io f (x # xs) w = then_io (f x w) (\<lambda>_. each_io f xs)"

definition close_open_proposals :: "environment \<Rightarrow> dispatcher_config \<Rightarrow> string \<Rightarrow> nat io" where
  "close_open_proposals e c reason w =
     (if \<not> dc_store c then (w, Inr 0)
      else then_io (store_read e (\<lambda>db. get_tier_c_proposals db [PROPOSED]) w) (\<lambda>rows w1.
        then_io (each_io (abort_open_proposal e c reason) rows w1) (\<lambda>_ w2. (w2, Inr (length rows)))))"

definition note_uncertain ::
  "dispatcher_config \<Rightarrow> tc_proposal \<Rightarrow> string \<Rightarrow> world \<Rightarrow> world" where
  "note_uncertain c row state w =
     governed_notify c (tp_action row) (row_context row)
       (''approved proposal '' @ tp_proposal_id row @ '' has no recorded outcome after a restart (''
          @ underscores_to_blanks state @ ''); '' @ tp_outcome row @ '' on zone '' @ tp_zone_id row
          @ '' is blocked until an operator reconciles it'')
       (update_disp (\<lambda>d. d\<lparr>dp_uncertain := AList.update (tp_proposal_id row) state (dp_uncertain d)\<rparr>) w)"

text \<open>
  One row of the start: an open proposal is closed, an approval with no outcome is recorded
  uncertain by its marker, and one recorded uncertain before stays so.
\<close>

definition recover_row :: "environment \<Rightarrow> dispatcher_config \<Rightarrow> tc_proposal \<Rightarrow> unit io" where
  "recover_row e c row w =
     (let pid = tp_proposal_id row; state = tp_decision_state row
      in if state = PROPOSED then abort_open_proposal e c ''runtime_restart'' row w
         else if state = APPROVED_PENDING_DISPATCH then
           then_io (store_call e (Advance pid DISPATCH_NOT_PROVEN [APPROVED_PENDING_DISPATCH] ''runtime_restart'' None None) w)
             (\<lambda>_ w1. (note_uncertain c row DISPATCH_NOT_PROVEN w1, Inr ()))
         else if state = DISPATCH_STARTED then
           then_io (store_call e (Advance pid DISPATCH_OUTCOME_UNKNOWN [DISPATCH_STARTED] ''runtime_restart'' None None) w)
             (\<lambda>_ w1. (note_uncertain c row DISPATCH_OUTCOME_UNKNOWN w1, Inr ()))
         else if state \<in> set UNCERTAIN_STATES then (note_uncertain c row state w, Inr ())
         else (w, Inr ()))"

definition resume_intent :: "environment \<Rightarrow> dispatcher_config \<Rightarrow> pending_intent \<Rightarrow> bool io" where
  "resume_intent e c i w =
     then_io (safe_default_intent e c (pi_proposal_id i) (vetted_default (pi_safe_default_action i))
                (recovery_context (pi_device_id i) (pi_event_id i) (pi_proposal_id i) (pi_trigger_name i))
                (if pi_reason i \<noteq> [] then pi_reason i else ''runtime_restart'') w)
       (\<lambda>ran w1. (w1, Inr (ran \<noteq> None)))"

fun resume_intents :: "environment \<Rightarrow> dispatcher_config \<Rightarrow> pending_intent list \<Rightarrow> nat io" where
  "resume_intents e c [] w = (w, Inr 0)"
| "resume_intents e c (i # is) w =
     then_io (resume_intent e c i w) (\<lambda>ran w1.
     then_io (resume_intents e c is w1) (\<lambda>n w2. (w2, Inr (if ran then Suc n else n))))"

definition UNSETTLED_STATES :: "string list" where
  "UNSETTLED_STATES =
     [PROPOSED, APPROVED_PENDING_DISPATCH, DISPATCH_STARTED, DISPATCH_OUTCOME_UNKNOWN, DISPATCH_NOT_PROVEN]"

record recovery_counts =
  rv_aborted_proposals :: nat
  rv_outcome_unknown :: nat
  rv_dispatch_unproven :: nat
  rv_safe_defaults_resumed :: nat

definition count_state :: "string \<Rightarrow> tc_proposal list \<Rightarrow> nat" where
  "count_state s rows = length (filter (\<lambda>r. tp_decision_state r = s) rows)"

definition recover_tier_c_at_start :: "environment \<Rightarrow> dispatcher_config \<Rightarrow> recovery_counts io" where
  "recover_tier_c_at_start e c w =
     (if \<not> dc_store c then
        (w, Inr \<lparr>rv_aborted_proposals = 0, rv_outcome_unknown = 0, rv_dispatch_unproven = 0,
                 rv_safe_defaults_resumed = 0\<rparr>)
      else then_io (store_read e (\<lambda>db. get_tier_c_proposals db UNSETTLED_STATES) w) (\<lambda>rows w1.
        then_io (each_io (recover_row e c) rows w1) (\<lambda>_ w2.
        then_io (store_read e get_pending_tier_c_safe_default_intents w2) (\<lambda>intents w3.
        then_io (resume_intents e c intents w3) (\<lambda>resumed w4.
          (w4, Inr \<lparr>rv_aborted_proposals = count_state PROPOSED rows,
                    rv_outcome_unknown = count_state DISPATCH_STARTED rows,
                    rv_dispatch_unproven = count_state APPROVED_PENDING_DISPATCH rows,
                    rv_safe_defaults_resumed = resumed\<rparr>))))))"

definition mark_tier_c_recovery_failed :: "string \<Rightarrow> dispatcher \<Rightarrow> dispatcher" where
  "mark_tier_c_recovery_failed reason d =
     d\<lparr>dp_recovery_failed := (if reason \<noteq> [] then reason else ''recovery_failed'')\<rparr>"

text \<open>The runtime's start: a recovery that raises fails Tier C closed and not the start.\<close>

definition start_tier_c :: "environment \<Rightarrow> dispatcher_config \<Rightarrow> unit io" where
  "start_tier_c e c w =
     (case recover_tier_c_at_start e c w of
        (w1, Inl Cancelled) \<Rightarrow> (w1, Inl Cancelled)
      | (w1, Inl (Raised x)) \<Rightarrow> (update_disp (mark_tier_c_recovery_failed (x @ '': '')) w1, Inr ())
      | (w1, Inr _) \<Rightarrow> (w1, Inr ()))"

section \<open>Reconciliation\<close>

definition forget_uncertain :: "string \<Rightarrow> world \<Rightarrow> world" where
  "forget_uncertain pid =
     update_disp (\<lambda>d. d\<lparr>dp_uncertain := AList.delete pid (dp_uncertain d),
                        dp_unknown_live := AList.delete pid (dp_unknown_live d)\<rparr>)"

definition note_accepted :: "string option \<Rightarrow> bool" where
  "note_accepted note =
     (case note of
        None \<Rightarrow> True
      | Some t \<Rightarrow> length (utf8 t) \<le> 280
          \<and> list_all (\<lambda>ch. let n = of_char ch :: nat in \<not> (n < 32 \<or> 127 \<le> n \<and> n \<le> 159)) t)"

definition reconcile_answer_of :: "tier_c_answer \<Rightarrow> reconcile_answer" where
  "reconcile_answer_of a = (case a of TCReconcile r \<Rightarrow> r | _ \<Rightarrow> ReconcileError [])"

definition is_reconciled :: "reconcile_answer \<Rightarrow> bool" where
  "is_reconciled r = (case r of Reconciled _ _ \<Rightarrow> True | ReconcileError _ \<Rightarrow> False)"

definition dispatcher_reconcile ::
  "environment \<Rightarrow> dispatcher_config \<Rightarrow> reconcile_request \<Rightarrow> reconcile_answer io" where
  "dispatcher_reconcile e c q w =
     (if rq_outcome q \<notin> {''executed'', ''not-executed''} \<or> rq_reason q \<notin> set RECONCILE_REASONS
          \<or> \<not> note_accepted (rq_note q)
      then (w, Inr (ReconcileError ''invalid_arguments''))
      else if \<not> dc_store c then (w, Inr (ReconcileError ''runtime_store_unavailable''))
      else then_io (store_call e (Reconcile (q\<lparr>rq_source := ''operator_local''\<rparr>)) w) (\<lambda>ans w1.
        (let r = reconcile_answer_of ans
         in (if is_reconciled r then forget_uncertain (rq_proposal_id q) w1 else w1, Inr r))))"

definition feedback_request :: "tc_proposal \<Rightarrow> string \<Rightarrow> bool \<Rightarrow> reconcile_request" where
  "feedback_request row zone_id observed =
     \<lparr>rq_proposal_id = tp_proposal_id row, rq_device_id = tp_device_id row,
      rq_runtime_device_id = tp_device_id row, rq_zone_id = zone_id,
      rq_outcome = (if observed then ''executed'' else ''not-executed''),
      rq_reason = ''actuator_position_observed'', rq_note = None, rq_source = ''commissioned_feedback'',
      rq_entry_point = ''commissioned_feedback'', rq_principal_uid = None, rq_principal_account = None,
      rq_principal_login_uid = None\<rparr>"

definition feedback_one ::
  "environment \<Rightarrow> string \<Rightarrow> bool \<Rightarrow> string \<Rightarrow> bool io" where
  "feedback_one e zone_id observed pid w =
     then_io (store_read e (\<lambda>db. get_tier_c_proposal db pid) w) (\<lambda>found w1.
       case found of
         None \<Rightarrow> (w1, Inr False)
       | Some row \<Rightarrow>
           if tp_zone_id row \<noteq> zone_id then (w1, Inr False)
           else then_io (store_call e (Reconcile (feedback_request row zone_id observed)) w1) (\<lambda>ans w2.
             if is_reconciled (reconcile_answer_of ans) then (forget_uncertain pid w2, Inr True)
             else (w2, Inr False)))"

fun feedback_all ::
  "environment \<Rightarrow> string \<Rightarrow> bool \<Rightarrow> string list \<Rightarrow> string list io" where
  "feedback_all e zone_id observed [] w = (w, Inr [])"
| "feedback_all e zone_id observed (p # ps) w =
     then_io (feedback_one e zone_id observed p w) (\<lambda>done_here w1.
     then_io (feedback_all e zone_id observed ps w1) (\<lambda>rest w2.
       (w2, Inr (if done_here then p # rest else rest))))"

definition reconcile_from_commissioned_feedback ::
  "environment \<Rightarrow> dispatcher_config \<Rightarrow> string \<Rightarrow> bool \<Rightarrow> bool \<Rightarrow> string list io" where
  "reconcile_from_commissioned_feedback e c zone_id observed mapping_proves w =
     (if \<not> mapping_proves \<or> \<not> dc_store c then (w, Inr [])
      else feedback_all e zone_id observed (map fst (dp_uncertain (w_disp w))) w)"

section \<open>What health reads\<close>

record outcome_records =
  or_pending :: nat
  or_outcome_unknown :: nat
  or_dispatch_unproven :: nat
  or_lost :: nat
  or_ceiling :: int
  or_unknown_live :: nat
  or_oldest_pending_age_ms :: "int option"

definition action_records :: "dispatcher \<Rightarrow> rat \<Rightarrow> outcome_records" where
  "action_records d now =
     (let unknown = length (filter (\<lambda>s. s = DISPATCH_OUTCOME_UNKNOWN) (map snd (dp_uncertain d)));
          unproven = length (filter (\<lambda>s. s = DISPATCH_NOT_PROVEN) (map snd (dp_uncertain d)));
          times = map snd (dp_pending_outcomes d)
      in \<lparr>or_pending = length (dp_pending_outcomes d), or_outcome_unknown = unknown,
          or_dispatch_unproven = unproven, or_lost = unknown + unproven, or_ceiling = PENDING_OUTCOME_CEILING,
          or_unknown_live = length (dp_unknown_live d),
          or_oldest_pending_age_ms =
            (if times = [] then None else Some \<lfloor>(now - fold min times (hd times)) * 1000\<rfloor>)\<rparr>)"

definition records_degrade_health :: "dispatcher \<Rightarrow> rat \<Rightarrow> bool" where
  "records_degrade_health d now =
     (let r = action_records d now
      in or_lost r > 0 \<or> or_unknown_live r > 0 \<or> int (or_pending r) \<ge> PENDING_OUTCOME_CEILING
         \<or> dp_recovery_failed d \<noteq> [])"

end
