(* ===== verification/Tier_C_Laws.thy ===== *)
theory Tier_C_Laws
  imports Tier_C_Store
begin

text \<open>
  What the Tier C store promises the dispatcher: it implements the contract's decision
  machine (an abstract map from proposals to decision states whose only steps are the
  contract's transitions), the records of a proposal are the path it took, one unresolved
  approval commands an outcome on a zone at a time, an offline token admits one approval,
  reservations stay under their ceiling, an uncertain dispatch is reconciled once, and a
  proposal has one safe-default obligation.
\<close>

section \<open>The decision machine\<close>

definition DECISION_TRANSITIONS :: "(string \<times> string list) list" where
  "DECISION_TRANSITIONS =
     [(PROPOSED, [APPROVED_PENDING_DISPATCH, PROPOSAL_EXPIRED, REJECTED, PROPOSAL_ABORTED_RESTART,
        APPROVAL_BINDING_CHANGED, PROPOSAL_BLOCKED_UNCERTAIN_OUTCOME]),
      (APPROVED_PENDING_DISPATCH, [DISPATCH_STARTED, APPROVAL_EXPIRED_UNDISPATCHED,
        DISPATCH_REFUSED_CONTENTION, EXECUTED, DISPATCH_FAILED, DISPATCH_OUTCOME_UNKNOWN, DISPATCH_NOT_PROVEN]),
      (DISPATCH_STARTED, [EXECUTED, DISPATCH_FAILED, DISPATCH_OUTCOME_UNKNOWN]),
      (DISPATCH_OUTCOME_UNKNOWN, [RECONCILED_EXECUTED, RECONCILED_NOT_EXECUTED]),
      (DISPATCH_NOT_PROVEN, [RECONCILED_EXECUTED, RECONCILED_NOT_EXECUTED])]"

definition decision_transition :: "string \<Rightarrow> string \<Rightarrow> bool" where
  "decision_transition s s' =
     (case map_of DECISION_TRANSITIONS s of None \<Rightarrow> False | Some ss \<Rightarrow> s' \<in> set ss)"

inductive decision_step :: "(string \<rightharpoonup> string) \<Rightarrow> (string \<rightharpoonup> string) \<Rightarrow> bool" where
  stutter: "decision_step m m"
| propose: "m p = None \<Longrightarrow> decision_step m (m(p \<mapsto> PROPOSED))"
| advance: "m p = Some s \<Longrightarrow> decision_transition s s' \<Longrightarrow> decision_step m (m(p \<mapsto> s'))"

text \<open>The abstraction: what state each proposal of the store is in.\<close>

definition decisions :: "tier_c_db \<Rightarrow> string \<rightharpoonup> string" where
  "decisions db = map_of (map (\<lambda>r. (tp_proposal_id r, tp_decision_state r)) (td_proposals db))"

text \<open>How far along a state is; every transition goes up.\<close>

definition decision_rank :: "string \<Rightarrow> nat" where
  "decision_rank s =
     (if s = PROPOSED then 0 else if s = APPROVED_PENDING_DISPATCH then 1
      else if s = DISPATCH_STARTED then 2
      else if s \<in> {DISPATCH_OUTCOME_UNKNOWN, DISPATCH_NOT_PROVEN} then 3 else 4)"

section \<open>The invariant\<close>

definition trail_ok :: "tier_c_db \<Rightarrow> tc_proposal \<Rightarrow> bool" where
  "trail_ok db r =
     (let t = get_tier_c_proposal_records db (tp_proposal_id r)
      in t \<noteq> [] \<and> hd t = PROPOSED \<and> last t = tp_decision_state r \<and> successively decision_transition t)"

definition keys_inv :: "tier_c_db \<Rightarrow> bool" where
  "keys_inv db =
     (distinct (map tp_proposal_id (td_proposals db)) \<and> (\<forall>r \<in> set (td_proposals db). trail_ok db r)
      \<and> (\<forall>x \<in> set (td_records db). tr_proposal_id x \<in> tp_proposal_id ` set (td_proposals db)))"

definition same_command :: "tc_proposal \<Rightarrow> tc_proposal \<Rightarrow> bool" where
  "same_command r r' = (tp_zone_id r = tp_zone_id r' \<and> tp_outcome r = tp_outcome r')"

definition blocking :: "tc_proposal \<Rightarrow> bool" where
  "blocking r = (tp_decision_state r \<in> set BLOCKING_STATES)"

definition authority_inv :: "tier_c_db \<Rightarrow> bool" where
  "authority_inv db =
     (\<forall>r \<in> set (td_proposals db). \<forall>r' \<in> set (td_proposals db).
        same_command r r' \<and> blocking r \<and> blocking r' \<longrightarrow> r = r')"

definition token_ids :: "tier_c_db \<Rightarrow> string set" where
  "token_ids db = tk_token_id ` set (td_tokens db)"

definition token_inv :: "tier_c_db \<Rightarrow> bool" where
  "token_inv db =
     ((\<forall>r \<in> set (td_proposals db). tp_offline_token_id r = [] \<or> tp_offline_token_id r \<in> token_ids db)
      \<and> (\<forall>r \<in> set (td_proposals db). \<forall>r' \<in> set (td_proposals db).
           tp_offline_token_id r \<noteq> [] \<and> tp_offline_token_id r' = tp_offline_token_id r \<longrightarrow> r = r'))"

definition reconcile_inv :: "tier_c_db \<Rightarrow> bool" where
  "reconcile_inv db =
     (distinct (map rc_proposal_id (td_reconciliations db))
      \<and> (\<forall>c \<in> set (td_reconciliations db).
           decisions db (rc_proposal_id c) = Some (rc_decision_state c)
           \<and> rc_decision_state c \<in> {RECONCILED_EXECUTED, RECONCILED_NOT_EXECUTED}))"

definition intent_inv :: "tier_c_db \<Rightarrow> bool" where
  "intent_inv db = distinct (map ti_proposal_id (td_intents db))"

definition tier_c_inv :: "tier_c_db \<Rightarrow> bool" where
  "tier_c_inv db =
     (keys_inv db \<and> authority_inv db \<and> token_inv db \<and> reconcile_inv db \<and> intent_inv db)"

section \<open>What one call does to the proposals\<close>

text \<open>One row replaced, with the record of the move.\<close>

definition moved :: "tier_c_db \<Rightarrow> tier_c_db \<Rightarrow> tc_proposal \<Rightarrow> tc_proposal \<Rightarrow> bool" where
  "moved db db' r0 r1 =
     ((\<exists>ps qs. td_proposals db = ps @ r0 # qs \<and> td_proposals db' = ps @ r1 # qs)
      \<and> tp_proposal_id r1 = tp_proposal_id r0 \<and> same_command r0 r1
      \<and> (\<exists>x. td_records db' = td_records db @ [x] \<and> tr_proposal_id x = tp_proposal_id r0
             \<and> tr_decision_state x = tp_decision_state r1))"

inductive proposal_step :: "tier_c_db \<Rightarrow> tier_c_db \<Rightarrow> bool" where
  same:
    "td_proposals db' = td_proposals db \<Longrightarrow> td_records db' = td_records db
     \<Longrightarrow> td_reconciliations db' = td_reconciliations db \<Longrightarrow> token_ids db \<subseteq> token_ids db'
     \<Longrightarrow> proposal_step db db'"
| created:
    "td_proposals db' = td_proposals db @ [r] \<Longrightarrow> tp_proposal_id r \<notin> tp_proposal_id ` set (td_proposals db)
     \<Longrightarrow> tp_decision_state r = PROPOSED \<Longrightarrow> tp_offline_token_id r = []
     \<Longrightarrow> td_records db' = td_records db @ [x] \<Longrightarrow> tr_proposal_id x = tp_proposal_id r
     \<Longrightarrow> tr_decision_state x = PROPOSED
     \<Longrightarrow> td_reconciliations db' = td_reconciliations db \<Longrightarrow> token_ids db \<subseteq> token_ids db'
     \<Longrightarrow> proposal_step db db'"
| approved:
    "moved db db' r0 r1 \<Longrightarrow> tp_decision_state r0 = PROPOSED
     \<Longrightarrow> tp_decision_state r1 = APPROVED_PENDING_DISPATCH
     \<Longrightarrow> \<forall>r \<in> set (td_proposals db). same_command r r0 \<and> blocking r \<longrightarrow> r = r0
     \<Longrightarrow> tp_offline_token_id r1 = [] \<or> tp_offline_token_id r1 \<in> token_ids db' - token_ids db
     \<Longrightarrow> td_reconciliations db' = td_reconciliations db \<Longrightarrow> token_ids db \<subseteq> token_ids db'
     \<Longrightarrow> proposal_step db db'"
| forward:
    "moved db db' r0 r1 \<Longrightarrow> decision_transition (tp_decision_state r0) (tp_decision_state r1)
     \<Longrightarrow> tp_decision_state r1 \<noteq> APPROVED_PENDING_DISPATCH
     \<Longrightarrow> tp_offline_token_id r1 = tp_offline_token_id r0
     \<Longrightarrow> td_reconciliations db' = td_reconciliations db \<Longrightarrow> token_ids db \<subseteq> token_ids db'
     \<Longrightarrow> proposal_step db db'"
| reconciled:
    "moved db db' r0 r1 \<Longrightarrow> decision_transition (tp_decision_state r0) (tp_decision_state r1)
     \<Longrightarrow> tp_decision_state r1 \<in> {RECONCILED_EXECUTED, RECONCILED_NOT_EXECUTED}
     \<Longrightarrow> tp_offline_token_id r1 = tp_offline_token_id r0
     \<Longrightarrow> td_reconciliations db' = td_reconciliations db @ [c] \<Longrightarrow> rc_proposal_id c = tp_proposal_id r0
     \<Longrightarrow> rc_decision_state c = tp_decision_state r1
     \<Longrightarrow> rc_proposal_id c \<notin> rc_proposal_id ` set (td_reconciliations db)
     \<Longrightarrow> token_ids db \<subseteq> token_ids db'
     \<Longrightarrow> proposal_step db db'"

text \<open>When an affirmative reply becomes an approval, and what it commits then.\<close>

definition approval_db :: "tier_c_db \<Rightarrow> tc_proposal \<Rightarrow> ingress \<Rightarrow> int \<Rightarrow> tier_c_db" where
  "approval_db db row ig now =
     append_tier_c_record
       (update_where (\<lambda>r. tp_proposal_id r = tp_proposal_id row \<and> tp_decision_state r = PROPOSED) (approve_row ig now)
          (if ig_offline_token_id ig = [] then db
           else fst (claim_token db (ig_offline_token_id ig) (tp_device_id row) (tp_action row) now)))
       (tp_proposal_id row) APPROVED_PENDING_DISPATCH [] now"

definition admissible :: "tier_c_db \<Rightarrow> tc_proposal \<Rightarrow> string \<Rightarrow> string \<Rightarrow> int \<Rightarrow> string \<Rightarrow> bool" where
  "admissible db row b a c token =
     (tp_decision_state row = PROPOSED \<and> tp_binding_digest row = b \<and> tp_authority_json row = a
      \<and> \<not> (\<exists>r \<in> set (td_proposals db). same_command r row \<and> blocking r \<and> tp_proposal_id r \<noteq> tp_proposal_id row)
      \<and> int (reserved_count db) < c \<and> (token = [] \<or> token \<notin> token_ids db))"

text \<open>Every admission of a run asks for the same reservation ceiling.\<close>

fun uses_ceiling :: "int \<Rightarrow> tier_c_op \<times> bool \<Rightarrow> bool" where
  "uses_ceiling k (AdmitApproval pid b a c ig now, f) = (c = k)"
| "uses_ceiling k x = True"

text \<open>A proposal's safe-default obligation: its intent, whatever was reported of it.\<close>

definition obliged :: "tier_c_db \<Rightarrow> string \<Rightarrow> string \<Rightarrow> bool" where
  "obliged db pid act = list_ex (\<lambda>i. ti_proposal_id i = pid \<and> ti_action i = act) (td_intents db)"

text \<open>What a call does to the intents: nothing, one new proposal's intent, or a report on one.\<close>

definition intent_step :: "tc_intent list \<Rightarrow> tc_intent list \<Rightarrow> bool" where
  "intent_step xs ys =
     (ys = xs \<or> (\<exists>i. ys = xs @ [i] \<and> ti_proposal_id i \<notin> ti_proposal_id ` set xs)
      \<or> (\<exists>pid out now. ys = map (mark_intent pid out now) xs))"

section \<open>Example inputs\<close>

definition example_new :: new_proposal where
  "example_new =
     \<lparr>np_proposal_id = ''p1'', np_device_id = ''dev'', np_action = ''trip_relay'', np_target = [],
      np_zone_id = ''z1'', np_outcome = ''open_protected_circuit'', np_event_id = [], np_skill_name = [],
      np_trigger_name = [], np_safe_default_action = ''alert_sms'', np_binding_digest = ''b'',
      np_authority_json = ''a'', np_created_at_ms = 1000, np_expires_at_ms = 61000\<rparr>"

definition example_ingress :: ingress where
  "example_ingress =
     \<lparr>ig_channel = ''local_console'', ig_from = ''op'', ig_message_id = [], ig_operator_response = ''YES'',
      ig_offline_token_id = ''t1''\<rparr>"

definition example_calls :: "(tier_c_op \<times> bool) list" where
  "example_calls =
     [(CreateProposal example_new 1000, True),
      (AdmitApproval ''p1'' ''b'' ''a'' 4 example_ingress 2000, False),
      (AdmitApproval ''p1'' ''b'' ''a'' 4 example_ingress 2500, True),
      (Advance ''p1'' DISPATCH_STARTED [APPROVED_PENDING_DISPATCH] [] None None 2600, True),
      (Advance ''p1'' DISPATCH_OUTCOME_UNKNOWN [APPROVED_PENDING_DISPATCH, DISPATCH_STARTED] [] None None 2700, True)]"

definition example_reconcile :: reconcile_request where
  "example_reconcile =
     \<lparr>rq_proposal_id = ''p1'', rq_device_id = ''dev'', rq_runtime_device_id = ''dev'', rq_zone_id = ''z1'',
      rq_outcome = ''executed'', rq_reason = ''site_inspection'', rq_note = None, rq_source = ''operator_local'',
      rq_entry_point = ''local_operator_socket'', rq_principal_uid = Some 1000, rq_principal_account = None,
      rq_principal_login_uid = None\<rparr>"

section \<open>Lemmas\<close>

lemma find_key_Some:
  "List.find (\<lambda>r. key r = k) rs = Some r \<Longrightarrow> r \<in> set rs \<and> key r = k"
  by (auto simp: find_Some_iff)

lemma find_key_None: "List.find (\<lambda>r. key r = k) rs = None \<longleftrightarrow> k \<notin> key ` set rs"
  by (auto simp: find_None_iff)

lemma get_proposal_Some:
    "get_tier_c_proposal db pid = Some r \<Longrightarrow> r \<in> set (td_proposals db) \<and> tp_proposal_id r = pid"
  and get_proposal_None: "get_tier_c_proposal db pid = None \<longleftrightarrow> pid \<notin> tp_proposal_id ` set (td_proposals db)"
  unfolding get_tier_c_proposal_def by (rule find_key_Some, assumption) (rule find_key_None)

lemma get_reconciliation_Some:
    "get_reconciliation db pid = Some r \<Longrightarrow> r \<in> set (td_reconciliations db) \<and> rc_proposal_id r = pid"
  and get_reconciliation_None:
    "get_reconciliation db pid = None \<longleftrightarrow> pid \<notin> rc_proposal_id ` set (td_reconciliations db)"
  unfolding get_reconciliation_def by (rule find_key_Some, assumption) (rule find_key_None)

lemma get_intent_Some:
    "get_tier_c_intent db pid = Some r \<Longrightarrow> r \<in> set (td_intents db) \<and> ti_proposal_id r = pid"
  and get_intent_None: "get_tier_c_intent db pid = None \<longleftrightarrow> pid \<notin> ti_proposal_id ` set (td_intents db)"
  unfolding get_tier_c_intent_def by (rule find_key_Some, assumption) (rule find_key_None)

text \<open>A conditional update of one primary key replaces one row, or nothing.\<close>

lemma map_update_key:
  assumes "distinct (map tp_proposal_id rs)" and "r \<in> set rs" and "sel r"
    and "\<And>x. sel x \<Longrightarrow> tp_proposal_id x = tp_proposal_id r"
  shows "\<exists>ps qs. rs = ps @ r # qs \<and> map (\<lambda>x. if sel x then f x else x) rs = ps @ f r # qs"
proof -
  from assms(2) obtain ps qs where rs: "rs = ps @ r # qs" by (meson split_list)
  with assms(1,4) have "\<forall>x \<in> set ps \<union> set qs. \<not> sel x" by (auto simp: image_iff)
  then have "map (\<lambda>x. if sel x then f x else x) rs = ps @ f r # qs"
    using rs assms(3) by (simp add: map_idI)
  with rs show ?thesis by blast
qed

lemma map_update_none: "(\<And>x. x \<in> set rs \<Longrightarrow> \<not> sel x) \<Longrightarrow> map (\<lambda>x. if sel x then f x else x) rs = rs"
  by (simp add: map_idI)

lemma decision_transition_states:
  "decision_transition s s' \<Longrightarrow> decision_rank s < decision_rank s'"
  "decision_transition s s' \<Longrightarrow> s \<notin> {RECONCILED_EXECUTED, RECONCILED_NOT_EXECUTED}"
  "decision_transition s s' \<Longrightarrow> s' \<in> set BLOCKING_STATES \<Longrightarrow> s' \<noteq> APPROVED_PENDING_DISPATCH
     \<Longrightarrow> s \<in> set BLOCKING_STATES"
  by (auto simp: decision_transition_def DECISION_TRANSITIONS_def decision_rank_def BLOCKING_STATES_def
      split: if_splits option.splits)

subsection \<open>Steps keep the invariant\<close>

lemma moved_facts:
  assumes "keys_inv db" and "moved db db' r0 r1"
  shows "r0 \<in> set (td_proposals db)"
    and "set (td_proposals db') = insert r1 (set (td_proposals db) - {r0})"
    and "map tp_proposal_id (td_proposals db') = map tp_proposal_id (td_proposals db)"
    and "decisions db' = (decisions db)(tp_proposal_id r0 \<mapsto> tp_decision_state r1)"
    and "decisions db (tp_proposal_id r0) = Some (tp_decision_state r0)"
    and "\<And>r. r \<in> set (td_proposals db) \<Longrightarrow> tp_proposal_id r = tp_proposal_id r0 \<Longrightarrow> r = r0"
    and "get_tier_c_proposal_records db' pid
           = get_tier_c_proposal_records db pid @ (if pid = tp_proposal_id r0 then [tp_decision_state r1] else [])"
proof -
  from assms(2) obtain ps qs x where P: "td_proposals db = ps @ r0 # qs" "td_proposals db' = ps @ r1 # qs"
    and id: "tp_proposal_id r1 = tp_proposal_id r0"
    and x: "td_records db' = td_records db @ [x]" "tr_proposal_id x = tp_proposal_id r0"
      "tr_decision_state x = tp_decision_state r1"
    unfolding moved_def by blast
  from assms(1) have dist: "distinct (map tp_proposal_id (td_proposals db))" by (simp add: keys_inv_def)
  show "r0 \<in> set (td_proposals db)" using P by simp
  show "set (td_proposals db') = insert r1 (set (td_proposals db) - {r0})" using P dist by auto
  show "map tp_proposal_id (td_proposals db') = map tp_proposal_id (td_proposals db)" using P id by simp
  show "decisions db (tp_proposal_id r0) = Some (tp_decision_state r0)"
    unfolding decisions_def using dist P(1)
    by (intro map_of_is_SomeI) (auto simp: comp_def)
  show "r = r0" if "r \<in> set (td_proposals db)" "tp_proposal_id r = tp_proposal_id r0" for r
    using that P(1) dist by (auto simp: image_iff)
  show "get_tier_c_proposal_records db' pid
      = get_tier_c_proposal_records db pid @ (if pid = tp_proposal_id r0 then [tp_decision_state r1] else [])"
    using x by (simp add: get_tier_c_proposal_records_def)
  have "tp_proposal_id r0 \<notin> tp_proposal_id ` set ps" using dist P(1) by auto
  then have "map_of (map (\<lambda>r. (tp_proposal_id r, tp_decision_state r)) ps) (tp_proposal_id r0) = None"
    by (auto simp: map_of_eq_None_iff image_image)
  then show "decisions db' = (decisions db)(tp_proposal_id r0 \<mapsto> tp_decision_state r1)"
    by (auto simp: decisions_def P id fun_eq_iff map_add_def split: option.split)
qed

lemma moved_keys:
  assumes inv: "keys_inv db" and mv: "moved db db' r0 r1"
    and tr: "decision_transition (tp_decision_state r0) (tp_decision_state r1)"
  shows "keys_inv db'"
proof -
  note f = moved_facts [OF inv mv]
  from mv have id: "tp_proposal_id r1 = tp_proposal_id r0" by (simp add: moved_def)
  from mv obtain x where x: "td_records db' = td_records db @ [x]" "tr_proposal_id x = tp_proposal_id r0"
    unfolding moved_def by blast
  have "trail_ok db' r" if "r \<in> set (td_proposals db')" for r
  proof (cases "r = r1")
    case True
    from inv f(1) have "trail_ok db r0" by (simp add: keys_inv_def)
    with True tr id show ?thesis
      by (auto simp: trail_ok_def f(7) Let_def hd_append successively_append_iff)
  next
    case False
    with that f(2) have r: "r \<in> set (td_proposals db)" "r \<noteq> r0" by auto
    with f(6) have "tp_proposal_id r \<noteq> tp_proposal_id r0" by blast
    moreover from r inv have "trail_ok db r" by (simp add: keys_inv_def)
    ultimately show ?thesis by (simp add: trail_ok_def f(7))
  qed
  moreover have "tp_proposal_id ` set (td_proposals db') = tp_proposal_id ` set (td_proposals db)"
    using f(3) by (metis list.set_map)
  ultimately show ?thesis
    using inv f(1) by (auto simp: keys_inv_def f(3) x)
qed

lemma created_keys:
  assumes inv: "keys_inv db" and P: "td_proposals db' = td_proposals db @ [r]"
    and new: "tp_proposal_id r \<notin> tp_proposal_id ` set (td_proposals db)"
    and st: "tp_decision_state r = PROPOSED" and R: "td_records db' = td_records db @ [x]"
    and x: "tr_proposal_id x = tp_proposal_id r" "tr_decision_state x = PROPOSED"
  shows "keys_inv db'" and "decisions db' = (decisions db)(tp_proposal_id r \<mapsto> PROPOSED)"
    and "decisions db (tp_proposal_id r) = None"
proof -
  have trail: "get_tier_c_proposal_records db' pid
      = get_tier_c_proposal_records db pid @ (if pid = tp_proposal_id r then [PROPOSED] else [])" for pid
    by (simp add: get_tier_c_proposal_records_def R x)
  have "\<forall>x \<in> set (td_records db). tr_proposal_id x \<noteq> tp_proposal_id r"
    using inv new unfolding keys_inv_def by metis
  then have "get_tier_c_proposal_records db (tp_proposal_id r) = []"
    by (simp add: get_tier_c_proposal_records_def filter_empty_conv)
  then have "trail_ok db' r" by (simp add: trail_ok_def trail st)
  moreover have "trail_ok db' q" if q: "q \<in> set (td_proposals db)" for q
  proof -
    have "tp_proposal_id q \<noteq> tp_proposal_id r" using q new by (metis imageI)
    moreover have "trail_ok db q" using q inv by (simp add: keys_inv_def)
    ultimately show ?thesis by (simp add: trail_ok_def trail)
  qed
  ultimately show "keys_inv db'"
    using inv new by (auto simp: keys_inv_def P R x)
  show none: "decisions db (tp_proposal_id r) = None"
    using new by (auto simp: decisions_def map_of_eq_None_iff image_image)
  then show "decisions db' = (decisions db)(tp_proposal_id r \<mapsto> PROPOSED)"
    by (auto simp: decisions_def P st fun_eq_iff map_add_def split: option.split)
qed

lemma approved_transition: "decision_transition PROPOSED APPROVED_PENDING_DISPATCH"
  by (simp add: decision_transition_def DECISION_TRANSITIONS_def)

lemma step_refines:
  assumes "keys_inv db" and "proposal_step db db'"
  shows "keys_inv db' \<and> decision_step (decisions db) (decisions db')"
  using assms(2,1)
proof (cases rule: proposal_step.cases)
  case same
  then have "keys_inv db' = keys_inv db" and "decisions db' = decisions db"
    by (auto simp: keys_inv_def trail_ok_def get_tier_c_proposal_records_def decisions_def)
  with assms(1) show ?thesis by (simp add: decision_step.stutter)
next
  case (created r x)
  note c = created_keys [OF assms(1) created(1-3,5-7)]
  then show ?thesis using decision_step.propose [of "decisions db" "tp_proposal_id r"] by simp
next
  case (approved r0 r1)
  note f = moved_facts [OF assms(1) approved(1)]
  show ?thesis
    using moved_keys [OF assms(1) approved(1)] approved(2,3) approved_transition
      decision_step.advance [where m = "decisions db", OF f(5), of "tp_decision_state r1"] by (simp add: f(4))
next
  case (forward r0 r1)
  note f = moved_facts [OF assms(1) forward(1)]
  show ?thesis
    using moved_keys [OF assms(1) forward(1,2)] decision_step.advance [where m = "decisions db", OF f(5) forward(2)] by (simp add: f(4))
next
  case (reconciled r0 r1 c)
  note f = moved_facts [OF assms(1) reconciled(1)]
  show ?thesis
    using moved_keys [OF assms(1) reconciled(1,2)] decision_step.advance [where m = "decisions db", OF f(5) reconciled(2)] by (simp add: f(4))
qed

lemma step_authority:
  assumes "keys_inv db" and "authority_inv db" and "proposal_step db db'"
  shows "authority_inv db'"
proof -
  have replaced: "authority_inv db'" if mv: "moved db db' r0 r1"
    and alone: "blocking r1 \<Longrightarrow> \<forall>r \<in> set (td_proposals db). same_command r r0 \<and> blocking r \<longrightarrow> r = r0"
    for r0 r1
  proof -
    note f = moved_facts [OF assms(1) mv]
    from mv have "same_command r0 r1" by (simp add: moved_def)
    with alone assms(2) show ?thesis
      unfolding authority_inv_def f(2) same_command_def by auto
  qed
  from assms(3) show ?thesis
  proof (cases rule: proposal_step.cases)
    case same
    with assms(2) show ?thesis by (simp add: authority_inv_def)
  next
    case (created r x)
    then have "\<not> blocking r" by (simp add: blocking_def BLOCKING_STATES_def)
    with created(1) assms(2) show ?thesis by (auto simp: authority_inv_def)
  next
    case (approved r0 r1)
    then show ?thesis using replaced by blast
  next
    case (forward r0 r1)
    note f = moved_facts [OF assms(1) forward(1)]
    have "blocking r0" if "blocking r1"
      using that decision_transition_states(3) [OF forward(2)] forward(3) by (simp add: blocking_def)
    then show ?thesis
      using assms(2) f(1) by (intro replaced [OF forward(1)]) (auto simp: authority_inv_def)
  next
    case (reconciled r0 r1 c)
    then have "\<not> blocking r1" by (auto simp: blocking_def BLOCKING_STATES_def)
    then show ?thesis using replaced [OF reconciled(1)] by blast
  qed
qed

lemma step_tokens:
  assumes "keys_inv db" and "token_inv db" and "proposal_step db db'"
  shows "token_inv db'"
proof -
  have replaced: "token_inv db'" if mv: "moved db db' r0 r1" and mono: "token_ids db \<subseteq> token_ids db'"
    and fresh: "tp_offline_token_id r1 = tp_offline_token_id r0 \<or> tp_offline_token_id r1 = []
      \<or> tp_offline_token_id r1 \<in> token_ids db' - token_ids db" for r0 r1
  proof -
    note f = moved_facts [OF assms(1) mv]
    from assms(2) have here: "tp_offline_token_id r = [] \<or> tp_offline_token_id r \<in> token_ids db"
      if "r \<in> set (td_proposals db)" for r
      using that by (simp add: token_inv_def)
    have one: "r = r0" if "r \<in> set (td_proposals db)" "tp_offline_token_id r1 \<noteq> []"
      "tp_offline_token_id r = tp_offline_token_id r1" for r
      using that fresh here [of r] f(1) assms(2) by (auto simp: token_inv_def)
    have two: "r = r'" if "r \<in> set (td_proposals db)" "r' \<in> set (td_proposals db)"
      "tp_offline_token_id r \<noteq> []" "tp_offline_token_id r' = tp_offline_token_id r" for r r'
      using that assms(2) by (simp add: token_inv_def)
    have "tp_offline_token_id r = [] \<or> tp_offline_token_id r \<in> token_ids db'"
      if "r \<in> set (td_proposals db')" for r
      using that here [of r] here [OF f(1)] mono fresh unfolding f(2) by auto
    moreover have "r = r'" if "r \<in> set (td_proposals db')" "r' \<in> set (td_proposals db')"
      "tp_offline_token_id r \<noteq> []" "tp_offline_token_id r' = tp_offline_token_id r" for r r'
      using that one [of r] one [of r'] two [of r r'] unfolding f(2) by (metis Diff_iff insert_iff singletonI)
    ultimately show ?thesis by (simp add: token_inv_def)
  qed
  from assms(3) show ?thesis
  proof (cases rule: proposal_step.cases)
    case same
    with assms(2) show ?thesis by (auto simp: token_inv_def)
  next
    case (created r x)
    with assms(2) show ?thesis by (auto simp: token_inv_def)
  next
    case (approved r0 r1)
    then show ?thesis using replaced by blast
  next
    case (forward r0 r1)
    then show ?thesis using replaced by blast
  next
    case (reconciled r0 r1 c)
    then show ?thesis using replaced by blast
  qed
qed

lemma step_reconciled:
  assumes "keys_inv db" and "reconcile_inv db" and "proposal_step db db'"
  shows "reconcile_inv db'"
proof -
  have kept: "decisions db' (rc_proposal_id c) = Some (rc_decision_state c)"
    if mv: "moved db db' r0 r1" and tr: "decision_transition (tp_decision_state r0) (tp_decision_state r1)"
      and c: "c \<in> set (td_reconciliations db)" for r0 r1 c
  proof -
    note f = moved_facts [OF assms(1) mv]
    from assms(2) c have "decisions db (rc_proposal_id c) = Some (rc_decision_state c)"
      "rc_decision_state c \<in> {RECONCILED_EXECUTED, RECONCILED_NOT_EXECUTED}" by (auto simp: reconcile_inv_def)
    moreover from this have "rc_proposal_id c \<noteq> tp_proposal_id r0"
      using decision_transition_states(2) [OF tr] f(5) by auto
    ultimately show ?thesis by (simp add: f(4))
  qed
  from assms(3) show ?thesis
  proof (cases rule: proposal_step.cases)
    case same
    with assms(2) show ?thesis by (simp add: reconcile_inv_def decisions_def)
  next
    case (created r x)
    note c = created_keys [OF assms(1) created(1-3,5-7)]
    from assms(2) created(8) c(3) show ?thesis by (auto simp: reconcile_inv_def c(2))
  next
    case (approved r0 r1)
    then have "decision_transition (tp_decision_state r0) (tp_decision_state r1)"
      using approved_transition by simp
    with approved assms(2) show ?thesis using kept [OF approved(1)] by (simp add: reconcile_inv_def)
  next
    case (forward r0 r1)
    then show ?thesis using kept [OF forward(1,2)] assms(2) by (simp add: reconcile_inv_def)
  next
    case (reconciled r0 r1 c)
    note f = moved_facts [OF assms(1) reconciled(1)]
    have "decisions db' (rc_proposal_id c) = Some (rc_decision_state c)"
      using reconciled(6,7) by (simp add: f(4))
    then show ?thesis
      using kept [OF reconciled(1,2)] assms(2) reconciled(3,5,7,8) by (auto simp: reconcile_inv_def)
  qed
qed

subsection \<open>Every call is a step\<close>

lemma write_frames [simp]:
  "td_proposals (append_tier_c_record db pid st reason now) = td_proposals db"
  "td_intents (append_tier_c_record db pid st reason now) = td_intents db"
  "td_reconciliations (append_tier_c_record db pid st reason now) = td_reconciliations db"
  "td_tokens (append_tier_c_record db pid st reason now) = td_tokens db"
  "td_attempts (append_tier_c_record db pid st reason now) = td_attempts db"
  "td_records (update_where sel f db) = td_records db"
  "td_intents (update_where sel f db) = td_intents db"
  "td_reconciliations (update_where sel f db) = td_reconciliations db"
  "td_tokens (update_where sel f db) = td_tokens db"
  "td_attempts (update_where sel f db) = td_attempts db"
  "td_proposals (fst (insert_tier_c_intent db pid act reason now)) = td_proposals db"
  "td_records (fst (insert_tier_c_intent db pid act reason now)) = td_records db"
  "td_reconciliations (fst (insert_tier_c_intent db pid act reason now)) = td_reconciliations db"
  "td_tokens (fst (insert_tier_c_intent db pid act reason now)) = td_tokens db"
  "td_proposals (fst (claim_token db t d act now)) = td_proposals db"
  "td_records (fst (claim_token db t d act now)) = td_records db"
  "td_reconciliations (fst (claim_token db t d act now)) = td_reconciliations db"
  "td_intents (fst (claim_token db t d act now)) = td_intents db"
  by (simp_all add: append_tier_c_record_def update_where_def insert_tier_c_intent_def claim_token_def)

lemma set_state_sel [simp]:
  "tp_proposal_id (set_state st reason j now r) = tp_proposal_id r"
  "tp_decision_state (set_state st reason j now r) = st"
  "tp_offline_token_id (set_state st reason j now r) = tp_offline_token_id r"
  "same_command r (set_state st reason j now r)"
  by (simp_all add: set_state_def same_command_def)

lemma approve_row_sel [simp]:
  "tp_proposal_id (approve_row ig now r) = tp_proposal_id r"
  "tp_decision_state (approve_row ig now r) = APPROVED_PENDING_DISPATCH"
  "tp_offline_token_id (approve_row ig now r) = ig_offline_token_id ig"
  "same_command r (approve_row ig now r)"
  by (simp_all add: approve_row_def same_command_def)

lemma moved_updateI:
  assumes "keys_inv db" and "r \<in> set (td_proposals db)" and "sel r"
    and "\<And>x. sel x \<Longrightarrow> tp_proposal_id x = tp_proposal_id r"
    and "td_proposals d = td_proposals db" and "td_records d = td_records db"
    and "tp_proposal_id (f r) = tp_proposal_id r" and "same_command r (f r)"
    and "td_proposals db' = td_proposals (update_where sel f d)"
    and "td_records db' = td_records (append_tier_c_record d (tp_proposal_id r) (tp_decision_state (f r)) reason now)"
  shows "moved db db' r (f r)"
proof -
  from assms(1) have "distinct (map tp_proposal_id (td_proposals db))" by (simp add: keys_inv_def)
  from map_update_key [of "td_proposals db" r sel f, OF this assms(2-4)] show ?thesis
    using assms(5-10) by (simp add: moved_def update_where_def append_tier_c_record_def)
qed

lemma step_create:
  assumes "keys_inv db"
  shows "proposal_step db (fst (create_tier_c_proposal db n now))"
proof (cases "tier_c_outcome_blocked db (np_zone_id n) (np_outcome n) None False
    \<or> get_tier_c_proposal db (np_proposal_id n) \<noteq> None")
  case True
  then have "fst (create_tier_c_proposal db n now) = db" by (auto simp: create_tier_c_proposal_def)
  then show ?thesis by (simp add: proposal_step.same)
next
  case False
  then show ?thesis
    by (intro proposal_step.created [where r = "proposal_row n now"])
       (auto simp: create_tier_c_proposal_def get_proposal_None proposal_row_def append_tier_c_record_def token_ids_def)
qed

lemma step_close:
  assumes "keys_inv db" and "row \<in> set (td_proposals db)" and "tp_decision_state row = PROPOSED"
    and "st \<in> {APPROVAL_BINDING_CHANGED, PROPOSAL_BLOCKED_UNCERTAIN_OUTCOME}"
  shows "proposal_step db (close_at_admission db row st now)"
proof (rule proposal_step.forward)
  show "moved db (close_at_admission db row st now) row (set_state st [] None now row)"
    by (rule moved_updateI [where d = db and sel = "\<lambda>r. tp_proposal_id r = tp_proposal_id row"])
       (use assms in \<open>auto simp: close_at_admission_def move_tier_c_def append_tier_c_record_def update_where_def\<close>)
qed (use assms in \<open>auto simp: decision_transition_def DECISION_TRANSITIONS_def close_at_admission_def
      move_tier_c_def token_ids_def\<close>)

lemma outcome_blocked_iff:
  "tier_c_outcome_blocked db z out (Some pid) True \<longleftrightarrow>
     (\<exists>r \<in> set (td_proposals db). tp_zone_id r = z \<and> tp_outcome r = out \<and> blocking r \<and> tp_proposal_id r \<noteq> pid)"
  by (auto simp: tier_c_outcome_blocked_def list_ex_iff blocking_def BLOCKING_STATES_def)

lemma admit_cases:
  assumes "get_tier_c_proposal db pid = Some row"
  shows "admit_tier_c_approval db pid b a c ig now =
    (if admissible db row b a c (ig_offline_token_id ig) then (approval_db db row ig now, ''committed'')
     else if tp_decision_state row = PROPOSED \<and> (tp_binding_digest row \<noteq> b \<or> tp_authority_json row \<noteq> a)
       then (close_at_admission db row APPROVAL_BINDING_CHANGED now, ''binding_changed'')
     else if tp_decision_state row = PROPOSED
         \<and> (\<exists>r \<in> set (td_proposals db). same_command r row \<and> blocking r \<and> tp_proposal_id r \<noteq> tp_proposal_id row)
       then (close_at_admission db row PROPOSAL_BLOCKED_UNCERTAIN_OUTCOME now, ''blocked'')
     else (db, if tp_decision_state row = PROPOSED
                 then if int (reserved_count db) \<ge> c then ''reservation_unavailable'' else ''token_replayed''
               else if tp_decision_state row \<in> set ADMITTED_STATES then ''duplicate''
               else ''closed:'' @ tp_decision_state row))"
proof -
  from get_proposal_Some [OF assms] have pid: "tp_proposal_id row = pid" by simp
  have blk: "tier_c_outcome_blocked db (tp_zone_id row) (tp_outcome row) (Some pid) True
      = (\<exists>r \<in> set (td_proposals db). same_command r row \<and> blocking r \<and> tp_proposal_id r \<noteq> tp_proposal_id row)"
    by (auto simp: outcome_blocked_iff same_command_def pid)
  have tok: "snd (claim_token db t d act now) = (t \<notin> token_ids db)" for t d act
    by (auto simp: claim_token_def token_ids_def list_ex_iff)
  have adm: "tp_decision_state row \<in> {''approved_pending_dispatch'', ''dispatch_started'', ''executed'',
      ''approval_expired_undispatched'', ''approval_aborted_undispatched'', ''dispatch_refused_contention'',
      ''dispatch_failed'', ''dispatch_outcome_unknown'', ''dispatch_not_proven'', ''reconciled_executed'',
      ''reconciled_not_executed''} \<longleftrightarrow> tp_decision_state row \<in> set ADMITTED_STATES"
    by (simp add: ADMITTED_STATES_def)
  show ?thesis
    unfolding admit_tier_c_approval_def assms option.case blk adm
    by (auto simp: admissible_def approval_db_def pid tok case_prod_unfold Let_def)
qed

lemma claim_token_ids: "token_ids (fst (claim_token db t d act now)) = insert t (token_ids db)"
  by (auto simp: claim_token_def token_ids_def list_ex_iff)

lemma approval_step:
  assumes inv: "keys_inv db" and row: "row \<in> set (td_proposals db)"
    and adm: "admissible db row b a c (ig_offline_token_id ig)"
  shows "proposal_step db (approval_db db row ig now)"
proof (rule proposal_step.approved)
  let ?d = "if ig_offline_token_id ig = [] then db
    else fst (claim_token db (ig_offline_token_id ig) (tp_device_id row) (tp_action row) now)"
  show "moved db (approval_db db row ig now) row (approve_row ig now row)"
    by (rule moved_updateI [where d = ?d
          and sel = "\<lambda>r. tp_proposal_id r = tp_proposal_id row \<and> tp_decision_state r = PROPOSED"])
       (use inv row adm in \<open>auto simp: approval_db_def admissible_def append_tier_c_record_def\<close>)
  show "\<forall>r \<in> set (td_proposals db). same_command r row \<and> blocking r \<longrightarrow> r = row"
  proof (intro ballI impI)
    fix r assume r: "r \<in> set (td_proposals db)" "same_command r row \<and> blocking r"
    with adm have "tp_proposal_id r = tp_proposal_id row" by (auto simp: admissible_def)
    with inv row r(1) show "r = row" unfolding keys_inv_def distinct_map by (auto dest: inj_onD)
  qed
  have ids: "token_ids (approval_db db row ig now)
      = (if ig_offline_token_id ig = [] then token_ids db else insert (ig_offline_token_id ig) (token_ids db))"
    by (simp add: approval_db_def token_ids_def claim_token_ids [unfolded token_ids_def])
  show "token_ids db \<subseteq> token_ids (approval_db db row ig now)" by (auto simp: ids)
  show "tp_offline_token_id (approve_row ig now row) = []
      \<or> tp_offline_token_id (approve_row ig now row) \<in> token_ids (approval_db db row ig now) - token_ids db"
    using adm by (auto simp: ids admissible_def)
qed (use adm in \<open>auto simp: approval_db_def admissible_def\<close>)

lemma step_admit:
  assumes "keys_inv db"
  shows "proposal_step db (fst (admit_tier_c_approval db pid b a c ig now))"
proof (cases "get_tier_c_proposal db pid")
  case None
  then show ?thesis by (simp add: admit_tier_c_approval_def proposal_step.same)
next
  case (Some row)
  then have row: "row \<in> set (td_proposals db)" using get_proposal_Some by blast
  show ?thesis
    unfolding admit_cases [OF Some]
    using approval_step [OF assms row] step_close [OF assms row] by (auto intro: proposal_step.same)
qed

lemma dispatcher_move:
  assumes "(st, fs) \<in> set DISPATCHER_MOVES"
  shows "\<not> advance_refused st \<and> st \<noteq> APPROVED_PENDING_DISPATCH \<and> (\<forall>s \<in> set fs. decision_transition s st)"
proof -
  have "list_all (\<lambda>(st, fs). \<not> advance_refused st \<and> st \<noteq> APPROVED_PENDING_DISPATCH
      \<and> list_all (\<lambda>s. decision_transition s st) fs) DISPATCHER_MOVES" by code_simp
  with assms show ?thesis by (auto simp: list_all_iff)
qed

lemma step_advance:
  assumes inv: "keys_inv db" and mv: "(st, fs) \<in> set DISPATCHER_MOVES"
  shows "proposal_step db (fst (advance_tier_c_proposal db pid st fs reason j d now))"
proof -
  let ?sel = "\<lambda>r. tp_proposal_id r = pid \<and> tp_decision_state r \<in> set fs"
  let ?f = "set_state st reason j now"
  have "\<not> advance_refused st" using dispatcher_move [OF mv] by blast
  then have adv: "fst (advance_tier_c_proposal db pid st fs reason j d now) =
      (if list_ex ?sel (td_proposals db)
       then case d of None \<Rightarrow> append_tier_c_record (update_where ?sel ?f db) pid st reason now
            | Some act \<Rightarrow> if act = [] then append_tier_c_record (update_where ?sel ?f db) pid st reason now
                else fst (insert_tier_c_intent (append_tier_c_record (update_where ?sel ?f db) pid st reason now)
                       pid act reason now)
       else update_where ?sel ?f db)"
    by (simp add: advance_tier_c_proposal_def Let_def split: option.split)
  show ?thesis
  proof (cases "list_ex ?sel (td_proposals db)")
    case False
    then have "td_proposals (update_where ?sel ?f db) = td_proposals db"
      unfolding update_where_def by (auto simp: list_ex_iff intro!: map_idI)
    with False show ?thesis by (intro proposal_step.same) (auto simp: adv token_ids_def)
  next
    case True
    then obtain r where r: "r \<in> set (td_proposals db)" "?sel r" by (auto simp: list_ex_iff)
    let ?db = "fst (advance_tier_c_proposal db pid st fs reason j d now)"
    have same: "td_proposals ?db = td_proposals (update_where ?sel ?f db)"
      "td_records ?db = td_records (append_tier_c_record db (tp_proposal_id r) st reason now)"
      "td_reconciliations ?db = td_reconciliations db" "td_tokens ?db = td_tokens db"
      using True r(2) by (auto simp: adv append_tier_c_record_def split: option.split)
    have tr: "decision_transition (tp_decision_state r) st \<and> st \<noteq> APPROVED_PENDING_DISPATCH"
      using dispatcher_move [OF mv] r(2) by blast
    show ?thesis
    proof (rule proposal_step.forward)
      show "moved db ?db r (?f r)"
        by (rule moved_updateI [where d = db and sel = ?sel]) (use inv r same in auto)
    qed (use tr same in \<open>auto simp: token_ids_def\<close>)
  qed
qed

lemma reconciled_state_cases: "reconciled_state out \<in> {RECONCILED_EXECUTED, RECONCILED_NOT_EXECUTED}"
  by (simp add: reconciled_state_def)

lemma step_reconcile:
  assumes inv: "keys_inv db"
  shows "proposal_step db (fst (reconcile_tier_c db q now))"
proof (cases "\<exists>row. snd (reconcile_tier_c db q now) = Reconciled False row")
  case False
  then have "td_proposals (fst (reconcile_tier_c db q now)) = td_proposals db"
    "td_records (fst (reconcile_tier_c db q now)) = td_records db"
    "td_reconciliations (fst (reconcile_tier_c db q now)) = td_reconciliations db"
    "td_tokens (fst (reconcile_tier_c db q now)) = td_tokens db"
    by (auto simp: reconcile_tier_c_def split: option.splits if_splits)
  then show ?thesis by (intro proposal_step.same) (auto simp: token_ids_def)
next
  case True
  then obtain row where row: "get_tier_c_proposal db (rq_proposal_id q) = Some row"
    and none: "get_reconciliation db (rq_proposal_id q) = None"
    and unc: "tp_decision_state row \<in> {''dispatch_outcome_unknown'', ''dispatch_not_proven''}"
    and res: "fst (reconcile_tier_c db q now)
      = move_tier_c (db\<lparr>td_reconciliations := td_reconciliations db @ [reconciliation_row q now]\<rparr>)
          (rq_proposal_id q) (reconciled_state (rq_outcome q)) (rq_source q) now"
    by (auto simp: reconcile_tier_c_def split: option.splits if_splits)
  from get_proposal_Some [OF row] have r: "row \<in> set (td_proposals db)" "tp_proposal_id row = rq_proposal_id q"
    by auto
  let ?st = "reconciled_state (rq_outcome q)"
  let ?d = "db\<lparr>td_reconciliations := td_reconciliations db @ [reconciliation_row q now]\<rparr>"
  show ?thesis
  proof (rule proposal_step.reconciled)
    show "moved db (fst (reconcile_tier_c db q now)) row (set_state ?st (rq_source q) None now row)"
      unfolding res
      by (rule moved_updateI [where d = ?d and sel = "\<lambda>r. tp_proposal_id r = rq_proposal_id q"])
         (use inv r in \<open>auto simp: move_tier_c_def append_tier_c_record_def\<close>)
    show "decision_transition (tp_decision_state row)
        (tp_decision_state (set_state ?st (rq_source q) None now row))"
      using unc reconciled_state_cases [of "rq_outcome q"]
      by (auto simp: decision_transition_def DECISION_TRANSITIONS_def)
    show "td_reconciliations (fst (reconcile_tier_c db q now)) = td_reconciliations db @ [reconciliation_row q now]"
      by (simp add: res move_tier_c_def)
    show "tp_decision_state (set_state ?st (rq_source q) None now row) \<in> {RECONCILED_EXECUTED, RECONCILED_NOT_EXECUTED}"
      using reconciled_state_cases by simp
    show "rc_proposal_id (reconciliation_row q now) \<notin> rc_proposal_id ` set (td_reconciliations db)"
      using none by (simp add: get_reconciliation_None reconciliation_row_def)
  qed (auto simp: reconciliation_row_def r res move_tier_c_def token_ids_def)
qed

text \<open>The bookkeeping calls leave proposals, records and reconciliations alone.\<close>

lemma step_other:
  "proposal_step db (fst (insert_tier_c_intent db pid act reason now))"
  "proposal_step db (mark_tier_c_safe_default_intent db pid out now)"
  "proposal_step db (fst (claim_token db t dev act now))"
  by (intro proposal_step.same;
      auto simp: token_ids_def mark_tier_c_safe_default_intent_def claim_token_def)+

lemma call_step:
  assumes "keys_inv db" and "dispatcher_call db x" and "tier_c_call db x = Inr (db', ans)"
  shows "proposal_step db db'"
proof -
  obtain op c where x: "x = (op, c)" by (cases x)
  from assms(3) have "db' = fst (apply_tier_c db op)" by (simp add: tier_c_call_def x split: if_splits)
  with assms(2) show ?thesis
    by (cases op)
       (auto simp: x step_create step_admit step_advance step_reconcile step_other assms(1)
          create_tier_c_safe_default_intent_def ensure_tier_c_safe_default_intent_def Let_def)
qed

subsection \<open>Intents and reservations\<close>

lemma insert_intent_step: "intent_step (td_intents db) (td_intents (fst (insert_tier_c_intent db pid act reason now)))"
  by (auto simp: intent_step_def insert_tier_c_intent_def get_intent_None)

lemma intent_step_refl [simp]: "intent_step xs xs"
  by (simp add: intent_step_def)

lemma mark_intent_step: "intent_step (td_intents db) (td_intents (mark_tier_c_safe_default_intent db pid out now))"
  unfolding intent_step_def mark_tier_c_safe_default_intent_def by simp blast

text \<open>Every call leaves the intents as they were, inserts one, or marks one.\<close>

lemma call_intents:
  assumes "tier_c_call db x = Inr (db', ans)"
  shows "intent_step (td_intents db) (td_intents db')"
proof -
  obtain op c where x: "x = (op, c)" by (cases x)
  have db': "db' = fst (apply_tier_c db op)" using assms by (simp add: tier_c_call_def x split: if_splits)
  have move: "td_intents (move_tier_c d pid st reason now) = td_intents d" for d pid st reason now
    by (simp add: move_tier_c_def)
  have inserted: "intent_step (td_intents db) (td_intents (fst (insert_tier_c_intent d pid act reason now)))"
    if "td_intents d = td_intents db" for d pid act reason now
    using insert_intent_step [of d] that by simp
  show ?thesis
  proof (cases op)
    case (CreateProposal n now)
    then show ?thesis by (simp add: db' create_tier_c_proposal_def)
  next
    case (AdmitApproval pid b a k ig now)
    show ?thesis
    proof (cases "get_tier_c_proposal db pid")
      case None
      with AdmitApproval show ?thesis by (simp add: db' admit_tier_c_approval_def)
    next
      case (Some row)
      with AdmitApproval show ?thesis
        by (simp add: db' admit_cases approval_db_def close_at_admission_def inserted move)
    qed
  next
    case (Advance pid st fs reason j d now)
    then show ?thesis
      by (simp add: db' advance_tier_c_proposal_def Let_def inserted split: option.split)
  next
    case (Reconcile q now)
    then show ?thesis by (simp add: db' reconcile_tier_c_def move split: option.split)
  qed (simp_all add: db' create_tier_c_safe_default_intent_def ensure_tier_c_safe_default_intent_def Let_def
        insert_intent_step mark_intent_step)
qed

lemma call_intent_inv:
  assumes "intent_inv db" and "tier_c_call db x = Inr (db', ans)"
  shows "intent_inv db'"
proof -
  have "ti_proposal_id \<circ> mark_intent pid out now = ti_proposal_id" for pid out now
    by (simp add: mark_intent_def fun_eq_iff)
  with call_intents [OF assms(2)] assms(1) show ?thesis
    by (auto simp: intent_step_def intent_inv_def)
qed

lemma call_obliged:
  assumes "obliged db p a" and "tier_c_call db x = Inr (db', ans)"
  shows "obliged db' p a"
proof -
  have "list_ex (\<lambda>i. ti_proposal_id i = p \<and> ti_action i = a) (map (mark_intent pid out now) xs)
      = list_ex (\<lambda>i. ti_proposal_id i = p \<and> ti_action i = a) xs" for pid out now xs
    by (induction xs) (auto simp: mark_intent_def)
  with call_intents [OF assms(2)] assms(1) show ?thesis
    by (auto simp: intent_step_def obliged_def)
qed

lemma call_tier_c_inv:
  assumes "tier_c_inv db" and "dispatcher_call db x" and "tier_c_call db x = Inr (db', ans)"
  shows "tier_c_inv db'"
proof -
  from assms(1) have inv: "keys_inv db" "authority_inv db" "token_inv db" "reconcile_inv db" "intent_inv db"
    by (simp_all add: tier_c_inv_def)
  note st = call_step [OF inv(1) assms(2,3)]
  show ?thesis
    using step_refines [OF inv(1) st] step_authority [OF inv(1,2) st] step_tokens [OF inv(1,3) st]
      step_reconciled [OF inv(1,4) st] call_intent_inv [OF inv(5) assms(3)]
    by (simp add: tier_c_inv_def)
qed

interpretation tier_c: invariant_object tier_c_call tier_c_inv dispatcher_call
  by unfold_locales (rule call_tier_c_inv)

interpretation obligation: latching_object tier_c_call tier_c_inv dispatcher_call
    "\<lambda>db. obliged db pid act" "\<lambda>_. False" for pid act
  by unfold_locales (rule call_obliged)

lemma tier_c_inv_empty: "tier_c_inv empty_tier_c"
  by (simp add: tier_c_inv_def keys_inv_def authority_inv_def token_inv_def reconcile_inv_def intent_inv_def
      empty_tier_c_def)

lemma reachable_inv:
  "runs_ok tier_c_call dispatcher_call empty_tier_c xs \<Longrightarrow> tier_c_inv (run_ops tier_c_call empty_tier_c xs)"
  by (rule tier_c.inv_run [OF tier_c_inv_empty])

lemma step_reserved:
  assumes "keys_inv db" and "proposal_step db db'"
  shows "reserved_count db' \<le> reserved_count db
    \<or> reserved_count db' = Suc (reserved_count db)
        \<and> (\<exists>x. td_records db' = td_records db @ [x] \<and> tr_decision_state x = APPROVED_PENDING_DISPATCH)"
proof -
  let ?res = "\<lambda>r. tp_decision_state r \<in> {''approved_pending_dispatch'', ''dispatch_started''}"
  have count: "reserved_count db' + (if ?res r0 then 1 else 0) = reserved_count db + (if ?res r1 then 1 else 0)"
    if "moved db db' r0 r1" for r0 r1
    using that unfolding moved_def reserved_count_def by auto
  have started: "?res (r0 :: tc_proposal)" if "decision_transition (tp_decision_state r0) (tp_decision_state r1)"
    "?res r1" "tp_decision_state r1 \<noteq> APPROVED_PENDING_DISPATCH" for r0 r1 :: tc_proposal
    using that by (auto simp: decision_transition_def DECISION_TRANSITIONS_def split: option.splits if_splits)
  from assms(2) show ?thesis
  proof (cases rule: proposal_step.cases)
    case same
    then show ?thesis by (simp add: reserved_count_def)
  next
    case (created r x)
    then show ?thesis by (simp add: reserved_count_def)
  next
    case (approved r0 r1)
    then show ?thesis using count [OF approved(1)] by (auto simp: moved_def)
  next
    case (forward r0 r1)
    then show ?thesis using count [OF forward(1)] started [OF forward(2) _ forward(3)] by (auto split: if_splits)
  next
    case (reconciled r0 r1 c)
    then show ?thesis using count [OF reconciled(1)] by (auto split: if_splits)
  qed
qed

lemma call_approves:
  assumes "dispatcher_call db x" and "uses_ceiling k x" and "tier_c_call db x = Inr (db', ans)"
    and "td_records db' = td_records db @ [y]" and "tr_decision_state y = APPROVED_PENDING_DISPATCH"
  shows "int (reserved_count db) < k"
proof -
  obtain op c where x: "x = (op, c)" by (cases x)
  have db': "db' = fst (apply_tier_c db op)" using assms(3) by (simp add: tier_c_call_def x split: if_splits)
  show ?thesis
  proof (cases op)
    case (AdmitApproval pid b a k' ig now)
    then obtain row where row: "get_tier_c_proposal db pid = Some row"
      using assms(4) by (cases "get_tier_c_proposal db pid") (auto simp: db' admit_tier_c_approval_def)
    have "admissible db row b a k' (ig_offline_token_id ig)"
      using assms(4,5) AdmitApproval row
      by (auto simp: db' admit_cases close_at_admission_def move_tier_c_def append_tier_c_record_def
          split: if_splits)
    then show ?thesis using assms(2) AdmitApproval by (simp add: x admissible_def)
  next
    case (Advance pid st fs reason j d now)
    with assms(1) have "st \<noteq> APPROVED_PENDING_DISPATCH" using dispatcher_move [of st fs] by (simp add: x)
    then show ?thesis
      using assms(4,5) Advance
      by (auto simp: db' advance_tier_c_proposal_def append_tier_c_record_def Let_def
          split: option.splits if_splits)
  next
    case (Reconcile q now)
    then show ?thesis
      using assms(4,5) reconciled_state_cases [of "rq_outcome q"]
      by (auto simp: db' reconcile_tier_c_def move_tier_c_def append_tier_c_record_def
          split: option.splits if_splits)
  qed (use assms(4,5) in \<open>auto simp: db' create_tier_c_proposal_def append_tier_c_record_def
        create_tier_c_safe_default_intent_def ensure_tier_c_safe_default_intent_def Let_def
        mark_tier_c_safe_default_intent_def split: if_splits\<close>)
qed

interpretation reservation: invariant_object tier_c_call
    "\<lambda>db. tier_c_inv db \<and> int (reserved_count db) \<le> max 0 k"
    "\<lambda>db x. dispatcher_call db x \<and> uses_ceiling k x" for k
proof
  fix db db' x ans
  assume inv: "tier_c_inv db \<and> int (reserved_count db) \<le> max 0 k"
    and ok: "dispatcher_call db x \<and> uses_ceiling k x" and call: "tier_c_call db x = Inr (db', ans)"
  then have "keys_inv db" by (simp add: tier_c_inv_def)
  then have "reserved_count db' \<le> reserved_count db
      \<or> reserved_count db' = Suc (reserved_count db) \<and> int (reserved_count db) < k"
    using step_reserved [OF _ call_step] call_approves ok call by metis
  then have "int (reserved_count db') \<le> max 0 k" using inv by auto
  moreover have "tier_c_inv db'" using call_tier_c_inv [OF _ _ call] inv ok by blast
  ultimately show "tier_c_inv db' \<and> int (reserved_count db') \<le> max 0 k" by blast
qed

subsection \<open>The path of a proposal\<close>

lemma trail_forward:
  assumes "successively decision_transition t"
  shows "sorted_wrt (\<lambda>a b. decision_rank a < decision_rank b) t"
proof -
  have "successively (\<lambda>a b. decision_rank a < decision_rank b) t"
    using assms decision_transition_states(1) by (rule successively_mono)
  then show ?thesis by (simp add: successively_conv_sorted_wrt transp_def)
qed

lemma trail_short:
  assumes "sorted_wrt (\<lambda>a b. decision_rank a < decision_rank b) t"
  shows "distinct t \<and> length t \<le> 5"
proof -
  have sorted: "sorted_wrt (<) (map decision_rank t)" using assms by (simp add: sorted_wrt_map)
  then have d: "distinct (map decision_rank t)" by (simp add: strict_sorted_iff)
  have "decision_rank s \<le> 4" for s by (simp add: decision_rank_def)
  then have "set (map decision_rank t) \<subseteq> {..4}" by auto
  then have "card (set (map decision_rank t)) \<le> card {..4 :: nat}" by (intro card_mono) auto
  then have "length (map decision_rank t) \<le> 5" unfolding distinct_card [OF d] by simp
  with d show ?thesis by (simp add: distinct_map)
qed

lemma find_after: "List.find p xs = None \<Longrightarrow> List.find p (xs @ ys) = List.find p ys"
  by (induction xs) (auto split: if_splits)

lemma filter_key_one:
  assumes "list_ex (\<lambda>i. key i = k \<and> f i = v) xs" and "distinct (map key xs)"
  shows "\<exists>i. filter (\<lambda>i. key i = k) xs = [i] \<and> f i = v"
  using assms
proof (induction xs)
  case (Cons x xs)
  show ?case
  proof (cases "key x = k")
    case True
    with Cons.prems have "filter (\<lambda>i. key i = k) xs = []" and "f x = v"
      by (auto simp: filter_empty_conv list_ex_iff image_iff)
    with True show ?thesis by simp
  next
    case False
    with Cons show ?thesis by simp
  qed
qed simp

lemma example_runs_ok: "runs_ok tier_c_call dispatcher_call empty_tier_c example_calls"
  by code_simp

lemma example_uncertain:
  "map tp_decision_state (td_proposals (run_ops tier_c_call empty_tier_c example_calls)) = [DISPATCH_OUTCOME_UNKNOWN]"
  by code_simp

section \<open>Properties\<close>

text \<open>
  C14. The store implements the contract's decision machine: whatever call the dispatcher
  makes, and whether or not the store takes it, the decision states of the proposals stutter,
  gain one proposal, or make one transition of the contract.
\<close>

theorem store_refines_decision_machine:
  assumes "tier_c_inv db" and "dispatcher_call db x" and "tier_c_call db x = Inr (db', ans)"
  shows "decision_step (decisions db) (decisions db')"
  using step_refines [OF _ call_step [OF _ assms(2,3)]] assms(1) by (simp add: tier_c_inv_def)

theorem store_refines_decision_machine_witness:
  "\<exists>db' ans. tier_c_call empty_tier_c (CreateProposal example_new 1000, True) = Inr (db', ans)
     \<and> decision_step (decisions empty_tier_c) (decisions db')"
proof -
  let ?x = "(CreateProposal example_new 1000, True)"
  obtain db' ans where call: "tier_c_call empty_tier_c ?x = Inr (db', ans)"
    by (cases "apply_tier_c empty_tier_c (fst ?x)") (simp add: tier_c_call_def)
  with store_refines_decision_machine [OF tier_c_inv_empty _ call] show ?thesis by auto
qed

text \<open>
  A decision only goes forward: after any run of the dispatcher's calls on a new store,
  failures included, the records of a proposal start at \<open>proposed\<close>, follow the contract's
  transitions, end in the state the row holds, never repeat a state, and are at most five.
\<close>

theorem decision_only_forward:
  assumes "runs_ok tier_c_call dispatcher_call empty_tier_c xs"
    and "r \<in> set (td_proposals (run_ops tier_c_call empty_tier_c xs))"
    and "t = get_tier_c_proposal_records (run_ops tier_c_call empty_tier_c xs) (tp_proposal_id r)"
  shows "t \<noteq> [] \<and> hd t = PROPOSED \<and> last t = tp_decision_state r \<and> successively decision_transition t
    \<and> distinct t \<and> length t \<le> 5"
proof -
  from reachable_inv [OF assms(1)] assms(2) have "trail_ok (run_ops tier_c_call empty_tier_c xs) r"
    by (simp add: tier_c_inv_def keys_inv_def)
  then show ?thesis
    using trail_short [OF trail_forward, of t] by (simp add: trail_ok_def Let_def assms(3))
qed

theorem decision_only_forward_witness:
  "\<exists>r. td_proposals (run_ops tier_c_call empty_tier_c example_calls) = [r]
     \<and> last (get_tier_c_proposal_records (run_ops tier_c_call empty_tier_c example_calls) (tp_proposal_id r))
         = DISPATCH_OUTCOME_UNKNOWN"
proof -
  from example_uncertain obtain r where r: "td_proposals (run_ops tier_c_call empty_tier_c example_calls) = [r]"
    "tp_decision_state r = DISPATCH_OUTCOME_UNKNOWN" by (auto simp: map_eq_Cons_conv)
  from decision_only_forward [OF example_runs_ok _ refl, of r] r show ?thesis by simp
qed

text \<open>
  C7. One authority per outcome: after any run of the dispatcher's calls, two approvals that
  hold, or may still hold, execution authority over the same outcome on the same zone are the
  same approval.
\<close>

theorem one_authority_per_outcome:
  assumes "runs_ok tier_c_call dispatcher_call empty_tier_c xs"
    and "{r, r'} \<subseteq> set (td_proposals (run_ops tier_c_call empty_tier_c xs))"
    and "tp_zone_id r = tp_zone_id r'" and "tp_outcome r = tp_outcome r'"
    and "tp_decision_state r \<in> set BLOCKING_STATES" and "tp_decision_state r' \<in> set BLOCKING_STATES"
  shows "r = r'"
  using reachable_inv [OF assms(1)] assms(2-6)
  by (auto simp: tier_c_inv_def authority_inv_def same_command_def blocking_def)

theorem one_authority_per_outcome_witness:
  "\<exists>r \<in> set (td_proposals (run_ops tier_c_call empty_tier_c example_calls)).
     tp_decision_state r \<in> set BLOCKING_STATES \<and> r = hd (td_proposals (run_ops tier_c_call empty_tier_c example_calls))"
proof -
  from example_uncertain obtain r where r: "td_proposals (run_ops tier_c_call empty_tier_c example_calls) = [r]"
    "tp_decision_state r = DISPATCH_OUTCOME_UNKNOWN" by (auto simp: map_eq_Cons_conv)
  then have b: "tp_decision_state r \<in> set BLOCKING_STATES" by (simp add: BLOCKING_STATES_def)
  from r have "{r, r} \<subseteq> set (td_proposals (run_ops tier_c_call empty_tier_c example_calls))" by simp
  from one_authority_per_outcome [OF example_runs_ok this refl refl b b] r b show ?thesis by auto
qed

text \<open>
  An offline token admits one approval: after any run, two proposals that carry the same
  token are the same proposal, and the token stands in the consumption table.
\<close>

theorem token_admits_once:
  assumes "runs_ok tier_c_call dispatcher_call empty_tier_c xs"
    and "{r, r'} \<subseteq> set (td_proposals (run_ops tier_c_call empty_tier_c xs))"
    and "tp_offline_token_id r \<noteq> []" and "tp_offline_token_id r' = tp_offline_token_id r"
  shows "r = r' \<and> tp_offline_token_id r \<in> tk_token_id ` set (td_tokens (run_ops tier_c_call empty_tier_c xs))"
  using reachable_inv [OF assms(1)] assms(2-4)
  by (auto simp: tier_c_inv_def token_inv_def token_ids_def)

theorem token_admits_once_witness:
  "\<exists>r. td_proposals (run_ops tier_c_call empty_tier_c example_calls) = [r] \<and> tp_offline_token_id r = ''t1''
     \<and> ''t1'' \<in> tk_token_id ` set (td_tokens (run_ops tier_c_call empty_tier_c example_calls))"
proof -
  have "map tp_offline_token_id (td_proposals (run_ops tier_c_call empty_tier_c example_calls)) = [''t1'']"
    by code_simp
  then obtain r where r: "td_proposals (run_ops tier_c_call empty_tier_c example_calls) = [r]"
    "tp_offline_token_id r = ''t1''" by (auto simp: map_eq_Cons_conv)
  then have "{r, r} \<subseteq> set (td_proposals (run_ops tier_c_call empty_tier_c example_calls))" by simp
  from token_admits_once [OF example_runs_ok this] r show ?thesis by simp
qed

lemma approval_admitted_exactly_parts:
  shows
  "snd (admit_tier_c_approval db pid b a c ig now) = ''committed'' \<longleftrightarrow>
     (\<exists>row. get_tier_c_proposal db pid = Some row \<and> admissible db row b a c (ig_offline_token_id ig)
        \<and> fst (admit_tier_c_approval db pid b a c ig now) = approval_db db row ig now)"
  and "snd (admit_tier_c_approval db pid b a c ig now) \<in> {''committed'', ''binding_changed'', ''blocked''}
     \<or> fst (admit_tier_c_approval db pid b a c ig now) = db"
proof -
  show "snd (admit_tier_c_approval db pid b a c ig now) = ''committed'' \<longleftrightarrow>
     (\<exists>row. get_tier_c_proposal db pid = Some row \<and> admissible db row b a c (ig_offline_token_id ig)
        \<and> fst (admit_tier_c_approval db pid b a c ig now) = approval_db db row ig now)"
  proof (cases "get_tier_c_proposal db pid")
    case None
    then show ?thesis by (simp add: admit_tier_c_approval_def)
  next
    case (Some row)
    then show ?thesis by (simp add: admit_cases)
  qed
  show "snd (admit_tier_c_approval db pid b a c ig now) \<in> {''committed'', ''binding_changed'', ''blocked''}
     \<or> fst (admit_tier_c_approval db pid b a c ig now) = db"
  proof (cases "get_tier_c_proposal db pid")
    case None
    then show ?thesis by (simp add: admit_tier_c_approval_def)
  next
    case (Some row)
    then show ?thesis by (simp add: admit_cases)
  qed
qed


text \<open>
  The terminal records are reserved: when every admission of a run asks for the ceiling
  \<open>k\<close>, the approvals that still await their outcome are never more than \<open>k\<close>.
\<close>

theorem reservations_bounded:
  assumes "runs_ok tier_c_call (\<lambda>db x. dispatcher_call db x \<and> uses_ceiling k x) empty_tier_c xs" and "0 \<le> k"
  shows "int (reserved_count (run_ops tier_c_call empty_tier_c xs)) \<le> k"
proof -
  have "tier_c_inv empty_tier_c \<and> int (reserved_count empty_tier_c) \<le> max 0 k"
    by (simp add: tier_c_inv_empty) (simp add: reserved_count_def empty_tier_c_def)
  from reservation.inv_run [OF this assms(1)] assms(2) show ?thesis by simp
qed

theorem reservations_bounded_witness:
  "int (reserved_count (run_ops tier_c_call empty_tier_c (take 4 example_calls))) \<le> 4"
  by (rule reservations_bounded [of 4]) code_simp+

lemma reconciled_once_parts:
  assumes "tier_c_inv db" and "reconcile_tier_c db q now = (db', Reconciled False c)"
    and "rq_proposal_id q' = rq_proposal_id q" and "rq_device_id q' = rq_device_id q"
    and "rq_runtime_device_id q' = rq_runtime_device_id q" and "rq_zone_id q' = rq_zone_id q"
    and "rq_outcome q' \<in> {''executed'', ''not-executed''}"
  shows "decisions db' (rq_proposal_id q) = Some (reconciled_state (rq_outcome q))"
    and "rq_outcome q' = rq_outcome q \<and> rq_reason q' = rq_reason q \<and> rq_note q' = rq_note q \<Longrightarrow>
      \<exists>db''. reconcile_tier_c db' q' now' = (db'', Reconciled True c) \<and> td_proposals db'' = td_proposals db'
        \<and> td_records db'' = td_records db' \<and> td_reconciliations db'' = td_reconciliations db'"
    and "\<not> (rq_outcome q' = rq_outcome q \<and> rq_reason q' = rq_reason q \<and> rq_note q' = rq_note q) \<Longrightarrow>
      reconcile_tier_c db' q' now' = (db', ReconcileError ''already_reconciled'')"
proof -
  from assms(1) have inv: "keys_inv db" "reconcile_inv db" by (simp_all add: tier_c_inv_def)
  from assms(2) obtain row where row: "get_tier_c_proposal db (rq_proposal_id q) = Some row"
    and none: "get_reconciliation db (rq_proposal_id q) = None"
    and args: "rq_outcome q \<in> {''executed'', ''not-executed''}" "rq_device_id q = rq_runtime_device_id q"
      "tp_device_id row = rq_device_id q" "tp_zone_id row = rq_zone_id q"
    and c: "c = reconciliation_row q now"
    and db': "db' = move_tier_c (db\<lparr>td_reconciliations := td_reconciliations db @ [c]\<rparr>)
        (rq_proposal_id q) (reconciled_state (rq_outcome q)) (rq_source q) now"
    by (auto simp: reconcile_tier_c_def split: option.splits if_splits)
  let ?row' = "set_state (reconciled_state (rq_outcome q)) (rq_source q) None now row"
  have row': "get_tier_c_proposal db' (rq_proposal_id q) = Some ?row'"
  proof -
    let ?f = "set_state (reconciled_state (rq_outcome q)) (rq_source q) None now"
    have "List.find (\<lambda>r. tp_proposal_id r = pid) (map (\<lambda>r. if tp_proposal_id r = pid then ?f r else r) rs)
        = map_option ?f (List.find (\<lambda>r. tp_proposal_id r = pid) rs)" for pid rs
      by (induction rs) auto
    then show ?thesis
      using row by (simp add: db' get_tier_c_proposal_def move_tier_c_def update_where_def append_tier_c_record_def)
  qed
  have fields: "tp_device_id ?row' = rq_device_id q" "tp_zone_id ?row' = rq_zone_id q"
    using args by (simp_all add: set_state_def)
  have rec: "get_reconciliation db' (rq_proposal_id q) = Some c"
    using none by (simp add: db' move_tier_c_def get_reconciliation_def find_after c reconciliation_row_def)
  have "reconcile_inv db'"
    using step_reconciled [OF inv step_reconcile [OF inv(1), of q now]] assms(2) by simp
  then show "decisions db' (rq_proposal_id q) = Some (reconciled_state (rq_outcome q))"
    using get_reconciliation_Some [OF rec] by (auto simp: reconcile_inv_def c reconciliation_row_def)
  have same: "reconciled_state (rq_outcome q) = reconciled_state (rq_outcome q') \<longleftrightarrow> rq_outcome q' = rq_outcome q"
    using args(1) assms(7) by (auto simp: reconciled_state_def)
  have answer: "reconcile_tier_c db' q' now' =
      (if \<not> (rq_outcome q' = rq_outcome q \<and> rq_reason q = rq_reason q' \<and> rq_note q = rq_note q')
       then (db', ReconcileError ''already_reconciled'')
       else (if rc_principal_uid c = rq_principal_uid q' \<and> rc_principal_login_uid c = rq_principal_login_uid q'
             then db' else db'\<lparr>td_attempts := td_attempts db' @ [repeat_attempt q' now']\<rparr>, Reconciled True c))"
    using assms(3-7) args row' rec fields same
    by (simp add: reconcile_tier_c_def c reconciliation_row_def)
  show "\<exists>db''. reconcile_tier_c db' q' now' = (db'', Reconciled True c) \<and> td_proposals db'' = td_proposals db'
      \<and> td_records db'' = td_records db' \<and> td_reconciliations db'' = td_reconciliations db'"
    if "rq_outcome q' = rq_outcome q \<and> rq_reason q' = rq_reason q \<and> rq_note q' = rq_note q"
    using that by (simp add: answer)
  show "reconcile_tier_c db' q' now' = (db', ReconcileError ''already_reconciled'')"
    if "\<not> (rq_outcome q' = rq_outcome q \<and> rq_reason q' = rq_reason q \<and> rq_note q' = rq_note q)"
    using that by (auto simp: answer)
qed

text \<open>
  An uncertain dispatch is reconciled once: after a successful reconciliation the row holds
  the observed outcome; the same observation again, by anyone and at any time, is answered
  with the first record and changes no proposal, record or reconciliation; and a different
  observation is refused and changes nothing.
\<close>

theorem reconciled_once:
  assumes "tier_c_inv db" and "reconcile_tier_c db q now = (db', Reconciled False c)"
    and "rq_proposal_id q' = rq_proposal_id q" and "rq_device_id q' = rq_device_id q"
    and "rq_runtime_device_id q' = rq_runtime_device_id q" and "rq_zone_id q' = rq_zone_id q"
    and "rq_outcome q' \<in> {''executed'', ''not-executed''}"
  shows "decisions db' (rq_proposal_id q) = Some (reconciled_state (rq_outcome q))
    \<and> (if rq_outcome q' = rq_outcome q \<and> rq_reason q' = rq_reason q \<and> rq_note q' = rq_note q
       then \<exists>db''. reconcile_tier_c db' q' now' = (db'', Reconciled True c) \<and> td_proposals db'' = td_proposals db'
         \<and> td_records db'' = td_records db' \<and> td_reconciliations db'' = td_reconciliations db'
       else reconcile_tier_c db' q' now' = (db', ReconcileError ''already_reconciled''))"
  using reconciled_once_parts(1) [OF assms] reconciled_once_parts(2,3) [where now' = now', OF assms] by simp

theorem reconciled_once_witness:
  "\<exists>db' c. reconcile_tier_c (run_ops tier_c_call empty_tier_c example_calls) example_reconcile 9000
       = (db', Reconciled False c)
     \<and> decisions db' ''p1'' = Some RECONCILED_EXECUTED
     \<and> reconcile_tier_c db' (example_reconcile\<lparr>rq_outcome := ''not-executed''\<rparr>) 9500
         = (db', ReconcileError ''already_reconciled'')"
proof -
  let ?db = "run_ops tier_c_call empty_tier_c example_calls"
  have inv: "tier_c_inv ?db" by (rule reachable_inv [OF example_runs_ok])
  have "case snd (reconcile_tier_c ?db example_reconcile 9000) of Reconciled b _ \<Rightarrow> \<not> b | _ \<Rightarrow> False"
    by code_simp
  then obtain c where "snd (reconcile_tier_c ?db example_reconcile 9000) = Reconciled False c"
    by (auto split: reconcile_answer.splits)
  then have res: "reconcile_tier_c ?db example_reconcile 9000
      = (fst (reconcile_tier_c ?db example_reconcile 9000), Reconciled False c)"
    by (simp add: prod_eq_iff)
  let ?q = "example_reconcile\<lparr>rq_outcome := ''not-executed''\<rparr>"
  have sel: "rq_proposal_id ?q = rq_proposal_id example_reconcile" "rq_device_id ?q = rq_device_id example_reconcile"
    "rq_runtime_device_id ?q = rq_runtime_device_id example_reconcile"
    "rq_zone_id ?q = rq_zone_id example_reconcile" "rq_outcome ?q \<in> {''executed'', ''not-executed''}"
    "rq_outcome ?q \<noteq> rq_outcome example_reconcile" by (simp_all add: example_reconcile_def)
  note once = reconciled_once [where now' = 9500, OF inv res sel(1-5)]
  have "reconciled_state (rq_outcome example_reconcile) = RECONCILED_EXECUTED" "rq_proposal_id example_reconcile = ''p1''"
    by (simp_all add: reconciled_state_def example_reconcile_def)
  moreover have "decisions (fst (reconcile_tier_c ?db example_reconcile 9000)) (rq_proposal_id example_reconcile)
      = Some (reconciled_state (rq_outcome example_reconcile))"
    "reconcile_tier_c (fst (reconcile_tier_c ?db example_reconcile 9000)) ?q 9500
      = (fst (reconcile_tier_c ?db example_reconcile 9000), ReconcileError ''already_reconciled'')"
    using once sel(6) by simp_all
  ultimately show ?thesis using res by metis
qed

text \<open>
  A close that applies a safe default never lands without the obligation to attempt it, and
  the obligation is kept: a move with a safe default leaves the proposal an intent in the same
  commit, and after any further calls of the dispatcher the intent is there with the same
  action, the only one the proposal has.
\<close>

theorem safe_default_obligation_kept:
  assumes "tier_c_inv db" and "act \<noteq> []" and "get_tier_c_intent db pid = None"
    and "advance_tier_c_proposal db pid st fs reason j (Some act) now = (db', True)"
    and "(st, fs) \<in> set DISPATCHER_MOVES"
    and "runs_ok tier_c_call dispatcher_call db' xs"
  shows "\<exists>i. filter (\<lambda>i. ti_proposal_id i = pid) (td_intents (run_ops tier_c_call db' xs)) = [i]
    \<and> ti_action i = act"
proof -
  have "tier_c_call db (Advance pid st fs reason j (Some act) now, True) = Inr (db', TCBool True)"
    using assms(4) by (simp add: tier_c_call_def)
  from call_tier_c_inv [OF assms(1) _ this] assms(5) have inv: "tier_c_inv db'" by simp
  have "get_tier_c_intent (append_tier_c_record (update_where sel f db) pid st reason now) pid = None" for sel f
    using assms(3) by (simp add: get_tier_c_intent_def)
  then have "obliged db' pid act"
    using assms(2,4) by (auto simp: advance_tier_c_proposal_def Let_def insert_tier_c_intent_def obliged_def
        split: if_splits)
  with obligation.latched_run [OF inv _ assms(6), of pid act]
  have ob: "obliged (run_ops tier_c_call db' xs) pid act" by (simp add: list_all_iff)
  have "intent_inv (run_ops tier_c_call db' xs)"
    using tier_c.inv_run [OF inv assms(6)] by (simp add: tier_c_inv_def)
  then have "distinct (map ti_proposal_id (td_intents (run_ops tier_c_call db' xs)))" by (simp add: intent_inv_def)
  with ob show ?thesis unfolding obliged_def by (rule filter_key_one)
qed

theorem safe_default_obligation_kept_witness:
  "\<exists>i. filter (\<lambda>i. ti_proposal_id i = ''p1'') (td_intents (fst (advance_tier_c_proposal
       (run_ops tier_c_call empty_tier_c (take 1 example_calls))
       ''p1'' REJECTED [PROPOSED] [] None (Some ''alert_sms'') 2000))) = [i] \<and> ti_action i = ''alert_sms''"
proof -
  let ?db = "run_ops tier_c_call empty_tier_c (take 1 example_calls)"
  let ?adv = "advance_tier_c_proposal ?db ''p1'' REJECTED [PROPOSED] [] None (Some ''alert_sms'') 2000"
  have "runs_ok tier_c_call dispatcher_call empty_tier_c (take 1 example_calls)" by code_simp
  then have inv: "tier_c_inv ?db" by (rule reachable_inv)
  have "snd ?adv" "get_tier_c_intent ?db ''p1'' = None" "(REJECTED, [PROPOSED]) \<in> set DISPATCHER_MOVES"
    by code_simp+
  with safe_default_obligation_kept [OF inv, of "''alert_sms''" "''p1''" REJECTED "[PROPOSED]" "[]" None 2000 "fst ?adv" "[]"]
  show ?thesis by (simp add: prod_eq_iff)
qed

end
