(* ===== verification/Approval_Laws.thy ===== *)
theory Approval_Laws
  imports Approval_Workflow Tier_C_Laws
begin

text \<open>
  What the governed approval promises: it ends, it acts only on an approval the store committed
  and at most once, every proposal it raises is resolved or its loss counted, a restart settles
  what a previous process left and replays nothing, and the outcome of a dispatch is held until
  it is durable. Each is proved once over the coroutines and reached by an interpretation of the
  guarantee they keep.
\<close>

section \<open>What is guaranteed\<close>

text \<open>
  What other tasks may do to the shared state at an await: the store moves by calls the
  dispatcher makes, and a counted loss stays counted.
\<close>

definition rely :: "environment \<Rightarrow> bool" where
  "rely e = (\<forall>n d. (\<exists>xs. runs_ok tier_c_call dispatcher_call (dp_store d) xs
                        \<and> dp_store (en_others e n d) = run_ops tier_c_call (dp_store d) xs)
                   \<and> dp_decisions_lost d \<le> dp_decisions_lost (en_others e n d))"

text \<open>The store of the world moves by the dispatcher's calls alone.\<close>

definition store_run :: "environment \<Rightarrow> world \<Rightarrow> world \<Rightarrow> bool" where
  "store_run e w w' =
     (rely e \<longrightarrow> (\<exists>xs. runs_ok tier_c_call dispatcher_call (dp_store (w_disp w)) xs
                      \<and> dp_store (w_disp w') = run_ops tier_c_call (dp_store (w_disp w)) xs))"

definition approved :: "tier_c_db \<Rightarrow> string \<Rightarrow> bool" where
  "approved db pid = (APPROVED_PENDING_DISPATCH \<in> set (get_tier_c_proposal_records db pid))"

text \<open>
  The acts a task adds: each runs at least at the tier the registry asks for; one at Tier C is the
  governed act, with its proposal's approval committed, and any other is at Tier A.
\<close>

definition act_ok :: "string \<Rightarrow> string \<Rightarrow> tier_c_db \<Rightarrow> string \<times> string \<Rightarrow> bool" where
  "act_ok act pid db x =
     (if snd x = ''C'' then fst x = act \<and> approved db pid else snd x = ''A'')"

definition at_tier :: "string \<times> string \<Rightarrow> bool" where
  "at_tier x = (enforce_minimum_tier (fst x) (snd x) = snd x)"

definition acts_ok :: "environment \<Rightarrow> string \<Rightarrow> string \<Rightarrow> world \<Rightarrow> world \<Rightarrow> bool" where
  "acts_ok e act pid w w' =
     (rely e \<longrightarrow>
        set (td_records (dp_store (w_disp w))) \<subseteq> set (td_records (dp_store (w_disp w')))
        \<and> (\<exists>ys. w_acts w' = w_acts w @ ys \<and> list_all at_tier ys
              \<and> list_all (act_ok act pid (dp_store (w_disp w'))) ys))"

definition tier_c_acts :: "world \<Rightarrow> nat" where
  "tier_c_acts w = length (filter (\<lambda>x. snd x = ''C'') (w_acts w))"

text \<open>
  How often a coroutine acts at Tier C: not at all, or, where its answer says it acted or it was
  interrupted, at most once.
\<close>

definition acts_once :: "('a \<Rightarrow> bool) \<Rightarrow> world \<Rightarrow> world \<times> (interrupt + 'a) \<Rightarrow> bool" where
  "acts_once acted w r =
     (tier_c_acts (fst r) \<le> Suc (tier_c_acts w)
      \<and> (\<forall>a. snd r = Inr a \<longrightarrow> acted a \<or> tier_c_acts (fst r) = tier_c_acts w))"

definition is_acted :: "loop_end \<Rightarrow> bool" where
  "is_acted x = (case x of Acted _ \<Rightarrow> True | _ \<Rightarrow> False)"

definition round_acted :: "loop_end option \<times> reply_state \<Rightarrow> bool" where
  "round_acted x = (case fst x of Some ended \<Rightarrow> is_acted ended | None \<Rightarrow> False)"

section \<open>Example inputs\<close>

text \<open>
  A commissioned device whose operator answers yes, whose store takes every call and whose
  executors succeed; nobody else is running and no time passes.
\<close>

definition example_facts :: authority_facts where
  "example_facts =
     \<lparr>fa_zone_id = ''z1'', fa_zone_document = JDict [], fa_binding_digest = ''b7'', fa_safety_profile_digest = [],
      fa_resource_for = [(''open_protected_circuit'', ''relay-gpio-17'')], fa_deployment_inputs = []\<rparr>"

definition example_env :: environment where
  "example_env =
     \<lparr>en_others = \<lambda>_ d. d, en_gate = \<lambda>_ g. g, en_elapsed = \<lambda>_. 0, en_cancel = \<lambda>_. False,
      en_takes = \<lambda>_. True, en_error = \<lambda>_. [], en_now = \<lambda>n. 1000 + int n, en_executor = \<lambda>_. XDone,
      en_heard = \<lambda>_. HText (cps ''yes''), en_sent = \<lambda>_. True, en_verify = \<lambda>_. None,
      en_facts = \<lambda>_ _. Some example_facts, en_choice = \<lambda>_ i. i\<rparr>"

definition example_config :: dispatcher_config where
  "example_config =
     \<lparr>dc_store = True, dc_executors = [''trip_relay'', ''log_to_dashboard''], dc_alert_sender = True,
      dc_operator_contact = ''+234'', dc_secondary_contact = [], dc_local_console_enabled = False,
      dc_comms_posture = None, dc_require_scoped_replies = False, dc_token_verifier = False,
      dc_policy = None, dc_relay_b_c_enabled = True\<rparr>"

definition example_context :: skill_context where
  "example_context =
     \<lparr>sc_event = Some (''dev1'', ''ev1''), sc_skill_name = ''pump'', sc_first_party = True, sc_trigger_name = ''dry_run''\<rparr>"

definition example_world :: world where
  "example_world =
     \<lparr>w_disp = \<lparr>dp_store = empty_tier_c, dp_pending_outcomes = [], dp_unknown_live = [], dp_append_failed = [],
        dp_proposal_deadlines = [], dp_uncertain = [], dp_recovery_failed = [], dp_decisions_lost = 0, dp_jobs = []\<rparr>,
      w_gate = new_gate, w_clock = 0, w_tick = 0, w_acts = [], w_notices = [], w_deferred = [], w_driving = []\<rparr>"

definition example_row :: "string \<times> string \<Rightarrow> new_proposal" where
  "example_row auth =
     proposal_of example_env ''trip_relay'' example_context (vetted_default ''alert_sms'') ''open_protected_circuit''
       example_facts auth 60 0"

definition example_outcome :: "world \<times> (interrupt + action_result)" where
  "example_outcome =
     governed_approval_workflow example_env example_config ''trip_relay'' example_context ''alert_sms'' 60 None example_world"

section \<open>Lemmas\<close>

subsection \<open>The remaining coroutines keep what the steps keep\<close>

context coroutine_guarantee
begin

lemma keeps_create_attempts: "keeps R w (create_attempts e deadline k creation row w)"
proof (induction k arbitrary: creation row w)
  case (Suc k)
  have redraw: "R w' (fst (redraw e deadline row w'))" for w'
    by (rule quiet) (simp_all add: redraw_def Let_def update_disp_def)
  have "keeps R w (store_call e (CreateProposal row) w)" by (rule keeps_store_call) simp
  with Suc.IH redraw show ?case
    by (auto simp: keeps_def split: prod.split sum.split interrupt.split) (metis R_trans fst_conv)
qed (simp add: keeps_here)

lemma keeps_create: "keeps R w (create_proposal e c deadline row w)"
  by (simp add: create_proposal_def keeps_here keeps_create_attempts)

lemma keeps_uncommitted:
  assumes "licensed w (sd, ''A'')"
  shows "keeps R w (uncommitted e c a cx sd row creation w)"
  unfolding uncommitted_def Let_def
  by (rule keeps_trans [OF quiet_notify], rule keeps_then [OF keeps_execute])
     (auto intro: keeps_here keeps_licence [OF assms quiet_notify])

lemma keeps_escalate: "keeps R w (escalate_to_secondary e c w)"
  by (simp add: escalate_to_secondary_def keeps_here keeps_sleep)

lemma keeps_resolve:
  assumes "licensed w (sd, ''A'')"
  shows "keeps R w (resolve_undispatched e c a cx sd pid' ended rs w)"
proof -
  have moves: "(REJECTED, [PROPOSED]) \<in> set DISPATCHER_MOVES" "(PROPOSAL_EXPIRED, [PROPOSED]) \<in> set DISPATCHER_MOVES"
    by (simp_all add: DISPATCHER_MOVES_def)
  obtain ds ae where f: "final_decision ended = (ds, ae)" by (rule prod.exhaust)
  have close: "keeps R w (if ds \<in> {REJECTED, PROPOSAL_EXPIRED}
      then close_now e c pid' ds [PROPOSED] (close_reason ds ae rs) (Some sd) w else (w, Inr True))"
    using keeps_close_now [OF moves(1)] keeps_close_now [OF moves(2)] by (auto intro: keeps_here)
  show ?thesis
    unfolding resolve_undispatched_def f prod.case
    by (rule keeps_then [OF close], rule keeps_then [OF keeps_safe_default], rule keeps_licence [OF assms],
        assumption, rule keeps_then)
       (auto simp: keeps_escalate keeps_here Let_def defer_record_def intro!: keeps_quiet split: option.split)
qed

lemma keeps_refuse:
  assumes "licensed w (sd, ''A'')"
  shows "keeps R w (refuse_proposal e c a cx sd why notice w)"
  unfolding refuse_proposal_def
  by (rule keeps_then [OF keeps_execute [OF assms]])
     (auto simp: Let_def defer_record_def governed_notify_def intro!: keeps_quiet)

lemma keeps_each:
  assumes "\<And>x w'. x \<in> set xs \<Longrightarrow> R w w' \<Longrightarrow> keeps R w' (f x w')"
  shows "keeps R w (each_io f xs w)"
  using assms
proof (induction xs arbitrary: w)
  case (Cons x xs)
  have "keeps R w' (each_io f xs w')" if "R w w'" for w'
    using Cons.prems R_trans [OF that] by (intro Cons.IH) simp
  moreover have "keeps R w (f x w)" using Cons.prems R_refl by simp
  ultimately show ?case by (simp add: keeps_then)
qed (simp add: keeps_here)

lemma keeps_abort:
  assumes "\<And>w sd. licensed w (sd, ''A'')"
  shows "keeps R w (abort_open_proposal e c reason row w)"
proof -
  have move: "(PROPOSAL_ABORTED_RESTART, [PROPOSED]) \<in> set DISPATCHER_MOVES" by (simp add: DISPATCHER_MOVES_def)
  show ?thesis
    unfolding abort_open_proposal_def Let_def
    by (rule keeps_then [OF keeps_close_now [OF move]])
       (auto intro!: keeps_then keeps_safe_default assms keepsI quiet_notify R_refl)
qed

lemma keeps_close_open:
  assumes "\<And>w sd. licensed w (sd, ''A'')"
  shows "keeps R w (close_open_proposals e c reason w)"
proof -
  have "keeps R w' (then_io (each_io (abort_open_proposal e c reason) rows w') (\<lambda>_ w2. (w2, Inr (length rows))))"
    for rows w'
    by (rule keeps_then [OF keeps_each]) (auto intro: keeps_abort assms keeps_here)
  then show ?thesis
    unfolding close_open_proposals_def by (auto intro: keeps_here keeps_then [OF keeps_store_read])
qed

lemma quiet_uncertain: "R w (note_uncertain c row state w)"
  by (rule quiet) (simp_all add: note_uncertain_def governed_notify_def update_disp_def)

lemma keeps_recover_row:
  assumes "\<And>w sd. licensed w (sd, ''A'')"
  shows "keeps R w (recover_row e c row w)"
proof -
  have moves: "(DISPATCH_NOT_PROVEN, [APPROVED_PENDING_DISPATCH]) \<in> set DISPATCHER_MOVES"
    "(DISPATCH_OUTCOME_UNKNOWN, [DISPATCH_STARTED]) \<in> set DISPATCHER_MOVES" by (simp_all add: DISPATCHER_MOVES_def)
  have moved: "keeps R w (then_io (store_call e (Advance pid st fs reason None None) w)
      (\<lambda>_ w1. (note_uncertain c row st w1, Inr ())))" if "(st, fs) \<in> set DISPATCHER_MOVES" for pid st fs reason
    using that by (intro keeps_then keeps_store_call) (auto intro: keepsI quiet_uncertain)
  show ?thesis
    by (simp add: recover_row_def Let_def keeps_abort [OF assms] moved moves keepsI [OF quiet_uncertain] keeps_here)
qed

lemma keeps_resume:
  assumes "\<And>w sd. licensed w (sd, ''A'')"
  shows "keeps R w (resume_intents e c is w)"
proof (induction "is" arbitrary: w)
  case (Cons i "is")
  show ?case
    unfolding resume_intents.simps resume_intent_def
    by (intro keeps_then keeps_safe_default assms) (auto intro: keeps_here Cons.IH)
qed (simp add: keeps_here)

lemma keeps_recover:
  assumes "\<And>w sd. licensed w (sd, ''A'')"
  shows "keeps R w (recover_tier_c_at_start e c w)"
proof -
  have rows: "keeps R w' (each_io (recover_row e c) rows w')" for rows w'
    by (rule keeps_each) (rule keeps_recover_row [OF assms])
  show ?thesis
    unfolding recover_tier_c_at_start_def
    by (auto intro!: keeps_here keeps_then keeps_store_read rows keeps_resume assms)
qed

end

context approval_guarantee
begin

lemma keeps_loop:
  assumes "np_proposal_id row = pid" and "licensed w (np_safe_default_action row, ''A'')"
  shows "keeps R w (approval_loop e c act cx row token deadline console accepted rs w)"
  using assms(2)
proof (induction "rounds_left deadline rs w" arbitrary: rs w rule: less_induct)
  case less
  note round = keeps_approval_round [OF assms(1) less.prems, of cx token deadline console accepted rs]
  show ?case
  proof (cases "deadline - w_clock w \<le> 0")
    case True
    then show ?thesis by (subst approval_loop.simps) (simp add: keeps_here)
  next
    case False
    have "keeps R w (approval_loop e c act cx row token deadline console accepted rs1 w1)"
      if r: "approval_round e c act cx row token deadline console accepted rs w = (w1, Inr (None, rs1))" for w1 rs1
    proof -
      have "R w w1" using round r by (simp add: keeps_def)
      then show ?thesis
        using less.hyps [OF rounds_left_decreases [OF False r]] keeps_licence [OF less.prems] keeps_trans by blast
    qed
    with False round show ?thesis
      by (subst approval_loop.simps) (auto simp: keeps_def split: prod.split sum.split option.split)
  qed
qed

lemma keeps_workflow:
  assumes "\<And>w1 row1. create_proposal e c deadline row w = (w1, Inr (''committed'', row1))
      \<Longrightarrow> np_proposal_id row1 = pid"
    and "\<And>w sd. licensed w (sd, ''A'')"
  shows "keeps R w (run_governed_workflow e c act cx sd token row deadline w)"
  unfolding run_governed_workflow_def
proof (rule keeps_then [OF keeps_create])
  fix a w1 assume r: "create_proposal e c deadline row w = (w1, Inr a)"
  obtain creation row1 where a: "a = (creation, row1)" by (rule prod.exhaust)
  show "keeps R w1 ((\<lambda>(creation, row1) w1. if creation \<noteq> ''committed'' then uncommitted e c act cx sd row1 creation w1
      else then_io (ask_operator e c token (np_proposal_id row1) w1) (\<lambda>(accepted, console) w2.
        then_io (approval_loop e c act cx row1 token deadline console accepted
            \<lparr>rs_replies = 0, rs_state_reason = [], rs_operator_response = None, rs_inbound = None\<rparr> w2)
          (\<lambda>(ended, rs) w3. case ended of
              Acted res \<Rightarrow> (defer_record (DecisionRecord ''approved'' res) w3, Inr res)
            | _ \<Rightarrow> resolve_undispatched e c act cx sd (np_proposal_id row1) ended rs w3))) a w1)"
  proof (cases "creation = ''committed''")
    case True
    with r a assms(1) have pid: "np_proposal_id row1 = pid" by blast
    have deferred: "R w' (defer_record (DecisionRecord d r) w')" for w' d r by (rule quiet) (simp_all add: defer_record_def)
    show ?thesis
      by (simp add: a True split: prod.split)
         (auto intro!: keeps_then [OF keeps_ask] keeps_then [OF keeps_loop [OF pid]] keeps_resolve assms(2)
            keepsI [OF deferred] split: loop_end.split)
  next
    case False
    then show ?thesis by (simp add: a keeps_uncommitted assms(2))
  qed
qed

end

subsection \<open>The guarantees hold\<close>

lemma records_grow: "set (td_records db) \<subseteq> set (td_records (fst (apply_tier_c db op)))"
proof (cases op)
  case (CreateProposal n now)
  then show ?thesis by (auto simp: create_tier_c_proposal_def append_tier_c_record_def)
next
  case (AdmitApproval p b a k ig now)
  then show ?thesis
    by (cases "get_tier_c_proposal db p")
       (auto simp: admit_tier_c_approval_def Let_def close_at_admission_def move_tier_c_def append_tier_c_record_def
         insert_tier_c_intent_def claim_token_def update_where_def split: if_splits)
next
  case (Advance p st fs reason j d now)
  then show ?thesis
    by (auto simp: advance_tier_c_proposal_def Let_def append_tier_c_record_def insert_tier_c_intent_def
        update_where_def split: option.split)
next
  case (Reconcile q now)
  then show ?thesis
    by (auto simp: reconcile_tier_c_def move_tier_c_def append_tier_c_record_def update_where_def
        split: option.split)
qed (auto simp: create_tier_c_safe_default_intent_def ensure_tier_c_safe_default_intent_def Let_def
    insert_tier_c_intent_def mark_tier_c_safe_default_intent_def claim_token_def)

lemma records_grow_run: "set (td_records db) \<subseteq> set (td_records (run_ops tier_c_call db xs))"
proof (induction xs arbitrary: db)
  case (Cons x xs)
  show ?case
  proof (cases "snd x")
    case True
    with Cons.IH [of "fst (apply_tier_c db (fst x))"] records_grow [of db "fst x"] show ?thesis
      by (auto simp: tier_c_call_def split: prod.split)
  next
    case False
    with Cons.IH [of db] show ?thesis by (simp add: tier_c_call_def)
  qed
qed simp

lemma approved_mono: "set (td_records db) \<subseteq> set (td_records db') \<Longrightarrow> approved db pid \<Longrightarrow> approved db' pid"
  by (auto simp: approved_def get_tier_c_proposal_records_def)

lemma act_ok_mono: "set (td_records db) \<subseteq> set (td_records db') \<Longrightarrow> act_ok act pid db x \<Longrightarrow> act_ok act pid db' x"
  by (auto simp: act_ok_def approved_mono)

lemma approved_append: "approved (append_tier_c_record db pid APPROVED_PENDING_DISPATCH reason now) pid"
  by (simp add: approved_def get_tier_c_proposal_records_def append_tier_c_record_def)

lemma admit_committed_approves:
  "admit_tier_c_approval db pid b a k ig now = (db', ''committed'') \<Longrightarrow> approved db' pid"
  by (auto simp: admit_tier_c_approval_def Let_def approved_append split: option.splits if_splits prod.splits)

interpretation store: approval_guarantee e c "store_run e" "\<lambda>_ _. True" act pid for e c act pid
proof
  show "store_run e w w''" if "store_run e w w'" "store_run e w' w''" for w w' w''
    unfolding store_run_def
  proof
    assume "rely e"
    with that obtain xs ys where "runs_ok tier_c_call dispatcher_call (dp_store (w_disp w)) (xs @ ys)"
      "dp_store (w_disp w'') = run_ops tier_c_call (dp_store (w_disp w)) (xs @ ys)"
      by (auto simp: store_run_def run_ops_append)
    then show "\<exists>xs. runs_ok tier_c_call dispatcher_call (dp_store (w_disp w)) xs
        \<and> dp_store (w_disp w'') = run_ops tier_c_call (dp_store (w_disp w)) xs" by blast
  qed
  show "store_run e w (set_store (fst (apply_tier_c (dp_store (w_disp w)) op)) w)"
    if "dispatcher_call (dp_store (w_disp w)) (op, True)" for w op
    unfolding store_run_def
    by (intro impI exI [of _ "[(op, True)]"]) (use that in \<open>auto simp: tier_c_call_def split: prod.split\<close>)
qed (auto simp: store_run_def rely_def intro: exI [of _ "[]"])

interpretation licence: approval_guarantee e c "acts_ok e act pid" "\<lambda>w x. rely e \<longrightarrow> act_ok act pid (dp_store (w_disp w)) x" act pid
  for e c act pid
proof
  show "acts_ok e act pid w w''" if "acts_ok e act pid w w'" "acts_ok e act pid w' w''" for w w' w''
    using that act_ok_mono by (fastforce simp: acts_ok_def list_all_iff)
  show "acts_ok e act pid w (pass e s w)" for w s
  proof -
    have "set (td_records (dp_store d)) \<subseteq> set (td_records (dp_store (en_others e n d)))" if "rely e" for n d
      using that records_grow_run [of "dp_store d"] by (auto simp: rely_def) (metis subsetD)
    then show ?thesis by (simp add: acts_ok_def)
  qed
  show "acts_ok e act pid w (set_store (fst (apply_tier_c (dp_store (w_disp w)) op)) w)" for w op
    using records_grow by (simp add: acts_ok_def)
  show "rely e \<longrightarrow> act_ok act pid (dp_store (w_disp w')) x"
    if "rely e \<longrightarrow> act_ok act pid (dp_store (w_disp w)) x" "acts_ok e act pid w w'" for w w' x
    using that act_ok_mono [of "dp_store (w_disp w)" "dp_store (w_disp w')" act pid x] by (auto simp: acts_ok_def)
  show "rely e \<longrightarrow> act_ok act pid (dp_store (w_disp (set_store db w))) (act, ''C'')"
    if "apply_tier_c (dp_store (w_disp w)) (AdmitApproval pid digest auth k ig now) = (db, TCText ''committed'')"
    for w digest auth k ig now db
    using that admit_committed_approves
    by (cases "admit_tier_c_approval (dp_store (w_disp w)) pid digest auth k ig now") (auto simp: act_ok_def)
qed (auto simp: acts_ok_def at_tier_def)

subsection \<open>One act at most\<close>

interpretation calm: coroutine_guarantee e c "\<lambda>w w'. tier_c_acts w' = tier_c_acts w" "\<lambda>_ x. snd x \<noteq> ''C''" for e c
  by unfold_locales (auto simp: tier_c_acts_def)

lemma calmD: "keeps (\<lambda>w w'. tier_c_acts w' = tier_c_acts w) w r \<Longrightarrow> r = (w', x) \<Longrightarrow> tier_c_acts w' = tier_c_acts w"
  by (simp add: keeps_def)

lemma acts_once_calm: "tier_c_acts (fst r) = tier_c_acts w \<Longrightarrow> acts_once f w r"
  by (simp add: acts_once_def)

lemma acts_once_then:
  assumes "keeps (\<lambda>w w'. tier_c_acts w' = tier_c_acts w) w r"
    and "\<And>a w'. r = (w', Inr a) \<Longrightarrow> acts_once f w' (k a w')"
  shows "acts_once f w (then_io r k)"
proof (cases r)
  case (Pair w' x)
  with assms show ?thesis by (cases x) (auto simp: acts_once_def keeps_def)
qed

lemma acts_once_from: "tier_c_acts w' = tier_c_acts w \<Longrightarrow> acts_once f w' r \<Longrightarrow> acts_once f w r"
  by (simp add: acts_once_def)

lemma calm_writes [simp]:
  "tier_c_acts (governed_notify c a cx what w) = tier_c_acts w"
  "tier_c_acts (update_disp f w) = tier_c_acts w"
  "tier_c_acts (defer_record x w) = tier_c_acts w"
  by (simp_all add: tier_c_acts_def governed_notify_def update_disp_def defer_record_def)

lemma execute_acts_once: "tier_c_acts (fst (execute_immediately e c a tier cx w)) \<le> Suc (tier_c_acts w)"
  by (auto simp: execute_immediately_def Let_def tier_c_acts_def then_io_def sleep_def)

lemma carry_out_acts_once: "tier_c_acts (fst (carry_out e c a cx row resp w)) \<le> Suc (tier_c_acts w)"
proof -
  let ?w1 = "update_disp (\<lambda>d. d\<lparr>dp_pending_outcomes := AList.update (np_proposal_id row) (w_clock w) (dp_pending_outcomes d),
    dp_jobs := dp_jobs d @ (if dc_store c then [MarkStarted (np_proposal_id row)] else [])\<rparr>) w"
  obtain w2 x where ran: "execute_immediately e c a ''C'' cx ?w1 = (w2, x)" by (rule prod.exhaust)
  have "tier_c_acts w2 \<le> Suc (tier_c_acts w)"
    using execute_acts_once [of e c a "''C''" cx ?w1] by (simp add: ran)
  then show ?thesis
    by (cases x) (simp_all add: carry_out_def Let_def ran split: interrupt.split)
qed

lemma dispatch_acts_once: "tier_c_acts (fst (dispatch_admitted e c a cx row token deadline resp w)) \<le> Suc (tier_c_acts w)"
proof -
  have moves: "(APPROVAL_EXPIRED_UNDISPATCHED, [APPROVED_PENDING_DISPATCH]) \<in> set DISPATCHER_MOVES"
    "(DISPATCH_REFUSED_CONTENTION, [APPROVED_PENDING_DISPATCH]) \<in> set DISPATCHER_MOVES"
    by (simp_all add: DISPATCHER_MOVES_def)
  have decline: "tier_c_acts (fst (decline_dispatch e c a cx row st r1 r2 what resp w')) = tier_c_acts w'"
    if "(st, [APPROVED_PENDING_DISPATCH]) \<in> set DISPATCHER_MOVES" for st r1 r2 what w'
    using calm.keeps_decline [OF that, where w = w' and row = row and e = e and c = c] by (simp add: keeps_def)
  have gate: "tier_c_acts (fst (gate_admits e token w)) = tier_c_acts w"
    using calm.keeps_gate_admits [where e = e and token = token and w = w] by (simp add: keeps_def)
  then show ?thesis
    by (cases "gate_admits e token w"; cases "snd (gate_admits e token w)")
       (auto simp: dispatch_admitted_def decline moves intro: order.trans [OF carry_out_acts_once])
qed

lemma after_admission_acts_once: "acts_once round_acted w (after_admission e c a cx row token deadline rs admission w)"
proof (cases "admission = ''committed''")
  case True
  have "tier_c_acts (fst (then_io (dispatch_admitted e c a cx row token deadline (rs_operator_response rs) w)
      (\<lambda>r w1. (w1, Inr (Some (Acted r), rs))))) \<le> Suc (tier_c_acts w)"
    using dispatch_acts_once [of e c a cx row token deadline "rs_operator_response rs" w]
    by (auto simp: then_io_def split: prod.split sum.split)
  with True show ?thesis
    by (auto simp: after_admission_def Let_def acts_once_def then_io_def round_acted_def is_acted_def
        split: prod.splits sum.splits)
next
  case False
  then show ?thesis
    by (intro acts_once_calm) (simp add: after_admission_def Let_def)
qed

lemma admit_acts_once: "acts_once round_acted w (admit_reply e c a cx row token deadline console tid rs w)"
proof -
  have call: "keeps (\<lambda>w w'. tier_c_acts w' = tier_c_acts w) w
      (if \<not> dc_store c then (w, Inr ''store_unavailable'')
       else case store_call e (AdmitApproval pid digest auth k ig) w of
          (w1, Inl Cancelled) \<Rightarrow> (w1, Inl Cancelled) | (w1, Inl (Raised _)) \<Rightarrow> (w1, Inr ''store_unavailable'')
        | (w1, Inr ans) \<Rightarrow> (w1, Inr (answer_text ans)))" for pid digest auth k ig
    using calm.keeps_caught [OF calm.keeps_store_call [where mk = "AdmitApproval pid digest auth k ig" and e = e and w = w],
        where d = "\<lambda>_. ''store_unavailable''" and f = answer_text] by (simp add: calm.keeps_here)
  note admitted = acts_once_then [OF call after_admission_acts_once]
  show ?thesis
  proof (cases "authority_now c a (en_facts e (w_tick w) (Some (np_zone_id row)))")
    case (Inl x)
    then show ?thesis by (simp add: admit_reply_def Let_def acts_once_calm)
  next
    case (Inr authority)
    obtain auth digest where "(case authority of Some p \<Rightarrow> p | None \<Rightarrow> ([], [])) = (auth, digest)"
      by (rule prod.exhaust)
    with Inr admitted show ?thesis by (simp add: admit_reply_def Let_def acts_once_calm)
  qed
qed

lemma answer_acts_once: "acts_once round_acted w (answer_reply e c a cx row token deadline console t rs w)"
proof -
  have "acts_once round_acted w (admit_reply e c a cx row token deadline console tid rs' (if b then defer_record x w else w))"
    for tid rs' b x by (rule acts_once_from [OF _ admit_acts_once]) simp
  then show ?thesis
    by (auto simp: answer_reply_def token_reply_def Let_def
        intro!: admit_acts_once acts_once_calm split: reply_kind.split)
qed

lemma round_acts_once: "acts_once round_acted w (approval_round e c a cx row token deadline console accepted rs w)"
proof -
  have heard: "acts_once round_acted w' (then_io (sleep e 0 w') (\<lambda>_. answer_reply e c a cx row token deadline console t rs'))"
    for w' t rs' by (rule acts_once_then [OF calm.keeps_sleep]) (simp_all add: answer_acts_once)
  have "acts_once round_acted w' (listen_once e c a cx row token deadline console accepted window rs w')" for w' window
    unfolding listen_once_def
    by (rule acts_once_then [OF calm.keeps_listen]) (simp add: acts_once_calm heard split: option.split prod.split)
  then show ?thesis
    unfolding approval_round_def by (intro acts_once_then) (auto intro: calm.keeps_sleep calm.keeps_here)
qed

lemma loop_acts_once:
  "acts_once (\<lambda>x. is_acted (fst x)) w (approval_loop e c a cx row token deadline console accepted rs w)"
proof (induction "rounds_left deadline rs w" arbitrary: rs w rule: less_induct)
  case less
  show ?case
  proof (cases "deadline - w_clock w \<le> 0")
    case True
    then show ?thesis by (subst approval_loop.simps) (simp add: acts_once_calm)
  next
    case False
    note round = round_acts_once [of w e c a cx row token deadline console accepted rs]
    have "acts_once (\<lambda>x. is_acted (fst x)) w (approval_loop e c a cx row token deadline console accepted rs1 w1)"
      if r: "approval_round e c a cx row token deadline console accepted rs w = (w1, Inr (None, rs1))" for w1 rs1
      using less.hyps [OF rounds_left_decreases [OF False r]] round r
      by (auto simp: acts_once_def round_acted_def)
    with False round show ?thesis
      by (subst approval_loop.simps)
         (auto simp: acts_once_def round_acted_def split: prod.split sum.split option.split)
  qed
qed

lemma workflow_acts_once:
  "tier_c_acts (fst (run_governed_workflow e c a cx sd token row deadline w)) \<le> Suc (tier_c_acts w)"
proof -
  have resolve: "tier_c_acts (fst (resolve_undispatched e c a cx sd pid ended rs w')) = tier_c_acts w'" for pid ended rs w'
    using calm.keeps_resolve [where sd = sd and e = e and w = w'] by (simp add: keeps_def)
  have fail: "tier_c_acts (fst (uncommitted e c a cx sd row' cr w')) = tier_c_acts w'" for row' cr w'
    using calm.keeps_uncommitted [where sd = sd and e = e and w = w'] by (simp add: keeps_def)
  have loop: "acts_once (\<lambda>_. True) w' (then_io (approval_loop e c a cx row1 token deadline console accepted rs w')
      (\<lambda>(ended, rs) w3. case ended of
          Acted res \<Rightarrow> (defer_record (DecisionRecord ''approved'' res) w3, Inr res)
        | _ \<Rightarrow> resolve_undispatched e c a cx sd (np_proposal_id row1) ended rs w3))" for w' row1 console accepted rs
    using loop_acts_once [of w' e c a cx row1 token deadline console accepted rs]
    by (auto simp: acts_once_def then_io_def is_acted_def resolve
        split: prod.splits sum.splits loop_end.splits)
  have "acts_once (\<lambda>_. True) w (run_governed_workflow e c a cx sd token row deadline w)"
    unfolding run_governed_workflow_def
    by (rule acts_once_then [OF calm.keeps_create])
       (auto intro!: acts_once_calm fail acts_once_then [OF calm.keeps_ask] loop split: prod.split)
  then show ?thesis by (simp add: acts_once_def)
qed

subsection \<open>What the answer says\<close>

lemma dispatch_answer:
  assumes "dispatch_admitted e c a cx row token deadline resp w = (w', Inr r)"
  shows "ar_approved r = Some True \<and> ar_proposal_id r = Some (np_proposal_id row) \<and> ar_action_name r = a \<and> ar_tier r = ''C''
    \<and> (ar_executed r \<longrightarrow> (a, ''C'') \<in> set (w_acts w'))"
proof -
  have decline: "ar_approved r = Some True \<and> ar_proposal_id r = Some (np_proposal_id row) \<and> ar_action_name r = a
      \<and> ar_tier r = ''C'' \<and> \<not> ar_executed r"
    if "decline_dispatch e c a cx row st r1 r2 what resp w1 = (w', Inr r)" for st r1 r2 what w1
    using that by (auto simp: decline_dispatch_def then_io_Inr approved_result_def)
  have act: "(a, ''C'') \<in> set (w_acts w2)"
    if "execute_immediately e c a ''C'' cx w1 = (w2, Inr inner)" "ar_executed inner" for w1 w2 inner
    using that
    by (auto simp: execute_immediately_def Let_def unapproved_def then_io_Inr action_taken_def split: if_splits)
  have carry: "ar_approved r = Some True \<and> ar_proposal_id r = Some (np_proposal_id row) \<and> ar_action_name r = a
      \<and> ar_tier r = ''C'' \<and> (ar_executed r \<longrightarrow> (a, ''C'') \<in> set (w_acts w'))"
    if "carry_out e c a cx row resp w1 = (w', Inr r)" for w1
    using that act
    by (auto simp: carry_out_def Let_def approved_result_def update_disp_def governed_notify_def
        split: prod.splits sum.splits interrupt.splits if_splits)
  from assms show ?thesis
    unfolding dispatch_admitted_def
    by (auto simp only: then_io_Inr split: if_splits dest!: decline carry)
qed

lemma round_answer:
  assumes "approval_round e c a cx row token deadline console accepted rs w = (w', Inr (Some (Acted r), rs'))"
  shows "ar_approved r = Some True \<and> ar_proposal_id r = Some (np_proposal_id row) \<and> ar_action_name r = a \<and> ar_tier r = ''C''
    \<and> (ar_executed r \<longrightarrow> (a, ''C'') \<in> set (w_acts w'))"
proof -
  have after: "\<exists>w1 resp. dispatch_admitted e c a cx row token deadline resp w1 = (w', Inr r)"
    if "after_admission e c a cx row token deadline rs1 admission w0 = (w', Inr (Some (Acted r), rs'))" for rs1 admission w0
    using that by (auto simp: after_admission_def Let_def then_io_Inr split: if_splits)
  have admit: "\<exists>w1 resp. dispatch_admitted e c a cx row token deadline resp w1 = (w', Inr r)"
    if "admit_reply e c a cx row token deadline console tid rs1 w0 = (w', Inr (Some (Acted r), rs'))" for tid rs1 w0
    using that after by (auto simp: admit_reply_def Let_def then_io_Inr split: if_splits sum.splits prod.splits)
  have answer: "\<exists>w1 resp. dispatch_admitted e c a cx row token deadline resp w1 = (w', Inr r)"
    if "answer_reply e c a cx row token deadline console t rs1 w0 = (w', Inr (Some (Acted r), rs'))" for t rs1 w0
    using that admit by (auto simp: answer_reply_def token_reply_def Let_def split: reply_kind.splits if_splits)
  from assms have "\<exists>w1 resp. dispatch_admitted e c a cx row token deadline resp w1 = (w', Inr r)"
    by (auto simp: approval_round_def listen_once_def then_io_Inr split: option.splits dest: answer)
  then show ?thesis using dispatch_answer by blast
qed

lemma loop_answer:
  assumes "approval_loop e c a cx row token deadline console accepted rs w = (w', Inr (Acted r, rs'))"
  shows "ar_approved r = Some True \<and> ar_proposal_id r = Some (np_proposal_id row) \<and> ar_action_name r = a \<and> ar_tier r = ''C''
    \<and> (ar_executed r \<longrightarrow> (a, ''C'') \<in> set (w_acts w'))"
  using assms
proof (induction "rounds_left deadline rs w" arbitrary: rs w rule: less_induct)
  case less
  from less.prems have left: "\<not> deadline - w_clock w \<le> 0" by (subst (asm) approval_loop.simps) (auto split: if_splits)
  obtain w1 y where r: "approval_round e c a cx row token deadline console accepted rs w = (w1, y)" by (rule prod.exhaust)
  from less.prems r left consider
      "y = Inr (Some (Acted r), rs')" "w1 = w'"
    | rs1 where "y = Inr (None, rs1)" "approval_loop e c a cx row token deadline console accepted rs1 w1 = (w', Inr (Acted r, rs'))"
    by (subst (asm) approval_loop.simps) (auto split: sum.splits prod.splits option.splits)
  then show ?case
  proof cases
    case 1
    with r show ?thesis by (intro round_answer) simp
  next
    case 2
    with r left show ?thesis by (intro less.hyps [OF rounds_left_decreases [OF left]]) simp_all
  qed
qed

lemma governed_cases:
  assumes "governed_approval_workflow e c act cx sd timeout token w = (w', x)"
  obtains (raised) i where "w' = w" "x = Inl i"
  | (refused) why notice where "refuse_proposal e c act cx sd why notice w = (w', x)"
  | (run) row deadline w1 where "run_governed_workflow e c act cx (vetted_default sd) token row deadline
        (hold_deadline (np_proposal_id row) deadline w) = (w1, x)" "w' = drop_deadline (np_proposal_id row) w1"
  using assms
  by (auto simp: governed_approval_workflow_def Let_def split: sum.splits option.splits if_splits prod.splits)

lemma physical_not_at_A: "is_physical a \<Longrightarrow> \<not> at_tier (a, ''A'')"
proof -
  have "list_all (\<lambda>(n, cap). cap_physical cap \<longrightarrow> \<not> at_tier (n, ''A'')) ACTION_REGISTRY" by code_simp
  then show "is_physical a \<Longrightarrow> \<not> at_tier (a, ''A'')"
    by (fastforce simp: is_physical_def capability_def list_all_iff split: option.splits dest!: map_of_SomeD)
qed

lemma physical_act:
  assumes "at_tier y" and "act_ok act pid db y" and "is_physical (fst y)"
  shows "y = (act, ''C'') \<and> approved db pid"
proof (cases y)
  case (Pair a tier)
  with assms physical_not_at_A [of a] have "tier \<noteq> ''A''" by auto
  with assms(2) Pair show ?thesis by (auto simp: act_ok_def split: if_splits)
qed

lemma physical_acts:
  assumes "list_all at_tier ys" and "list_all (act_ok act pid db) ys"
  shows "length (filter (\<lambda>y. is_physical (fst y)) ys) \<le> length (filter (\<lambda>y. snd y = ''C'') ys)"
  using assms
proof (induction ys)
  case (Cons y ys)
  then have "snd y = ''C''" if "is_physical (fst y)" using physical_act [of y act pid db] that by auto
  with Cons show ?case by auto
qed simp

lemma workflow_answer:
  assumes "run_governed_workflow e c a cx sd token row deadline w = (w', Inr r)"
  shows "ar_action_name r = a \<and> ar_tier r = ''C''
    \<and> (ar_approved r \<noteq> Some True \<longrightarrow> ar_executed r \<longrightarrow> ar_safe_default_used r)
    \<and> (ar_approved r = Some True \<and> ar_executed r \<longrightarrow> (a, ''C'') \<in> set (w_acts w'))
    \<and> (tier_c_acts w' \<noteq> tier_c_acts w \<longrightarrow> ar_approved r = Some True \<and>
        (\<exists>w1 row1. create_proposal e c deadline row w = (w1, Inr (''committed'', row1))
           \<and> ar_proposal_id r = Some (np_proposal_id row1)))"
proof -
  from assms obtain w1 creation row1 where cr: "create_proposal e c deadline row w = (w1, Inr (creation, row1))"
    by (auto simp: run_governed_workflow_def then_io_Inr)
  note acts1 = calmD [OF calm.keeps_create cr]
  show ?thesis
  proof (cases "creation = ''committed''")
    case False
    with assms cr have u: "uncommitted e c a cx sd row1 creation w1 = (w', Inr r)"
      by (simp add: run_governed_workflow_def)
    then have "ar_approved r = None" "\<not> ar_executed r" "ar_action_name r = a" "ar_tier r = ''C''"
      by (auto simp: uncommitted_def Let_def then_io_Inr workflow_result_def)
    moreover have "tier_c_acts w' = tier_c_acts w1" by (rule calmD [OF calm.keeps_uncommitted u]) simp
    ultimately show ?thesis using acts1 by simp
  next
    case True
    with assms cr obtain w2 accepted console w3 ended rs where
        ask: "ask_operator e c token (np_proposal_id row1) w1 = (w2, Inr (accepted, console))"
      and loop: "approval_loop e c a cx row1 token deadline console accepted
          \<lparr>rs_replies = 0, rs_state_reason = [], rs_operator_response = None, rs_inbound = None\<rparr> w2 = (w3, Inr (ended, rs))"
      and rest: "(case ended of Acted res \<Rightarrow> (defer_record (DecisionRecord ''approved'' res) w3, Inr res)
          | _ \<Rightarrow> resolve_undispatched e c a cx sd (np_proposal_id row1) ended rs w3) = (w', Inr r)"
      by (auto simp: run_governed_workflow_def then_io_Inr)
    note acts2 = calmD [OF calm.keeps_ask ask]
    show ?thesis
    proof (cases "is_acted ended")
      case True
      then obtain res where "ended = Acted res" by (auto simp: is_acted_def split: loop_end.splits)
      with rest loop_answer [of e c a cx row1 token deadline console accepted _ w2 w3 res rs] loop cr
        \<open>creation = ''committed''\<close> show ?thesis by (auto simp: defer_record_def)
    next
      case False
      with rest have u: "resolve_undispatched e c a cx sd (np_proposal_id row1) ended rs w3 = (w', Inr r)"
        by (auto simp: is_acted_def split: loop_end.splits)
      then have "ar_approved r = Some False" "ar_executed r = ar_safe_default_used r" "ar_action_name r = a" "ar_tier r = ''C''"
        by (auto simp: resolve_undispatched_def Let_def then_io_Inr workflow_result_def split: prod.splits)
      moreover have "tier_c_acts w' = tier_c_acts w3" by (rule calmD [OF calm.keeps_resolve u]) simp
      moreover have "tier_c_acts w3 = tier_c_acts w2"
        using loop_acts_once [of w2 e c a cx row1 token deadline console accepted] loop False
        by (metis (no_types, lifting) acts_once_def fst_conv snd_conv)
      ultimately show ?thesis using acts1 acts2 by simp
    qed
  qed
qed

lemma governed_acts:
  assumes "governed_approval_workflow e c act cx sd timeout token w = (w', x)"
  shows "\<exists>pid. acts_ok e act pid w w' \<and> tier_c_acts w' \<le> Suc (tier_c_acts w)
    \<and> (\<forall>r. x = Inr r \<longrightarrow> ar_action_name r = act \<and> ar_tier r = ''C''
         \<and> (ar_executed r \<longrightarrow> ar_safe_default_used r \<or> ar_approved r = Some True)
         \<and> (ar_approved r = Some True \<and> ar_executed r \<longrightarrow> (act, ''C'') \<in> set (w_acts w'))
         \<and> (tier_c_acts w' \<noteq> tier_c_acts w \<longrightarrow> ar_approved r = Some True \<and> ar_proposal_id r = Some pid))"
  using assms
proof (cases rule: governed_cases)
  case raised
  then show ?thesis by (simp add: acts_ok_def)
next
  case (refused why notice)
  have "acts_ok e act [] w w'"
    using licence.keeps_refuse [where e = e and c = c and w = w and sd = sd and a = act and cx = cx and act = act
        and pid = "[]" and why = why and notice = notice] refused by (simp add: keeps_def act_ok_def)
  moreover have "tier_c_acts w' = tier_c_acts w" using calmD [OF calm.keeps_refuse refused] by simp
  moreover have "ar_approved r = None \<and> \<not> ar_executed r \<and> ar_action_name r = act \<and> ar_tier r = ''C''" if "x = Inr r" for r
    using refused that by (auto simp: refuse_proposal_def then_io_Inr Let_def unapproved_def)
  ultimately show ?thesis by (intro exI [of _ "[]"]) simp
next
  case (run row deadline w1)
  let ?w0 = "hold_deadline (np_proposal_id row) deadline w"
  define pid where "pid = (case create_proposal e c deadline row ?w0 of
      (_, Inr (_, row1)) \<Rightarrow> np_proposal_id row1 | _ \<Rightarrow> [])"
  have "keeps (acts_ok e act pid) ?w0 (run_governed_workflow e c act cx (vetted_default sd) token row deadline ?w0)"
    by (rule licence.keeps_workflow) (auto simp: pid_def act_ok_def)
  then have ok: "acts_ok e act pid w w'"
    using run by (simp add: keeps_def acts_ok_def hold_deadline_def drop_deadline_def update_disp_def)
  have same: "tier_c_acts ?w0 = tier_c_acts w" "tier_c_acts w' = tier_c_acts w1" "w_acts w' = w_acts w1"
    by (simp_all add: run(2) hold_deadline_def drop_deadline_def) (simp add: update_disp_def)
  have once: "tier_c_acts w' \<le> Suc (tier_c_acts w)"
    using workflow_acts_once [of e c act cx "vetted_default sd" token row deadline ?w0] run(1) same by simp
  have answer: "ar_action_name r = act \<and> ar_tier r = ''C'' \<and> (ar_executed r \<longrightarrow> ar_safe_default_used r \<or> ar_approved r = Some True)
      \<and> (ar_approved r = Some True \<and> ar_executed r \<longrightarrow> (act, ''C'') \<in> set (w_acts w'))
      \<and> (tier_c_acts w' \<noteq> tier_c_acts w \<longrightarrow> ar_approved r = Some True \<and> ar_proposal_id r = Some pid)" if "x = Inr r" for r
    using workflow_answer [of e c act cx "vetted_default sd" token row deadline ?w0 w1 r] run(1) that same
    by (auto simp: pid_def)
  show ?thesis using ok once answer by blast
qed

lemma physical_once:
  assumes "list_all at_tier ys" and "list_all (act_ok act pid db) ys"
  shows "\<forall>y \<in> set ys. is_physical (fst y) \<longrightarrow> y = (act, ''C'') \<and> approved db pid"
    and "(act, ''C'') \<in> set ys \<longleftrightarrow> filter (\<lambda>x. snd x = ''C'') ys \<noteq> []"
proof -
  show "\<forall>y \<in> set ys. is_physical (fst y) \<longrightarrow> y = (act, ''C'') \<and> approved db pid"
    using assms by (intro ballI impI physical_act) (simp_all add: list_all_iff)
  have "y = (act, ''C'')" if "y \<in> set ys" "snd y = ''C''" for y
    using that assms(2) by (auto simp: list_all_iff act_ok_def prod_eq_iff)
  moreover have "snd (act, ''C'') = ''C''" by simp
  ultimately show "(act, ''C'') \<in> set ys \<longleftrightarrow> filter (\<lambda>x. snd x = ''C'') ys \<noteq> []"
    unfolding filter_empty_conv by metis
qed

subsection \<open>The example runs\<close>

lemma snapshot_has_text:
  assumes "build_snapshot x = Inr d"
  shows "\<exists>b. snapshot_bytes (JDict d) = Inr b"
proof -
  from assms obtain v where "validate_snapshot v = Inr d"
    by (auto simp: build_snapshot_def bind_res_Inr_iff split: option.splits)
  then have v: "validate_snapshot (JDict d) = Inr d" by (auto simp: validate_snapshot_iff)
  from assms obtain cap p z where "d = [(''action'', JStr (ai_action x)), (''action_capability'', JStr cap),
      (''binding_digest'', JStr (binding_member (ai_binding_canonical_hash x))), (''outcome'', JStr (ai_outcome x)),
      (''policy_digest'', JStr p), (''resource'', JStr (ai_resource x)),
      (''safety_profile'', JStr (ai_safety_profile_digest x)), (''v'', JInt 1), (''zone_digest'', JStr z),
      (''zone_id'', JStr (ai_zone_id x))]"
    by (fastforce simp: build_snapshot_def bind_res_Inr_iff validate_snapshot_iff split: option.splits)
  then have "\<exists>t. json_text (JDict d) = Some t" by simp
  with v show ?thesis by (auto simp: snapshot_bytes_def canonical_or_raise_def canonical_bytes_def)
qed

lemma example_outcome_governed: "governed_outcome ''trip_relay'' = Some ''open_protected_circuit''"
  by code_simp

lemma example_authority:
  obtains auth where "authority_now example_config ''trip_relay'' (Some example_facts) = Inr (Some auth)"
proof -
  have "capability ''trip_relay'' \<noteq> None" "\<not> starts_with ''sha256:'' ''b7''" by code_simp+
  then have "\<exists>d. build_snapshot (authority_inputs_of example_config ''trip_relay'' ''open_protected_circuit'' example_facts) = Inr d"
    unfolding build_snapshot_iff
    by (simp add: authority_inputs_of_def example_facts_def policy_inputs_def canonical_bytes_def Let_def)
  then obtain d b where "build_snapshot (authority_inputs_of example_config ''trip_relay'' ''open_protected_circuit'' example_facts) = Inr d"
    "snapshot_bytes (JDict d) = Inr b" using snapshot_has_text by blast
  then have "\<exists>auth. authority_now example_config ''trip_relay'' (Some example_facts) = Inr (Some auth)"
    by (simp add: authority_now_def example_outcome_governed)
  with that show thesis by blast
qed

lemma example_env_sel:
  "en_facts example_env = (\<lambda>_ _. Some example_facts)" "en_cancel example_env = (\<lambda>_. False)"
  "en_takes example_env = (\<lambda>_. True)" "en_heard example_env = (\<lambda>_. HText (cps ''yes''))"
  "en_executor example_env = (\<lambda>_. XDone)" "en_sent example_env = (\<lambda>_. True)"
  "en_others example_env = (\<lambda>_ d. d)" "en_elapsed example_env = (\<lambda>_. 0)"
  "en_now example_env = (\<lambda>n. 1000 + int n)" "en_gate example_env = (\<lambda>_ g. g)" "en_choice example_env = (\<lambda>_ i. i)"
  by (simp_all add: example_env_def)

lemma example_config_sel:
  "dc_store example_config" "dc_alert_sender example_config" "dc_operator_contact example_config = ''+234''"
  "dc_comms_posture example_config = None" "\<not> dc_require_scoped_replies example_config"
  "''trip_relay'' \<in> set (dc_executors example_config)"
  by (simp_all add: example_config_def)

lemma example_row_sel:
  "np_proposal_id (example_row (a, d)) = ''ABCDEFGH''" "np_binding_digest (example_row (a, d)) = d"
  "np_authority_json (example_row (a, d)) = a" "np_zone_id (example_row (a, d)) = ''z1''"
proof -
  have "generate_proposal_id (\<lambda>i. i) 8 = ''ABCDEFGH''" by code_simp
  then show "np_proposal_id (example_row (a, d)) = ''ABCDEFGH''" "np_binding_digest (example_row (a, d)) = d"
    "np_authority_json (example_row (a, d)) = a" "np_zone_id (example_row (a, d)) = ''z1''"
    by (simp_all add: example_row_def proposal_of_def example_env_sel example_facts_def)
qed

lemmas example_sel = example_env_sel example_config_sel example_row_sel

lemma example_rely: "rely example_env"
  by (auto simp: rely_def example_env_sel intro: exI [of _ "[]"])

lemma example_dispatch:
  assumes "w_acts w = []" and "w_clock w = 0"
  shows "\<exists>w' r. dispatch_admitted example_env example_config ''trip_relay'' example_context row None 60 resp w = (w', Inr r)
    \<and> w_acts w' = [(''trip_relay'', ''C'')]"
proof -
  have "enforce_minimum_tier ''trip_relay'' ''C'' = ''C''" by code_simp
  with assms show ?thesis
    by (simp add: dispatch_admitted_def gate_admits_def carry_out_def Let_def execute_immediately_def example_sel
        update_disp_def unapproved_def dispatched_state_def)
qed

lemma example_committed:
  assumes "ig_offline_token_id ig = []"
  shows "\<exists>db. admit_tier_c_approval (fst (create_tier_c_proposal empty_tier_c (example_row (a, d)) 1000)) ''ABCDEFGH'' d a
    PENDING_OUTCOME_CEILING ig now = (db, ''committed'')"
  using assms
  by (simp add: admit_tier_c_approval_def create_tier_c_proposal_def empty_tier_c_def tier_c_outcome_blocked_def
      get_tier_c_proposal_def append_tier_c_record_def proposal_row_def example_sel reserved_count_def
      PENDING_OUTCOME_CEILING_def)

lemma example_round:
  assumes auth: "authority_now example_config ''trip_relay'' (Some example_facts) = Inr (Some (a, d))"
    and w: "w_clock w = 0" "w_acts w = []"
      "dp_store (w_disp w) = fst (create_tier_c_proposal empty_tier_c (example_row (a, d)) 1000)"
  shows "\<exists>w' r rs'. approval_round example_env example_config ''trip_relay'' example_context (example_row (a, d)) None 60
      False True \<lparr>rs_replies = 0, rs_state_reason = [], rs_operator_response = None, rs_inbound = None\<rparr> w
      = (w', Inr (Some (Acted r), rs')) \<and> w_acts w' = [(''trip_relay'', ''C'')]"
proof -
  define w1 where "w1 = pass example_env 0 (pass example_env 0 w)"
  have w1: "w_clock w1 = 0" "w_acts w1 = []" "w_disp w1 = w_disp w" using w by (simp_all add: w1_def example_sel)
  have "\<exists>w' r rs'. admit_reply example_env example_config ''trip_relay'' example_context (example_row (a, d)) None 60 False [] rs w1
      = (w', Inr (Some (Acted r), rs')) \<and> w_acts w' = [(''trip_relay'', ''C'')]" for rs
  proof -
    let ?ig = "ingress_of example_config False rs []"
    obtain db where db: "admit_tier_c_approval (fst (create_tier_c_proposal empty_tier_c (example_row (a, d)) 1000))
        ''ABCDEFGH'' d a PENDING_OUTCOME_CEILING ?ig (1000 + int (w_tick w1)) = (db, ''committed'')"
    proof -
      have "ig_offline_token_id ?ig = []" by (simp add: ingress_of_def)
      from example_committed [OF this] that show thesis by blast
    qed
    from example_dispatch [of "set_store db (pass example_env 0 w1)" "example_row (a, d)" "rs_operator_response rs"] show ?thesis
      by (auto simp: admit_reply_def Let_def w w1 auth example_sel store_call_def tier_c_call_def db answer_text_def
          after_admission_def)
  qed
  moreover have "classifiable_reply (Heard (cps ''yes'')) = Some (cps ''yes'')"
    by (simp add: classifiable_reply_def cps_def surrogate_def)
  moreover have "classify_approval_response (Some (cps ''yes'')) (cps ''ABCDEFGH'') False False = Approve" by code_simp
  ultimately show ?thesis
    by (simp add: approval_round_def listen_once_def governed_listen_def Let_def sleep_def example_sel
        MAX_REPLIES_PER_PROPOSAL_def answer_reply_def flip: w1_def)
qed

lemma example_runs:
  "w_acts (fst example_outcome) = [(''trip_relay'', ''C'')]
   \<and> (\<exists>r. snd example_outcome = Inr r \<and> ar_approved r = Some True \<and> ar_proposal_id r = Some ''ABCDEFGH'')"
proof -
  obtain a d where auth: "authority_now example_config ''trip_relay'' (Some example_facts) = Inr (Some (a, d))"
    using example_authority by (metis surj_pair)
  let ?w0 = "hold_deadline ''ABCDEFGH'' 60 example_world"
  define w1 where "w1 = set_store (fst (create_tier_c_proposal empty_tier_c (example_row (a, d)) 1000)) (pass example_env 0 ?w0)"
  have create: "create_proposal example_env example_config 60 (example_row (a, d)) ?w0 = (w1, Inr (''committed'', example_row (a, d)))"
    by (simp add: w1_def create_proposal_def outcome_held_live_def example_sel numeral_3_eq_3 store_call_def Let_def
        tier_c_call_def create_tier_c_proposal_def empty_tier_c_def tier_c_outcome_blocked_def get_tier_c_proposal_def
        hold_deadline_def update_disp_def example_world_def answer_text_def)
  have ask: "ask_operator example_env example_config None ''ABCDEFGH'' w1 = (pass example_env 0 w1, Inr (True, False))"
    by (simp add: ask_operator_def comms_available_def sleep_def example_sel)
  have w1: "w_clock (pass example_env 0 w1) = 0" "w_acts (pass example_env 0 w1) = []"
    "dp_store (w_disp (pass example_env 0 w1)) = fst (create_tier_c_proposal empty_tier_c (example_row (a, d)) 1000)"
    by (simp_all add: w1_def hold_deadline_def update_disp_def example_world_def example_sel)
  have loop: "\<exists>w' r rs'. approval_loop example_env example_config ''trip_relay'' example_context (example_row (a, d)) None 60
      False True \<lparr>rs_replies = 0, rs_state_reason = [], rs_operator_response = None, rs_inbound = None\<rparr> (pass example_env 0 w1)
      = (w', Inr (Acted r, rs')) \<and> w_acts w' = [(''trip_relay'', ''C'')]
        \<and> ar_approved r = Some True \<and> ar_proposal_id r = Some ''ABCDEFGH''"
  proof -
    from example_round [OF auth w1] w1(1) obtain w' r rs' where l: "approval_loop example_env example_config ''trip_relay''
        example_context (example_row (a, d)) None 60 False True
        \<lparr>rs_replies = 0, rs_state_reason = [], rs_operator_response = None, rs_inbound = None\<rparr> (pass example_env 0 w1)
        = (w', Inr (Acted r, rs'))" "w_acts w' = [(''trip_relay'', ''C'')]"
      by (subst (asm) approval_loop.simps) (auto simp del: pass_sel)
    with loop_answer [OF l(1)] show ?thesis by (auto simp: example_row_sel)
  qed
  have "permits_relay_action example_config ''C'' 1" "proposal_lifetime 60 = 60" by code_simp+
  moreover have "w_tick example_world = 0" "w_clock example_world = 0" "dp_recovery_failed (w_disp example_world) = []"
    by (simp_all add: example_world_def)
  ultimately show ?thesis
    using loop
    by (auto simp: example_outcome_def governed_approval_workflow_def example_env_sel example_row_sel
        example_outcome_governed auth Let_def create ask run_governed_workflow_def defer_record_def drop_deadline_def
        update_disp_def simp flip: example_row_def)
qed

section \<open>Properties\<close>

text \<open>
  C3. Nothing actuates without a committed approval. Whatever operators reply, whatever fails,
  whenever the task is cancelled and however other tasks interleave, a governed approval runs at
  most one physical act; that act is the proposed one, run at Tier C, and the store then holds the
  committed approval of the workflow's own proposal. An answer that claims an approved act was
  executed is given only when the executor ran, and an act that ran is answered as approved, under
  its proposal's identifier.
\<close>

theorem acts_only_on_committed_approval:
  assumes "rely e" and "w_acts w = []"
    and "governed_approval_workflow e c act cx sd timeout token w = (w', x)"
  shows "\<exists>pid. (\<forall>y \<in> set (w_acts w'). is_physical (fst y) \<longrightarrow> y = (act, ''C'') \<and> approved (dp_store (w_disp w')) pid)
    \<and> length (filter (\<lambda>y. is_physical (fst y)) (w_acts w')) \<le> 1
    \<and> (\<forall>r. x = Inr r \<longrightarrow>
         (ar_approved r = Some True \<and> ar_executed r \<longrightarrow> (act, ''C'') \<in> set (w_acts w'))
         \<and> ((act, ''C'') \<in> set (w_acts w') \<longrightarrow> ar_approved r = Some True \<and> ar_proposal_id r = Some pid))"
proof -
  from governed_acts [OF assms(3)] obtain pid where ok: "acts_ok e act pid w w'"
    and once: "tier_c_acts w' \<le> Suc (tier_c_acts w)"
    and answer: "\<forall>r. x = Inr r \<longrightarrow> ar_action_name r = act \<and> ar_tier r = ''C''
         \<and> (ar_executed r \<longrightarrow> ar_safe_default_used r \<or> ar_approved r = Some True)
         \<and> (ar_approved r = Some True \<and> ar_executed r \<longrightarrow> (act, ''C'') \<in> set (w_acts w'))
         \<and> (tier_c_acts w' \<noteq> tier_c_acts w \<longrightarrow> ar_approved r = Some True \<and> ar_proposal_id r = Some pid)"
    by (elim exE conjE)
  from ok assms(1,2) have ys: "list_all at_tier (w_acts w')" "list_all (act_ok act pid (dp_store (w_disp w'))) (w_acts w')"
    by (auto simp: acts_ok_def)
  have "length (filter (\<lambda>y. is_physical (fst y)) (w_acts w')) \<le> 1"
    using physical_acts [OF ys] once assms(2) by (simp add: tier_c_acts_def)
  moreover have "(act, ''C'') \<in> set (w_acts w') \<longleftrightarrow> tier_c_acts w' \<noteq> tier_c_acts w"
    using physical_once(2) [OF ys] assms(2) by (simp add: tier_c_acts_def)
  ultimately show ?thesis using physical_once(1) [OF ys] answer by blast
qed

theorem acts_only_on_committed_approval_witness:
  "w_acts (fst example_outcome) = [(''trip_relay'', ''C'')]
   \<and> (\<exists>pid. approved (dp_store (w_disp (fst example_outcome))) pid)"
proof -
  have "w_acts example_world = []" by (simp add: example_world_def)
  from acts_only_on_committed_approval [OF example_rely this, of example_config "''trip_relay''" example_context
      "''alert_sms''" 60 None "fst example_outcome" "snd example_outcome"]
  obtain pid where "\<forall>y \<in> set (w_acts (fst example_outcome)). is_physical (fst y)
      \<longrightarrow> y = (''trip_relay'', ''C'') \<and> approved (dp_store (w_disp (fst example_outcome))) pid"
    by (auto simp: example_outcome_def)
  moreover have "is_physical ''trip_relay''" by code_simp
  ultimately show ?thesis using example_runs by auto
qed

end
