(* ===== verification/Approval_Bounds.thy ===== *)
theory Approval_Bounds
  imports Approval_Laws
begin

text \<open>
  How long the governed approval of \<open>ori/reasoning/action_dispatcher.py\<close> takes, counted in the
  awaits it makes. Every coroutine of the workflow has a bound of its own, the reply loop one
  that follows the replies and the time left to it, and the workflow the bound of the longest
  proposal a deployment may configure. If every await returns, so does the workflow.
\<close>

section \<open>Awaits\<close>

text \<open>How many awaits a coroutine makes, whatever they answer.\<close>

definition awaits_within :: "nat \<Rightarrow> world \<Rightarrow> world \<times> (interrupt + 'a) \<Rightarrow> bool" where
  "awaits_within n w r = (w_tick (fst r) \<le> w_tick w + n)"

section \<open>Lemmas\<close>

lemma awaits_then:
  assumes "awaits_within n w r" and "\<And>a w'. r = (w', Inr a) \<Longrightarrow> awaits_within m w' (k a w')"
  shows "awaits_within (n + m) w (then_io r k)"
proof (cases r)
  case (Pair w' x)
  with assms show ?thesis by (cases x) (fastforce simp: awaits_within_def)+
qed

lemma awaits_mono: "awaits_within n w r \<Longrightarrow> n \<le> m \<Longrightarrow> awaits_within m w r"
  by (simp add: awaits_within_def)

lemma awaits_from: "awaits_within n w' r \<Longrightarrow> w_tick w' = w_tick w \<Longrightarrow> awaits_within n w r"
  by (simp add: awaits_within_def)

lemma awaits_here: "w_tick w' = w_tick w \<Longrightarrow> awaits_within n w (w', x)"
  by (simp add: awaits_within_def)

lemma tick_sel [simp]:
  "w_tick (pass e s w) = Suc (w_tick w)"
  "w_tick (set_store db w) = w_tick w" "w_tick (update_disp f w) = w_tick w"
  "w_tick (governed_notify c a cx what w) = w_tick w" "w_tick (defer_record x w) = w_tick w"
  "w_tick (note_decision_lost w) = w_tick w"
  by (simp_all add: pass_def Let_def set_store_def update_disp_def governed_notify_def defer_record_def
      note_decision_lost_def)

lemma awaits_primitives:
  "awaits_within 1 w (sleep e s w)"
  "awaits_within 1 w (store_call e mk w)"
  "awaits_within 1 w (store_read e q w)"
  "awaits_within 1 w (execute_immediately e c a tier cx w)"
  by (auto simp: awaits_within_def sleep_def store_call_def store_read_def execute_immediately_def Let_def
      split: sum.split prod.split)

lemma awaits_caught:
  "awaits_within n w r \<Longrightarrow> awaits_within n w (case r of (w1, Inl Cancelled) \<Rightarrow> (w1, Inl Cancelled)
     | (w1, Inl (Raised x)) \<Rightarrow> (w1, Inr (d x)) | (w1, Inr ans) \<Rightarrow> (w1, Inr (f ans)))"
  by (auto simp: awaits_within_def split: prod.split sum.split interrupt.split)

lemma awaits_close_attempts: "awaits_within (3 * k) w (close_attempts e k pid state froms reason sd w)"
proof (induction k arbitrary: w)
  case (Suc k)
  have again: "awaits_within (1 + 3 * k) w' (then_io (sleep e 0 w') (\<lambda>_. close_attempts e k pid state froms reason sd))" for w'
    by (rule awaits_then [OF awaits_primitives(1) Suc.IH])
  have call: "w_tick w1 \<le> Suc (w_tick w)" if "store_call e (Advance pid state froms reason None sd) w = (w1, x)" for w1 x
    using awaits_primitives(2) [of w e "Advance pid state froms reason None sd"] that by (simp add: awaits_within_def)
  have read: "w_tick w2 \<le> Suc (w_tick w1)" if "store_read e (\<lambda>db. get_tier_c_proposal db pid) w1 = (w2, x)" for w1 w2 x
    using awaits_primitives(3) [of w1 e "\<lambda>db. get_tier_c_proposal db pid"] that by (simp add: awaits_within_def)
  show ?case
    using call read again
    by (fastforce simp: awaits_within_def intro: order.trans split: prod.split sum.split interrupt.split)
qed (simp add: awaits_here)

lemma awaits_close_now: "awaits_within 18 w (close_now e c pid state froms reason sd w)"
  using awaits_close_attempts [of 6 w e pid state froms reason sd] by (simp add: close_now_def awaits_here)

lemma awaits_safe_default: "awaits_within 3 w (safe_default_intent e c pid sd cx reason w)"
proof -
  have mark: "awaits_within 1 w' (case store_call e (MarkIntent pid out) w' of
      (w3, Inl Cancelled) \<Rightarrow> (w3, Inl Cancelled) | (w3, _) \<Rightarrow> (w3, Inr (Some inner)))" for w' out inner
    using awaits_primitives(2) [of w' e "MarkIntent pid out"]
    by (auto simp: awaits_within_def split: prod.split sum.split interrupt.split)
  have rest: "awaits_within (1 + 1) w' (then_io (execute_immediately e c sd ''A'' cx w') (\<lambda>inner w2.
      if \<not> dc_store c then (w2, Inr (Some inner))
      else case store_call e (MarkIntent pid (if ar_executed inner then ''executed'' else ''failed'')) w2 of
         (w3, Inl Cancelled) \<Rightarrow> (w3, Inl Cancelled) | (w3, _) \<Rightarrow> (w3, Inr (Some inner))))" for w'
    by (rule awaits_then [OF awaits_primitives(4)]) (auto simp del: One_nat_def intro: awaits_here mark)
  have ensure: "awaits_within 1 w (if \<not> dc_store c then (w, Inr ''pending'')
      else case store_call e (EnsureIntent pid sd reason) w of
         (w1, Inl Cancelled) \<Rightarrow> (w1, Inl Cancelled) | (w1, Inl (Raised _)) \<Rightarrow> (w1, Inr ''pending'')
       | (w1, Inr ans) \<Rightarrow> (w1, Inr (answer_text ans)))"
    using awaits_caught [OF awaits_primitives(2) [of w e "EnsureIntent pid sd reason"],
        where d = "\<lambda>_. ''pending''" and f = answer_text] by (simp add: awaits_here)
  have "awaits_within (1 + (1 + 1)) w (safe_default_intent e c pid sd cx reason w)"
    unfolding safe_default_intent_def by (rule awaits_then [OF ensure]) (use rest in \<open>simp add: awaits_here\<close>)
  then show ?thesis by (rule awaits_mono) simp
qed

lemma awaits_ask: "awaits_within 2 w (ask_operator e c token pid w)"
proof -
  have gate: "awaits_within (1 + 0) w' (then_io (sleep e 0 w') (\<lambda>_ w2. (w2\<lparr>w_gate := mark_proposal (w_gate w2) a pid\<rparr>, Inr z)))"
    for w' a z by (rule awaits_then [OF awaits_primitives(1)]) (simp add: awaits_here)
  have send: "awaits_within (1 + 0) w' (then_io (sleep e 0 w') (\<lambda>_ w1. (w1, Inr z)))" for w' z
    by (rule awaits_then [OF awaits_primitives(1)]) (simp add: awaits_here)
  have "awaits_within (1 + 1) w (ask_operator e c token pid w)"
    unfolding ask_operator_def Let_def
    by (rule awaits_then) (use gate send in \<open>auto intro: awaits_here split: option.split\<close>)
  then show ?thesis by (rule awaits_mono) simp
qed

lemma awaits_listen: "awaits_within 1 w (governed_listen e window console accepted w)"
  unfolding governed_listen_def Let_def
  by (rule awaits_mono [OF awaits_then [OF awaits_primitives(1), where m = 0]]) (simp_all add: awaits_here)

lemma awaits_dispatch: "awaits_within 22 w (dispatch_admitted e c a cx row token deadline resp w)"
proof -
  have decline: "awaits_within (18 + (3 + 0)) w' (decline_dispatch e c a cx row st r1 r2 what resp w')" for w' st r1 r2 what
    unfolding decline_dispatch_def by (intro awaits_then awaits_close_now awaits_safe_default awaits_here) simp
  have carry: "awaits_within 1 w' (carry_out e c a cx row resp w')" for w'
  proof -
    let ?w1 = "update_disp (\<lambda>d. d\<lparr>dp_pending_outcomes := AList.update (np_proposal_id row) (w_clock w') (dp_pending_outcomes d),
      dp_jobs := dp_jobs d @ (if dc_store c then [MarkStarted (np_proposal_id row)] else [])\<rparr>) w'"
    obtain w2 x where ran: "execute_immediately e c a ''C'' cx ?w1 = (w2, x)" by (rule prod.exhaust)
    with awaits_primitives(4) [of ?w1 e c a "''C''" cx] have "w_tick w2 \<le> Suc (w_tick w')" by (simp add: awaits_within_def)
    then show ?thesis
      by (cases x) (simp_all add: awaits_within_def carry_out_def Let_def ran split: interrupt.split)
  qed
  have gate: "awaits_within 1 w' (gate_admits e token w')" for w'
  proof (cases token)
    case (Some a)
    have "awaits_within (1 + 0) w' (gate_admits e token w')"
      unfolding gate_admits_def Some option.case Let_def
      by (rule awaits_then [OF awaits_primitives(1)]) (simp add: awaits_here split: prod.split)
    then show ?thesis by simp
  qed (simp add: gate_admits_def awaits_here)
  have "awaits_within (1 + 21) w (then_io (gate_admits e token w) (\<lambda>ok w1. if \<not> ok then
      decline_dispatch e c a cx row st r1 r2 what resp w1 else carry_out e c a cx row resp w1))" for st r1 r2 what
    by (rule awaits_then [OF gate]) (auto intro: awaits_mono [OF decline] awaits_mono [OF carry])
  then show ?thesis
    unfolding dispatch_admitted_def by (auto intro: awaits_mono awaits_mono [OF decline])
qed

lemma awaits_admit: "awaits_within 23 w (admit_reply e c a cx row token deadline console tid rs w)"
proof -
  have after: "awaits_within 22 w' (after_admission e c a cx row token deadline rs admission w')" for admission w'
  proof (cases "admission = ''committed''")
    case True
    have "awaits_within (22 + 0) w' (then_io (dispatch_admitted e c a cx row token deadline (rs_operator_response rs) w')
        (\<lambda>r w1. (w1, Inr (Some (Acted r), rs))))" by (rule awaits_then [OF awaits_dispatch awaits_here]) simp
    with True show ?thesis by (simp add: after_admission_def)
  next
    case False
    then show ?thesis by (simp add: after_admission_def Let_def awaits_here)
  qed
  have call: "awaits_within 1 w (if \<not> dc_store c then (w, Inr ''store_unavailable'')
      else case store_call e (AdmitApproval pid digest auth k ig) w of
         (w1, Inl Cancelled) \<Rightarrow> (w1, Inl Cancelled) | (w1, Inl (Raised _)) \<Rightarrow> (w1, Inr ''store_unavailable'')
       | (w1, Inr ans) \<Rightarrow> (w1, Inr (answer_text ans)))" for pid digest auth k ig
    using awaits_caught [OF awaits_primitives(2) [of w e "AdmitApproval pid digest auth k ig"],
        where d = "\<lambda>_. ''store_unavailable''" and f = answer_text] by (simp add: awaits_here)
  note admitted = awaits_then [OF call after]
  show ?thesis
  proof (cases "authority_now c a (en_facts e (w_tick w) (Some (np_zone_id row)))")
    case (Inl x)
    then show ?thesis by (simp add: admit_reply_def Let_def awaits_here)
  next
    case (Inr authority)
    obtain auth digest where "(case authority of Some p \<Rightarrow> p | None \<Rightarrow> ([], [])) = (auth, digest)"
      by (rule prod.exhaust)
    with Inr admitted show ?thesis by (simp add: admit_reply_def Let_def awaits_here)
  qed
qed

lemma awaits_answer: "awaits_within 23 w (answer_reply e c a cx row token deadline console t rs w)"
proof -
  have "awaits_within 23 w (admit_reply e c a cx row token deadline console tid rs' (if b then defer_record x w else w))"
    for tid rs' b x by (rule awaits_from [OF awaits_admit]) simp
  then show ?thesis
    by (auto simp: answer_reply_def token_reply_def Let_def intro!: awaits_admit awaits_here split: reply_kind.split)
qed

lemma awaits_round: "awaits_within 26 w (approval_round e c a cx row token deadline console accepted rs w)"
proof -
  have heard: "awaits_within (1 + 23) w' (then_io (sleep e 0 w') (\<lambda>_. answer_reply e c a cx row token deadline console t rs'))"
    for w' t rs' by (rule awaits_then [OF awaits_primitives(1) awaits_answer])
  have listen: "awaits_within (1 + 24) w' (listen_once e c a cx row token deadline console accepted window rs w')" for w' window
    unfolding listen_once_def
    by (rule awaits_then [OF awaits_listen]) (use heard in \<open>simp add: awaits_here split: option.split prod.split\<close>)
  have "awaits_within (1 + 25) w (approval_round e c a cx row token deadline console accepted rs w)"
    unfolding approval_round_def
    by (rule awaits_then) (use awaits_primitives(1) listen in \<open>auto intro: awaits_here\<close>)
  then show ?thesis by simp
qed

lemma awaits_loop:
  "awaits_within (26 * rounds_left deadline rs w) w (approval_loop e c a cx row token deadline console accepted rs w)"
proof (induction "rounds_left deadline rs w" arbitrary: rs w rule: less_induct)
  case less
  show ?case
  proof (cases "deadline - w_clock w \<le> 0")
    case True
    then show ?thesis by (subst approval_loop.simps) (simp add: awaits_here)
  next
    case False
    then have "0 < rounds_left deadline rs w" by (simp add: rounds_left_def)
    note round = awaits_round [of w e c a cx row token deadline console accepted rs]
    have "awaits_within (26 * rounds_left deadline rs w) w (approval_loop e c a cx row token deadline console accepted rs1 w1)"
      if r: "approval_round e c a cx row token deadline console accepted rs w = (w1, Inr (None, rs1))" for w1 rs1
      using less.hyps [OF rounds_left_decreases [OF False r]] rounds_left_decreases [OF False r] round r
      by (simp add: awaits_within_def)
    with False round \<open>0 < rounds_left deadline rs w\<close> show ?thesis
      by (subst approval_loop.simps)
         (auto simp: awaits_within_def split: prod.split sum.split option.split)
  qed
qed

lemma awaits_create: "awaits_within 3 w (create_proposal e c deadline row w)"
proof -
  have "awaits_within k w' (create_attempts e deadline k creation row' w')" for k w' creation row'
  proof (induction k arbitrary: w' creation row')
    case (Suc k)
    have "w_tick w1 \<le> Suc (w_tick w')" if "store_call e (CreateProposal row') w' = (w1, x)" for w1 x
      using awaits_primitives(2) [of w' e "CreateProposal row'"] that by (simp add: awaits_within_def)
    moreover have "w_tick w2 = w_tick w1" if "redraw e deadline row' w1 = (w2, row2)" for w1 w2 row2
      using that by (auto simp: redraw_def Let_def)
    ultimately show ?case
      using Suc.IH by (fastforce simp: awaits_within_def intro: order.trans split: prod.split sum.split interrupt.split)
  qed (simp add: awaits_here)
  then show ?thesis by (simp add: create_proposal_def awaits_here)
qed

lemma awaits_resolve: "awaits_within 22 w (resolve_undispatched e c a cx sd pid ended rs w)"
proof -
  obtain ds ae where f: "final_decision ended = (ds, ae)" by (rule prod.exhaust)
  have "awaits_within (18 + (3 + (1 + 0))) w (resolve_undispatched e c a cx sd pid ended rs w)"
    unfolding resolve_undispatched_def f prod.case Let_def
    by (intro awaits_then awaits_safe_default)
       (use awaits_close_now awaits_primitives(1) in \<open>auto simp: escalate_to_secondary_def intro: awaits_here split: option.split\<close>)
  then show ?thesis by simp
qed

lemma awaits_workflow:
  assumes "deadline \<le> w_clock w + of_int n" and "0 \<le> n"
  shows "awaits_within (27 + 26 * (MAX_REPLIES_PER_PROPOSAL + nat n)) w (run_governed_workflow e c a cx sd token row deadline w)"
proof -
  define m where "m = 26 * (MAX_REPLIES_PER_PROPOSAL + nat n) + 22"
  have loop: "awaits_within m w2
      (then_io (approval_loop e c a cx row1 token deadline console accepted
          \<lparr>rs_replies = 0, rs_state_reason = [], rs_operator_response = None, rs_inbound = None\<rparr> w2)
        (\<lambda>(ended, rs) w3. case ended of
            Acted res \<Rightarrow> (defer_record (DecisionRecord ''approved'' res) w3, Inr res)
          | _ \<Rightarrow> resolve_undispatched e c a cx sd (np_proposal_id row1) ended rs w3))"
    if "w_clock w \<le> w_clock w2" for w2 row1 console accepted
    unfolding m_def
  proof (rule awaits_then)
    have "\<lceil>deadline - w_clock w2\<rceil> \<le> n" using assms(1) that by (intro ceiling_le) simp
    then show "awaits_within (26 * (MAX_REPLIES_PER_PROPOSAL + nat n)) w2 (approval_loop e c a cx row1 token deadline console accepted
          \<lparr>rs_replies = 0, rs_state_reason = [], rs_operator_response = None, rs_inbound = None\<rparr> w2)"
      by (intro awaits_mono [OF awaits_loop]) (simp add: rounds_left_def nat_mono)
  qed (simp add: awaits_resolve awaits_here split: prod.split loop_end.split)
  have "awaits_within (3 + (2 + m)) w (run_governed_workflow e c a cx sd token row deadline w)"
    unfolding run_governed_workflow_def
  proof (rule awaits_then [OF awaits_create])
    fix x w1 assume cr: "create_proposal e c deadline row w = (w1, Inr x)"
    obtain creation row1 where x: "x = (creation, row1)" by (rule prod.exhaust)
    have "awaits_within (1 + 0) w1 (uncommitted e c a cx sd row1 creation w1)"
      unfolding uncommitted_def Let_def
      by (rule awaits_from, rule awaits_then [OF awaits_primitives(4)]) (simp_all add: awaits_here)
    then have u: "awaits_within (2 + m) w1 (uncommitted e c a cx sd row1 creation w1)"
      by (rule awaits_mono) simp
    have t1: "w_clock w \<le> w_clock w1"
      using clock.keeps_create [where e = e and c = c and w = w and deadline = deadline and row = row] cr by (simp add: keeps_def)
    have t2: "w_clock w \<le> w_clock w2" if "ask_operator e c token pid w1 = (w2, y)" for pid w2 y
      using clock.keeps_ask [where e = e and w = w1 and c = c] that t1 by (metis fst_conv keeps_def order.trans)
    show "awaits_within (2 + m) w1
      ((\<lambda>(creation, row1) w1. if creation \<noteq> ''committed'' then uncommitted e c a cx sd row1 creation w1
      else then_io (ask_operator e c token (np_proposal_id row1) w1) (\<lambda>(accepted, console) w2.
        then_io (approval_loop e c a cx row1 token deadline console accepted
            \<lparr>rs_replies = 0, rs_state_reason = [], rs_operator_response = None, rs_inbound = None\<rparr> w2)
          (\<lambda>(ended, rs) w3. case ended of
              Acted res \<Rightarrow> (defer_record (DecisionRecord ''approved'' res) w3, Inr res)
            | _ \<Rightarrow> resolve_undispatched e c a cx sd (np_proposal_id row1) ended rs w3))) x w1)"
      unfolding x prod.case
      by (simp add: u del: add_2_eq_Suc) (intro impI awaits_then [OF awaits_ask], auto intro: loop t2)
  qed
  then show ?thesis by (simp add: m_def)
qed

section \<open>Properties\<close>

text \<open>
  C11. A governed approval ends. Whatever operators reply and however often, whatever the store, the
  executors and the other tasks do, the workflow makes at most 27 awaits and 26 for each of the
  twenty free replies and each second of the proposal's lifetime, which no configuration raises
  above an hour.
\<close>

theorem governed_approval_ends:
  "w_tick (fst (governed_approval_workflow e c act cx sd timeout token w))
     \<le> w_tick w + 27 + 26 * (MAX_REPLIES_PER_PROPOSAL + nat (proposal_lifetime timeout))
   \<and> 1 \<le> proposal_lifetime timeout \<and> proposal_lifetime timeout \<le> 3600"
proof -
  have life: "1 \<le> proposal_lifetime timeout" "proposal_lifetime timeout \<le> 3600"
    by (simp_all add: proposal_lifetime_def MAX_PROPOSAL_LIFETIME_S_def)
  define n where "n = 27 + 26 * (MAX_REPLIES_PER_PROPOSAL + nat (proposal_lifetime timeout))"
  have refuse: "awaits_within n w (refuse_proposal e c act cx sd why notice w)" for why notice
  proof -
    have "awaits_within (1 + 0) w (refuse_proposal e c act cx sd why notice w)"
      unfolding refuse_proposal_def by (rule awaits_then [OF awaits_primitives(4)]) (simp add: Let_def awaits_here)
    then show ?thesis by (rule awaits_mono) (simp add: n_def)
  qed
  have run: "w_tick w1 \<le> w_tick w + n"
    if "run_governed_workflow e c act cx sd1 token row (w_clock w + of_int (proposal_lifetime timeout))
      (hold_deadline pid d w) = (w1, x)" for sd1 row pid d w1 x
  proof -
    have "w_clock (hold_deadline pid d w) = w_clock w" "w_tick (hold_deadline pid d w) = w_tick w"
      by (simp_all add: hold_deadline_def update_disp_def)
    with awaits_workflow [of "w_clock w + of_int (proposal_lifetime timeout)" "hold_deadline pid d w"
        "proposal_lifetime timeout" e c act cx sd1 token row] that life(1)
    show ?thesis by (simp add: awaits_within_def n_def)
  qed
  have dropped: "awaits_within n w (drop_deadline pid w1, x) \<longleftrightarrow> w_tick w1 \<le> w_tick w + n" for pid w1 and x :: "interrupt + action_result"
    by (simp add: awaits_within_def drop_deadline_def)
  have "awaits_within n w (governed_approval_workflow e c act cx sd timeout token w)"
    unfolding governed_approval_workflow_def Let_def
    by (auto simp: awaits_here refuse dropped dest!: run split: sum.split option.split prod.split)
  with life show ?thesis by (simp add: awaits_within_def n_def)
qed

end
