(* ===== verification/Approval_Resolution.thy ===== *)
theory Approval_Resolution
  imports Approval_Laws
begin

text \<open>
  What becomes of a proposal: one the workflow
  raised is decided when the workflow answers or its loss is counted and said, a start settles
  what a previous process left and replays nothing, and the outcome of a dispatch is held until
  it is durable.
\<close>

section \<open>What is guaranteed\<close>

abbreviation store_of :: "world \<Rightarrow> tier_c_db" where "store_of w \<equiv> dp_store (w_disp w)"

text \<open>How far a proposal has come in the store: at least to the states of rank \<open>k\<close>.\<close>

definition reached :: "tier_c_db \<Rightarrow> string \<Rightarrow> nat \<Rightarrow> bool" where
  "reached db pid k = (case decisions db pid of Some s \<Rightarrow> k \<le> decision_rank s | None \<Rightarrow> False)"

definition decided :: "tier_c_db \<Rightarrow> string \<Rightarrow> bool" where
  "decided db pid = (case get_tier_c_proposal db pid of Some r \<Rightarrow> tp_decision_state r \<noteq> PROPOSED | None \<Rightarrow> False)"

definition progress :: "environment \<Rightarrow> world \<Rightarrow> world \<Rightarrow> bool" where
  "progress e w w' =
     (rely e \<and> tier_c_inv (dp_store (w_disp w)) \<longrightarrow>
        tier_c_inv (dp_store (w_disp w'))
        \<and> (\<forall>pid k. reached (dp_store (w_disp w)) pid k \<longrightarrow> reached (dp_store (w_disp w')) pid k)
        \<and> dp_decisions_lost (w_disp w) \<le> dp_decisions_lost (w_disp w'))"

text \<open>What the end of the reply loop says of the proposal.\<close>

definition ended_ok :: "tier_c_db \<Rightarrow> string \<Rightarrow> loop_end \<Rightarrow> bool" where
  "ended_ok db pid ended =
     (case ended of
        Acted _ \<Rightarrow> reached db pid 1
      | Decided d \<Rightarrow> d \<in> {REJECTED, PROPOSAL_EXPIRED} \<or> reached db pid 1
      | Ended _ \<Rightarrow> True)"

section \<open>Lemmas\<close>

lemma reached_call:
  assumes "tier_c_inv db" and "reached db pid k" and "dispatcher_call db x" and "tier_c_call db x = Inr (db', ans)"
  shows "reached db' pid k"
proof -
  from assms(1) have "keys_inv db" by (simp add: tier_c_inv_def)
  then have "decision_step (decisions db) (decisions db')"
    using step_refines call_step [OF _ assms(3,4)] by blast
  then show ?thesis
    using assms(2) decision_transition_states(1)
    by (cases rule: decision_step.cases) (fastforce simp: reached_def split: option.splits)+
qed

interpretation forward: latching_object tier_c_call tier_c_inv dispatcher_call "\<lambda>db. reached db pid k" "\<lambda>_. False" for pid k
  by unfold_locales (rule reached_call)

interpretation progress: approval_guarantee e c "progress e" "\<lambda>_ _. True" act pid for e c act pid
proof
  show "progress e w (pass e s w)" for w s
    unfolding progress_def
  proof (intro impI conjI allI)
    assume e: "rely e \<and> tier_c_inv (dp_store (w_disp w))"
    then obtain xs where xs: "runs_ok tier_c_call dispatcher_call (dp_store (w_disp w)) xs"
      "dp_store (w_disp (pass e s w)) = run_ops tier_c_call (dp_store (w_disp w)) xs"
      by (auto simp: rely_def)
    with e show "tier_c_inv (dp_store (w_disp (pass e s w)))" by (simp add: tier_c.inv_run)
    show "reached (dp_store (w_disp (pass e s w))) pid k" if "reached (dp_store (w_disp w)) pid k" for pid k
      using forward.latched_run [of "dp_store (w_disp w)" pid k xs] e xs that by (simp add: list_all_iff)
    show "dp_decisions_lost (w_disp w) \<le> dp_decisions_lost (w_disp (pass e s w))"
      using e by (simp add: rely_def)
  qed
  show "progress e w (set_store (fst (apply_tier_c (dp_store (w_disp w)) op)) w)"
    if "dispatcher_call (dp_store (w_disp w)) (op, True)" for w op
  proof -
    have "tier_c_call (dp_store (w_disp w)) (op, True)
        = Inr (fst (apply_tier_c (dp_store (w_disp w)) op), snd (apply_tier_c (dp_store (w_disp w)) op))"
      by (simp add: tier_c_call_def)
    from call_tier_c_inv [OF _ that this] reached_call [OF _ _ that this] show ?thesis
      by (simp add: progress_def) (simp add: set_store_def)
  qed
qed (auto simp: progress_def)

subsection \<open>One call, its answer and the proposal\<close>

lemma progressD:
  assumes "keeps (progress e) w r" and "r = (w', x)" and "rely e" and "tier_c_inv (store_of w)"
  shows "tier_c_inv (store_of w')" and "reached (store_of w) pid k \<Longrightarrow> reached (store_of w') pid k"
    and "dp_decisions_lost (w_disp w) \<le> dp_decisions_lost (w_disp w')"
  using assms by (auto simp: keeps_def progress_def)

lemma store_call_answer:
  assumes "store_call e mk w = (w', Inr ans)"
  obtains db where "apply_tier_c (store_of (pass e 0 w)) (mk (en_now e (w_tick w))) = (db, ans)" "store_of w' = db"
    "dp_decisions_lost (w_disp w') = dp_decisions_lost (w_disp (pass e 0 w))"
  using assms by (auto simp: store_call_def tier_c_call_def Let_def set_store_def split: if_splits prod.splits)

lemma pass_inv:
  assumes "rely e" and "tier_c_inv (store_of w)"
  shows "tier_c_inv (store_of (pass e 0 w))"
    and "reached (store_of w) pid k \<Longrightarrow> reached (store_of (pass e 0 w)) pid k"
  using progress.awaits [where s = 0 and e = e and w = w] assms by (auto simp: progress_def)

lemma decisions_get: "decisions db pid = map_option tp_decision_state (get_tier_c_proposal db pid)"
proof -
  have "map_of (map (\<lambda>r. (tp_proposal_id r, tp_decision_state r)) rs) pid
      = map_option tp_decision_state (List.find (\<lambda>r. tp_proposal_id r = pid) rs)" for rs
    by (induction rs) auto
  then show ?thesis by (simp add: decisions_def get_tier_c_proposal_def)
qed

lemma decided_reached: "decided db pid \<longleftrightarrow> reached db pid 1"
  by (auto simp: decided_def reached_def decisions_get decision_rank_def split: option.splits)

lemma find_map_key:
  assumes "\<And>r. tp_proposal_id (f r) = tp_proposal_id r"
  shows "List.find (\<lambda>r. tp_proposal_id r = pid) (map f rs) = map_option f (List.find (\<lambda>r. tp_proposal_id r = pid) rs)"
  by (induction rs) (simp_all add: assms)

lemma get_update_where:
  assumes "\<And>r. tp_proposal_id (f r) = tp_proposal_id r"
  shows "get_tier_c_proposal (update_where sel f db) pid
    = map_option (\<lambda>r. if sel r then f r else r) (get_tier_c_proposal db pid)"
  using find_map_key [of "\<lambda>r. if sel r then f r else r"] assms by (simp add: get_tier_c_proposal_def update_where_def)

lemma get_frames [simp]:
  "get_tier_c_proposal (append_tier_c_record db p st reason now) pid = get_tier_c_proposal db pid"
  "get_tier_c_proposal (fst (insert_tier_c_intent db p act reason now)) pid = get_tier_c_proposal db pid"
  "get_tier_c_proposal (fst (claim_token db t d act now)) pid = get_tier_c_proposal db pid"
  by (simp_all add: get_tier_c_proposal_def)

lemma create_reaches:
  "create_tier_c_proposal db n now = (db', ''committed'') \<Longrightarrow> reached db' (np_proposal_id n) 0"
  by (auto simp: create_tier_c_proposal_def reached_def decisions_get get_tier_c_proposal_def proposal_row_def
      find_after split: if_splits option.splits)

lemma advance_reaches:
  assumes "tier_c_inv db" and "advance_tier_c_proposal db pid state froms reason j sd now = (db', True)"
  shows "decisions db' pid = Some state" and "decided db' pid"
proof -
  have "keys_inv db" using assms(1) by (simp add: tier_c_inv_def)
  from assms(2) obtain r where r: "r \<in> set (td_proposals db)" "tp_proposal_id r = pid" "tp_decision_state r \<in> set froms"
    by (auto simp: advance_tier_c_proposal_def Let_def list_ex_iff split: if_splits)
  with \<open>keys_inv db\<close> have g: "get_tier_c_proposal db pid = Some r"
    by (metis distinct_map get_proposal_None get_proposal_Some inj_onD keys_inv_def not_None_eq rev_image_eqI)
  have "get_tier_c_proposal db' pid = Some (set_state state reason j now r)"
    using assms(2) r g
    by (auto simp: advance_tier_c_proposal_def Let_def get_update_where split: if_splits option.splits)
  moreover have "state \<noteq> PROPOSED" using assms(2) by (auto simp: advance_tier_c_proposal_def advance_refused_def split: if_splits)
  ultimately show "decisions db' pid = Some state" "decided db' pid" by (simp_all add: decided_def decisions_get)
qed

lemma admit_reaches:
  assumes "admit_tier_c_approval db pid b a k ig now = (db', ans)" and "reached db pid 0"
    and "ans \<in> {''committed'', ''binding_changed'', ''blocked''} \<or> starts_with ''closed:'' ans"
  shows "decided db' pid"
proof -
  from assms(2) obtain row where row: "get_tier_c_proposal db pid = Some row"
    by (auto simp: reached_def decisions_get split: option.splits)
  with get_proposal_Some have pid: "tp_proposal_id row = pid" by blast
  have claimed: "get_tier_c_proposal (if q then db else fst (claim_token db t d act now)) pid = Some row" for q t d act
    by (simp add: row)
  show ?thesis
    using assms(1,3) row pid claimed
    by (auto simp: admit_cases decided_def approval_db_def close_at_admission_def move_tier_c_def get_update_where
        admissible_def starts_with_def split: if_splits)
qed

lemma close_attempts_cases:
  assumes "close_attempts e (Suc k) pid state froms reason sd w = (w', Inr recorded)"
  obtains (taken) "recorded" "store_call e (Advance pid state froms reason None sd) w = (w', Inr (TCBool True))"
  | (there) w1 ans where "recorded" "store_call e (Advance pid state froms reason None sd) w = (w1, Inr ans)"
      "ans \<noteq> TCBool True" "store_read e (\<lambda>db. get_tier_c_proposal db pid) w1 = (w', Inr (get_tier_c_proposal (store_of w') pid))"
      "map_option tp_decision_state (get_tier_c_proposal (store_of w') pid) = Some state"
  | (lost) w1 x w2 y where "\<not> recorded" "store_call e (Advance pid state froms reason None sd) w = (w1, x)"
      "x \<notin> {Inl Cancelled, Inr (TCBool True)}" "w2 = w1 \<or> store_read e (\<lambda>db. get_tier_c_proposal db pid) w1 = (w2, y)" "w' = note_decision_lost w2"
  | (again) w1 x w2 y w3 where "k \<noteq> 0" "store_call e (Advance pid state froms reason None sd) w = (w1, x)"
      "x \<notin> {Inl Cancelled, Inr (TCBool True)}" "w2 = w1 \<or> store_read e (\<lambda>db. get_tier_c_proposal db pid) w1 = (w2, y)" "sleep e 0 w2 = (w3, Inr ())"
      "close_attempts e k pid state froms reason sd w3 = (w', Inr recorded)"
proof -
  have read: "row = get_tier_c_proposal (store_of w2) pid"
    if "store_read e (\<lambda>db. get_tier_c_proposal db pid) w1 = (w2, Inr row)" for w1 w2 row
    using that by (auto simp: store_read_def Let_def split: if_splits)
  obtain w1 x where call: "store_call e (Advance pid state froms reason None sd) w = (w1, x)" by (rule prod.exhaust)
  obtain w2 y where rd: "store_read e (\<lambda>db. get_tier_c_proposal db pid) w1 = (w2, y)" by (rule prod.exhaust)
  show thesis
  proof (cases x)
    case (Inl i)
    with assms call show thesis
      by (cases i) (auto simp: then_io_Inr split: if_splits intro: lost again)
  next
    case (Inr ans)
    show thesis
    proof (cases "ans = TCBool True")
      case True
      with assms call Inr show thesis by (intro taken) simp_all
    next
      case False
      show thesis
      proof (cases y)
        case y: (Inl i)
        with assms call rd Inr False show thesis
          by (cases i) (auto simp: then_io_Inr split: if_splits intro: lost again)
      next
        case y: (Inr row)
        with assms call rd Inr False read [of w1 w2 row] show thesis
          by (auto split: if_splits intro: lost there)
      qed
    qed
  qed
qed

lemma close_attempts_settles:
  assumes "close_attempts e k pid state froms reason sd w = (w', Inr recorded)" and "k \<noteq> 0"
    and "rely e" and "tier_c_inv (store_of w)" and "(state, froms) \<in> set DISPATCHER_MOVES"
  shows "if recorded then decisions (store_of w') pid = Some state
    else dp_decisions_lost (w_disp w) < dp_decisions_lost (w_disp w')"
  using assms(1,2,4)
proof (induction k arbitrary: w)
  case (Suc k)
  have call: "keeps (progress e) w (store_call e (Advance pid state froms reason None sd) w)"
    by (rule progress.keeps_store_call) (simp add: assms(5))
  have upto: "keeps (progress e) w (w2, z)" if "store_call e (Advance pid state froms reason None sd) w = (w1, x)"
    "w2 = w1 \<or> store_read e (\<lambda>db. get_tier_c_proposal db pid) w1 = (w2, y)" for w1 x w2 y and z :: "interrupt + unit"
    using that call progress.keeps_store_read [where e = e and w = w1 and q = "\<lambda>db. get_tier_c_proposal db pid"]
      progress.R_trans by (auto simp: keeps_def)
  from Suc.prems(1) show ?case
  proof (cases rule: close_attempts_cases)
    case taken
    then obtain now where "advance_tier_c_proposal (store_of (pass e 0 w)) pid state froms reason None sd now = (store_of w', True)"
      by (auto simp: map_prod_def split: prod.splits elim!: store_call_answer)
    with taken advance_reaches(1) pass_inv(1) [OF assms(3) Suc.prems(3)] show ?thesis by auto
  next
    case there
    then show ?thesis by (simp add: decisions_get)
  next
    case lost
    with progressD(3) [OF upto _ assms(3) Suc.prems(3)] show ?thesis
      by (simp add: note_decision_lost_def update_disp_def le_imp_less_Suc)
  next
    case (again w1 x w2 y w3)
    have w3: "keeps (progress e) w (w3, Inr ())"
      using progress.keeps_trans [OF _ progress.keeps_sleep [where s = 0 and e = e and w = w2]] upto [OF again(2,4)] again(5)
      by (simp add: keeps_def)
    from Suc.IH [OF again(6,1) progressD(1) [OF w3 refl assms(3) Suc.prems(3)]]
      progressD(3) [OF w3 refl assms(3) Suc.prems(3)] show ?thesis by (auto split: if_splits)
  qed
qed simp

lemma close_now_settles:
  assumes "close_now e c pid state froms reason sd w = (w', Inr recorded)"
    and "rely e" and "tier_c_inv (store_of w)" and "(state, froms) \<in> set DISPATCHER_MOVES"
  shows "if recorded then decisions (store_of w') pid = Some state
    else dp_decisions_lost (w_disp w) < dp_decisions_lost (w_disp w')"
  using assms close_attempts_settles [of e 6]
  by (auto simp: close_now_def note_decision_lost_def update_disp_def split: if_splits)

subsection \<open>The end of the reply loop\<close>

lemma after_admission_ended:
  assumes "after_admission e c act cx row token deadline rs admission w = (w', Inr (Some ended, rs'))"
    and "rely e" and "tier_c_inv (store_of w)"
    and "admission \<in> {''committed'', ''binding_changed'', ''blocked''} \<or> starts_with ''closed:'' admission
      \<Longrightarrow> reached (store_of w) (np_proposal_id row) 1"
  shows "ended_ok (store_of w') (np_proposal_id row) ended"
proof (cases "admission = ''committed''")
  case True
  with assms(1) obtain r where "dispatch_admitted e c act cx row token deadline (rs_operator_response rs) w = (w', Inr r)"
    by (auto simp: after_admission_def Let_def then_io_Inr)
  from progressD(2) [OF progress.keeps_dispatch_admitted this assms(2,3)] assms(1,4) True show ?thesis
    by (auto simp: after_admission_def Let_def then_io_Inr ended_ok_def)
next
  case False
  then show ?thesis
    using assms(1,4)
    by (auto simp: after_admission_def Let_def ended_ok_def governed_notify_def split: if_splits)
qed

lemma admit_ended:
  assumes "admit_reply e c act cx row token deadline console tid rs w = (w', Inr (Some ended, rs'))"
    and "rely e" and "tier_c_inv (store_of w)" and "reached (store_of w) (np_proposal_id row) 0"
  shows "ended_ok (store_of w') (np_proposal_id row) ended"
proof (cases "w_clock w > deadline")
  case True
  with assms(1) show ?thesis by (auto simp: admit_reply_def Let_def ended_ok_def)
next
  case False
  let ?pid = "np_proposal_id row" and ?ig = "ingress_of c console rs tid"
  from assms(1) False obtain a where a: "authority_now c act (en_facts e (w_tick w) (Some (np_zone_id row))) = Inr a"
    by (cases "authority_now c act (en_facts e (w_tick w) (Some (np_zone_id row)))") (simp_all add: admit_reply_def Let_def)
  obtain auth digest where "(case a of Some p \<Rightarrow> p | None \<Rightarrow> ([], [])) = (auth, digest)" by (rule prod.exhaust)
  with assms(1) False a obtain w1 admission where
      call: "(if \<not> dc_store c then (w, Inr ''store_unavailable'')
         else case store_call e (AdmitApproval ?pid digest auth PENDING_OUTCOME_CEILING ?ig) w of
            (w1, Inl Cancelled) \<Rightarrow> (w1, Inl Cancelled) | (w1, Inl (Raised _)) \<Rightarrow> (w1, Inr ''store_unavailable'')
          | (w1, Inr ans) \<Rightarrow> (w1, Inr (answer_text ans))) = (w1, Inr admission)"
    and rest: "after_admission e c act cx row token deadline rs admission w1 = (w', Inr (Some ended, rs'))"
    by (auto simp: admit_reply_def Let_def then_io_Inr)
  have w1: "keeps (progress e) w (w1, Inr admission)"
    using progress.keeps_caught [OF progress.keeps_store_call [where e = e and w = w
          and mk = "AdmitApproval ?pid digest auth PENDING_OUTCOME_CEILING ?ig"],
        where d = "\<lambda>_. ''store_unavailable''" and f = answer_text] progress.keeps_here [where w = w] call
    by (auto split: if_splits)
  have "reached (store_of w1) ?pid 1"
    if ans: "admission \<in> {''committed'', ''binding_changed'', ''blocked''} \<or> starts_with ''closed:'' admission"
  proof -
    have "admission \<noteq> ''store_unavailable''" "admission \<noteq> []" using ans by (auto simp: starts_with_def)
    with call have "store_call e (AdmitApproval ?pid digest auth PENDING_OUTCOME_CEILING ?ig) w = (w1, Inr (TCText admission))"
      by (auto simp: answer_text_def split: if_splits prod.splits sum.splits interrupt.splits tier_c_answer.splits)
    then obtain now where "admit_tier_c_approval (store_of (pass e 0 w)) ?pid digest auth PENDING_OUTCOME_CEILING ?ig now
        = (store_of w1, admission)"
      by (auto simp: map_prod_def split: prod.splits elim!: store_call_answer)
    from admit_reaches [OF this _ ans] pass_inv(2) [OF assms(2,3,4)] show ?thesis by (simp add: decided_reached)
  qed
  then show ?thesis
    using after_admission_ended [OF rest assms(2) progressD(1) [OF w1 refl assms(2,3)]] by simp
qed

lemma answer_ended:
  assumes "answer_reply e c act cx row token deadline console t rs w = (w', Inr (Some ended, rs'))"
    and "rely e" and "tier_c_inv (store_of w)" and "reached (store_of w) (np_proposal_id row) 0"
  shows "ended_ok (store_of w') (np_proposal_id row) ended"
proof -
  have "ended_ok (store_of w') (np_proposal_id row) ended"
    if "admit_reply e c act cx row token deadline console tid rs1 (if b then defer_record x w else w) = (w', Inr (Some ended, rs'))"
    for tid rs1 b x
    using admit_ended [OF that] assms(2-4) by (simp add: defer_record_def)
  with assms(1) admit_ended [OF _ assms(2-4)] show ?thesis
    by (auto simp: answer_reply_def token_reply_def Let_def ended_ok_def split: reply_kind.splits if_splits)
qed

lemma round_ended:
  assumes "approval_round e c act cx row token deadline console accepted rs w = (w', Inr (Some ended, rs'))"
    and "rely e" and "tier_c_inv (store_of w)" and "reached (store_of w) (np_proposal_id row) 0"
  shows "ended_ok (store_of w') (np_proposal_id row) ended"
proof -
  from assms(1) obtain w1 where "(if rs_replies rs \<ge> MAX_REPLIES_PER_PROPOSAL then sleep e 1 w else (w, Inr ())) = (w1, Inr ())"
    and once: "listen_once e c act cx row token deadline console accepted (max 1 \<lfloor>deadline - w_clock w\<rfloor>) rs w1
      = (w', Inr (Some ended, rs'))"
    by (auto simp: approval_round_def then_io_Inr)
  then have w1: "keeps (progress e) w (w1, Inr ())"
    using progress.keeps_sleep [where s = 1 and e = e and w = w] by (auto simp: progress.keeps_here split: if_splits)
  from once consider a where "ended = Ended a"
    | w2 x w3 t rs1 where "governed_listen e (max 1 \<lfloor>deadline - w_clock w\<rfloor>) console accepted w1 = (w2, Inr x)"
      "sleep e 0 w2 = (w3, Inr ())" "answer_reply e c act cx row token deadline console t rs1 w3 = (w', Inr (Some ended, rs'))"
    by (auto simp: listen_once_def then_io_Inr split: option.splits)
  then show ?thesis
  proof cases
    case 1
    then show ?thesis by (simp add: ended_ok_def)
  next
    case (2 w2 x w3 t rs1)
    have "keeps (progress e) w (w3, Inr ())"
      using progress.R_trans w1 progress.keeps_listen [where e = e and w = w1 and window = "max 1 \<lfloor>deadline - w_clock w\<rfloor>"
          and console = console and accepted = accepted] 2(1)
        progress.keeps_sleep [where s = 0 and e = e and w = w2] 2(2) by (auto simp: keeps_def)
    note w3 = progressD [OF this refl assms(2,3)]
    show ?thesis by (rule answer_ended [OF 2(3) assms(2) w3(1) w3(2) [OF assms(4)]])
  qed
qed

lemma loop_ended:
  assumes "approval_loop e c act cx row token deadline console accepted rs w = (w', Inr (ended, rs'))"
    and "rely e" and "tier_c_inv (store_of w)" and "reached (store_of w) (np_proposal_id row) 0"
  shows "ended_ok (store_of w') (np_proposal_id row) ended"
  using assms(1,3,4)
proof (induction "rounds_left deadline rs w" arbitrary: rs w rule: less_induct)
  case less
  show ?case
  proof (cases "deadline - w_clock w \<le> 0")
    case True
    with less.prems(1) show ?thesis by (subst (asm) approval_loop.simps) (auto simp: ended_ok_def)
  next
    case False
    obtain w1 y where r: "approval_round e c act cx row token deadline console accepted rs w = (w1, y)" by (rule prod.exhaust)
    have keeps: "keeps (progress e) w (approval_round e c act cx row token deadline console accepted rs w)"
      by (rule progress.keeps_approval_round [OF refl]) simp
    note w1 = progressD [OF keeps r assms(2) less.prems(2)]
    from less.prems(1) r False consider "y = Inr (Some ended, rs')" "w1 = w'"
      | rs1 where "y = Inr (None, rs1)"
        "approval_loop e c act cx row token deadline console accepted rs1 w1 = (w', Inr (ended, rs'))"
      by (subst (asm) approval_loop.simps) (auto split: sum.splits prod.splits option.splits)
    then show ?thesis
    proof cases
      case 1
      with r show ?thesis by (intro round_ended [OF _ assms(2) less.prems(2,3)]) simp
    next
      case (2 rs1)
      with r have "approval_round e c act cx row token deadline console accepted rs w = (w1, Inr (None, rs1))" by simp
      from less.hyps [OF rounds_left_decreases [OF False this] 2(2)] w1 less.prems(3) show ?thesis by blast
    qed
  qed
qed

subsection \<open>The workflow\<close>

lemma create_attempts_committed:
  assumes "create_attempts e deadline k creation row w = (w', Inr (''committed'', row'))"
    and "creation \<noteq> ''committed''"
  shows "reached (store_of w') (np_proposal_id row') 0"
  using assms
proof (induction k arbitrary: creation row w)
  case (Suc k)
  obtain w1 x where call: "store_call e (CreateProposal row) w = (w1, x)" by (rule prod.exhaust)
  show ?case
  proof (cases x)
    case (Inl i)
    with Suc.prems(1) call show ?thesis by (cases i) simp_all
  next
    case (Inr ans)
    show ?thesis
    proof (cases "answer_text ans = ''duplicate''")
      case True
      with Suc.prems(1) call Inr show ?thesis by (auto split: prod.splits intro: Suc.IH)
    next
      case False
      with Suc.prems(1) call Inr have same: "w1 = w'" "row' = row" "ans = TCText ''committed''"
        by (auto simp: answer_text_def split: tier_c_answer.splits)
      then obtain db where "create_tier_c_proposal db row (en_now e (w_tick w)) = (store_of w', ''committed'')"
        using call Inr by (auto simp: map_prod_def split: prod.splits elim!: store_call_answer)
      from create_reaches [OF this] same show ?thesis by simp
    qed
  qed
qed simp

lemma create_committed:
  "create_proposal e c deadline row w = (w', Inr (''committed'', row')) \<Longrightarrow> reached (store_of w') (np_proposal_id row') 0"
  by (auto simp: create_proposal_def split: if_splits intro: create_attempts_committed)

lemma resolve_settles:
  assumes "resolve_undispatched e c act cx sd pid ended rs w = (w', Inr r)"
    and "rely e" and "tier_c_inv (store_of w)" and "ended_ok (store_of w) pid ended" and "\<not> is_acted ended"
  shows "ar_proposal_id r = Some pid \<and> (reached (store_of w') pid 1
    \<or> dp_decisions_lost (w_disp w) < dp_decisions_lost (w_disp w') \<and> ends_with UNRECORDED_SUFFIX (ar_action_taken r))"
proof -
  obtain ds ae where f: "final_decision ended = (ds, ae)" by (rule prod.exhaust)
  from assms(1) f obtain w1 recorded w2 safe w3 where
      close: "(if ds \<in> {REJECTED, PROPOSAL_EXPIRED} then close_now e c pid ds [PROPOSED] (close_reason ds ae rs) (Some sd) w
        else (w, Inr True)) = (w1, Inr recorded)"
    and sd: "safe_default_intent e c pid sd cx ds w1 = (w2, Inr safe)"
    and esc: "(if ds = PROPOSAL_EXPIRED \<and> ae \<noteq> [] then escalate_to_secondary e c w2 else (w2, Inr ())) = (w3, Inr ())"
    and w': "w_disp w' = w_disp w3" "ar_proposal_id r = Some pid"
      "\<not> recorded \<longrightarrow> ar_action_taken r = ds @ UNRECORDED_SUFFIX"
    by (auto simp: resolve_undispatched_def then_io_Inr Let_def workflow_result_def defer_record_def split: option.splits)
  have move: "(ds, [PROPOSED]) \<in> set DISPATCHER_MOVES" if "ds \<in> {REJECTED, PROPOSAL_EXPIRED}"
    using that by (auto simp: DISPATCHER_MOVES_def)
  have w1: "keeps (progress e) w (w1, Inr recorded)"
    using close progress.keeps_close_now [OF move, where e = e and w = w and c = c and pid' = pid]
    by (metis progress.keeps_here)
  note inv1 = progressD [OF w1 refl assms(2,3)]
  note inv2 = progressD [OF progress.keeps_safe_default sd assms(2) inv1(1)]
  have "keeps (progress e) w2 (w3, Inr ())"
    using esc progress.keeps_escalate [where e = e and w = w2 and c = c] by (metis progress.keeps_here)
  note inv3 = progressD [OF this refl assms(2) inv2(1)]
  have shut: "if recorded then reached (store_of w1) pid 1 else dp_decisions_lost (w_disp w) < dp_decisions_lost (w_disp w1)"
  proof (cases "ds \<in> {REJECTED, PROPOSAL_EXPIRED}")
    case True
    with close close_now_settles [OF _ assms(2,3) move [OF True]] show ?thesis
      by (auto simp: reached_def decision_rank_def split: if_splits)
  next
    case False
    with assms(4,5) f have "reached (store_of w) pid 1"
      by (auto simp: ended_ok_def final_decision_def is_acted_def Let_def split: loop_end.splits if_splits)
    with close False inv1(2) show ?thesis by auto
  qed
  have "ends_with UNRECORDED_SUFFIX (ds @ UNRECORDED_SUFFIX)" by (simp add: ends_with_def starts_with_def)
  with shut w' inv2(2,3) inv3(2,3) show ?thesis by (auto split: if_splits)
qed

lemma workflow_settles:
  assumes "run_governed_workflow e c act cx sd token row deadline w = (w', Inr r)"
    and "rely e" and "tier_c_inv (store_of w)" and "ar_approved r \<noteq> None"
  shows "\<exists>pid. ar_proposal_id r = Some pid \<and> (reached (store_of w') pid 1
    \<or> dp_decisions_lost (w_disp w) < dp_decisions_lost (w_disp w') \<and> ends_with UNRECORDED_SUFFIX (ar_action_taken r))"
proof -
  from assms(1) obtain w1 creation row1 where cr: "create_proposal e c deadline row w = (w1, Inr (creation, row1))"
    by (auto simp: run_governed_workflow_def then_io_Inr)
  have committed: "creation = ''committed''"
    using assms(1,4) cr
    by (auto simp: run_governed_workflow_def then_io_Inr uncommitted_def Let_def workflow_result_def split: if_splits)
  note inv1 = progressD [OF progress.keeps_create cr assms(2,3)]
  let ?pid = "np_proposal_id row1"
  from assms(1) cr committed obtain w2 accepted console w3 ended rs where
      ask: "ask_operator e c token ?pid w1 = (w2, Inr (accepted, console))"
    and loop: "approval_loop e c act cx row1 token deadline console accepted
        \<lparr>rs_replies = 0, rs_state_reason = [], rs_operator_response = None, rs_inbound = None\<rparr> w2 = (w3, Inr (ended, rs))"
    and rest: "(case ended of Acted res \<Rightarrow> (defer_record (DecisionRecord ''approved'' res) w3, Inr res)
        | _ \<Rightarrow> resolve_undispatched e c act cx sd ?pid ended rs w3) = (w', Inr r)"
    by (auto simp: run_governed_workflow_def then_io_Inr)
  note inv2 = progressD [OF progress.keeps_ask ask assms(2) inv1(1)]
  have there: "reached (store_of w2) ?pid 0" using create_committed cr committed inv2(2) by blast
  have "keeps (progress e) w2 (approval_loop e c act cx row1 token deadline console accepted
        \<lparr>rs_replies = 0, rs_state_reason = [], rs_operator_response = None, rs_inbound = None\<rparr> w2)"
    by (rule progress.keeps_loop [OF refl]) simp
  note inv3 = progressD [OF this loop assms(2) inv2(1)]
  note ok = loop_ended [OF loop assms(2) inv2(1) there]
  show ?thesis
  proof (cases "is_acted ended")
    case True
    then obtain res where "ended = Acted res" by (auto simp: is_acted_def split: loop_end.splits)
    with rest ok loop_answer [of e c act cx row1 token deadline console accepted _ w2 w3 res rs] loop show ?thesis
      by (auto simp: ended_ok_def defer_record_def)
  next
    case False
    with rest have "resolve_undispatched e c act cx sd ?pid ended rs w3 = (w', Inr r)"
      by (auto simp: is_acted_def split: loop_end.splits)
    from resolve_settles [OF this assms(2) inv3(1) ok False] inv1(3) inv2(3) inv3(3) show ?thesis by auto
  qed
qed

text \<open>
  The deadline of a redrawn proposal: the workflow drops the one it held under the identifier it
  drew first, and the one held under the fresh identifier stays.
\<close>

lemma redrawn_deadline_left:
  assumes "redraw e deadline row w = (w', row')" and "np_proposal_id row' \<noteq> np_proposal_id row"
  shows "map_of (dp_proposal_deadlines (w_disp (drop_deadline (np_proposal_id row) w'))) (np_proposal_id row') = Some deadline"
  using assms by (auto simp: redraw_def Let_def drop_deadline_def update_disp_def AList.delete_conv' AList.update_conv')

section \<open>Properties\<close>

text \<open>
  C8. Every proposal comes to a decision. When a governed approval answers on a proposal it
  raised, the store holds a decision of that proposal, whatever operators replied, whatever
  failed and however other tasks interleaved; or the store took none of the six attempts to
  close it, and then the loss is counted for health and the answer says that it is not recorded.
\<close>

theorem proposal_resolved:
  assumes "rely e" and "tier_c_inv (dp_store (w_disp w))"
    and "governed_approval_workflow e c act cx sd timeout token w = (w', Inr r)" and "ar_approved r \<noteq> None"
  shows "\<exists>pid. ar_proposal_id r = Some pid
    \<and> (decided (dp_store (w_disp w')) pid
       \<or> dp_decisions_lost (w_disp w) < dp_decisions_lost (w_disp w') \<and> ends_with UNRECORDED_SUFFIX (ar_action_taken r))"
  using assms(3)
proof (cases rule: governed_cases)
  case (refused why notice)
  with assms(4) show ?thesis by (auto simp: refuse_proposal_def then_io_Inr Let_def unapproved_def)
next
  case (run row deadline w1)
  have "w_disp (hold_deadline (np_proposal_id row) deadline w) = (w_disp w)\<lparr>dp_proposal_deadlines :=
      AList.update (np_proposal_id row) deadline (dp_proposal_deadlines (w_disp w))\<rparr>"
    by (simp add: hold_deadline_def update_disp_def)
  with workflow_settles [OF run(1) assms(1) _ assms(4)] assms(2) run(2) show ?thesis
    by (auto simp: decided_reached drop_deadline_def update_disp_def)
qed simp

theorem proposal_resolved_witness:
  "\<exists>r. snd example_outcome = Inr r \<and> ar_approved r = Some True
    \<and> (decided (dp_store (w_disp (fst example_outcome))) ''ABCDEFGH'' \<or> ends_with UNRECORDED_SUFFIX (ar_action_taken r))"
proof -
  obtain r where r: "snd example_outcome = Inr r" "ar_approved r = Some True" "ar_proposal_id r = Some ''ABCDEFGH''"
    using example_runs by blast
  have inv: "tier_c_inv (dp_store (w_disp example_world))" by (simp add: example_world_def tier_c_inv_empty)
  have "governed_approval_workflow example_env example_config ''trip_relay'' example_context ''alert_sms'' 60 None
      example_world = (fst example_outcome, Inr r)" by (simp add: example_outcome_def [symmetric] r(1) [symmetric])
  from proposal_resolved [OF example_rely inv this] r show ?thesis by auto
qed

end
