(* ===== verification/Approval_Recovery.thy ===== *)
theory Approval_Recovery
  imports Approval_Resolution
begin

text \<open>
  The start of a process after another has gone: what \<open>recover_tier_c_at_start\<close> of
  \<open>ori/reasoning/action_dispatcher.py\<close> leaves of the proposals it finds, and what a start that
  could not settle them allows afterwards.
\<close>

section \<open>What a start leaves\<close>

text \<open>Recovery runs before the tasks that share the store are started.\<close>

definition alone :: "environment \<Rightarrow> bool" where
  "alone e = (\<forall>n d. en_others e n d = d)"

definition settled_state :: "string \<Rightarrow> string" where
  "settled_state s =
     (if s = PROPOSED then PROPOSAL_ABORTED_RESTART
      else if s = APPROVED_PENDING_DISPATCH then DISPATCH_NOT_PROVEN
      else if s = DISPATCH_STARTED then DISPATCH_OUTCOME_UNKNOWN else s)"

text \<open>
  A proposal that was in state \<open>s\<close> before the start: settled, or still proposed with its loss
  counted; one whose dispatch is uncertain is held as such.
\<close>

definition settled_from :: "world \<Rightarrow> world \<Rightarrow> string \<Rightarrow> string \<Rightarrow> bool" where
  "settled_from w w' pid s =
     ((decisions (store_of w') pid = Some (settled_state s)
       \<or> s = PROPOSED \<and> decisions (store_of w') pid = Some PROPOSED
         \<and> dp_decisions_lost (w_disp w) < dp_decisions_lost (w_disp w'))
      \<and> (settled_state s \<in> set UNCERTAIN_STATES \<longrightarrow> pid \<in> fst ` set (dp_uncertain (w_disp w'))))"

text \<open>What a call of the dispatcher leaves alone beside the proposals' states.\<close>

definition same_frame :: "world \<Rightarrow> world \<Rightarrow> bool" where
  "same_frame w w' =
     (decisions (store_of w') = decisions (store_of w)
      \<and> dp_uncertain (w_disp w') = dp_uncertain (w_disp w)
      \<and> dp_decisions_lost (w_disp w') = dp_decisions_lost (w_disp w)
      \<and> dp_recovery_failed (w_disp w') = dp_recovery_failed (w_disp w))"

text \<open>A close made alone: the one state it asks for, or nothing but the count of its loss.\<close>

definition closed_alone :: "world \<Rightarrow> world \<Rightarrow> string \<Rightarrow> string \<Rightarrow> bool \<Rightarrow> bool" where
  "closed_alone w w' pid state recorded =
     (decisions (store_of w') = (if recorded then (decisions (store_of w))(pid \<mapsto> state) else decisions (store_of w))
      \<and> dp_uncertain (w_disp w') = dp_uncertain (w_disp w)
      \<and> dp_recovery_failed (w_disp w') = dp_recovery_failed (w_disp w)
      \<and> (recorded \<longrightarrow> dp_decisions_lost (w_disp w') = dp_decisions_lost (w_disp w))
      \<and> (\<not> recorded \<longrightarrow> dp_decisions_lost (w_disp w) < dp_decisions_lost (w_disp w')))"

text \<open>What settling one proposal leaves: its own state and what it is held as, and nothing of another.\<close>

definition row_settled :: "world \<Rightarrow> world \<Rightarrow> string \<Rightarrow> string \<Rightarrow> bool" where
  "row_settled w w' pid s =
     (settled_from w w' pid s \<and> (\<forall>q. q \<noteq> pid \<longrightarrow> decisions (store_of w') q = decisions (store_of w) q)
      \<and> dp_decisions_lost (w_disp w) \<le> dp_decisions_lost (w_disp w')
      \<and> fst ` set (dp_uncertain (w_disp w)) \<subseteq> fst ` set (dp_uncertain (w_disp w'))
      \<and> dp_recovery_failed (w_disp w') = dp_recovery_failed (w_disp w))"

text \<open>What a step of the recovery leaves of the proposals it is not about.\<close>

definition left_alone :: "string set \<Rightarrow> world \<Rightarrow> world \<Rightarrow> bool" where
  "left_alone others w w' =
     ((\<forall>q \<in> others. decisions (store_of w') q = decisions (store_of w) q)
      \<and> dp_decisions_lost (w_disp w) \<le> dp_decisions_lost (w_disp w')
      \<and> fst ` set (dp_uncertain (w_disp w)) \<subseteq> fst ` set (dp_uncertain (w_disp w'))
      \<and> dp_recovery_failed (w_disp w') = dp_recovery_failed (w_disp w))"

section \<open>Example inputs\<close>

text \<open>A store left with one proposal whose approval was committed and never dispatched.\<close>

definition example_left :: world where
  "example_left = set_store (run_ops tier_c_call empty_tier_c (take 3 example_calls)) example_world"

section \<open>Lemmas\<close>

lemma alone_rely: "alone e \<Longrightarrow> rely e"
  by (auto simp: alone_def rely_def intro: exI [of _ "[]"])

lemma alone_others [simp]: "alone e \<Longrightarrow> en_others e n d = d"
  by (simp add: alone_def)

lemma frame_refl [simp]: "same_frame w w"
  by (simp add: same_frame_def)

lemma frame_trans: "same_frame w w' \<Longrightarrow> same_frame w' w'' \<Longrightarrow> same_frame w w''"
  by (simp add: same_frame_def)

lemma frame_disp: "w_disp w' = w_disp w \<Longrightarrow> same_frame w w'"
  by (simp add: same_frame_def)

lemma decisions_intents [simp]:
  "decisions (db\<lparr>td_intents := x\<rparr>) = decisions db"
  by (simp add: decisions_def)

lemma frame_execute:
  assumes "alone e" and "execute_immediately e c a tier cx w = (w', x)"
  shows "same_frame w w'"
proof (rule frame_disp)
  show "w_disp w' = w_disp w"
    using assms by (auto simp: execute_immediately_def Let_def then_io_def sleep_def split: if_splits)
qed

lemma frame_intent_call:
  assumes "alone e" and "store_call e mk w = (w', x)"
    and "\<And>db now. td_proposals (fst (apply_tier_c db (mk now))) = td_proposals db"
  shows "same_frame w w'"
proof -
  let ?db = "fst (apply_tier_c (store_of w) (mk (en_now e (w_tick w))))"
  have "w_disp w' = w_disp w \<or> w_disp w' = (w_disp w)\<lparr>dp_store := ?db\<rparr>"
    using assms(1,2) by (auto simp: store_call_def tier_c_call_def Let_def set_store_def split: if_splits prod.splits)
  moreover have "decisions ?db = decisions (store_of w)" by (simp add: decisions_def assms(3))
  ultimately show ?thesis by (auto simp: same_frame_def)
qed

lemma frame_safe_default:
  assumes "alone e" and "safe_default_intent e c pid sd cx reason w = (w', x)"
  shows "same_frame w w'"
proof -
  have ensure: "same_frame w1 w2" if "store_call e (EnsureIntent pid sd reason) w1 = (w2, y)" for w1 w2 y
    using frame_intent_call [OF assms(1) that] by (simp add: ensure_tier_c_safe_default_intent_def Let_def)
  have mark: "same_frame w1 w2" if "store_call e (MarkIntent pid out) w1 = (w2, y)" for w1 w2 out y
    using frame_intent_call [OF assms(1) that] by (simp add: mark_tier_c_safe_default_intent_def)
  note exe = frame_execute [OF assms(1)]
  from assms(2) show ?thesis
    unfolding safe_default_intent_def then_io_def
    by (auto split: if_splits prod.splits sum.splits interrupt.splits dest!: ensure mark exe intro: frame_trans)
qed

lemma advance_decisions:
  assumes "tier_c_inv db" and "advance_tier_c_proposal db pid state froms reason j sd now = (db', ok)"
  shows "decisions db' = (if ok then (decisions db)(pid \<mapsto> state) else decisions db)"
proof (cases ok)
  case True
  have "decisions db' q = decisions db q" if "q \<noteq> pid" for q
  proof -
    have "get_tier_c_proposal db' q = get_tier_c_proposal
        (update_where (\<lambda>r. tp_proposal_id r = pid \<and> tp_decision_state r \<in> set froms) (set_state state reason j now) db) q"
      using assms(2) True by (auto simp: advance_tier_c_proposal_def Let_def split: if_splits option.splits)
    then show ?thesis
      using that get_proposal_Some [of db q]
      by (cases "get_tier_c_proposal db q") (auto simp: decisions_get get_update_where)
  qed
  with advance_reaches(1) [of db] assms True show ?thesis by (auto simp: fun_eq_iff)
next
  case False
  with assms(2) have "td_proposals db' = td_proposals db"
    by (auto simp: advance_tier_c_proposal_def Let_def update_where_def list_ex_iff intro!: map_update_none split: if_splits)
  with False show ?thesis by (simp add: decisions_def)
qed

lemma advance_call_alone:
  assumes "alone e" and "tier_c_inv (store_of w)" and "store_call e (Advance pid state froms reason j sd) w = (w', x)"
  shows "if x = Inr (TCBool True)
      then w_disp w' = (w_disp w)\<lparr>dp_store := store_of w'\<rparr> \<and> decisions (store_of w') = (decisions (store_of w))(pid \<mapsto> state)
    else x = Inl Cancelled \<or> same_frame w w'"
proof -
  obtain db' ok where adv: "advance_tier_c_proposal (store_of w) pid state froms reason j sd (en_now e (w_tick w)) = (db', ok)"
    by (rule prod.exhaust)
  from advance_decisions [OF assms(2) adv] assms(1,3) adv show ?thesis
    by (auto simp: store_call_def tier_c_call_def Let_def set_store_def same_frame_def split: if_splits)
qed

lemma frame_read: "alone e \<Longrightarrow> store_read e q w = (w', x) \<Longrightarrow> same_frame w w'"
  by (intro frame_disp) (auto simp: store_read_def Let_def split: if_splits)

lemma frame_sleep: "alone e \<Longrightarrow> sleep e s w = (w', x) \<Longrightarrow> same_frame w w'"
  by (intro frame_disp) (auto simp: sleep_def split: if_splits)

lemma closed_alone_frame: "same_frame w w1 \<Longrightarrow> closed_alone w1 w' pid state r \<Longrightarrow> closed_alone w w' pid state r"
  by (simp add: same_frame_def closed_alone_def)

lemma close_attempts_alone:
  assumes "close_attempts e k pid state froms reason sd w = (w', Inr recorded)" and "k \<noteq> 0"
    and "alone e" and "tier_c_inv (store_of w)" and "(state, froms) \<in> set DISPATCHER_MOVES"
  shows "closed_alone w w' pid state recorded"
  using assms(1,2,4)
proof (induction k arbitrary: w)
  case (Suc k)
  note call = advance_call_alone [OF assms(3) Suc.prems(3)] and rely = alone_rely [OF assms(3)]
  have keep: "tier_c_inv (store_of w1)" if "store_call e (Advance pid state froms reason None sd) w = (w1, x)" for w1 x
    by (rule progressD(1) [OF progress.keeps_store_call that rely Suc.prems(3)]) (simp add: assms(5))
  have read: "same_frame w1 w2 \<and> (tier_c_inv (store_of w1) \<longrightarrow> tier_c_inv (store_of w2))"
    if "w2 = w1 \<or> store_read e (\<lambda>db. get_tier_c_proposal db pid) w1 = (w2, y)" for w1 w2 y
    using that frame_read [OF assms(3)] progressD(1) [OF progress.keeps_store_read _ rely] by auto
  from Suc.prems(1) show ?case
  proof (cases rule: close_attempts_cases)
    case taken
    with call [OF taken(2)] have "w_disp w' = (w_disp w)\<lparr>dp_store := store_of w'\<rparr>"
      "decisions (store_of w') = (decisions (store_of w))(pid \<mapsto> state)" by simp_all
    with taken(1) show ?thesis unfolding closed_alone_def by (metis (no_types, lifting) dispatcher.ext_inject dispatcher.surjective dispatcher.update_convs(1))
  next
    case (there w1 ans)
    have "same_frame w w'"
      using call [OF there(2)] there(3) frame_read [OF assms(3) there(4)] by (auto intro: frame_trans)
    moreover have "decisions (store_of w') pid = Some state" using there(5) by (simp add: decisions_get)
    ultimately show ?thesis using there(1) by (simp add: same_frame_def closed_alone_def fun_upd_idem)
  next
    case (lost w1 x w2 y)
    have "same_frame w w2" using call [OF lost(2)] lost(3) read [OF lost(4)] by (auto intro: frame_trans)
    with lost(1,5) show ?thesis by (simp add: same_frame_def closed_alone_def note_decision_lost_def update_disp_def)
  next
    case (again w1 x w2 y w3)
    have "same_frame w w3"
      using call [OF again(2)] again(3) read [OF again(4)] frame_sleep [OF assms(3) again(5)] by (auto intro: frame_trans)
    moreover have "tier_c_inv (store_of w3)"
      using keep [OF again(2)] read [OF again(4)] progressD(1) [OF progress.keeps_sleep again(5) rely] by simp
    ultimately show ?thesis using Suc.IH [OF again(6,1)] closed_alone_frame by blast
  qed
qed simp

lemma close_now_alone:
  assumes "close_now e c pid state froms reason sd w = (w', Inr recorded)"
    and "alone e" and "tier_c_inv (store_of w)" and "(state, froms) \<in> set DISPATCHER_MOVES"
  shows "closed_alone w w' pid state recorded"
  using assms close_attempts_alone [of e 6]
  by (auto simp: close_now_def closed_alone_def note_decision_lost_def update_disp_def split: if_splits)

subsection \<open>One row\<close>

lemma uncertain_states: "set UNCERTAIN_STATES = {DISPATCH_OUTCOME_UNKNOWN, DISPATCH_NOT_PROVEN}"
  by (auto simp: UNCERTAIN_STATES_def)

lemma dom_update: "fst ` set (AList.update k v xs) = insert k (fst ` set xs)"
  by (induction xs) auto

lemma abort_settles:
  assumes "abort_open_proposal e c reason row w = (w', Inr ())" and "alone e" and "tier_c_inv (store_of w)"
    and "decisions (store_of w) (tp_proposal_id row) = Some PROPOSED"
  shows "row_settled w w' (tp_proposal_id row) PROPOSED"
proof -
  let ?pid = "tp_proposal_id row" and ?sd = "row_default (tp_safe_default_action row)"
  have move: "(PROPOSAL_ABORTED_RESTART, [PROPOSED]) \<in> set DISPATCHER_MOVES" by (simp add: DISPATCHER_MOVES_def)
  from assms(1) obtain w1 moved where close: "close_now e c ?pid PROPOSAL_ABORTED_RESTART [PROPOSED] reason (Some ?sd) w = (w1, Inr moved)"
    and rest: "(if \<not> moved then (w1, Inr ()) else then_io (safe_default_intent e c ?pid ?sd (row_context row) reason w1) (\<lambda>_ w2.
        (governed_notify c (tp_action row) (row_context row)
          (''proposal '' @ ?pid @ '' closed: '' @ underscores_to_blanks reason) w2, Inr ()))) = (w', Inr ())"
    unfolding abort_open_proposal_def Let_def then_io_Inr by blast
  have "same_frame w1 w'"
  proof (cases moved)
    case True
    with rest obtain w2 x where "safe_default_intent e c ?pid ?sd (row_context row) reason w1 = (w2, Inr x)" "w_disp w' = w_disp w2"
      by (auto simp: then_io_Inr governed_notify_def)
    then show ?thesis using frame_safe_default [OF assms(2)] by (auto simp: same_frame_def)
  next
    case False
    with rest show ?thesis by simp
  qed
  moreover note close_now_alone [OF close assms(2,3) move]
  moreover have "settled_state PROPOSED = PROPOSAL_ABORTED_RESTART" "PROPOSAL_ABORTED_RESTART \<notin> set UNCERTAIN_STATES"
    by (simp_all add: settled_state_def uncertain_states)
  ultimately show ?thesis
    using assms(4) by (cases moved) (simp_all add: row_settled_def settled_from_def closed_alone_def same_frame_def)
qed

lemma uncertain_move_settles:
  assumes "then_io (store_call e (Advance (tp_proposal_id row) st froms reason None None) w)
      (\<lambda>_ w1. (note_uncertain c row st w1, Inr ())) = (w', Inr ())"
    and "alone e" and "tier_c_inv (store_of w)" and "decisions (store_of w) (tp_proposal_id row) = Some s"
    and "s \<in> set froms" and "st = settled_state s" and "st \<in> set UNCERTAIN_STATES"
  shows "row_settled w w' (tp_proposal_id row) s"
proof -
  from assms(1) obtain w1 ans where call: "store_call e (Advance (tp_proposal_id row) st froms reason None None) w = (w1, Inr ans)"
    and w': "w' = note_uncertain c row st w1" by (auto simp: then_io_Inr)
  from assms(4,5) obtain r where "r \<in> set (td_proposals (store_of w))" "tp_proposal_id r = tp_proposal_id row"
      "tp_decision_state r \<in> set froms"
    using get_proposal_Some by (fastforce simp: decisions_get)
  moreover have "\<not> advance_refused st"
    using assms(7) by (auto simp: uncertain_states advance_refused_def TIER_C_DECISION_STATES_def)
  ultimately have "ans = TCBool True"
    using call assms(2)
    by (auto simp: store_call_def tier_c_call_def Let_def advance_tier_c_proposal_def list_ex_iff split: if_splits)
  with advance_call_alone [OF assms(2,3) call] have w1: "w_disp w1 = (w_disp w)\<lparr>dp_store := store_of w1\<rparr>"
    "decisions (store_of w1) = (decisions (store_of w))(tp_proposal_id row \<mapsto> st)" by simp_all
  have "w_disp w' = (w_disp w1)\<lparr>dp_uncertain := AList.update (tp_proposal_id row) st (dp_uncertain (w_disp w1))\<rparr>"
    by (simp add: w' note_uncertain_def governed_notify_def update_disp_def)
  then show ?thesis
    using w1(2) assms(6) arg_cong [OF w1(1), of dp_uncertain] arg_cong [OF w1(1), of dp_decisions_lost]
      arg_cong [OF w1(1), of dp_recovery_failed]
    by (auto simp: row_settled_def settled_from_def dom_update)
qed

lemma recover_row_settles:
  assumes "recover_row e c row w = (w', Inr ())" and "alone e" and "tier_c_inv (store_of w)"
    and "decisions (store_of w) (tp_proposal_id row) = Some (tp_decision_state row)"
  shows "row_settled w w' (tp_proposal_id row) (tp_decision_state row)"
proof -
  have uncertain: "row_settled w (note_uncertain c row s w) (tp_proposal_id row) s"
    if "s \<in> set UNCERTAIN_STATES" "tp_decision_state row = s" for s
    using that assms(4)
    by (auto simp: row_settled_def settled_from_def settled_state_def uncertain_states note_uncertain_def governed_notify_def
        update_disp_def dom_update)
  have other: "row_settled w w (tp_proposal_id row) (tp_decision_state row)"
    if "tp_decision_state row \<notin> {PROPOSED, APPROVED_PENDING_DISPATCH, DISPATCH_STARTED} \<union> set UNCERTAIN_STATES"
    using that assms(4) by (auto simp: row_settled_def settled_from_def settled_state_def)
  show ?thesis
    using assms(1) abort_settles [OF _ assms(2,3)] uncertain_move_settles [OF _ assms(2-4)] uncertain other assms(4)
    by (auto simp: recover_row_def Let_def settled_state_def uncertain_states split: if_splits)
qed

subsection \<open>Every row\<close>

lemma row_left_alone: "row_settled w w' pid s \<Longrightarrow> left_alone (- {pid}) w w'"
  by (auto simp: row_settled_def left_alone_def)

lemma left_alone_frame: "same_frame w w' \<Longrightarrow> left_alone A w w'"
  by (simp add: same_frame_def left_alone_def)

lemma left_alone_trans: "left_alone A w w1 \<Longrightarrow> left_alone B w1 w' \<Longrightarrow> left_alone (A \<inter> B) w w'"
  unfolding left_alone_def by (intro conjI) (simp_all, blast)

lemma settled_later:
  "settled_from w w1 pid s \<Longrightarrow> left_alone A w1 w' \<Longrightarrow> pid \<in> A \<Longrightarrow> settled_from w w' pid s"
  by (auto simp: settled_from_def left_alone_def)

lemma settled_earlier: "left_alone A w w1 \<Longrightarrow> settled_from w1 w' pid s \<Longrightarrow> settled_from w w' pid s"
  by (auto simp: settled_from_def left_alone_def)

lemma recover_rows_settle:
  assumes "each_io (recover_row e c) rows w = (w', Inr ())" and "alone e" and "tier_c_inv (store_of w)"
    and "distinct (map tp_proposal_id rows)"
    and "\<forall>r \<in> set rows. decisions (store_of w) (tp_proposal_id r) = Some (tp_decision_state r)"
  shows "left_alone (- tp_proposal_id ` set rows) w w'
    \<and> (\<forall>r \<in> set rows. settled_from w w' (tp_proposal_id r) (tp_decision_state r))"
  using assms(1,3-5)
proof (induction rows arbitrary: w)
  case (Cons r rows)
  from Cons.prems(1) obtain w1 where row: "recover_row e c r w = (w1, Inr ())"
    and rest: "each_io (recover_row e c) rows w1 = (w', Inr ())" by (auto simp: then_io_Inr)
  have one: "row_settled w w1 (tp_proposal_id r) (tp_decision_state r)"
    using recover_row_settles [OF row assms(2) Cons.prems(2)] Cons.prems(4) by simp
  have "tier_c_inv (store_of w1)"
    by (rule progressD(1) [OF progress.keeps_recover_row row alone_rely [OF assms(2)] Cons.prems(2)]) simp
  moreover have "decisions (store_of w1) (tp_proposal_id q) = Some (tp_decision_state q)" if "q \<in> set rows" for q
    using one Cons.prems(3,4) that by (metis (no_types, lifting) distinct.simps(2) image_eqI list.set_intros(2) list.set_map list.simps(9) row_settled_def)
  ultimately have all: "left_alone (- tp_proposal_id ` set rows) w1 w'"
    "\<forall>q \<in> set rows. settled_from w1 w' (tp_proposal_id q) (tp_decision_state q)"
    using Cons.IH [OF rest] Cons.prems(3) by auto
  have "settled_from w w' (tp_proposal_id r) (tp_decision_state r)"
    using one all(1) Cons.prems(3) by (auto simp: row_settled_def intro: settled_later)
  moreover have "left_alone (- tp_proposal_id ` set (r # rows)) w w'"
    using left_alone_trans [OF row_left_alone [OF one] all(1)] by (auto simp: left_alone_def)
  ultimately show ?case using all(2) settled_earlier [OF row_left_alone [OF one]] by auto
qed (simp add: left_alone_frame)

lemma frame_resume: "alone e \<Longrightarrow> resume_intents e c is w = (w', Inr n) \<Longrightarrow> same_frame w w'"
proof (induction "is" arbitrary: w n)
  case (Cons i "is")
  from Cons.prems(2) obtain w1 ran m where "resume_intent e c i w = (w1, Inr ran)" and rest: "resume_intents e c is w1 = (w', Inr m)"
    by (auto simp: then_io_Inr)
  then have "same_frame w w1"
    using frame_safe_default [OF Cons.prems(1)] by (auto simp: resume_intent_def then_io_Inr)
  then show ?case using Cons.IH [OF Cons.prems(1) rest] by (rule frame_trans)
qed simp

lemma settled_state_other: "s \<notin> set UNSETTLED_STATES \<Longrightarrow> settled_state s = s \<and> s \<notin> set UNCERTAIN_STATES"
  by (auto simp: UNSETTLED_STATES_def settled_state_def uncertain_states)

lemma recover_settles:
  assumes "recover_tier_c_at_start e c w = (w', Inr counts)" and "alone e" and "dc_store c" and "tier_c_inv (store_of w)"
    and "decisions (store_of w) pid = Some s"
  shows "settled_from w w' pid s" and "dp_recovery_failed (w_disp w') = dp_recovery_failed (w_disp w)"
proof -
  from assms(1,3) obtain rows w1 w2 intents w3 n where
      read: "store_read e (\<lambda>db. get_tier_c_proposals db UNSETTLED_STATES) w = (w1, Inr rows)"
    and each: "each_io (recover_row e c) rows w1 = (w2, Inr ())"
    and pend: "store_read e get_pending_tier_c_safe_default_intents w2 = (w3, Inr intents)"
    and resume: "resume_intents e c intents w3 = (w', Inr n)"
    by (auto simp: recover_tier_c_at_start_def then_io_Inr)
  have rows: "rows = get_tier_c_proposals (store_of w) UNSETTLED_STATES" and w1: "w_disp w1 = w_disp w"
    using read assms(2) by (auto simp: store_read_def Let_def split: if_splits)
  have set_rows: "set rows = {r \<in> set (td_proposals (store_of w)). tp_decision_state r \<in> set UNSETTLED_STATES}"
    by (auto simp: rows get_tier_c_proposals_def UNSETTLED_STATES_def)
  have keys: "distinct (map tp_proposal_id (td_proposals (store_of w)))" using assms(4) by (simp add: tier_c_inv_def keys_inv_def)
  then have "distinct (map tp_proposal_id rows)"
    by (auto simp: rows get_tier_c_proposals_def distinct_map UNSETTLED_STATES_def intro: inj_on_subset)
  moreover have here: "decisions (store_of w) (tp_proposal_id r) = Some (tp_decision_state r)" if "r \<in> set (td_proposals (store_of w))" for r
    using keys that by (auto simp: decisions_def map_of_eq_Some_iff comp_def image_iff intro!: map_of_is_SomeI)
  ultimately have all: "left_alone (- tp_proposal_id ` set rows) w1 w2"
      "\<forall>r \<in> set rows. settled_from w1 w2 (tp_proposal_id r) (tp_decision_state r)"
    using recover_rows_settle [OF each assms(2)] assms(4) w1 set_rows by auto
  have after: "same_frame w2 w'" and before: "same_frame w w1"
    using frame_read [OF assms(2) pend] frame_resume [OF assms(2) resume] w1 by (auto intro: frame_trans frame_disp)
  from assms(5) obtain r where r: "r \<in> set (td_proposals (store_of w))" "tp_proposal_id r = pid" "tp_decision_state r = s"
    using get_proposal_Some by (fastforce simp: decisions_get)
  show "settled_from w w' pid s"
  proof (cases "s \<in> set UNSETTLED_STATES")
    case True
    with r set_rows all(2) have "settled_from w1 w2 pid s" by auto
    from settled_earlier [OF left_alone_frame [OF before] settled_later [OF this left_alone_frame [OF after], of UNIV]]
    show ?thesis by simp
  next
    case False
    have "pid \<notin> tp_proposal_id ` set rows" using False assms(5) here set_rows by auto
    then have "decisions (store_of w') pid = Some s"
      using all(1) after before assms(5) by (simp add: left_alone_def same_frame_def)
    with settled_state_other [OF False] show ?thesis by (simp add: settled_from_def)
  qed
  show "dp_recovery_failed (w_disp w') = dp_recovery_failed (w_disp w)"
    using all(1) after before by (simp add: left_alone_def same_frame_def)
qed

lemma recover_never_acts:
  assumes "recover_tier_c_at_start e c w = (w', x)" and "rely e" and "w_acts w = []" and "y \<in> set (w_acts w')"
  shows "\<not> is_physical (fst y)"
proof -
  have "keeps (acts_ok e [] []) w (recover_tier_c_at_start e c w)"
    by (rule licence.keeps_recover) (simp add: act_ok_def)
  then have ys: "list_all at_tier (w_acts w')" "list_all (act_ok [] [] (store_of w')) (w_acts w')"
    using assms(1-3) by (auto simp: keeps_def acts_ok_def)
  have "tier_c_acts w' = 0"
    using calmD [OF calm.keeps_recover assms(1)] assms(3) by (simp add: tier_c_acts_def)
  with physical_acts [OF ys] assms(4) show ?thesis by (auto simp: tier_c_acts_def filter_empty_conv)
qed

lemma refused_after_failure:
  assumes "dp_recovery_failed (w_disp w) \<noteq> []" and "alone e"
    and "governed_approval_workflow e c act cx sd timeout token w = (w', x)"
  shows "store_of w' = store_of w \<and> tier_c_acts w' = tier_c_acts w"
proof -
  have refused: "store_of w1 = store_of w \<and> tier_c_acts w1 = tier_c_acts w"
    if "refuse_proposal e c act cx sd why notice w = (w1, y)" for why notice w1 y
  proof
    show "tier_c_acts w1 = tier_c_acts w" by (rule calmD [OF calm.keeps_refuse that]) simp
    obtain w2 z where ran: "execute_immediately e c sd ''A'' cx w = (w2, z)" by (rule prod.exhaust)
    then have "w_disp w2 = w_disp w"
      using assms(2) by (auto simp: execute_immediately_def Let_def then_io_def sleep_def split: if_splits)
    with that ran show "store_of w1 = store_of w"
      by (cases z) (auto simp: refuse_proposal_def Let_def defer_record_def governed_notify_def)
  qed
  show ?thesis
    using assms(1,3) by (auto simp: governed_approval_workflow_def Let_def dest!: refused split: sum.splits option.splits)
qed

section \<open>Properties\<close>



end
