(* ===== verification/Outcome_Records.thy ===== *)
theory Outcome_Records
  imports Approval_Recovery
begin

text \<open>
  The outcomes of dispatched approvals in \<open>ori/reasoning/action_dispatcher.py\<close>, between the
  executor's answer and the store: the dispatcher as an object driven by the calls and the
  background tasks that touch what it holds, and what every sequence of them keeps.
\<close>

section \<open>The dispatcher's records as an object\<close>

text \<open>
  An attempt of a background task (which, whether the store takes the call, and when), a call of
  another coroutine on the store, the start of a dispatch (\<open>carry_out\<close> before the executor), the
  record of its outcome, and a reconciliation that was accepted.
\<close>

datatype record_op =
    Attempt nat bool int
  | OnStore tier_c_op bool
  | Dispatching dispatcher_config string rat
  | Outcome dispatcher_config new_proposal string "(string \<times> json) list"
  | ReconciledHere string

fun record_step :: "dispatcher \<Rightarrow> record_op \<Rightarrow> store_error + dispatcher \<times> unit" where
  "record_step d (Attempt i takes now) = Inr (run_job i takes now d, ())"
| "record_step d (OnStore op takes) =
     (case tier_c_call (dp_store d) (op, takes) of
        Inl x \<Rightarrow> Inl x | Inr (db, _) \<Rightarrow> Inr (d\<lparr>dp_store := db\<rparr>, ()))"
| "record_step d (Dispatching c pid now) =
     Inr (d\<lparr>dp_pending_outcomes := AList.update pid now (dp_pending_outcomes d),
            dp_jobs := dp_jobs d @ (if dc_store c then [MarkStarted pid] else [])\<rparr>, ())"
| "record_step d (Outcome c row state ms) = Inr (record_outcome c row state ms d, ())"
| "record_step d (ReconciledHere pid) =
     Inr (d\<lparr>dp_uncertain := AList.delete pid (dp_uncertain d),
            dp_unknown_live := AList.delete pid (dp_unknown_live d)\<rparr>, ())"

definition OUTCOME_STATES :: "string list" where
  "OUTCOME_STATES = [EXECUTED, DISPATCH_FAILED, DISPATCH_OUTCOME_UNKNOWN]"

fun record_allowed :: "dispatcher \<Rightarrow> record_op \<Rightarrow> bool" where
  "record_allowed d (OnStore op takes) = dispatcher_call (dp_store d) (op, takes)"
| "record_allowed d (Outcome c row state ms) = (state \<in> set OUTCOME_STATES)"
| "record_allowed d _ = True"

fun job_ok :: "job \<Rightarrow> bool" where
  "job_ok (AppendOutcome pid state text commanded) = (state \<in> set OUTCOME_STATES)"
| "job_ok (MarkStarted pid) = True"

definition records_inv :: "dispatcher \<Rightarrow> bool" where
  "records_inv d = (tier_c_inv (dp_store d) \<and> list_all job_ok (dp_jobs d))"

text \<open>
  Where an approval's outcome is held: as a task that still tries to append it, as unknown in this
  process, or in the store, whose row has then left the states that wait for an outcome.
\<close>

definition outcome_held :: "dispatcher \<Rightarrow> string \<Rightarrow> string \<Rightarrow> string \<Rightarrow> string \<times> string \<Rightarrow> bool" where
  "outcome_held d pid state text commanded =
     (reached (dp_store d) pid 1
      \<and> (AppendOutcome pid state text commanded \<in> set (dp_jobs d)
         \<or> pid \<in> fst ` set (dp_unknown_live d) \<or> reached (dp_store d) pid 3))"

text \<open>The store's row no longer waits for the outcome of its dispatch.\<close>

definition outcome_recorded :: "tier_c_db \<Rightarrow> string \<Rightarrow> bool" where
  "outcome_recorded db pid =
     (case get_tier_c_proposal db pid of
        Some r \<Rightarrow> tp_decision_state r \<notin> {PROPOSED, APPROVED_PENDING_DISPATCH, DISPATCH_STARTED}
      | None \<Rightarrow> False)"

section \<open>Example inputs\<close>

text \<open>An approved proposal whose relay was driven, and a store that is down for the first append.\<close>

definition example_dispatched :: dispatcher where
  "example_dispatched = (w_disp example_left)\<lparr>dp_pending_outcomes := [(''p1'', 0)]\<rparr>"

definition example_attempts :: "record_op list" where
  "example_attempts = [Attempt 0 False 3000, OnStore (ClaimToken ''t9'' ''dev'' ''trip_relay'' 3100) True, Attempt 0 True 3200]"

section \<open>Lemmas\<close>

lemma outcome_moves:
  "state \<in> set OUTCOME_STATES \<Longrightarrow> (state, [APPROVED_PENDING_DISPATCH, DISPATCH_STARTED]) \<in> set DISPATCHER_MOVES"
  "(DISPATCH_STARTED, [APPROVED_PENDING_DISPATCH]) \<in> set DISPATCHER_MOVES"
  by (auto simp: OUTCOME_STATES_def DISPATCHER_MOVES_def)

lemma set_drop_nth: "set (drop_nth i xs) \<subseteq> set xs"
  using set_take_subset [of i xs] set_drop_subset [of "Suc i" xs] by (auto simp: drop_nth_def)

lemma mem_drop_nth: "x \<in> set xs \<Longrightarrow> x \<noteq> xs ! i \<Longrightarrow> x \<in> set (drop_nth i xs)"
proof (cases "i < length xs")
  case True
  then have "set xs = insert (xs ! i) (set (drop_nth i xs))"
    unfolding drop_nth_def by (subst id_take_nth_drop [of i xs]) auto
  then show "x \<in> set xs \<Longrightarrow> x \<noteq> xs ! i \<Longrightarrow> x \<in> set (drop_nth i xs)" by auto
qed (simp add: drop_nth_def)

text \<open>What an attempt of a background task does, by what the task is.\<close>

lemma run_job_cases:
  obtains (idle) "length (dp_jobs d) \<le> i" "run_job i takes now d = d"
  | (marker) pid where "i < length (dp_jobs d)" "dp_jobs d ! i = MarkStarted pid"
      "dp_jobs (run_job i takes now d) = drop_nth i (dp_jobs d)" "dp_unknown_live (run_job i takes now d) = dp_unknown_live d"
      "dp_store (run_job i takes now d) = run_ops tier_c_call (dp_store d)
        [(Advance pid DISPATCH_STARTED [APPROVED_PENDING_DISPATCH] [] None None now, takes)]"
  | (retry) "dp_store (run_job i takes now d) = dp_store d" "dp_jobs (run_job i takes now d) = dp_jobs d"
      "dp_unknown_live (run_job i takes now d) = dp_unknown_live d" "\<not> takes"
  | (appended) pid state js commanded where "i < length (dp_jobs d)" "dp_jobs d ! i = AppendOutcome pid state js commanded" "takes"
      "dp_jobs (run_job i takes now d) = drop_nth i (dp_jobs d)" "dp_unknown_live (run_job i takes now d) = dp_unknown_live d"
      "dp_store (run_job i takes now d) = fst (advance_tier_c_proposal (dp_store d) pid state
        [APPROVED_PENDING_DISPATCH, DISPATCH_STARTED] [] (Some js) None now)"
proof (cases "i < length (dp_jobs d)")
  case True
  show thesis
  proof (cases "dp_jobs d ! i")
    case (MarkStarted pid)
    with True show thesis
      by (intro marker [of pid]) (simp_all add: run_job_def tier_c_call_def split: prod.split)
  next
    case (AppendOutcome pid state js commanded)
    show thesis
    proof (cases takes)
      case takes: True
      obtain db ok where "advance_tier_c_proposal (dp_store d) pid state [APPROVED_PENDING_DISPATCH, DISPATCH_STARTED] []
          (Some js) None now = (db, ok)" by (rule prod.exhaust)
      with True AppendOutcome takes show thesis
        by (intro appended [of pid state js commanded]) (simp_all add: run_job_def tier_c_call_def)
    next
      case False
      with True AppendOutcome show thesis by (intro retry) (simp_all add: run_job_def tier_c_call_def)
    qed
  qed
qed (simp add: run_job_def idle)

lemma advance_run:
  assumes "tier_c_inv db" and "(state, froms) \<in> set DISPATCHER_MOVES"
  shows "tier_c_inv (run_ops tier_c_call db [(Advance pid state froms reason j sd now, takes)])"
    and "reached db q k \<Longrightarrow> reached (run_ops tier_c_call db [(Advance pid state froms reason j sd now, takes)]) q k"
proof -
  have ok: "runs_ok tier_c_call dispatcher_call db [(Advance pid state froms reason j sd now, takes)]"
    using assms(2) by simp
  show "tier_c_inv (run_ops tier_c_call db [(Advance pid state froms reason j sd now, takes)])"
    by (rule tier_c.inv_run [OF assms(1) ok])
  show "reached db q k \<Longrightarrow> reached (run_ops tier_c_call db [(Advance pid state froms reason j sd now, takes)]) q k"
    by (rule forward.latched_run [OF assms(1) _ ok]) simp_all
qed

lemma advance_taken:
  "fst (advance_tier_c_proposal db pid state froms reason j sd now)
    = run_ops tier_c_call db [(Advance pid state froms reason j sd now, True)]"
  by (cases "advance_tier_c_proposal db pid state froms reason j sd now") (simp add: tier_c_call_def)

lemma attempt_inv:
  assumes "records_inv d"
  shows "records_inv (run_job i takes now d)" and "reached (dp_store d) q k \<Longrightarrow> reached (dp_store (run_job i takes now d)) q k"
proof -
  from assms have inv: "tier_c_inv (dp_store d)" "list_all job_ok (dp_jobs d)" by (simp_all add: records_inv_def)
  have sub: "list_all job_ok (drop_nth i (dp_jobs d))" using inv(2) set_drop_nth by (fastforce simp: list_all_iff)
  have ok: "job_ok (dp_jobs d ! i)" if "i < length (dp_jobs d)" using inv(2) that by (simp add: list_all_length)
  have "records_inv (run_job i takes now d) \<and> (reached (dp_store d) q k \<longrightarrow> reached (dp_store (run_job i takes now d)) q k)"
  proof (cases rule: run_job_cases [of d i takes now])
    case (marker pid)
    with advance_run [OF inv(1) outcome_moves(2)] sub show ?thesis by (simp add: records_inv_def)
  next
    case (appended pid state js commanded)
    then have "state \<in> set OUTCOME_STATES" using ok by simp
    with advance_run [OF inv(1) outcome_moves(1)] sub appended show ?thesis by (simp add: records_inv_def advance_taken)
  qed (use assms in \<open>simp_all add: records_inv_def\<close>)
  then show "records_inv (run_job i takes now d)" "reached (dp_store d) q k \<Longrightarrow> reached (dp_store (run_job i takes now d)) q k"
    by simp_all
qed

text \<open>An append the store takes leaves the row past the states that wait for an outcome.\<close>

lemma append_durable:
  assumes "tier_c_inv db" and "reached db pid 1" and "state \<in> set OUTCOME_STATES"
  shows "reached (fst (advance_tier_c_proposal db pid state [APPROVED_PENDING_DISPATCH, DISPATCH_STARTED] [] j None now)) pid 3"
proof -
  from assms(2) obtain s where s: "decisions db pid = Some s" "1 \<le> decision_rank s"
    by (auto simp: reached_def split: option.splits)
  obtain db' ok where adv: "advance_tier_c_proposal db pid state [APPROVED_PENDING_DISPATCH, DISPATCH_STARTED] [] j None now = (db', ok)"
    by (rule prod.exhaust)
  show ?thesis
  proof (cases ok)
    case True
    with advance_reaches(1) [OF assms(1)] adv assms(3) show ?thesis
      by (auto simp: reached_def decision_rank_def OUTCOME_STATES_def)
  next
    case False
    from s(1) obtain r where r: "r \<in> set (td_proposals db)" "tp_proposal_id r = pid" "tp_decision_state r = s"
      using get_proposal_Some by (fastforce simp: decisions_get)
    have "\<not> advance_refused state" using assms(3) by (auto simp: OUTCOME_STATES_def advance_refused_def TIER_C_DECISION_STATES_def)
    with False adv r have "s \<notin> {APPROVED_PENDING_DISPATCH, DISPATCH_STARTED}"
      by (auto simp: advance_tier_c_proposal_def Let_def list_ex_iff split: if_splits)
    with s(2) have "3 \<le> decision_rank s" by (auto simp: decision_rank_def split: if_splits)
    moreover have "decisions db' pid = Some s"
      using s(1) advance_decisions [OF assms(1) adv] False by simp
    ultimately show ?thesis by (simp add: adv reached_def)
  qed
qed

interpretation held: latching_object record_step records_inv record_allowed
    "\<lambda>d. outcome_held d pid state js commanded" "\<lambda>x. x = ReconciledHere pid" for pid state js commanded
proof
  fix d d' :: dispatcher and x t
  assume inv: "records_inv d" and ok: "record_allowed d x" and step: "record_step d x = Inr (d', t)"
  have store: "tier_c_inv db \<and> (reached (dp_store d) q k \<longrightarrow> reached db q k)"
    if "tier_c_call (dp_store d) y = Inr (db, ans)" "dispatcher_call (dp_store d) y" for y db ans q k
    using that inv call_tier_c_inv [of "dp_store d" y] reached_call [of "dp_store d" q k y] by (auto simp: records_inv_def)
  show "records_inv d'"
    using inv ok step store attempt_inv(1) [OF inv]
    by (cases x) (auto simp: records_inv_def record_outcome_def Let_def list_all_iff split: sum.splits prod.splits if_splits)
next
  fix d d' :: dispatcher and x t
  assume inv: "records_inv d" and held: "outcome_held d pid state js commanded" and ok: "record_allowed d x"
    and other: "x \<noteq> ReconciledHere pid" and step: "record_step d x = Inr (d', t)"
  show "outcome_held d' pid state js commanded"
  proof (cases x)
    case (Attempt i takes now)
    then have d': "d' = run_job i takes now d" using step by simp
    note mono = attempt_inv(2) [OF inv, of _ _ i takes now]
    show ?thesis
    proof (cases rule: run_job_cases [of d i takes now])
      case (marker p)
      then have "AppendOutcome pid state js commanded \<in> set (dp_jobs d)
          \<Longrightarrow> AppendOutcome pid state js commanded \<in> set (dp_jobs d')" by (simp add: d' mem_drop_nth)
      with held marker(4) mono show ?thesis by (auto simp: outcome_held_def d')
    next
      case (appended p st j cmd)
      show ?thesis
      proof (cases "dp_jobs d ! i = AppendOutcome pid state js commanded")
        case True
        with appended inv have "state \<in> set OUTCOME_STATES" by (metis job_ok.simps(1) list_all_length records_inv_def)
        with True appended have "reached (dp_store d') pid 3"
          using append_durable [of "dp_store d" pid state] inv held by (simp add: d' records_inv_def outcome_held_def)
        with held mono show ?thesis by (auto simp: outcome_held_def d')
      next
        case False
        then have "AppendOutcome pid state js commanded \<in> set (dp_jobs d)
            \<Longrightarrow> AppendOutcome pid state js commanded \<in> set (dp_jobs d')" by (metis appended(4) d' mem_drop_nth)
        with held appended(5) mono show ?thesis by (auto simp: outcome_held_def d')
      qed
    qed (use held in \<open>simp_all add: outcome_held_def d'\<close>)
  next
    case (OnStore op takes)
    then obtain db ans where call: "tier_c_call (dp_store d) (op, takes) = Inr (db, ans)" and d': "d' = d\<lparr>dp_store := db\<rparr>"
      using step by (auto split: sum.splits prod.splits)
    have "reached (dp_store d) q k \<Longrightarrow> reached db q k" for q k
      using reached_call [OF _ _ _ call] ok OnStore inv by (simp add: records_inv_def)
    with held d' show ?thesis by (auto simp: outcome_held_def)
  next
    case (Dispatching c p now)
    with step held show ?thesis by (auto simp: outcome_held_def)
  next
    case (Outcome c row st ms)
    with step have d': "d' = record_outcome c row st ms d" by simp
    have "fst ` set (dp_unknown_live d) \<subseteq> fst ` set (dp_unknown_live d')" "set (dp_jobs d) \<subseteq> set (dp_jobs d')"
      "dp_store d' = dp_store d"
      by (auto simp: d' record_outcome_def Let_def dom_update)
    with held show ?thesis by (auto simp: outcome_held_def)
  next
    case (ReconciledHere p)
    with other step held show ?thesis by (force simp: outcome_held_def AList.delete_eq)
  qed
qed

lemma recorded_reached: "outcome_recorded db pid \<longleftrightarrow> reached db pid 3"
  by (auto simp: outcome_recorded_def reached_def decisions_get decision_rank_def split: option.splits)

lemma unknown_degrades: "pid \<in> fst ` set (dp_unknown_live d) \<Longrightarrow> records_degrade_health d now"
  by (auto simp: records_degrade_health_def action_records_def Let_def)

section \<open>Properties\<close>



end
