(* ===== verification/Gate_Laws.thy ===== *)
theory Gate_Laws
  imports Resource_Gate
begin

text \<open>
  What the resource gate promises: one act in flight per resource, no admission against an act
  that is running or whose outcome is uncertain, an uncertain command that only its driver's
  report clears, a late reply refused, and a completed act that keeps foreclosing its event's
  opposite until the event closes.
\<close>

section \<open>The invariant\<close>

definition in_flight :: "gate_record \<Rightarrow> bool" where
  "in_flight r = (gr_state r \<in> {Running, Uncertain})"

definition key_at :: "gate \<Rightarrow> nat \<Rightarrow> string list" where
  "key_at g a = resource_key (gr_identity (rec_at g a))"

definition holder_inv :: "gate \<Rightarrow> bool" where
  "holder_inv g =
     ((\<forall>k a. map_of (g_records g) k = Some a \<longrightarrow> a < length (g_heap g) \<and> key_at g a = k)
      \<and> (\<forall>a < length (g_heap g). in_flight (rec_at g a) \<longrightarrow>
           map_of (g_records g) (key_at g a) = Some a \<and> gr_entered (rec_at g a)))"

text \<open>What an attempt has put in the events' entries is about it, and no higher than its claims.\<close>

definition entry_ok :: "gate_record \<Rightarrow> string \<Rightarrow> gate_entry \<Rightarrow> bool" where
  "entry_ok r s e =
     (ge_identity e = gr_identity r \<and> (ge_entered e \<longrightarrow> gr_entered r)
      \<and> tier_rank (ge_tier e) \<le> tier_rank (max_tier (claim_tiers r s)))"

definition entries_inv :: "gate \<Rightarrow> bool" where
  "entries_inv g =
     (\<forall>a < length (g_heap g). \<forall>s e. map_of (gr_entries (rec_at g a)) s = Some e \<longrightarrow> entry_ok (rec_at g a) s e)"

definition gate_inv :: "gate \<Rightarrow> bool" where
  "gate_inv g = (holder_inv g \<and> entries_inv g)"

text \<open>How a record may change: its identity stays, its claims and its entry only grow.\<close>

definition evolves :: "gate_record \<Rightarrow> gate_record \<Rightarrow> bool" where
  "evolves r r' =
     (gr_identity r' = gr_identity r \<and> gr_scope r' = gr_scope r \<and> gr_tier r' = gr_tier r
      \<and> gr_entries r' = gr_entries r \<and> (gr_entered r \<longrightarrow> gr_entered r')
      \<and> (\<exists>cs. gr_contributors r' = gr_contributors r @ cs))"

text \<open>The gate without its history of decisions, which nothing reads back.\<close>

definition core :: "gate \<Rightarrow> gate" where
  "core g = g\<lparr>g_suppressions := []\<rparr>"

text \<open>What a request can do: stand aside, join, make both stand down, or admit a new record.\<close>

inductive request_result :: "gate \<Rightarrow> string \<Rightarrow> resource_identity \<Rightarrow> gate \<Rightarrow> gate_decision \<Rightarrow> bool"
  for g scope ident where
  quiet:
    "core g' = core g \<Longrightarrow> gd_admission d \<in> {Refused, Joined} \<Longrightarrow> request_result g scope ident g' d"
| joined_entry:
    "map_of (g_scopes g) scope = Some es
     \<Longrightarrow> core g' = core (g\<lparr>g_scopes := AList.update scope (es @ [e]) (g_scopes g)\<rparr>)
     \<Longrightarrow> gd_admission d = Joined \<Longrightarrow> request_result g scope ident g' d"
| joined_holder:
    "core g' = core (set_rec a (\<lambda>r. r\<lparr>gr_contributors := gr_contributors r @ [c]\<rparr>) g)
     \<Longrightarrow> gd_admission d = Joined \<Longrightarrow> request_result g scope ident g' d"
| stood_down:
    "map_of (g_records g) (resource_key ident) = Some a \<Longrightarrow> gr_state (rec_at g a) = Reserved
     \<Longrightarrow> core g' = core ((set_rec a retire_record g)\<lparr>g_records := AList.delete (resource_key ident) (g_records g)\<rparr>)
     \<Longrightarrow> gd_admission d = Refused \<Longrightarrow> request_result g scope ident g' d"
| admitted:
    "core g0 = core g \<and> map_of (g_records g) (resource_key ident) = None
       \<or> core g0 = core g \<and> map_of (g_records g) (resource_key ident) = Some a \<and> gr_state (rec_at g a) = Retired
       \<or> core g0 = core (set_rec a (\<lambda>r. r\<lparr>gr_invalidated := True\<rparr>) g)
           \<and> map_of (g_records g) (resource_key ident) = Some a \<and> gr_state (rec_at g a) = Proposal
       \<or> core g0 = core (set_rec a retire_record g)
           \<and> map_of (g_records g) (resource_key ident) = Some a \<and> gr_state (rec_at g a) = Reserved
     \<Longrightarrow> core g' = core (fst (admit g0 scope ident' tier c w n)) \<Longrightarrow> resource_key ident' = resource_key ident
     \<Longrightarrow> gd_admission d \<in> {Admitted, PreemptedHolder}
     \<Longrightarrow> gd_token d = Some (RecordToken (length (g_heap g)))
     \<Longrightarrow> length (g_heap g0) = length (g_heap g) \<Longrightarrow> request_result g scope ident g' d"

text \<open>Only the driver's report ends an uncertainty.\<close>

definition uncertain_at :: "nat \<Rightarrow> resource_identity \<Rightarrow> gate \<Rightarrow> bool" where
  "uncertain_at a ident g =
     (a < length (g_heap g) \<and> gr_state (rec_at g a) = Uncertain \<and> gr_identity (rec_at g a) = ident)"

fun reports_on :: "nat \<Rightarrow> gate_op \<Rightarrow> bool" where
  "reports_on a (ResolveUncertain b acc now) = (b = a)"
| "reports_on a _ = False"

text \<open>An open event whose completed act stands against \<open>ident\<close> at \<open>tier\<close>.\<close>

definition foreclosed :: "string \<Rightarrow> resource_identity \<Rightarrow> string \<Rightarrow> gate \<Rightarrow> bool" where
  "foreclosed s ident tier g =
     (case map_of (g_scopes g) s of
        None \<Rightarrow> False
      | Some es \<Rightarrow> list_ex (\<lambda>e. forecloses e \<and> opposes (ge_identity e) ident
                     \<and> tier_rank tier \<le> tier_rank (ge_tier e)) es)"

fun closes :: "string \<Rightarrow> gate_op \<Rightarrow> bool" where
  "closes s (CloseScope t) = (t = s)"
| "closes s _ = False"

section \<open>Example inputs\<close>

definition example_zone :: "string \<Rightarrow> resource_identity" where
  "example_zone out = \<lparr>resource_key = [''zone'', ''z1''], desired_outcome = out, join_parameters = []\<rparr>"

definition example_contributor :: contributor where
  "example_contributor =
     \<lparr>ct_skill_name = ''grid'', ct_trigger_name = ''overcurrent'', ct_action = ''trip_relay'',
      ct_dispatch_tier = ''D'', ct_correlation_id = [], ct_tier_d_granted = True, ct_record_key = ''k1'',
      ct_record_future = None, ct_scope = []\<rparr>"

text \<open>An event opens its scope and dispatches an opening; the driver does not report in time.\<close>

definition example_ops :: "gate_op list" where
  "example_ops =
     [OpenScope ''e1'',
      Dispatch ''e1'' (example_zone OPEN_PROTECTED_CIRCUIT) ''D'' example_contributor False 1000]"

section \<open>Lemmas\<close>

lemma record_event_sel [simp]:
  "g_heap (record_event g k f n) = g_heap g"
  "g_records (record_event g k f n) = g_records g"
  "g_scopes (record_event g k f n) = g_scopes g"
  "rec_at (record_event g k f n) a = rec_at g a"
  by (simp_all add: record_event_def Let_def rec_at_def)

lemma set_rec_sel [simp]:
  "length (g_heap (set_rec a f g)) = length (g_heap g)"
  "g_records (set_rec a f g) = g_records g"
  "g_scopes (set_rec a f g) = g_scopes g"
  "rec_at (set_rec a f g) i = (if i = a \<and> a < length (g_heap g) then f (rec_at g a) else rec_at g i)"
  by (auto simp: set_rec_def rec_at_def list_update_beyond nth_list_update)

lemma rec_at_frames [simp]:
  "rec_at (g\<lparr>g_scopes := x\<rparr>) a = rec_at g a"
  "rec_at (g\<lparr>g_records := y\<rparr>) a = rec_at g a"
  by (simp_all add: rec_at_def)

text \<open>Recording an attempt's entries changes nothing else of any record.\<close>

lemma record_entry_sel [simp]:
  "length (g_heap (record_entry a b s g)) = length (g_heap g)"
  "g_records (record_entry a b s g) = g_records g"
  "gr_state (rec_at (record_entry a b s g) i) = gr_state (rec_at g i)"
  "gr_identity (rec_at (record_entry a b s g) i) = gr_identity (rec_at g i)"
  "gr_tier (rec_at (record_entry a b s g) i) = gr_tier (rec_at g i)"
  "gr_entered (rec_at (record_entry a b s g) i) = gr_entered (rec_at g i)"
  "gr_contributors (rec_at (record_entry a b s g) i) = gr_contributors (rec_at g i)"
  "gr_scope (rec_at (record_entry a b s g) i) = gr_scope (rec_at g i)"
  by (auto simp: record_entry_def Let_def split: option.split)

lemma fold_record_entry_sel:
  "length (g_heap (fold (record_entry a b) ss g)) = length (g_heap g)"
  "g_records (fold (record_entry a b) ss g) = g_records g"
  "gr_state (rec_at (fold (record_entry a b) ss g) i) = gr_state (rec_at g i)"
  "gr_identity (rec_at (fold (record_entry a b) ss g) i) = gr_identity (rec_at g i)"
  "gr_tier (rec_at (fold (record_entry a b) ss g) i) = gr_tier (rec_at g i)"
  "gr_entered (rec_at (fold (record_entry a b) ss g) i) = gr_entered (rec_at g i)"
  "gr_contributors (rec_at (fold (record_entry a b) ss g) i) = gr_contributors (rec_at g i)"
  "gr_scope (rec_at (fold (record_entry a b) ss g) i) = gr_scope (rec_at g i)"
  by (induction ss arbitrary: g) simp_all

lemmas record_entries_sel [simp] = fold_record_entry_sel
  [where a = a and ss = "claiming_scopes (rec_at g a)" and g = g for a g, folded record_entries_def]

subsection \<open>Tiers of a claim\<close>

lemma max_tier_rank:
  "ts \<noteq> [] \<Longrightarrow> max_tier ts \<in> set ts \<and> (\<forall>t \<in> set ts. tier_rank t \<le> tier_rank (max_tier ts))"
  by (induction ts rule: max_tier.induct) (auto simp: Let_def)

lemma max_tier_mono: "set ts \<subseteq> set us \<Longrightarrow> ts \<noteq> [] \<Longrightarrow> tier_rank (max_tier ts) \<le> tier_rank (max_tier us)"
  using max_tier_rank [of ts] max_tier_rank [of us] by (cases "us = []") auto

lemma tier_rank_Nil [simp]: "tier_rank [] = 0"
  by (simp add: tier_rank_def TIER_ORDER_def str_upper_def)

lemma claim_tiers_mono:
  "tier_rank (max_tier (claim_tiers r s))
     \<le> tier_rank (max_tier (claim_tiers (r\<lparr>gr_contributors := gr_contributors r @ cs\<rparr>) s))"
  by (cases "claim_tiers r s = []") (auto intro!: max_tier_mono simp: claim_tiers_def)

lemma claim_tiers_cong:
  "gr_contributors r' = gr_contributors r \<Longrightarrow> gr_scope r' = gr_scope r \<Longrightarrow> gr_tier r' = gr_tier r
     \<Longrightarrow> claim_tiers r' s = claim_tiers r s"
  by (simp add: claim_tiers_def)

lemma entry_ok_evolves:
  assumes "entry_ok r s e" and "evolves r r'"
  shows "entry_ok r' s e"
proof -
  from assms(2) obtain cs where cs: "gr_contributors r' = gr_contributors r @ cs" by (auto simp: evolves_def)
  have "claim_tiers r' s = claim_tiers (r\<lparr>gr_contributors := gr_contributors r @ cs\<rparr>) s"
    using assms(2) cs by (simp add: claim_tiers_def evolves_def)
  with assms claim_tiers_mono [of r s cs] show ?thesis by (auto simp: entry_ok_def evolves_def)
qed

lemma evolves_enter [simp]: "evolves r (enter_executor r)"
  by (simp add: evolves_def enter_executor_def)

subsection \<open>What keeps the entries in order\<close>

lemma entries_inv_frames [simp]:
  "entries_inv (record_event g k f n) = entries_inv g"
  "entries_inv (g\<lparr>g_scopes := x\<rparr>) = entries_inv g"
  "entries_inv (g\<lparr>g_records := y\<rparr>) = entries_inv g"
  by (simp_all add: entries_inv_def)

lemma entries_inv_set_rec:
  assumes "entries_inv g" and "evolves (rec_at g a) (f (rec_at g a))"
  shows "entries_inv (set_rec a f g)"
proof -
  from assms(2) have "gr_entries (f (rec_at g a)) = gr_entries (rec_at g a)" by (simp add: evolves_def)
  with assms(1) entry_ok_evolves [OF _ assms(2)] show ?thesis by (simp add: entries_inv_def)
qed

lemma entries_inv_record_entry:
  assumes "entries_inv g"
  shows "entries_inv (record_entry a b s g)"
proof (cases "map_of (g_scopes g) s")
  case None
  with assms show ?thesis by (simp add: record_entry_def)
next
  case (Some es)
  have keep: "entry_ok (r\<lparr>gr_entries := x\<rparr>) t e = entry_ok r t e" for r x t e
    by (simp add: entry_ok_def claim_tiers_def)
  have new: "entry_ok (rec_at g a) s (entry_for (rec_at g a) s b)" by (simp add: entry_ok_def entry_for_def)
  with assms Some show ?thesis
    by (auto simp: record_entry_def entries_inv_def Let_def keep update_conv')
qed

lemma entries_inv_record_entries: "entries_inv g \<Longrightarrow> entries_inv (record_entries g a b)"
  unfolding record_entries_def
  by (induction "claiming_scopes (rec_at g a)" arbitrary: g rule: list.induct)
     (auto intro: fold_invariant [where P = entries_inv and Q = "\<lambda>_. True"] entries_inv_record_entry)

lemma rec_at_admit [simp]:
  "i < length (g_heap g) \<Longrightarrow> rec_at (fst (admit g s ident tier c w n)) i = rec_at g i"
  "rec_at (fst (admit g s ident tier c w n)) (length (g_heap g)) =
     \<lparr>gr_identity = ident, gr_tier = tier, gr_state = (if w then Proposal else Reserved),
      gr_contributors = [c\<lparr>ct_scope := s\<rparr>], gr_admitted_at_ms = n, gr_proposal_id = [],
      gr_invalidated = False, gr_result = None, gr_scope = s, gr_entered = False,
      gr_asked = False, gr_entries = [], gr_done = False\<rparr>"
  by (simp_all add: admit_def rec_at_def Let_def nth_append)

lemma admit_sel [simp]:
  "length (g_heap (fst (admit g s ident tier c w n))) = Suc (length (g_heap g))"
  "g_scopes (fst (admit g s ident tier c w n)) = g_scopes g"
  "map_of (g_records (fst (admit g s ident tier c w n)))
     = (map_of (g_records g))(resource_key ident \<mapsto> length (g_heap g))"
  by (simp_all add: admit_def Let_def update_conv')

lemma entries_inv_admit: "entries_inv g \<Longrightarrow> entries_inv (fst (admit g s ident tier c w n))"
  by (simp add: entries_inv_def less_Suc_eq)

subsection \<open>What keeps the holders in order\<close>

lemma holder_inv_frames [simp]:
  "holder_inv (record_event g k f n) = holder_inv g"
  "holder_inv (g\<lparr>g_scopes := x\<rparr>) = holder_inv g"
  "holder_inv (record_entries g a b) = holder_inv g"
  by (simp_all add: holder_inv_def key_at_def in_flight_def)

lemma holder_inv_set_rec:
  assumes "holder_inv g" and "gr_identity (f (rec_at g a)) = gr_identity (rec_at g a)"
    and "in_flight (f (rec_at g a)) \<Longrightarrow> a < length (g_heap g)
      \<Longrightarrow> map_of (g_records g) (key_at g a) = Some a \<and> gr_entered (f (rec_at g a))"
  shows "holder_inv (set_rec a f g)"
  using assms by (auto simp: holder_inv_def key_at_def)

lemma holder_inv_admit:
  assumes "holder_inv g"
    and "\<And>b. map_of (g_records g) (resource_key ident) = Some b \<Longrightarrow> \<not> in_flight (rec_at g b)"
  shows "holder_inv (fst (admit g s ident tier c w n))"
proof -
  let ?g = "fst (admit g s ident tier c w n)"
  have old: "rec_at ?g i = rec_at g i" if "i < length (g_heap g)" for i
    using that by simp
  have new: "key_at ?g (length (g_heap g)) = resource_key ident" "\<not> in_flight (rec_at ?g (length (g_heap g)))"
    by (simp_all add: key_at_def in_flight_def)
  have "map_of (g_records ?g) (key_at ?g a) = Some a \<and> gr_entered (rec_at ?g a)"
    if "a < length (g_heap ?g)" "in_flight (rec_at ?g a)" for a
  proof -
    from that new have a: "a < length (g_heap g)" by (auto simp: less_Suc_eq)
    with that old have fl: "in_flight (rec_at g a)" "key_at ?g a = key_at g a" by (simp_all add: key_at_def)
    with assms(1) a have h: "map_of (g_records g) (key_at g a) = Some a" "gr_entered (rec_at g a)"
      by (simp_all add: holder_inv_def)
    with assms(2) fl(1) have "key_at g a \<noteq> resource_key ident" by auto
    with h fl(2) old [OF a] show ?thesis by simp
  qed
  moreover have "a < length (g_heap ?g) \<and> key_at ?g a = k" if "map_of (g_records ?g) k = Some a" for k a
    using that assms(1) new(1) old by (auto simp: holder_inv_def key_at_def split: if_splits) (meson less_SucI)+
  ultimately show ?thesis unfolding holder_inv_def by blast
qed

lemma holder_inv_delete:
  assumes "holder_inv g" and "\<And>b. map_of (g_records g) k = Some b \<Longrightarrow> \<not> in_flight (rec_at g b)"
  shows "holder_inv (g\<lparr>g_records := AList.delete k (g_records g)\<rparr>)"
  using assms unfolding holder_inv_def key_at_def by (auto simp: delete_conv')

lemma holder_inv_release:
  "holder_inv g \<Longrightarrow> \<not> in_flight (rec_at g a) \<Longrightarrow> holder_inv (release_holder a g)"
  unfolding release_holder_def Let_def by (auto intro!: holder_inv_delete)

subsection \<open>Requests\<close>

lemma core_event [simp]: "core (record_event g k f n) = core g"
  by (simp add: core_def record_event_def Let_def)

lemma core_sel: "core g' = core g \<Longrightarrow> g_heap g' = g_heap g \<and> g_records g' = g_records g \<and> g_scopes g' = g_scopes g"
  unfolding core_def by (metis gate.ext_inject gate.surjective gate.update_convs(3))

lemma core_rec_at: "core g' = core g \<Longrightarrow> rec_at g' = rec_at g"
  unfolding rec_at_def by (drule core_sel) simp

lemma core_gate_inv:
  assumes "core g' = core g"
  shows "gate_inv g' = gate_inv g"
  unfolding gate_inv_def holder_inv_def entries_inv_def key_at_def
  by (simp only: conjunct1 [OF core_sel [OF assms]] conjunct1 [OF conjunct2 [OF core_sel [OF assms]]]
      core_rec_at [OF assms])

lemma refused_not_admitted [simp]: "gd_admission (refused_for r) = Refused" "gd_admission (joined_to t) = Joined"
  by (simp_all add: refused_for_def joined_to_def)

lemma admit_decision [simp]:
  "gd_admission (snd (admit g s ident tier c w n)) = Admitted"
  "gd_token (snd (admit g s ident tier c w n)) = Some (RecordToken (length (g_heap g)))"
  by (simp_all add: admit_def Let_def)

lemma refuse_opposing_result:
  "core (fst (refuse_opposing g h ident tier c now)) = core g"
  "snd (refuse_opposing g h ident tier c now) = Some d \<Longrightarrow> gd_admission d = Refused"
  "snd (refuse_opposing g h ident tier c now) = None \<Longrightarrow> fst (refuse_opposing g h ident tier c now) = g"
  by (auto simp: refuse_opposing_def Let_def split: list.splits if_splits)

lemma join_completed_result:
  "snd (join_completed g scope ident tier c now) = Some d
     \<Longrightarrow> request_result g scope ident (fst (join_completed g scope ident tier c now)) d"
  "snd (join_completed g scope ident tier c now) = None \<Longrightarrow> fst (join_completed g scope ident tier c now) = g"
  by (auto simp: join_completed_def Let_def split: option.splits intro: request_result.intros)

lemma core_invalidate: "core (invalidate_event g a k c now) = core (set_rec a (\<lambda>r. r\<lparr>gr_invalidated := True\<rparr>) g)"
  by (simp add: invalidate_event_def)

lemma invalidate_heap [simp]: "length (g_heap (invalidate_event g a k c now)) = length (g_heap g)"
  by (simp add: invalidate_event_def)

lemma same_outcome_result:
  assumes "map_of (g_records g) (resource_key ident) = Some a"
    and "resource_key (gr_identity (rec_at g a)) = resource_key ident"
  shows "request_result g scope ident (fst (same_outcome g a scope tier c w now))
    (snd (same_outcome g a scope tier c w now))"
proof (cases "gr_state (rec_at g a) = Proposal \<and> tier_rank tier \<ge> tier_rank ''D''")
  case True
  let ?g0 = "invalidate_event g a (resource_key (gr_identity (rec_at g a))) c now"
  from True have eq: "same_outcome g a scope tier c w now =
      (fst (admit ?g0 scope (gr_identity (rec_at g a)) tier c w now),
       (snd (admit ?g0 scope (gr_identity (rec_at g a)) tier c w now))\<lparr>gd_displaced := Some a\<rparr>)"
    by (simp add: same_outcome_def Let_def case_prod_unfold)
  show ?thesis
    unfolding eq fst_conv snd_conv
    by (rule request_result.admitted [where ?g0.0 = ?g0 and a = a, OF _ refl assms(2)])
       (use True assms in \<open>simp_all add: core_invalidate\<close>)
next
  case False
  then show ?thesis
    by (auto simp: same_outcome_def Let_def intro: request_result.joined_holder)
qed

lemma opposing_result:
  assumes "map_of (g_records g) (resource_key ident) = Some a" and "gr_state (rec_at g a) \<notin> {Uncertain, Retired}"
  shows "request_result g scope ident (fst (opposing g a scope ident tier c w now))
    (snd (opposing g a scope ident tier c w now))"
proof -
  let ?s = "gr_state (rec_at g a)"
  consider "?s = Running \<or> tier_rank tier < tier_rank (gr_tier (rec_at g a))
      \<or> ?s = Proposal \<and> tier_rank tier \<le> tier_rank (gr_tier (rec_at g a))"
    | "?s = Proposal" "tier_rank tier > tier_rank (gr_tier (rec_at g a))"
    | "?s = Reserved" "tier_rank tier > tier_rank (gr_tier (rec_at g a))"
    | "?s = Reserved" "tier_rank tier = tier_rank (gr_tier (rec_at g a))"
    using assms(2) linorder_less_linear [of "tier_rank tier" "tier_rank (gr_tier (rec_at g a))"]
    by (cases ?s) auto
  then show ?thesis
  proof cases
    case 1
    then show ?thesis by (auto simp: opposing_def Let_def intro!: request_result.quiet)
  next
    case 2
    let ?g0 = "invalidate_event g a (resource_key ident) c now"
    from 2 have eq: "opposing g a scope ident tier c w now =
        (fst (admit ?g0 scope ident tier c w now),
         (snd (admit ?g0 scope ident tier c w now))\<lparr>gd_displaced := Some a\<rparr>)"
      by (simp add: opposing_def Let_def case_prod_unfold)
    show ?thesis
      unfolding eq fst_conv snd_conv
      by (rule request_result.admitted [where ?g0.0 = ?g0 and a = a, OF _ refl refl])
         (use 2 assms in \<open>simp_all add: core_invalidate\<close>)
  next
    case 3
    let ?g0 = "record_event (set_rec a retire_record g) ''preempted''
      [(''resource'', FKey (resource_key ident)), (''holder'', FText (desired_outcome (gr_identity (rec_at g a)))),
       (''by'', FText (ct_trigger_name c))] now"
    from 3 have eq: "opposing g a scope ident tier c w now =
        (fst (admit ?g0 scope ident tier c w now),
         (snd (admit ?g0 scope ident tier c w now))\<lparr>gd_admission := PreemptedHolder, gd_displaced := Some a\<rparr>)"
      by (simp add: opposing_def Let_def case_prod_unfold)
    show ?thesis
      unfolding eq fst_conv snd_conv
      by (rule request_result.admitted [where ?g0.0 = ?g0 and a = a, OF _ refl refl])
         (use 3 assms in simp_all)
  next
    case 4
    then show ?thesis
      using assms(1) by (auto simp: opposing_def Let_def intro!: request_result.stood_down)
  qed
qed

lemma request_is_result: "request_result g scope ident (fst (request g scope ident tier c w now))
    (snd (request g scope ident tier c w now))"
proof -
  let ?h = "current_holder g ident"
  let ?r = "refuse_opposing g ?h ident tier c now"
  show ?thesis
  proof (cases "snd ?r")
    case (Some d)
    then have "request g scope ident tier c w now = (fst ?r, d)"
      by (cases ?r) (simp add: request_def)
    with Some refuse_opposing_result show ?thesis by (auto intro!: request_result.quiet)
  next
    case None
    then have r: "?r = (g, None)" using refuse_opposing_result(3) by (metis prod.collapse)
    show ?thesis
    proof (cases ?h)
      case None
      let ?j = "join_completed g scope ident tier c now"
      show ?thesis
      proof (cases "snd ?j")
        case (Some d)
        with None r have "request g scope ident tier c w now = (fst ?j, d)"
          by (cases ?j) (simp add: request_def)
        with join_completed_result(1) [OF Some] show ?thesis by simp
      next
        case jn: None
        then have "request g scope ident tier c w now = admit g scope ident tier c w now"
          using None r join_completed_result(2) [OF jn] by (cases ?j) (simp add: request_def)
        moreover have "map_of (g_records g) (resource_key ident) = None
            \<or> (\<exists>a. map_of (g_records g) (resource_key ident) = Some a \<and> gr_state (rec_at g a) = Retired)"
          using None by (auto simp: current_holder_def split: option.splits if_splits)
        ultimately show ?thesis
          by (auto intro!: request_result.admitted [where ?g0.0 = g])
      qed
    next
      case (Some a)
      then have a: "map_of (g_records g) (resource_key ident) = Some a" "gr_state (rec_at g a) \<noteq> Retired"
        by (auto simp: current_holder_def split: option.splits if_splits)
      let ?id = "gr_identity (rec_at g a)"
      consider "join_key ?id = join_key ident" | "join_key ?id \<noteq> join_key ident" "opposes ?id ident"
        | "join_key ?id \<noteq> join_key ident" "\<not> opposes ?id ident" by blast
      then show ?thesis
      proof cases
        case 1
        then have "request g scope ident tier c w now = same_outcome g a scope tier c w now"
          using Some r by (simp add: request_def)
        moreover have "resource_key ?id = resource_key ident" using 1 by (simp add: join_key_def)
        ultimately show ?thesis using same_outcome_result [OF a(1)] by simp
      next
        case 2
        then have "request g scope ident tier c w now = opposing g a scope ident tier c w now"
          using Some r by (simp add: request_def)
        moreover have "gr_state (rec_at g a) \<noteq> Uncertain"
          using r Some 2 by (auto simp: refuse_opposing_def Let_def split: if_splits)
        ultimately show ?thesis using opposing_result [OF a(1)] a(2) by simp
      next
        case 3
        then show ?thesis using Some r by (auto simp: request_def intro!: request_result.quiet)
      qed
    qed
  qed
qed

text \<open>Standing a holder down, invalidating it, or adding a contributor keeps the invariant.\<close>

lemma gate_inv_set_rec:
  assumes "gate_inv g" and "evolves (rec_at g a) (f (rec_at g a))"
    and "in_flight (f (rec_at g a)) \<Longrightarrow> a < length (g_heap g)
      \<Longrightarrow> map_of (g_records g) (key_at g a) = Some a \<and> gr_entered (f (rec_at g a))"
  shows "gate_inv (set_rec a f g)"
  using assms holder_inv_set_rec [of g f a] entries_inv_set_rec [of g a f]
  by (simp add: gate_inv_def evolves_def)

lemma gate_inv_admit:
  assumes "gate_inv g"
    and "\<And>b. map_of (g_records g) (resource_key ident) = Some b \<Longrightarrow> \<not> in_flight (rec_at g b)"
  shows "gate_inv (fst (admit g s ident tier c w n))"
  using assms by (simp add: gate_inv_def holder_inv_admit entries_inv_admit)

lemma request_inv:
  assumes inv: "gate_inv g" and res: "request_result g scope ident g' d"
  shows "gate_inv g'"
  using res
proof (cases rule: request_result.cases)
  case quiet
  then show ?thesis using inv core_gate_inv by blast
next
  case (joined_entry es e)
  have "gate_inv (g\<lparr>g_scopes := x\<rparr>) = gate_inv g" for x by (simp add: gate_inv_def)
  with joined_entry inv core_gate_inv show ?thesis by blast
next
  case (joined_holder a c)
  have "gate_inv (set_rec a (\<lambda>r. r\<lparr>gr_contributors := gr_contributors r @ [c]\<rparr>) g)"
    by (rule gate_inv_set_rec [OF inv])
       (use inv in \<open>auto simp: evolves_def gate_inv_def holder_inv_def in_flight_def\<close>)
  with joined_holder core_gate_inv show ?thesis by blast
next
  case (stood_down a)
  let ?g = "set_rec a retire_record g"
  have "gate_inv ?g"
    by (rule gate_inv_set_rec [OF inv]) (simp_all add: evolves_def retire_record_def in_flight_def)
  moreover have "a < length (g_heap g)" using inv stood_down(1) by (auto simp: gate_inv_def holder_inv_def)
  moreover have "\<not> in_flight (rec_at ?g b)" if "map_of (g_records ?g) (resource_key ident) = Some b" for b
    using that stood_down(1) calculation(2) by (simp add: in_flight_def retire_record_def)
  ultimately have "gate_inv (?g\<lparr>g_records := AList.delete (resource_key ident) (g_records ?g)\<rparr>)"
    unfolding gate_inv_def by (simp add: holder_inv_delete del: set_rec_sel)
  with core_gate_inv [OF stood_down(3)] show ?thesis by (simp only: set_rec_sel)
next
  case (admitted g0 a ident' tier c w n)
  have "gate_inv g0 \<and> (\<forall>b. map_of (g_records g0) (resource_key ident) = Some b \<longrightarrow> \<not> in_flight (rec_at g0 b))"
  proof -
    have upd: "gate_inv (set_rec a (\<lambda>r. r\<lparr>gr_invalidated := True\<rparr>) g)"
      if "gr_state (rec_at g a) = Proposal"
      by (rule gate_inv_set_rec [OF inv]) (use that in \<open>simp_all add: evolves_def in_flight_def\<close>)
    have ret: "gate_inv (set_rec a retire_record g)"
      by (rule gate_inv_set_rec [OF inv]) (simp_all add: evolves_def retire_record_def in_flight_def)
    from admitted(1) show ?thesis
    proof (elim disjE conjE, goal_cases)
      case 1
      then show ?thesis using inv core_gate_inv [OF 1(1)] core_sel [OF 1(1)] by simp
    next
      case 2
      then show ?thesis using inv core_gate_inv [OF 2(1)] core_sel [OF 2(1)] core_rec_at [OF 2(1)]
        by (simp add: in_flight_def)
    next
      case 3
      then show ?thesis
        using upd core_gate_inv [OF 3(1)] core_sel [OF 3(1)] core_rec_at [OF 3(1)] by (simp add: in_flight_def)
    next
      case 4
      then show ?thesis
        using ret core_gate_inv [OF 4(1)] core_sel [OF 4(1)] core_rec_at [OF 4(1)]
        by (simp add: in_flight_def retire_record_def)
    qed
  qed
  then have "gate_inv (fst (admit g0 scope ident' tier c w n))"
    using admitted(3) by (intro gate_inv_admit) auto
  with admitted(2) core_gate_inv show ?thesis by blast
qed

text \<open>Where the new record of an admission stands.\<close>

lemma request_admits:
  assumes "request_result g scope ident g' d" and "may_execute d"
  shows "gd_token d = Some (RecordToken (length (g_heap g)))" and "length (g_heap g') = Suc (length (g_heap g))"
    and "key_at g' (length (g_heap g)) = resource_key ident"
    and "map_of (g_records g') (resource_key ident) = Some (length (g_heap g))"
    and "\<not> in_flight (rec_at g' (length (g_heap g)))"
proof -
  have "\<exists>g0 ident' tier c w n. length (g_heap g0) = length (g_heap g)
      \<and> core g' = core (fst (admit g0 scope ident' tier c w n)) \<and> resource_key ident' = resource_key ident
      \<and> gd_token d = Some (RecordToken (length (g_heap g)))"
    using assms(1)
  proof (cases rule: request_result.cases)
    case (admitted g0 a ident' tier c w n)
    then show ?thesis by blast
  qed (use assms(2) in \<open>auto simp: may_execute_def\<close>)
  then obtain g0 ident' tier c w n where heap: "length (g_heap g0) = length (g_heap g)"
    and g': "core g' = core (fst (admit g0 scope ident' tier c w n))"
    and key: "resource_key ident' = resource_key ident"
    and tok: "gd_token d = Some (RecordToken (length (g_heap g)))"
    by blast
  note sel = core_sel [OF g'] core_rec_at [OF g']
  show "gd_token d = Some (RecordToken (length (g_heap g)))" by (rule tok)
  show "length (g_heap g') = Suc (length (g_heap g))" using sel heap by simp
  show "map_of (g_records g') (resource_key ident) = Some (length (g_heap g))" using sel heap key by simp
  show "key_at g' (length (g_heap g)) = resource_key ident" "\<not> in_flight (rec_at g' (length (g_heap g)))"
    using sel rec_at_admit(2) [of g0] heap key by (simp_all add: key_at_def in_flight_def)
qed

text \<open>No request touches an act in flight, or shortens the history of an event.\<close>

lemma request_keeps:
  assumes inv: "gate_inv g" and res: "request_result g scope ident g' d" and b: "b < length (g_heap g)"
    and fl: "in_flight (rec_at g b)"
  shows "b < length (g_heap g')" and "gr_state (rec_at g' b) = gr_state (rec_at g b)"
    and "gr_identity (rec_at g' b) = gr_identity (rec_at g b)"
proof -
  have upd: "gr_state (rec_at (set_rec a f g) b) = gr_state (rec_at g b)
      \<and> gr_identity (rec_at (set_rec a f g) b) = gr_identity (rec_at g b)"
    if "gr_state (rec_at g a) \<in> {Reserved, Proposal}" for a f
    using that fl by (auto simp: in_flight_def)
  have "b < length (g_heap g') \<and> gr_state (rec_at g' b) = gr_state (rec_at g b)
      \<and> gr_identity (rec_at g' b) = gr_identity (rec_at g b)"
    using res
  proof (cases rule: request_result.cases)
    case quiet
    then show ?thesis using b core_sel core_rec_at by metis
  next
    case (joined_entry es e)
    from core_sel [OF joined_entry(2)] core_rec_at [OF joined_entry(2)] b show ?thesis by simp
  next
    case (joined_holder a c)
    from core_sel [OF joined_holder(1)] core_rec_at [OF joined_holder(1)] b show ?thesis by auto
  next
    case (stood_down a)
    from core_sel [OF stood_down(3)] core_rec_at [OF stood_down(3)] b stood_down(2) upd [of a retire_record]
    show ?thesis by simp
  next
    case (admitted g0 a ident' tier c w n)
    have "length (g_heap g0) = length (g_heap g) \<and> gr_state (rec_at g0 b) = gr_state (rec_at g b)
        \<and> gr_identity (rec_at g0 b) = gr_identity (rec_at g b)"
      using admitted(1)
    proof (elim disjE conjE, goal_cases)
      case 3
      then show ?thesis using core_sel [OF 3(1)] core_rec_at [OF 3(1)] upd [of a] by simp
    next
      case 4
      then show ?thesis using core_sel [OF 4(1)] core_rec_at [OF 4(1)] upd [of a] by simp
    qed (use core_sel core_rec_at in metis)+
    with core_sel [OF admitted(2)] core_rec_at [OF admitted(2)] b show ?thesis by simp
  qed
  then show "b < length (g_heap g')" "gr_state (rec_at g' b) = gr_state (rec_at g b)"
    "gr_identity (rec_at g' b) = gr_identity (rec_at g b)" by simp_all
qed

subsection \<open>Every call keeps the invariant\<close>

lemma gate_inv_frames [simp]:
  "gate_inv (record_event g k f n) = gate_inv g"
  "gate_inv (g\<lparr>g_scopes := x\<rparr>) = gate_inv g"
  "gate_inv g \<Longrightarrow> gate_inv (record_entries g a b)"
  by (simp_all add: gate_inv_def entries_inv_record_entries)

lemma gate_inv_release: "gate_inv g \<Longrightarrow> \<not> in_flight (rec_at g a) \<Longrightarrow> gate_inv (release_holder a g)"
  by (simp add: gate_inv_def holder_inv_release) (simp add: release_holder_def Let_def)

lemma gate_dispatch_eq:
  "gate_dispatch g scope ident tier c ra now =
     (let w = awaits_operator tier ra;
          r = request g scope ident tier (c\<lparr>ct_dispatch_tier := tier, ct_tier_d_granted := (tier = ''D'')\<rparr>) w now
      in (if may_execute (snd r) \<and> \<not> w then mark_running (fst r) (length (g_heap g)) else fst r, snd r))"
proof -
  let ?w = "awaits_operator tier ra"
  let ?r = "request g scope ident tier (c\<lparr>ct_dispatch_tier := tier, ct_tier_d_granted := (tier = ''D'')\<rparr>) ?w now"
  have "may_execute (snd ?r) \<Longrightarrow> gd_token (snd ?r) = Some (RecordToken (length (g_heap g)))"
    by (rule request_admits(1) [OF request_is_result])
  then show ?thesis
    by (auto simp: gate_dispatch_def Let_def case_prod_unfold split: option.split gate_token.split)
qed

lemma dispatch_inv: "gate_inv g \<Longrightarrow> gate_inv (fst (gate_dispatch g scope ident tier c ra now))"
  unfolding gate_dispatch_eq Let_def
  using request_inv [OF _ request_is_result] request_admits [OF request_is_result]
  by (auto simp: mark_running_def enter_executor_def evolves_def intro!: gate_inv_set_rec)

lemma retire_inv:
  assumes "gate_inv g" and "a < length (g_heap g)"
  shows "gate_inv (retire g a res)"
proof (cases "gr_state (rec_at g a) = Uncertain")
  case False
  let ?g1 = "set_rec a (\<lambda>r. r\<lparr>gr_result := res, gr_done := True\<rparr>) g"
  let ?g2 = "record_entries ?g1 a (res = Some True)"
  let ?g3 = "set_rec a (\<lambda>r. r\<lparr>gr_state := Retired\<rparr>) ?g2"
  have "gate_inv ?g1"
    by (rule gate_inv_set_rec [OF assms(1)])
       (use assms in \<open>auto simp: evolves_def gate_inv_def holder_inv_def in_flight_def\<close>)
  then have "gate_inv ?g3"
    by (intro gate_inv_set_rec) (simp_all add: evolves_def in_flight_def)
  then show ?thesis
    using False assms(2) by (simp add: retire_def Let_def gate_inv_release in_flight_def)
qed (use assms in \<open>simp add: retire_def\<close>)

lemma resolve_inv:
  assumes "gate_inv g" and "a < length (g_heap g)"
  shows "gate_inv (resolve_uncertain g a acc now)"
proof (cases "gr_state (rec_at g a) = Uncertain")
  case True
  let ?g1 = "set_rec a (\<lambda>r. r\<lparr>gr_state := Retired, gr_result := Some acc, gr_done := True\<rparr>) g"
  have "gate_inv ?g1"
    by (rule gate_inv_set_rec [OF assms(1)]) (simp_all add: evolves_def in_flight_def)
  then have "gate_inv (release_holder a (record_entries ?g1 a acc))"
    using assms(2) by (intro gate_inv_release) (simp_all add: in_flight_def)
  then show ?thesis by (simp add: resolve_uncertain_def True Let_def)
qed (use assms in \<open>simp add: resolve_uncertain_def\<close>)

lemma apply_inv:
  assumes inv: "gate_inv g" and ok: "gate_allowed g x"
  shows "gate_inv (fst (gate_apply g x))"
proof (cases x)
  case (Dispatch s ident tier c ra now)
  then show ?thesis using dispatch_inv [OF inv] by simp
next
  case (Reply a now)
  have "gate_inv (set_rec a enter_executor g)"
    if "map_of (g_records g) (resource_key (gr_identity (rec_at g a))) = Some a"
    by (rule gate_inv_set_rec [OF inv]) (use that in \<open>auto simp: key_at_def enter_executor_def evolves_def\<close>)
  then show ?thesis using Reply inv by (simp add: reply_admitted_def Let_def)
next
  case (MarkProposal a pid)
  then show ?thesis
    using inv ok unfolding MarkProposal mark_proposal_def gate_apply.simps fst_conv
    by (intro gate_inv_set_rec)
       (auto simp: evolves_def gate_inv_def holder_inv_def in_flight_def split: if_splits)
next
  case (MarkUncertain a now)
  have "gate_inv (set_rec a (\<lambda>r. r\<lparr>gr_state := Uncertain, gr_entered := True\<rparr>) g)"
    by (rule gate_inv_set_rec [OF inv])
       (use MarkUncertain ok inv in \<open>auto simp: evolves_def gate_inv_def holder_inv_def in_flight_def\<close>)
  then show ?thesis by (simp add: MarkUncertain mark_uncertain_def Let_def)
qed (use inv ok in \<open>auto simp: open_scope_def close_scope_def retire_inv resolve_inv\<close>)

interpretation gate: invariant_object gate_call gate_inv gate_allowed
  by unfold_locales (auto simp: gate_call_def dest: apply_inv)

lemma gate_inv_new: "gate_inv new_gate"
  by (simp add: new_gate_def gate_inv_def holder_inv_def entries_inv_def)

subsection \<open>Acts in flight\<close>

lemma in_flight_holder:
  "gate_inv g \<Longrightarrow> a < length (g_heap g) \<Longrightarrow> in_flight (rec_at g a) \<Longrightarrow> map_of (g_records g) (key_at g a) = Some a"
  by (simp add: gate_inv_def holder_inv_def)

lemma dispatch_keeps:
  assumes "gate_inv g" and "b < length (g_heap g)" and "in_flight (rec_at g b)"
  shows "b < length (g_heap (fst (gate_dispatch g scope ident tier c ra now)))"
    and "gr_state (rec_at (fst (gate_dispatch g scope ident tier c ra now)) b) = gr_state (rec_at g b)"
    and "gr_identity (rec_at (fst (gate_dispatch g scope ident tier c ra now)) b) = gr_identity (rec_at g b)"
  using request_keeps [OF assms(1) request_is_result assms(2,3)] assms(2)
  unfolding gate_dispatch_eq Let_def by (auto simp: mark_running_def)

text \<open>A request against an act in flight is refused, and by the act that is in the way.\<close>

lemma opposed_request_refused:
  assumes inv: "gate_inv g" and a: "a < length (g_heap g)" and fl: "in_flight (rec_at g a)"
    and opp: "opposes (gr_identity (rec_at g a)) ident"
  shows "gd_admission (snd (request g scope ident tier c w now)) = Refused"
    and "core (fst (request g scope ident tier c w now)) = core g"
proof -
  have key: "resource_key ident = key_at g a"
    using opp by (auto simp: opposes_def key_at_def split: if_splits)
  have "map_of (g_records g) (key_at g a) = Some a" using inv a fl by (simp add: gate_inv_def holder_inv_def)
  then have h: "current_holder g ident = Some a"
    using fl by (auto simp: current_holder_def key in_flight_def)
  have jk: "join_key (gr_identity (rec_at g a)) \<noteq> join_key ident"
    using opp by (auto simp: opposes_def join_key_def split: if_splits)
  let ?r = "refuse_opposing g (Some a) ident tier c now"
  have "gd_admission (snd (request g scope ident tier c w now)) = Refused
      \<and> core (fst (request g scope ident tier c w now)) = core g"
  proof (cases "snd ?r")
    case (Some d)
    then have "request g scope ident tier c w now = (fst ?r, d)"
      by (cases ?r) (simp add: request_def h)
    with Some refuse_opposing_result show ?thesis by simp
  next
    case None
    then have r: "?r = (g, None)" using refuse_opposing_result(3) by (metis prod.collapse)
    then have "gr_state (rec_at g a) = Running"
      using fl opp by (auto simp: refuse_opposing_def Let_def in_flight_def split: if_splits)
    then show ?thesis by (simp add: request_def h r jk opp opposing_def Let_def)
  qed
  then show "gd_admission (snd (request g scope ident tier c w now)) = Refused"
    "core (fst (request g scope ident tier c w now)) = core g" by simp_all
qed

lemma opposed_dispatch_refused:
  assumes "gate_inv g" and "a < length (g_heap g)" and "in_flight (rec_at g a)"
    and "opposes (gr_identity (rec_at g a)) ident"
  shows "gd_admission (snd (gate_dispatch g scope ident tier c ra now)) = Refused"
    and "core (fst (gate_dispatch g scope ident tier c ra now)) = core g"
  using opposed_request_refused [OF assms]
  unfolding gate_dispatch_eq Let_def by (simp_all add: may_execute_def)

lemma release_holder_sel [simp]:
  "g_heap (release_holder a g) = g_heap g" "g_scopes (release_holder a g) = g_scopes g"
  "rec_at (release_holder a g) i = rec_at g i"
  by (simp_all add: release_holder_def Let_def rec_at_def)

lemma uncertain_apply:
  assumes inv: "gate_inv g" and u: "uncertain_at a ident g" and ok: "gate_allowed g x" and r: "\<not> reports_on a x"
  shows "uncertain_at a ident (fst (gate_apply g x))"
proof (cases x)
  case (Dispatch s i tier c ra now)
  with dispatch_keeps [OF inv, of a] u show ?thesis by (simp add: uncertain_at_def in_flight_def)
next
  case (OpenScope s)
  with u show ?thesis by (simp add: uncertain_at_def open_scope_def)
next
  case (CloseScope s)
  with u show ?thesis by (simp add: uncertain_at_def close_scope_def)
next
  case (Reply b now)
  with u ok show ?thesis by (auto simp: uncertain_at_def reply_admitted_def Let_def)
next
  case (MarkProposal b pid)
  with u show ?thesis by (auto simp: uncertain_at_def mark_proposal_def)
next
  case (MarkUncertain b now)
  with u ok show ?thesis by (auto simp: uncertain_at_def mark_uncertain_def Let_def)
next
  case (Retire b res)
  with u show ?thesis by (auto simp: uncertain_at_def retire_def Let_def)
next
  case (ResolveUncertain b acc now)
  with u r show ?thesis by (auto simp: uncertain_at_def resolve_uncertain_def Let_def)
qed

interpretation uncertain: latching_object gate_call gate_inv gate_allowed "uncertain_at a ident" "reports_on a"
  for a ident
  by unfold_locales (auto simp: gate_call_def dest: uncertain_apply)

subsection \<open>Foreclosure\<close>

lemma foreclosed_cong: "g_scopes g' = g_scopes g \<Longrightarrow> foreclosed s ident tier g' = foreclosed s ident tier g"
  by (simp add: foreclosed_def)

lemma foreclosed_refuses:
  assumes "foreclosed s ident tier g"
  shows "gd_admission (snd (gate_dispatch g scope ident tier c ra now)) = Refused"
proof -
  from assms obtain es e where "map_of (g_scopes g) s = Some es" and e: "e \<in> set es" "forecloses e"
    "opposes (ge_identity e) ident" "tier_rank tier \<le> tier_rank (ge_tier e)"
    by (auto simp: foreclosed_def list_ex_iff split: option.splits)
  then have "e \<in> set (all_entries g)" by (force simp: all_entries_def dest: map_of_SomeD)
  moreover have "resource_key (ge_identity e) = resource_key ident"
    using e(3) by (auto simp: opposes_def split: if_splits)
  ultimately have "filter (\<lambda>e. tier_rank tier \<le> tier_rank (ge_tier e)) (filter (\<lambda>e. forecloses e
      \<and> resource_key (ge_identity e) = resource_key ident \<and> opposes (ge_identity e) ident) (all_entries g)) \<noteq> []"
    using e by (auto simp: filter_empty_conv)
  then obtain e0 rest where fc: "filter (\<lambda>e. tier_rank tier \<le> tier_rank (ge_tier e)) (filter (\<lambda>e. forecloses e
      \<and> resource_key (ge_identity e) = resource_key ident \<and> opposes (ge_identity e) ident) (all_entries g))
      = e0 # rest" by (auto simp: neq_Nil_conv)
  have some: "\<exists>d. snd (refuse_opposing g h ident tier c' now) = Some d" for h c'
    unfolding refuse_opposing_def Let_def fc by simp
  have "gd_admission (snd (request g scope ident tier c' w now)) = Refused" for c' w
  proof -
    let ?r = "refuse_opposing g (current_holder g ident) ident tier c' now"
    obtain d where d: "snd ?r = Some d" using some by blast
    then have "request g scope ident tier c' w now = (fst ?r, d)" by (cases ?r) (simp add: request_def)
    with refuse_opposing_result(2) [OF d] show ?thesis by simp
  qed
  then show ?thesis unfolding gate_dispatch_eq Let_def by simp
qed

lemma replace_first_member: "e \<in> set es \<Longrightarrow> e \<noteq> old \<Longrightarrow> e \<in> set (replace_first old new es)"
  by (induction es) auto

lemma replace_first_new: "old \<in> set es \<Longrightarrow> new \<in> set (replace_first old new es)"
  by (induction es) auto

lemma foreclosed_record_entry:
  assumes inv: "entries_inv g" and a: "a < length (g_heap g)" and f: "foreclosed s ident tier g"
  shows "foreclosed s ident tier (record_entry a b t g)"
proof (cases "map_of (g_scopes g) t")
  case None
  then show ?thesis using f by (simp add: record_entry_def)
next
  case (Some es)
  let ?r = "rec_at g a" and ?new = "entry_for (rec_at g a) t b"
  let ?ok = "\<lambda>e. forecloses e \<and> opposes (ge_identity e) ident \<and> tier_rank tier \<le> tier_rank (ge_tier e)"
  define es' where "es' = (case map_of (gr_entries ?r) t of
      Some old \<Rightarrow> if old \<in> set es then replace_first old ?new es else es @ [?new] | None \<Rightarrow> es @ [?new])"
  have scopes: "map_of (g_scopes (record_entry a b t g)) = (map_of (g_scopes g))(t \<mapsto> es')"
    using Some by (simp add: record_entry_def Let_def es'_def update_conv')
  have "list_ex ?ok es'" if "list_ex ?ok es"
  proof -
    from that obtain e where e: "e \<in> set es" "?ok e" by (auto simp: list_ex_iff)
    have "?ok ?new" if "map_of (gr_entries ?r) t = Some e"
    proof -
      have "entry_ok ?r t e" using inv a that by (simp add: entries_inv_def)
      with e(2) show ?thesis by (auto simp: entry_ok_def entry_for_def forecloses_def)
    qed
    with e show ?thesis
      unfolding es'_def list_ex_iff
      by (cases "map_of (gr_entries ?r) t") (auto intro: replace_first_new replace_first_member bexI [of _ e])
  qed
  with f Some show ?thesis by (auto simp: foreclosed_def scopes)
qed

lemma fold_record_entry_foreclosed:
  assumes "entries_inv g" and "a < length (g_heap g)" and "foreclosed s ident tier g"
  shows "foreclosed s ident tier (fold (record_entry a b) ss g)"
  using assms by (induction ss arbitrary: g) (simp_all add: foreclosed_record_entry entries_inv_record_entry)

lemma record_entries_foreclosed:
  "entries_inv g \<Longrightarrow> a < length (g_heap g) \<Longrightarrow> foreclosed s ident tier g
     \<Longrightarrow> foreclosed s ident tier (record_entries g a b)"
  unfolding record_entries_def by (rule fold_record_entry_foreclosed)

text \<open>Recording an entered attempt under one of its open events forecloses there.\<close>

lemma record_entry_forecloses:
  assumes "map_of (g_scopes g) s \<noteq> None" and "gr_entered (rec_at g a)"
    and "opposes (gr_identity (rec_at g a)) ident"
    and "tier_rank tier \<le> tier_rank (max_tier (claim_tiers (rec_at g a) s))"
  shows "foreclosed s ident tier (record_entry a b s g)"
proof -
  obtain es where es: "map_of (g_scopes g) s = Some es" using assms(1) by blast
  let ?new = "entry_for (rec_at g a) s b"
  have ok: "forecloses ?new \<and> opposes (ge_identity ?new) ident \<and> tier_rank tier \<le> tier_rank (ge_tier ?new)"
    using assms by (simp add: entry_for_def forecloses_def)
  have "\<exists>es'. map_of (g_scopes (record_entry a b s g)) s = Some es' \<and> ?new \<in> set es'"
    using es by (auto simp: record_entry_def Let_def update_conv' replace_first_new split: option.split)
  with ok show ?thesis by (auto simp: foreclosed_def list_ex_iff)
qed

lemma record_entries_forecloses:
  assumes "entries_inv g" and "a < length (g_heap g)" and "gr_entered (rec_at g a)"
    and "map_of (g_scopes g) s \<noteq> None" and "s \<in> set (claiming_scopes (rec_at g a))"
    and "opposes (gr_identity (rec_at g a)) ident"
    and "tier_rank tier \<le> tier_rank (max_tier (claim_tiers (rec_at g a) s))"
  shows "foreclosed s ident tier (record_entries g a b)"
proof -
  have "foreclosed s ident tier (fold (record_entry a b) ss g)" if "s \<in> set ss" for ss
    using that assms(1-4,6,7)
  proof (induction ss arbitrary: g)
    case (Cons t ss)
    let ?g = "record_entry a b t g"
    have claims: "claim_tiers (rec_at ?g a) s = claim_tiers (rec_at g a) s" by (simp add: claim_tiers_def)
    have opened: "map_of (g_scopes ?g) s \<noteq> None"
      using Cons.prems(5) by (auto simp: record_entry_def Let_def update_conv' split: option.split)
    show ?case
    proof (cases "t = s")
      case True
      then have "foreclosed s ident tier ?g" using record_entry_forecloses Cons.prems by blast
      then show ?thesis
        using Cons.prems fold_record_entry_foreclosed [of ?g a] entries_inv_record_entry by simp
    next
      case False
      then show ?thesis
        using Cons.IH [of ?g] Cons.prems entries_inv_record_entry claims opened by simp
    qed
  qed simp
  with assms(5) show ?thesis by (simp add: record_entries_def)
qed

lemma request_foreclosed:
  assumes "request_result g scope ident' g' d" and "foreclosed s ident tier g"
  shows "foreclosed s ident tier g'"
  using assms(1)
proof (cases rule: request_result.cases)
  case quiet
  then show ?thesis using assms(2) core_sel foreclosed_cong by blast
next
  case (joined_entry es e)
  have "g_scopes g' = AList.update scope (es @ [e]) (g_scopes g)" using core_sel [OF joined_entry(2)] by simp
  then show ?thesis
    using assms(2) joined_entry(1) by (auto simp: foreclosed_def update_conv')
next
  case (joined_holder a c)
  then show ?thesis using assms(2) core_sel [OF joined_holder(1)] foreclosed_cong [of g' g] by simp
next
  case (stood_down a)
  then show ?thesis using assms(2) core_sel [OF stood_down(3)] foreclosed_cong [of g' g] by simp
next
  case (admitted g0 a ident'' tier' c w n)
  have "g_scopes g0 = g_scopes g"
    using admitted(1) by (elim disjE conjE) (drule core_sel, simp)+
  then show ?thesis using assms(2) core_sel [OF admitted(2)] foreclosed_cong [of g' g] by simp
qed

lemma foreclosed_apply:
  assumes inv: "gate_inv g" and f: "foreclosed s ident tier g" and ok: "gate_allowed g x" and "\<not> closes s x"
  shows "foreclosed s ident tier (fst (gate_apply g x))"
proof -
  have ent: "entries_inv (set_rec a u g)" if "evolves (rec_at g a) (u (rec_at g a))" for a u
    using inv that by (simp add: gate_inv_def entries_inv_set_rec)
  have upd: "foreclosed s ident tier (set_rec a u g)" for a u using f by (simp add: foreclosed_def)
  have rec: "foreclosed s ident tier (record_entries (set_rec a u g) a b)"
    if "a < length (g_heap g)" "evolves (rec_at g a) (u (rec_at g a))" for a u b
    using that by (intro record_entries_foreclosed ent upd) simp_all
  show ?thesis
  proof (cases x)
    case (Dispatch t i ti c ra now)
    then show ?thesis
      using request_foreclosed [OF request_is_result f]
      by (simp add: gate_dispatch_eq Let_def mark_running_def foreclosed_def)
  next
    case (OpenScope t)
    with f show ?thesis by (auto simp: open_scope_def foreclosed_def map_add_def split: option.splits)
  next
    case (CloseScope t)
    with f assms(4) show ?thesis by (auto simp: close_scope_def foreclosed_def delete_conv')
  next
    case (Reply a now)
    with f show ?thesis by (simp add: reply_admitted_def Let_def foreclosed_def)
  next
    case (MarkProposal a pid)
    with f show ?thesis by (simp add: mark_proposal_def foreclosed_def)
  next
    case (MarkUncertain a now)
    with rec [of a] ok show ?thesis
      by (simp add: mark_uncertain_def Let_def evolves_def) (simp add: foreclosed_def)
  next
    case (Retire a res)
    with rec [of a] ok f show ?thesis
      by (simp add: retire_def Let_def evolves_def) (simp add: foreclosed_def)
  next
    case (ResolveUncertain a acc now)
    with rec [of a] ok f show ?thesis
      by (simp add: resolve_uncertain_def Let_def evolves_def) (simp add: foreclosed_def)
  qed
qed

interpretation foreclosure: latching_object gate_call gate_inv gate_allowed
    "foreclosed s ident tier" "closes s" for s ident tier
  by unfold_locales (auto simp: gate_call_def dest: foreclosed_apply)

lemma retire_forecloses:
  assumes inv: "gate_inv g" and a: "a < length (g_heap g)" and st: "gr_state (rec_at g a) = Running"
    and s: "gr_scope (rec_at g a) = s" "s \<noteq> []" "map_of (g_scopes g) s \<noteq> None"
    and opp: "opposes (gr_identity (rec_at g a)) ident"
    and tier: "tier_rank tier \<le> tier_rank (gr_tier (rec_at g a))"
  shows "foreclosed s ident tier (retire g a res)"
proof -
  let ?g1 = "set_rec a (\<lambda>r. r\<lparr>gr_result := res, gr_done := True\<rparr>) g"
  have "gr_entered (rec_at g a)" using inv a st by (simp add: gate_inv_def holder_inv_def in_flight_def)
  moreover have "gr_tier (rec_at g a) \<in> set (claim_tiers (rec_at g a) s)" by (simp add: claim_tiers_def s(1))
  then have "tier_rank (gr_tier (rec_at g a)) \<le> tier_rank (max_tier (claim_tiers (rec_at g a) s))"
    using max_tier_rank [of "claim_tiers (rec_at g a) s"] by (metis empty_iff empty_set)
  moreover have "claim_tiers (rec_at ?g1 a) s = claim_tiers (rec_at g a) s" by (simp add: claim_tiers_def)
  moreover have "s \<in> set (claiming_scopes (rec_at ?g1 a))" using s a by (simp add: claiming_scopes_def)
  moreover have "entries_inv ?g1" using inv by (simp add: gate_inv_def entries_inv_set_rec evolves_def)
  ultimately have "foreclosed s ident tier (record_entries ?g1 a (res = Some True))"
    using a s(3) opp tier by (intro record_entries_forecloses) simp_all
  then show ?thesis using st by (simp add: retire_def Let_def) (simp add: foreclosed_def)
qed

lemma reachable_gate: "runs_ok gate_call gate_allowed new_gate xs \<Longrightarrow> gate_inv (run_ops gate_call new_gate xs)"
  by (rule gate.inv_run [OF gate_inv_new])

lemma example_gate:
  "runs_ok gate_call gate_allowed new_gate example_ops"
  "length (g_heap (run_ops gate_call new_gate example_ops)) = 1"
  "gr_state (rec_at (run_ops gate_call new_gate example_ops) 0) = Running"
  "opposes (gr_identity (rec_at (run_ops gate_call new_gate example_ops) 0)) (example_zone CLOSE_PROTECTED_CIRCUIT)"
  "gr_scope (rec_at (run_ops gate_call new_gate example_ops) 0) = ''e1''"
  "map_of (g_scopes (run_ops gate_call new_gate example_ops)) ''e1'' \<noteq> None"
  "gr_tier (rec_at (run_ops gate_call new_gate example_ops) 0) = ''D''"
  by code_simp+

section \<open>Properties\<close>

text \<open>
  C6. One act in flight per resource: after any run of the dispatcher's calls on a new gate, two
  acts that are running or whose outcome is uncertain never drive the same resource, and a
  dispatch of the opposite outcome, at whatever tier, is refused and leaves every record, holder
  and event as it was.
\<close>

theorem one_act_in_flight:
  assumes "runs_ok gate_call gate_allowed new_gate xs" and "g = run_ops gate_call new_gate xs"
    and "a < length (g_heap g)" and "gr_state (rec_at g a) \<in> {Running, Uncertain}"
  shows "(\<forall>b < length (g_heap g). gr_state (rec_at g b) \<in> {Running, Uncertain}
      \<and> resource_key (gr_identity (rec_at g b)) = resource_key (gr_identity (rec_at g a)) \<longrightarrow> b = a)
    \<and> (opposes (gr_identity (rec_at g a)) ident \<longrightarrow>
        gd_admission (snd (gate_dispatch g scope ident tier c ra now)) = Refused
        \<and> core (fst (gate_dispatch g scope ident tier c ra now)) = core g)"
proof -
  have inv: "gate_inv g" unfolding assms(2) by (rule reachable_gate [OF assms(1)])
  have fl: "in_flight (rec_at g a)" using assms(4) by (simp add: in_flight_def)
  have one: "b = a" if "b < length (g_heap g)" "in_flight (rec_at g b)" "key_at g b = key_at g a" for b
    using in_flight_holder [OF inv that(1,2)] in_flight_holder [OF inv assms(3) fl] that(3)
    by (metis option.inject)
  show ?thesis
  proof (intro conjI allI impI, goal_cases)
    case (1 b)
    then show ?case by (intro one) (simp_all add: in_flight_def key_at_def)
  next
    case 2
    then show ?case by (rule opposed_dispatch_refused(1) [OF inv assms(3) fl])
  next
    case 3
    then show ?case by (rule opposed_dispatch_refused(2) [OF inv assms(3) fl])
  qed
qed

theorem one_act_in_flight_witness:
  "gd_admission (snd (gate_dispatch (run_ops gate_call new_gate example_ops) ''e2''
     (example_zone CLOSE_PROTECTED_CIRCUIT) ''D'' example_contributor False 2000)) = Refused"
  using one_act_in_flight [OF example_gate(1) refl, of 0] example_gate(2-4) by simp

text \<open>
  C17. A timeout never becomes two contradictory commands: a command marked uncertain stays
  uncertain, whatever else the dispatcher does, until its driver reports on it, and until then
  its resource is listed and no opposing outcome is admitted, even by another event or at Tier D.
\<close>

theorem uncertain_until_reported:
  assumes "gate_inv g" and "a < length (g_heap g)" and "gr_state (rec_at g a) = Running"
    and "g' = run_ops gate_call (mark_uncertain g a t) xs"
    and "runs_ok gate_call gate_allowed (mark_uncertain g a t) xs" and "list_all (\<lambda>x. \<not> reports_on a x) xs"
    and "opposes (gr_identity (rec_at g a)) ident"
  shows "gr_state (rec_at g' a) = Uncertain
    \<and> resource_key (gr_identity (rec_at g a)) \<in> set (uncertain_resources g')
    \<and> gd_admission (snd (gate_dispatch g' scope ident tier c ra now)) = Refused"
proof -
  let ?u = "mark_uncertain g a t"
  have inv: "gate_inv ?u" using apply_inv [OF assms(1), of "MarkUncertain a t"] assms(2,3) by simp
  have "uncertain_at a (gr_identity (rec_at g a)) ?u"
    using assms(2) by (simp add: uncertain_at_def mark_uncertain_def Let_def)
  from uncertain.latched_run [OF inv this assms(5,6)]
  have u: "uncertain_at a (gr_identity (rec_at g a)) g'" by (simp add: assms(4))
  have inv': "gate_inv g'" using gate.inv_run [OF inv assms(5)] by (simp add: assms(4))
  have fl: "a < length (g_heap g')" "in_flight (rec_at g' a)" using u by (simp_all add: uncertain_at_def in_flight_def)
  with inv' have "map_of (g_records g') (key_at g' a) = Some a" by (simp add: gate_inv_def holder_inv_def)
  then have "(key_at g' a, a) \<in> set (g_records g')" by (rule map_of_SomeD)
  then have "key_at g' a \<in> set (uncertain_resources g')"
    using u by (force simp: uncertain_resources_def uncertain_at_def)
  then show ?thesis
    using opposed_dispatch_refused(1) [OF inv' fl] u assms(7) by (simp add: uncertain_at_def key_at_def)
qed

theorem uncertain_until_reported_witness:
  "gd_admission (snd (gate_dispatch (run_ops gate_call (mark_uncertain (run_ops gate_call new_gate example_ops) 0 1500)
       [CloseScope ''e1'']) ''e2'' (example_zone CLOSE_PROTECTED_CIRCUIT) ''D'' example_contributor False 2000)) = Refused"
proof -
  let ?g = "run_ops gate_call new_gate example_ops"
  have "gate_inv ?g" by (rule reachable_gate [OF example_gate(1)])
  with uncertain_until_reported [OF this _ example_gate(3) refl, of 1500 "[CloseScope ''e1'']"] example_gate(2,4)
  show ?thesis by simp
qed

text \<open>
  C26. Foreclosure outlives the attempt: when an act that was entered for an event ends, with
  whatever result, no dispatch of the opposite outcome at its tier or below is admitted, from
  any event, until that event closes.
\<close>

theorem completed_act_forecloses:
  assumes "gate_inv g" and "a < length (g_heap g)" and "gr_state (rec_at g a) = Running"
    and "gr_scope (rec_at g a) = s" and "s \<noteq> []" and "map_of (g_scopes g) s \<noteq> None"
    and "runs_ok gate_call gate_allowed (retire g a res) xs" and "list_all (\<lambda>x. \<not> closes s x) xs"
    and "opposes (gr_identity (rec_at g a)) ident" and "tier_rank tier \<le> tier_rank (gr_tier (rec_at g a))"
  shows "gd_admission (snd (gate_dispatch (run_ops gate_call (retire g a res) xs) scope ident tier c ra now)) = Refused"
proof -
  have inv: "gate_inv (retire g a res)" by (rule retire_inv [OF assms(1,2)])
  have "foreclosed s ident tier (retire g a res)"
    by (rule retire_forecloses [OF assms(1-3) assms(4-6,9,10)])
  from foreclosure.latched_run [OF inv this assms(7,8)] show ?thesis by (rule foreclosed_refuses)
qed

theorem completed_act_forecloses_witness:
  "gd_admission (snd (gate_dispatch (run_ops gate_call (retire (run_ops gate_call new_gate example_ops) 0 (Some True))
       [OpenScope ''e2'']) ''e2'' (example_zone CLOSE_PROTECTED_CIRCUIT) ''C'' example_contributor False 2000)) = Refused"
proof -
  let ?g = "run_ops gate_call new_gate example_ops"
  have "gate_inv ?g" by (rule reachable_gate [OF example_gate(1)])
  with completed_act_forecloses [OF this _ example_gate(3,5) _ example_gate(6), of "Some True" "[OpenScope ''e2'']"]
    example_gate(2,4,7)
  show ?thesis by simp
qed

end
