(* ===== verification/Action_Dispatch.thy ===== *)
theory Action_Dispatch
  imports Approval_Laws Gate_Laws
begin

text \<open>
  \<open>ActionDispatcher.dispatch\<close> and \<open>_admit_and_run\<close> of \<open>ori/reasoning/action_dispatcher.py\<close>, the
  last point before an executor: the tier a request is run at, the policy's suppression, the
  admission of the resource, the route by tier (immediate, the plain approval, the governed
  approval, the shielded Tier D executor), the release of the resource and the row of the act. It
  composes the registry, the resource gate, the device policy and the governed approval. Every
  gate method runs without suspending, so a request and the entry of its executor are one step.
\<close>

section \<open>A request to act\<close>

text \<open>
  What a caller passes to \<open>dispatch\<close> and what its context carries: the skill's \<open>available\<close> actions
  and triggers as name and declaration, its configured approval requirement, the parts a resource
  resolver answers (None without one, or when it fails), the exception composing the operator's
  message raises, if any, and the scope and record of the attempt.
\<close>

record dispatch_request =
  dq_action :: string
  dq_tier :: string
  dq_safe_default :: string
  dq_approval_timeout :: "int option"
  dq_approval_timeout_seconds :: "int option"
  dq_context :: skill_context
  dq_available :: "(string \<times> string) list"
  dq_triggers :: "(string \<times> bool) list"
  dq_config_requires_approval :: bool
  dq_correlation_id :: string
  dq_parts :: "(string \<times> string \<times> (string \<times> string) list) option"
  dq_message_raises :: "string option"
  dq_scope :: string
  dq_record_key :: string
  dq_record_future :: nat

text \<open>What the dispatcher was bound to: a gate, and the commissioned zone and binding revision.\<close>

record wiring =
  wi_gate :: bool
  wi_zone_identity_key :: "(string \<times> string) option"
  wi_binding_revision :: string

definition DEFAULT_APPROVAL_TIMEOUT :: int where
  "DEFAULT_APPROVAL_TIMEOUT = 300"

definition holds_tier_d_authority :: "skill_context \<Rightarrow> bool" where
  "holds_tier_d_authority cx = sc_first_party cx"

text \<open>
  The skill's own list of actions: its first entry for the action that names a tier may raise the
  tier, to C at most, and never lowers it.
\<close>

definition declared_tier :: "string \<Rightarrow> string \<Rightarrow> (string \<times> string) list \<Rightarrow> string" where
  "declared_tier act tier available =
     (case List.find (\<lambda>(n, t). n = act \<and> t \<noteq> []) available of
        None \<Rightarrow> tier
      | Some (_, t) \<Rightarrow>
          if tier = ''D'' then tier
          else let defined = (if str_upper t = ''D'' then ''C'' else str_upper t)
               in if tier_rank defined > tier_rank tier then defined else tier)"

definition dispatch_tier :: "dispatch_request \<Rightarrow> string" where
  "dispatch_tier rq =
     (let asked = str_upper (dq_tier rq);
          held = (if asked = ''D'' \<and> \<not> holds_tier_d_authority (dq_context rq) then ''C'' else asked)
      in enforce_minimum_tier (dq_action rq) (declared_tier (dq_action rq) held (dq_available rq)))"

definition vet_safe_default :: "string \<Rightarrow> string" where
  "vet_safe_default sd = (if is_safe_default_eligible sd then sd else DEFAULT_SAFE_DEFAULT_ACTION)"

definition approval_window :: "dispatch_request \<Rightarrow> int" where
  "approval_window rq =
     (case dq_approval_timeout rq of
        Some t \<Rightarrow> t
      | None \<Rightarrow> (case dq_approval_timeout_seconds rq of Some t \<Rightarrow> t | None \<Rightarrow> DEFAULT_APPROVAL_TIMEOUT))"

definition tier_b_requires_approval :: "dispatch_request \<Rightarrow> bool" where
  "tier_b_requires_approval rq =
     (case (if sc_trigger_name (dq_context rq) = [] then None
            else map_of (dq_triggers rq) (sc_trigger_name (dq_context rq))) of
        Some b \<Rightarrow> b
      | None \<Rightarrow> dq_config_requires_approval rq)"

definition resource_for :: "wiring \<Rightarrow> dispatch_request \<Rightarrow> string \<Rightarrow> resource_identity option" where
  "resource_for wi rq act =
     (if \<not> wi_gate wi then None
      else let (target, uri, params) = (case dq_parts rq of Some p \<Rightarrow> p | None \<Rightarrow> ([], [], []))
           in resource_identity_of act
                \<lparr>ia_zone_identity_key = wi_zone_identity_key wi, ia_binding_revision = wi_binding_revision wi,
                 ia_target = target, ia_coap_uri = uri, ia_coap_parameters = params\<rparr>)"

definition proposed_act_executed :: "action_result \<Rightarrow> bool" where
  "proposed_act_executed r = (ar_executed r \<and> \<not> ar_safe_default_used r)"

section \<open>The plain approval\<close>

text \<open>
  \<open>_run_approval_workflow\<close>, for a Tier B act that requires approval and a Tier C act that is not
  physical: one ask, one wait, and the act or the safe default at the same tier. What it has done
  so far is kept for its failure path.
\<close>

record approval_progress =
  pg_proposal_id :: string
  pg_acted :: "action_result option"
  pg_decision :: string
  pg_decision_queued :: bool

type_synonym attempt = "(world \<times> (interrupt + action_result)) \<times> approval_progress"

definition then_pg ::
  "world \<times> (interrupt + 'a) \<Rightarrow> approval_progress \<Rightarrow> ('a \<Rightarrow> world \<Rightarrow> attempt) \<Rightarrow> attempt" where
  "then_pg r pg k = (case r of (w, Inl x) \<Rightarrow> ((w, Inl x), pg) | (w, Inr a) \<Rightarrow> k a w)"

definition plain_result ::
  "string \<Rightarrow> string \<Rightarrow> string \<Rightarrow> bool \<Rightarrow> bool \<Rightarrow> string \<Rightarrow> int \<Rightarrow> string option \<Rightarrow> bool \<Rightarrow> action_result" where
  "plain_result act tier pid executed is_approved taken now response safe_used =
     \<lparr>ar_action_name = act, ar_tier = tier, ar_executed = executed, ar_approved = Some is_approved,
      ar_action_taken = taken, ar_timestamp = now, ar_operator_response = response,
      ar_proposal_id = Some pid, ar_safe_default_used = safe_used\<rparr>"

text \<open>A v1 token approves no physical act and no Tier C act; any other is the verifier's to judge.\<close>

definition v1_token ::
  "environment \<Rightarrow> dispatcher_config \<Rightarrow> string \<Rightarrow> string \<Rightarrow> string option \<Rightarrow> (bool \<times> string option) io" where
  "v1_token e c act tier response w =
     (if is_physical act \<or> tier = ''C'' then
        (w, Inr (False, Some ''LOCAL:TOKEN_REJECTED:v1_token_is_not_approval''))
      else if \<not> dc_token_verifier c then (w, Inr (False, response))
      else
        (let v = (case en_verify e (w_tick w) of
                    Some v \<Rightarrow> v
                  | None \<Rightarrow> \<lparr>tv_approved = False, tv_reason = ''verifier_error'', tv_token_id = []\<rparr>)
         in then_io (sleep e 0 w) (\<lambda>_ w1. (w1, Inr (tv_approved v,
              Some (if tv_approved v then ''LOCAL:TOKEN_APPROVED:'' @ tv_token_id v
                    else ''LOCAL:TOKEN_REJECTED:'' @ tv_reason v))))))"

definition reply_decision ::
  "environment \<Rightarrow> dispatcher_config \<Rightarrow> string \<Rightarrow> string \<Rightarrow> string \<Rightarrow> bool \<Rightarrow> cptext option \<Rightarrow> string option
     \<Rightarrow> (bool \<times> string option) io" where
  "reply_decision e c act tier pid console reply response w =
     (case classify_approval_response
             (case reply of Some t \<Rightarrow> classifiable_reply (Heard t) | None \<Rightarrow> None) (cps pid)
             console (dc_require_scoped_replies c) of
        TokenReply \<Rightarrow> v1_token e c act tier response w
      | Approve \<Rightarrow> (w, Inr (True, response))
      | _ \<Rightarrow> (w, Inr (False, response)))"

definition acted_as :: "string \<Rightarrow> action_result \<Rightarrow> approval_progress \<Rightarrow> approval_progress" where
  "acted_as decision r pg = pg\<lparr>pg_acted := Some r, pg_decision := decision\<rparr>"

text \<open>The decision's record is queued last; the result is the act as it was noted, at its own time.\<close>

definition conclude :: "environment \<Rightarrow> approval_progress \<Rightarrow> string \<Rightarrow> action_result \<Rightarrow> world \<Rightarrow> attempt" where
  "conclude e pg decision r w =
     (let res = r\<lparr>ar_timestamp := en_now e (w_tick w)\<rparr>
      in ((defer_record (DecisionRecord decision res) w, Inr res), pg\<lparr>pg_decision_queued := True\<rparr>))"

definition carry_approved ::
  "environment \<Rightarrow> dispatcher_config \<Rightarrow> string \<Rightarrow> string \<Rightarrow> skill_context \<Rightarrow> nat option \<Rightarrow> approval_progress
     \<Rightarrow> string option \<Rightarrow> world \<Rightarrow> attempt" where
  "carry_approved e c act tier cx token pg response w =
     then_pg (gate_admits e token w) pg (\<lambda>ok w1.
       if \<not> ok then
         (let r = plain_result act tier (pg_proposal_id pg) False True ''refused_late_approval''
                    (en_now e (w_tick w1)) response False
          in conclude e (acted_as ''approved'' r pg) ''approved'' r w1)
       else then_pg (execute_immediately e c act tier cx w1) pg (\<lambda>inner w2.
         (let r = plain_result act tier (pg_proposal_id pg) (ar_executed inner) True (ar_action_taken inner)
                    (en_now e (w_tick w2)) response False
          in conclude e (acted_as ''approved'' r pg) ''approved'' r w2)))"

definition note_refusal ::
  "dispatcher_config \<Rightarrow> string \<Rightarrow> bool \<Rightarrow> string \<Rightarrow> string option \<Rightarrow> world \<Rightarrow> world" where
  "note_refusal c act timed_out ended response w =
     (let w1 = (if dc_store c
                then defer_record (RejectionOverride act
                       (if timed_out then end_decision ended [] else ''operator_rejection'') response) w
                else w)
      in case response of
           Some r \<Rightarrow> if timed_out then w1 else defer_record (RejectionPattern act r) w1
         | None \<Rightarrow> w1)"

definition carry_refused ::
  "environment \<Rightarrow> dispatcher_config \<Rightarrow> string \<Rightarrow> string \<Rightarrow> skill_context \<Rightarrow> string \<Rightarrow> approval_progress
     \<Rightarrow> bool \<Rightarrow> string \<Rightarrow> string option \<Rightarrow> world \<Rightarrow> attempt" where
  "carry_refused e c act tier cx sd pg timed_out ended response w =
     then_pg (execute_immediately e c sd tier cx w) pg (\<lambda>inner w1.
       (let decision = (if timed_out then end_decision ended [] else ''rejected'');
            r = plain_result act tier (pg_proposal_id pg) (ar_executed inner) False (ar_action_taken inner)
                  (en_now e (w_tick w1)) response (ar_executed inner);
            pg1 = acted_as decision r pg
        in then_pg (if timed_out then escalate_to_secondary e c w1 else (w1, Inr ())) pg1 (\<lambda>_ w2.
             conclude e pg1 decision r (note_refusal c act timed_out ended response w2))))"

definition run_approval_workflow ::
  "environment \<Rightarrow> dispatcher_config \<Rightarrow> string option \<Rightarrow> string \<Rightarrow> string \<Rightarrow> skill_context \<Rightarrow> string \<Rightarrow> int
     \<Rightarrow> nat option \<Rightarrow> world \<Rightarrow> attempt" where
  "run_approval_workflow e c message_raises act tier cx sd timeout token w =
     (let pid = generate_proposal_id (en_choice e (w_tick w)) 8;
          pg = \<lparr>pg_proposal_id = pid, pg_acted = None, pg_decision = [], pg_decision_queued = False\<rparr>
      in case message_raises of
           Some ex \<Rightarrow> ((w, Inl (Raised ex)), pg)
         | None \<Rightarrow>
             then_pg (ask_operator e c token pid w) pg (\<lambda>(accepted, console) w1.
             then_pg (governed_listen e timeout console accepted w1) pg (\<lambda>(reply, _, ended) w2.
             then_pg (reply_decision e c act tier pid console reply
                        (case reply of
                           Some t \<Rightarrow> map_option (\<lambda>s. if console then ''LOCAL:'' @ s else s) (storable_reply (Heard t))
                         | None \<Rightarrow> None) w2) pg (\<lambda>(ok, response) w3.
               if ok then carry_approved e c act tier cx token pg response w3
               else carry_refused e c act tier cx (vet_safe_default sd) pg (reply = None) ended response w3))))"

definition resolve_failed_approval ::
  "environment \<Rightarrow> dispatcher_config \<Rightarrow> string \<Rightarrow> string \<Rightarrow> skill_context \<Rightarrow> string \<Rightarrow> string \<Rightarrow> action_result io" where
  "resolve_failed_approval e c act tier cx sd pid w =
     then_io (execute_immediately e c sd tier cx w) (\<lambda>inner w1.
       (w1, Inr (plain_result act tier pid (ar_executed inner) False (ar_action_taken inner)
                   (en_now e (w_tick w1)) (Some ''approval_error'') (ar_executed inner))))"

text \<open>
  \<open>_approval_workflow\<close>: whatever fails inside, the proposal resolves. An interrupted one that had
  already acted hands the act on with the interrupt.
\<close>

definition approval_workflow ::
  "environment \<Rightarrow> dispatcher_config \<Rightarrow> string option \<Rightarrow> string \<Rightarrow> string \<Rightarrow> skill_context \<Rightarrow> string \<Rightarrow> int
     \<Rightarrow> nat option \<Rightarrow> world \<Rightarrow> (world \<times> (interrupt + action_result)) \<times> action_result option" where
  "approval_workflow e c message_raises act tier cx sd timeout token w =
     (case run_approval_workflow e c message_raises act tier cx sd timeout token w of
        ((w1, Inr r), _) \<Rightarrow> ((w1, Inr r), None)
      | ((w1, Inl x), pg) \<Rightarrow>
          (case pg_acted pg of
             Some r \<Rightarrow>
               (let w2 = (if pg_decision_queued pg then w1
                          else defer_record (DecisionRecord
                                 (if pg_decision pg \<noteq> [] then pg_decision pg else ''approval_error'') r) w1)
                in case x of Cancelled \<Rightarrow> ((w2, Inl Cancelled), Some r) | Raised _ \<Rightarrow> ((w2, Inr r), None))
           | None \<Rightarrow>
               (case x of
                  Cancelled \<Rightarrow> ((w1, Inl Cancelled), None)
                | Raised _ \<Rightarrow>
                    (then_io (resolve_failed_approval e c act tier cx (vet_safe_default sd) (pg_proposal_id pg) w1)
                       (\<lambda>r w2. (defer_record (DecisionRecord ''approval_error'' r) w2, Inr r)), None))))"

section \<open>Admission and the route by tier\<close>

text \<open>
  A Tier D executor runs in a task of its own behind a shield: a cancellation reaches its caller
  and not the executor. \<open>drives\<close> says whether the executor is still driving when the interrupted
  caller looks.
\<close>

definition shielded :: "environment \<Rightarrow> environment" where
  "shielded e = e\<lparr>en_cancel := \<lambda>_. False\<rparr>"

definition cancelled_during :: "environment \<Rightarrow> world \<Rightarrow> world \<Rightarrow> bool" where
  "cancelled_during e w w' = list_ex (en_cancel e) [w_tick w..<w_tick w']"

definition interrupted_result :: "environment \<Rightarrow> string \<Rightarrow> string \<Rightarrow> action_result option \<Rightarrow> world \<Rightarrow> action_result" where
  "interrupted_result e act tier acted w =
     (case acted of Some r \<Rightarrow> r | None \<Rightarrow> unapproved act tier False [] (en_now e (w_tick w)))"

definition run_tier_d ::
  "environment \<Rightarrow> dispatcher_config \<Rightarrow> skill_context \<Rightarrow> string \<Rightarrow> bool \<Rightarrow> world \<Rightarrow> world \<times> action_result \<times> bool" where
  "run_tier_d e c cx act drives w =
     (case execute_immediately (shielded e) c act ''D'' cx (pass e 0 w) of
        (w1, Inl _) \<Rightarrow> (w1, interrupted_result e act ''D'' None w1, False)
      | (w1, Inr r) \<Rightarrow>
          if cancelled_during e w w1 \<and> drives \<and> act \<in> set (dc_executors c)
          then (w1, interrupted_result e act ''D'' None w1, True) else (w1, r, False))"

definition run_below_d ::
  "environment \<Rightarrow> dispatcher_config \<Rightarrow> dispatch_request \<Rightarrow> string \<Rightarrow> string \<Rightarrow> string \<Rightarrow> int \<Rightarrow> nat option
     \<Rightarrow> world \<Rightarrow> (world \<times> (interrupt + action_result)) \<times> action_result option" where
  "run_below_d e c rq act tier sd timeout token w =
     (let cx = dq_context rq;
          plain = approval_workflow e c (dq_message_raises rq) act tier cx sd timeout token w
      in if tier = ''B'' \<and> tier_b_requires_approval rq then plain
         else if tier = ''C'' then
           (if is_physical act then (governed_approval_workflow e c act cx sd timeout token w, None) else plain)
         else (execute_immediately e c act tier cx w, None))"

text \<open>What an attempt leaves: its result, and whether its executor is still driving.\<close>

definition run_attempt ::
  "environment \<Rightarrow> dispatcher_config \<Rightarrow> dispatch_request \<Rightarrow> string \<Rightarrow> string \<Rightarrow> string \<Rightarrow> int \<Rightarrow> nat option
     \<Rightarrow> bool \<Rightarrow> world \<Rightarrow> world \<times> action_result \<times> bool" where
  "run_attempt e c rq act tier sd timeout token drives w =
     (if tier = ''D'' then run_tier_d e c (dq_context rq) act drives w
      else case run_below_d e c rq act tier sd timeout token w of
        ((w1, Inr r), _) \<Rightarrow> (w1, r, False)
      | ((w1, Inl _), acted) \<Rightarrow> (w1, interrupted_result e act tier acted w1, False))"

text \<open>The row of a dispatch, with the override entry an autonomous Tier D dispatch is ahead of it.\<close>

definition record_row :: "string \<Rightarrow> string \<Rightarrow> action_result \<Rightarrow> world \<Rightarrow> world" where
  "record_row act tier r w =
     defer_record (ActRow r) (if tier = ''D'' then defer_record (TierDOverride act) w else w)"

definition settle_attempt ::
  "environment \<Rightarrow> nat option \<Rightarrow> string \<Rightarrow> string \<Rightarrow> world \<Rightarrow> action_result \<Rightarrow> bool \<Rightarrow> action_result io" where
  "settle_attempt e token act tier start r driving w =
     (let w1 = (case token of
                  None \<Rightarrow> w
                | Some a \<Rightarrow>
                    w\<lparr>w_gate := (if driving then mark_uncertain (w_gate w) a (en_now e (w_tick w))
                                else retire (w_gate w) a (Some (proposed_act_executed r)))\<rparr>)
      in if driving then (w1\<lparr>w_driving := w_driving w1 @ [\<lparr>dv_token = token, dv_interrupted = r\<rparr>]\<rparr>, Inr r)
         else (record_row act tier r w1, if cancelled_during e start w1 then Inl Cancelled else Inr r))"

definition contributor_of :: "dispatch_request \<Rightarrow> string \<Rightarrow> string \<Rightarrow> contributor" where
  "contributor_of rq act tier =
     \<lparr>ct_skill_name = sc_skill_name (dq_context rq), ct_trigger_name = sc_trigger_name (dq_context rq),
      ct_action = act, ct_dispatch_tier = tier, ct_correlation_id = dq_correlation_id rq,
      ct_tier_d_granted = (tier = ''D''), ct_record_key = dq_record_key rq,
      ct_record_future = Some (dq_record_future rq), ct_scope = []\<rparr>"

definition holder_key :: "gate \<Rightarrow> gate_token option \<Rightarrow> string" where
  "holder_key g token =
     (case (case token of
              Some (RecordToken a) \<Rightarrow> gr_contributors (rec_at g a)
            | Some (EntryToken x) \<Rightarrow> ge_contributors x
            | None \<Rightarrow> []) of
        [] \<Rightarrow> []
      | ct # _ \<Rightarrow> ct_record_key ct)"

definition record_of :: "gate_token option \<Rightarrow> nat option" where
  "record_of token = (case token of Some (RecordToken a) \<Rightarrow> Some a | _ \<Rightarrow> None)"

abbreviation COALESCED :: string where "COALESCED \<equiv> ''coalesced''"

text \<open>
  \<open>_admit_and_run\<close>. A joined request's row waits for its holder's and is written under its key.
\<close>

definition admit_and_run ::
  "environment \<Rightarrow> dispatcher_config \<Rightarrow> wiring \<Rightarrow> dispatch_request \<Rightarrow> string \<Rightarrow> string \<Rightarrow> string \<Rightarrow> int \<Rightarrow> bool
     \<Rightarrow> action_result io" where
  "admit_and_run e c wi rq act tier sd timeout drives w =
     (let now = en_now e (w_tick w);
          run = (\<lambda>token w1. case run_attempt e c rq act tier sd timeout token drives w1 of
                   (w2, r, driving) \<Rightarrow> settle_attempt e token act tier w r driving w2)
      in case resource_for wi rq act of
           None \<Rightarrow>
             if wi_gate wi \<and> \<not> is_informational act then
               (let r = unapproved act tier False ''refused_unresolved_resource'' now
                in (record_row act tier r w, Inr r))
             else run None w
         | Some ident \<Rightarrow>
             (case gate_dispatch (w_gate w) (dq_scope rq) ident tier (contributor_of rq act tier)
                     (tier_b_requires_approval rq) now of
                (g, d) \<Rightarrow>
                  (let w1 = w\<lparr>w_gate := g\<rparr>
                   in if gd_admission d = Joined then
                        (let r = unapproved act tier False COALESCED now; key = holder_key g (gd_token d)
                         in (if key = [] then w1 else defer_record (ContributorRow key r) w1, Inr r))
                      else if \<not> may_execute d then
                        (let r = unapproved act tier False (''refused_'' @ gd_reason d) now
                         in (record_row act tier r w1, Inr r))
                      else run (record_of (gd_token d)) w1)))"

definition dispatch ::
  "environment \<Rightarrow> dispatcher_config \<Rightarrow> wiring \<Rightarrow> dispatch_request \<Rightarrow> bool \<Rightarrow> action_result io" where
  "dispatch e c wi rq drives w =
     (let act = dq_action rq; asked = str_upper (dq_tier rq); n = w_tick w
      in if \<not> is_valid_tier asked then
           then_io (sleep e 0 w) (\<lambda>_ w1.
             (let r = unapproved act asked False ''refused_unknown_tier'' (en_now e n)
              in (defer_record (InlineRow r) w1, Inr r)))
         else
           (let tier = dispatch_tier rq; sd = vet_safe_default (dq_safe_default rq); timeout = approval_window rq
            in if governed_outcome act \<noteq> None \<and> tier \<in> {''B'', ''C''}
                  \<and> \<not> permits_relay_action c tier (en_now e n div 1000) then
                 then_io (sleep e 0 w) (\<lambda>_ w1.
                   admit_and_run e c wi rq sd ''A'' sd timeout drives
                     (defer_record (InlineRow ((unapproved act tier False SUPPRESSED (en_now e n))
                         \<lparr>ar_operator_response := Some ''policy_suppression''\<rparr>)) w1))
               else admit_and_run e c wi rq act tier sd timeout drives w))"

section \<open>A shielded executor's report\<close>

definition reported :: "string \<Rightarrow> string \<Rightarrow> executor_answer \<Rightarrow> int \<Rightarrow> action_result" where
  "reported act tier ans now =
     unapproved act tier (ans = XDone)
       (if ans = XNotPerformed then NOT_PERFORMED
        else action_taken act (ans = XDone) (ans = XSuppressed \<and> tier \<noteq> ''D'') False) now"

text \<open>
  \<open>_retire_when_settled\<close> and the row's \<open>settle\<close>: what the executor answers, None when its task was
  cancelled before it could.
\<close>

definition executor_reports :: "nat \<Rightarrow> executor_answer option \<Rightarrow> int \<Rightarrow> world \<Rightarrow> world" where
  "executor_reports i ans now w =
     (if i \<ge> length (w_driving w) then w
      else let d = w_driving w ! i; act = ar_action_name (dv_interrupted d); tier = ar_tier (dv_interrupted d);
               r = (case ans of Some a \<Rightarrow> reported act tier a now | None \<Rightarrow> dv_interrupted d);
               accepted = (case ans of Some _ \<Rightarrow> proposed_act_executed r | None \<Rightarrow> False)
           in record_row act tier r
                (w\<lparr>w_gate := (case dv_token d of Some a \<Rightarrow> resolve_uncertain (w_gate w) a accepted now | None \<Rightarrow> w_gate w),
                   w_driving := drop_nth i (w_driving w)\<rparr>))"

section \<open>What is guaranteed\<close>

text \<open>
  What an attempt may have run: nothing, the act, or the safe default, each at the attempt's tier;
  the act only when it was approved.
\<close>

definition plain_ran :: "string \<Rightarrow> string \<Rightarrow> string \<Rightarrow> world \<Rightarrow> attempt \<Rightarrow> bool" where
  "plain_ran act tier sd w z =
     (let w' = fst (fst z)
      in (w_acts w' = w_acts w
          \<or> w_acts w' = w_acts w @ [(act, tier)] \<and> at_tier (act, tier)
          \<or> w_acts w' = w_acts w @ [(sd, tier)])
         \<and> (pg_acted (snd z) = None \<and> (\<exists>i. snd (fst z) = Inl i) \<longrightarrow> w_acts w' = w_acts w)
         \<and> (\<forall>r. pg_acted (snd z) = Some r \<or> snd (fst z) = Inr r \<longrightarrow>
               ar_action_name r = act \<and> ar_tier r = tier
               \<and> (proposed_act_executed r \<longrightarrow> w_acts w' = w_acts w @ [(act, tier)])
               \<and> (w_acts w' = w_acts w @ [(act, tier)] \<and> act \<noteq> sd \<longrightarrow> ar_approved r = Some True)))"

text \<open>
  What an attempt leaves, whatever the route: it ran the act or the safe default at its tier and
  nothing physical but the act, once; at Tier C with its approval committed; at Tier B, where the
  trigger asks for it, approved; and a result that claims the act was carried out tells the truth.
\<close>

definition attempt_ok ::
  "environment \<Rightarrow> bool \<Rightarrow> string \<Rightarrow> string \<Rightarrow> string \<Rightarrow> world \<Rightarrow> world \<Rightarrow> action_result \<Rightarrow> bool" where
  "attempt_ok e asks act tier pid w w' r =
     (rely e \<longrightarrow> (\<exists>ys. w_acts w' = w_acts w @ ys
        \<and> (\<forall>y \<in> set ys. is_physical (fst y) \<longrightarrow> y = (act, tier) \<and> at_tier y
              \<and> (tier = ''C'' \<longrightarrow> approved (dp_store (w_disp w')) pid)
              \<and> (tier = ''B'' \<and> asks \<longrightarrow> ar_approved r = Some True))
        \<and> length (filter (\<lambda>y. is_physical (fst y)) ys) \<le> 1
        \<and> ar_action_name r = act \<and> ar_tier r = tier
        \<and> (proposed_act_executed r \<longrightarrow> (act, tier) \<in> set (w_acts w'))))"

text \<open>
  An attempt hands over no row of its own, and, where other tasks only add to the gate's records,
  the gate's records stay.
\<close>

definition grows :: "environment \<Rightarrow> bool" where
  "grows e = (\<forall>n g. length (g_heap g) \<le> length (g_heap (en_gate e n g)))"

definition unrecorded :: "environment \<Rightarrow> world \<Rightarrow> world \<Rightarrow> bool" where
  "unrecorded e w w' =
     (act_rows w' = act_rows w \<and> (grows e \<longrightarrow> length (g_heap (w_gate w)) \<le> length (g_heap (w_gate w'))))"

section \<open>Example inputs\<close>

text \<open>A first-party skill asks, in lower case, for the trip of a commissioned zone at Tier D.\<close>

definition example_request :: dispatch_request where
  "example_request =
     \<lparr>dq_action = ''trip_relay'', dq_tier = ''d'', dq_safe_default = ''release_relay'', dq_approval_timeout = None,
      dq_approval_timeout_seconds = None, dq_context = example_context, dq_available = [(''trip_relay'', ''a'')],
      dq_triggers = [], dq_config_requires_approval = False, dq_correlation_id = [], dq_parts = None,
      dq_message_raises = None, dq_scope = ''s1'', dq_record_key = ''k1'', dq_record_future = 0\<rparr>"

definition example_wiring :: wiring where
  "example_wiring = \<lparr>wi_gate = True, wi_zone_identity_key = Some (''zone'', ''z1''), wi_binding_revision = ''b7''\<rparr>"

section \<open>Lemmas\<close>

subsection \<open>The tier of a dispatch\<close>

lemma valid_tier_cases: "is_valid_tier t \<longleftrightarrow> str_upper t \<in> {''A'', ''B'', ''C'', ''D''}"
  by (auto simp: is_valid_tier_def TIER_ORDER_def)

lemma unranked_tier:
  "str_upper t \<noteq> ''A'' \<Longrightarrow> str_upper t \<noteq> ''B'' \<Longrightarrow> str_upper t \<noteq> ''C'' \<Longrightarrow> str_upper t \<noteq> ''D'' \<Longrightarrow> tier_rank t = 0"
  by (simp add: tier_rank_def TIER_ORDER_def)

lemma declared_tier_cases:
  assumes "tier \<in> {''A'', ''B'', ''C'', ''D''}"
  shows "declared_tier act tier av \<in> {''A'', ''B'', ''C'', ''D''}"
    and "tier_rank tier \<le> tier_rank (declared_tier act tier av)"
    and "declared_tier act tier av = ''D'' \<longleftrightarrow> tier = ''D''"
proof -
  show "declared_tier act tier av \<in> {''A'', ''B'', ''C'', ''D''}"
    using assms unranked_tier by (auto simp: declared_tier_def Let_def split: option.splits)
  show "tier_rank tier \<le> tier_rank (declared_tier act tier av)"
    by (auto simp: declared_tier_def Let_def split: option.splits)
  show "declared_tier act tier av = ''D'' \<longleftrightarrow> tier = ''D''"
    by (auto simp: declared_tier_def Let_def split: option.splits)
qed

lemma enforced_tier_cases:
  assumes "tier \<in> {''A'', ''B'', ''C'', ''D''}"
  shows "enforce_minimum_tier a tier \<in> {''A'', ''B'', ''C'', ''D''}"
    and "enforce_minimum_tier a tier = ''D'' \<longleftrightarrow> tier = ''D''"
    and "at_tier (a, enforce_minimum_tier a tier)"
proof -
  have floor: "f \<in> {''A'', ''B'', ''C''}" if "minimum_tier a = Some f" for f
    using that by (auto simp: minimum_tier_def elim!: capability_cases)
  show "enforce_minimum_tier a tier \<in> {''A'', ''B'', ''C'', ''D''}"
    and "enforce_minimum_tier a tier = ''D'' \<longleftrightarrow> tier = ''D''"
    using assms floor by (auto simp: enforce_minimum_tier_def split: option.splits)
  show "at_tier (a, enforce_minimum_tier a tier)"
    by (auto simp: at_tier_def enforce_minimum_tier_def split: option.splits)
qed

lemma dispatch_tier_cases:
  assumes "is_valid_tier (str_upper (dq_tier rq))"
  shows "dispatch_tier rq \<in> {''A'', ''B'', ''C'', ''D''}"
    and "dispatch_tier rq = ''D'' \<longleftrightarrow> str_upper (dq_tier rq) = ''D'' \<and> sc_first_party (dq_context rq)"
    and "at_tier (dq_action rq, dispatch_tier rq)"
proof -
  let ?asked = "str_upper (dq_tier rq)"
  let ?held = "if ?asked = ''D'' \<and> \<not> holds_tier_d_authority (dq_context rq) then ''C'' else ?asked"
  have held: "?held \<in> {''A'', ''B'', ''C'', ''D''}"
    using assms by (auto simp: is_valid_tier_def TIER_ORDER_def split: if_splits)
  note declared = declared_tier_cases [OF held]
  note enforced = enforced_tier_cases [OF declared(1)]
  show "dispatch_tier rq \<in> {''A'', ''B'', ''C'', ''D''}"
    unfolding dispatch_tier_def Let_def by (rule enforced(1))
  show "dispatch_tier rq = ''D'' \<longleftrightarrow> ?asked = ''D'' \<and> sc_first_party (dq_context rq)"
    unfolding dispatch_tier_def Let_def enforced(2) declared(3) by (auto simp: holds_tier_d_authority_def)
  show "at_tier (dq_action rq, dispatch_tier rq)"
    unfolding dispatch_tier_def Let_def by (rule enforced(3))
qed

lemma physical_floor:
  "is_physical a \<Longrightarrow> at_tier (a, ''B'') \<Longrightarrow> a = ''coap_command''"
  "is_physical a \<Longrightarrow> \<not> is_safe_default_eligible a"
  by (auto simp: is_physical_def at_tier_def enforce_minimum_tier_def minimum_tier_def is_safe_default_eligible_def
      split: option.splits elim!: capability_cases)

lemma vetted_not_physical [simp]: "\<not> is_physical (vet_safe_default sd)"
  using physical_floor(2) [of sd] by (auto simp: vet_safe_default_def) code_simp

subsection \<open>What the plain approval runs\<close>

interpretation still: coroutine_guarantee e c "\<lambda>w w'. w_acts w' = w_acts w" "\<lambda>_ _. False" for e c
  by unfold_locales auto

lemma stillD: "keeps (\<lambda>w w'. w_acts w' = w_acts w) w r \<Longrightarrow> r = (w', x) \<Longrightarrow> w_acts w' = w_acts w"
  by (simp add: keeps_def)

lemma execute_ran:
  assumes "execute_immediately e c a t cx w = (w', x)"
  shows "w_acts w' = w_acts w \<or> w_acts w' = w_acts w @ [(a, t)] \<and> at_tier (a, t)"
    and "x = Inl i \<Longrightarrow> w_acts w' = w_acts w"
    and "x = Inr r \<Longrightarrow> ar_executed r \<Longrightarrow> w_acts w' = w_acts w @ [(a, t)]"
    and "x = Inr r \<Longrightarrow> ar_approved r = None \<and> \<not> ar_safe_default_used r \<and> ar_action_name r = a \<and> ar_tier r = t"
  using assms
  by (auto simp: execute_immediately_def Let_def then_io_def sleep_def at_tier_def unapproved_def
      split: if_splits)

lemma conclude_ran:
  "w_acts (fst (fst (conclude e pg d r w))) = w_acts w"
  "snd (fst (conclude e pg d r w)) = Inr (r\<lparr>ar_timestamp := en_now e (w_tick w)\<rparr>)"
  "pg_acted (snd (conclude e pg d r w)) = pg_acted pg"
  by (simp_all add: conclude_def defer_record_def Let_def)

lemma note_refusal_acts [simp]: "w_acts (note_refusal c act t en resp w) = w_acts w"
  by (auto simp: note_refusal_def Let_def defer_record_def split: option.split)

lemma plain_ran_then:
  assumes "keeps (\<lambda>w w'. w_acts w' = w_acts w) w r" and "pg_acted pg = None"
    and "\<And>a w'. r = (w', Inr a) \<Longrightarrow> w_acts w' = w_acts w \<Longrightarrow> plain_ran act tier sd w' (k a w')"
  shows "plain_ran act tier sd w (then_pg r pg k)"
proof (cases r)
  case (Pair w' x)
  with assms(1) have "w_acts w' = w_acts w" by (simp add: keeps_def)
  with Pair assms(2,3) show ?thesis by (cases x) (auto simp: then_pg_def plain_ran_def Let_def)
qed

lemma carry_approved_ran:
  assumes "pg_acted pg = None"
  shows "plain_ran act tier sd w (carry_approved e c act tier cx token pg resp w)"
  unfolding carry_approved_def
proof (rule plain_ran_then [OF still.keeps_gate_admits assms])
  fix ok w1
  obtain w2 x where ran: "execute_immediately e c act tier cx w1 = (w2, x)" by (rule prod.exhaust)
  note r = execute_ran [OF ran]
  have "plain_ran act tier sd w1 (then_pg (execute_immediately e c act tier cx w1) pg (\<lambda>inner w2.
      let r = plain_result act tier (pg_proposal_id pg) (ar_executed inner) True (ar_action_taken inner)
                (en_now e (w_tick w2)) resp False
      in conclude e (acted_as ''approved'' r pg) ''approved'' r w2))"
    using r assms unfolding ran
    by (cases x) (auto simp: then_pg_def plain_ran_def Let_def conclude_ran acted_as_def plain_result_def proposed_act_executed_def)
  then show "plain_ran act tier sd w1 (if \<not> ok then
      (let r = plain_result act tier (pg_proposal_id pg) False True ''refused_late_approval'' (en_now e (w_tick w1)) resp False
       in conclude e (acted_as ''approved'' r pg) ''approved'' r w1)
      else then_pg (execute_immediately e c act tier cx w1) pg (\<lambda>inner w2.
       (let r = plain_result act tier (pg_proposal_id pg) (ar_executed inner) True (ar_action_taken inner)
                  (en_now e (w_tick w2)) resp False
        in conclude e (acted_as ''approved'' r pg) ''approved'' r w2)))"
    by (auto simp: plain_ran_def Let_def conclude_ran acted_as_def plain_result_def proposed_act_executed_def)
qed

lemma carry_refused_ran:
  assumes "pg_acted pg = None"
  shows "plain_ran act tier sd w (carry_refused e c act tier cx sd pg timed_out ended resp w)"
proof -
  obtain w1 x where ran: "execute_immediately e c sd tier cx w = (w1, x)" by (rule prod.exhaust)
  obtain w2 y where esc: "(if timed_out then escalate_to_secondary e c w1 else (w1, Inr ())) = (w2, y)" by (rule prod.exhaust)
  have "w_acts w2 = w_acts w1"
    using stillD [OF still.keeps_escalate, of e c w1 w2 y] esc by (auto split: if_splits)
  with execute_ran(1,2) [OF ran] assms show ?thesis
    unfolding carry_refused_def ran
    by (cases x; cases y) (auto simp: esc then_pg_def plain_ran_def Let_def conclude_ran acted_as_def plain_result_def
        proposed_act_executed_def)
qed

lemma keeps_reply_decision: "keeps (\<lambda>w w'. w_acts w' = w_acts w) w (reply_decision e c act tier pid console reply resp w)"
proof -
  have "keeps (\<lambda>w w'. w_acts w' = w_acts w) w (v1_token e c act tier resp w)"
    by (auto simp: v1_token_def Let_def keeps_def then_io_def sleep_def)
  then show ?thesis by (auto simp: reply_decision_def keeps_def split: reply_kind.split)
qed

lemma run_approval_ran:
  "plain_ran act tier (vet_safe_default sd) w (run_approval_workflow e c mr act tier cx sd timeout token w)"
proof (cases mr)
  case None
  show ?thesis
    unfolding run_approval_workflow_def Let_def None option.case
    by (rule plain_ran_then [OF still.keeps_ask], simp, split prod.split, intro allI impI,
        rule plain_ran_then [OF still.keeps_listen], simp, split prod.split, intro allI impI, split prod.split,
        intro allI impI, rule plain_ran_then [OF keeps_reply_decision], simp, split prod.split)
       (simp add: carry_approved_ran carry_refused_ran)
qed (simp add: run_approval_workflow_def Let_def plain_ran_def)

lemma attempt_okI:
  assumes "w_acts w' = w_acts w \<or> w_acts w' = w_acts w @ [(act, tier)] \<and> at_tier (act, tier)
      \<and> (tier = ''C'' \<longrightarrow> \<not> is_physical act) \<and> (tier = ''B'' \<and> asks \<and> is_physical act \<longrightarrow> ar_approved r = Some True)
      \<or> w_acts w' = w_acts w @ [(sd, tier)] \<and> \<not> is_physical sd"
    and "ar_action_name r = act" "ar_tier r = tier"
    and "proposed_act_executed r \<Longrightarrow> w_acts w' = w_acts w @ [(act, tier)]"
  shows "attempt_ok e asks act tier pid w w' r"
  using assms unfolding attempt_ok_def by (elim disjE conjE) auto

lemma resolve_failed_ran:
  assumes "resolve_failed_approval e c act tier cx sd pid w = (w', x)"
  shows "w_acts w' = w_acts w \<or> w_acts w' = w_acts w @ [(sd, tier)]"
    and "x = Inl i \<Longrightarrow> w_acts w' = w_acts w"
    and "x = Inr r \<Longrightarrow> \<not> proposed_act_executed r \<and> ar_action_name r = act \<and> ar_tier r = tier"
proof -
  obtain w1 y where ran: "execute_immediately e c sd tier cx w = (w1, y)" by (rule prod.exhaust)
  note r = execute_ran(1,2) [OF ran]
  show "w_acts w' = w_acts w \<or> w_acts w' = w_acts w @ [(sd, tier)]" and "x = Inl i \<Longrightarrow> w_acts w' = w_acts w"
    and "x = Inr r \<Longrightarrow> \<not> proposed_act_executed r \<and> ar_action_name r = act \<and> ar_tier r = tier"
    using r assms by (cases y; auto simp: resolve_failed_approval_def ran plain_result_def proposed_act_executed_def)+
qed

lemma interrupted_sel:
  "ar_action_name (interrupted_result e act tier None w) = act" "ar_tier (interrupted_result e act tier None w) = tier"
  "\<not> ar_executed (interrupted_result e act tier None w)" "\<not> proposed_act_executed (interrupted_result e act tier None w)"
  "interrupted_result e act tier (Some r) w = r"
  by (simp_all add: interrupted_result_def unapproved_def proposed_act_executed_def)

lemma approval_ran:
  assumes "approval_workflow e c mr act tier cx sd timeout token w = ((w', x), acted)"
    and "tier = ''C'' \<Longrightarrow> \<not> is_physical act"
    and "r = (case x of Inr a \<Rightarrow> a | Inl _ \<Rightarrow> interrupted_result e act tier acted w')"
  shows "attempt_ok e asks act tier pid w w' r"
proof -
  obtain w1 y pg where run: "run_approval_workflow e c mr act tier cx sd timeout token w = ((w1, y), pg)"
    by (metis prod.exhaust)
  have ran: "w_acts w1 = w_acts w \<or> w_acts w1 = w_acts w @ [(act, tier)] \<and> at_tier (act, tier)
      \<or> w_acts w1 = w_acts w @ [(vet_safe_default sd, tier)]"
    and none: "pg_acted pg = None \<Longrightarrow> y = Inl i \<Longrightarrow> w_acts w1 = w_acts w"
    and told: "pg_acted pg = Some r \<or> y = Inr r \<Longrightarrow> ar_action_name r = act \<and> ar_tier r = tier
      \<and> (proposed_act_executed r \<longrightarrow> w_acts w1 = w_acts w @ [(act, tier)])
      \<and> (w_acts w1 = w_acts w @ [(act, tier)] \<and> act \<noteq> vet_safe_default sd \<longrightarrow> ar_approved r = Some True)" for i r
    using run_approval_ran [of act tier sd w e c mr cx timeout token]
    unfolding run plain_ran_def Let_def fst_conv snd_conv by blast+
  have settled: "attempt_ok e asks act tier pid w w2 r"
    if "pg_acted pg = Some r \<or> y = Inr r" and "w_acts w2 = w_acts w1" for w2 r
    using ran told [OF that(1)] that(2) assms(2)
    by (intro attempt_okI [where sd = "vet_safe_default sd"]) auto
  note [simp] = defer_record_def interrupted_sel
  show ?thesis
  proof (cases y)
    case (Inr a)
    with assms(1,3) run show ?thesis by (intro settled) (auto simp: approval_workflow_def)
  next
    case (Inl i)
    show ?thesis
    proof (cases "pg_acted pg")
      case (Some a)
      define w2 where "w2 = (if pg_decision_queued pg then w1
        else defer_record (DecisionRecord (if pg_decision pg \<noteq> [] then pg_decision pg else ''approval_error'') a) w1)"
      have "approval_workflow e c mr act tier cx sd timeout token w
          = (case i of Cancelled \<Rightarrow> ((w2, Inl Cancelled), Some a) | Raised _ \<Rightarrow> ((w2, Inr a), None))"
        unfolding approval_workflow_def run Inl Some prod.case sum.case option.case Let_def w2_def ..
      moreover have "w_acts w2 = w_acts w1" by (simp add: w2_def)
      ultimately have "w_acts w' = w_acts w1" "x = Inl Cancelled \<and> acted = Some a \<or> x = Inr a"
        using assms(1) by (cases i; auto)+
      with Some assms(3) show ?thesis by (intro settled) auto
    next
      case None
      note same = none [OF None Inl]
      show ?thesis
      proof (cases i)
        case Cancelled
        with None Inl assms(1,3) run have "w' = w1" "r = interrupted_result e act tier None w'"
          by (auto simp: approval_workflow_def)
        with same show ?thesis by (intro attempt_okI) simp_all
      next
        case (Raised ex)
        obtain w2 z where res: "resolve_failed_approval e c act tier cx (vet_safe_default sd) (pg_proposal_id pg) w1 = (w2, z)"
          by (rule prod.exhaust)
        note failed = resolve_failed_ran [OF res]
        from None Inl Raised assms(1,3) run res have "w_acts w' = w_acts w2"
          "ar_action_name r = act \<and> ar_tier r = tier \<and> \<not> proposed_act_executed r"
          using failed(3) by (cases z; auto simp: approval_workflow_def)+
        with failed(1) same show ?thesis by (intro attempt_okI [where sd = "vet_safe_default sd"]) auto
      qed
    qed
  qed
qed

lemma governed_ran:
  assumes "governed_approval_workflow e c act cx sd timeout token w = (w', x)"
    and "r = (case x of Inr a \<Rightarrow> a | Inl _ \<Rightarrow> interrupted_result e act ''C'' None w')"
  shows "\<exists>pid. attempt_ok e asks act ''C'' pid w w' r"
proof -
  from governed_acts [OF assms(1)] obtain pid where ok: "acts_ok e act pid w w'"
    and once: "tier_c_acts w' \<le> Suc (tier_c_acts w)"
    and answer: "\<forall>r. x = Inr r \<longrightarrow> ar_action_name r = act \<and> ar_tier r = ''C''
         \<and> (ar_executed r \<longrightarrow> ar_safe_default_used r \<or> ar_approved r = Some True)
         \<and> (ar_approved r = Some True \<and> ar_executed r \<longrightarrow> (act, ''C'') \<in> set (w_acts w'))
         \<and> (tier_c_acts w' \<noteq> tier_c_acts w \<longrightarrow> ar_approved r = Some True \<and> ar_proposal_id r = Some pid)"
    by (elim exE conjE)
  have "attempt_ok e asks act ''C'' pid w w' r"
    unfolding attempt_ok_def
  proof
    assume "rely e"
    with ok obtain ys where acts: "w_acts w' = w_acts w @ ys" and ys: "list_all at_tier ys"
      "list_all (act_ok act pid (dp_store (w_disp w'))) ys" by (auto simp: acts_ok_def)
    have "length (filter (\<lambda>y. is_physical (fst y)) ys) \<le> 1"
      using physical_acts [OF ys] once by (simp add: tier_c_acts_def acts)
    moreover have "\<forall>y \<in> set ys. is_physical (fst y) \<longrightarrow> y = (act, ''C'') \<and> at_tier y \<and> approved (dp_store (w_disp w')) pid"
      using physical_once(1) [OF ys] ys(1) by (simp add: list_all_iff)
    moreover have "ar_action_name r = act \<and> ar_tier r = ''C'' \<and> (proposed_act_executed r \<longrightarrow> (act, ''C'') \<in> set (w_acts w'))"
      using answer assms(2) by (cases x) (auto simp: interrupted_sel proposed_act_executed_def)
    ultimately show "\<exists>ys. w_acts w' = w_acts w @ ys
        \<and> (\<forall>y \<in> set ys. is_physical (fst y) \<longrightarrow> y = (act, ''C'') \<and> at_tier y
              \<and> (''C'' = ''C'' \<longrightarrow> approved (dp_store (w_disp w')) pid)
              \<and> (''C'' = ''B'' \<and> asks \<longrightarrow> ar_approved r = Some True))
        \<and> length (filter (\<lambda>y. is_physical (fst y)) ys) \<le> 1
        \<and> ar_action_name r = act \<and> ar_tier r = ''C''
        \<and> (proposed_act_executed r \<longrightarrow> (act, ''C'') \<in> set (w_acts w'))"
      using acts by (intro exI [of _ ys]) simp
  qed
  then show ?thesis ..
qed

lemma tier_d_ran:
  assumes "run_tier_d e c cx act drives w = (w', r, driving)"
  shows "attempt_ok e asks act ''D'' pid w w' r"
proof -
  obtain w1 x where ran: "execute_immediately (shielded e) c act ''D'' cx (pass e 0 w) = (w1, x)" by (rule prod.exhaust)
  from execute_ran [OF ran] assms show ?thesis
    by (intro attempt_okI [where sd = act]; cases x)
       (auto simp: run_tier_d_def ran interrupted_sel proposed_act_executed_def split: if_splits)
qed

text \<open>Every route keeps the attempt's guarantee.\<close>

lemma attempt_ran:
  assumes "run_attempt e c rq act tier sd timeout token drives w = (w', r, driving)"
    and "tier \<in> {''A'', ''B'', ''C'', ''D''}"
  shows "\<exists>pid. attempt_ok e (tier_b_requires_approval rq) act tier pid w w' r"
proof (cases "tier = ''D''")
  case True
  with assms(1) tier_d_ran show ?thesis by (auto simp: run_attempt_def)
next
  case False
  obtain w1 x acted where below: "run_below_d e c rq act tier sd timeout token w = ((w1, x), acted)"
    by (metis prod.exhaust)
  with assms(1) False have w1: "w1 = w'" "r = (case x of Inr a \<Rightarrow> a | Inl _ \<Rightarrow> interrupted_result e act tier acted w')"
    by (auto simp: run_attempt_def split: sum.splits)
  have below': "run_below_d e c rq act tier sd timeout token w = ((w', x), acted)" using below w1 by simp
  consider "tier = ''C''" "is_physical act"
    | "approval_workflow e c (dq_message_raises rq) act tier (dq_context rq) sd timeout token w = ((w', x), acted)"
      "tier = ''C'' \<longrightarrow> \<not> is_physical act"
    | "execute_immediately e c act tier (dq_context rq) w = (w', x)" "tier \<noteq> ''C''" "tier = ''B'' \<longrightarrow> \<not> tier_b_requires_approval rq"
      "acted = None"
    using below' assms(2) by (auto simp: run_below_d_def Let_def split: if_splits)
  then show ?thesis
  proof cases
    case 1
    from below' w1(2) 1 have "\<exists>pid. attempt_ok e (tier_b_requires_approval rq) act ''C'' pid w w' r"
      by (intro governed_ran) (auto simp: run_below_d_def)
    with 1 show ?thesis by simp
  next
    case 2
    with w1(2) approval_ran show ?thesis by blast
  next
    case 3
    from execute_ran [OF 3(1)] 3 w1(2) have "attempt_ok e (tier_b_requires_approval rq) act tier [] w w' r"
      by (intro attempt_okI [where sd = act]; cases x) (auto simp: interrupted_sel proposed_act_executed_def)
    then show ?thesis ..
  qed
qed

subsection \<open>Admission\<close>

text \<open>
  The ends of \<open>_admit_and_run\<close>: a request refused or joined runs nothing; any other is attempted
  once, with the token the gate gave it, and settled.
\<close>

lemma admission_cases:
  assumes "admit_and_run e c wi rq act tier sd timeout drives w = (w', x)"
  obtains (turned_away) taken where "w_acts w' = w_acts w"
      "act_rows w' = Suc (act_rows w) \<or> act_rows w' = act_rows w \<and> taken = COALESCED" "x = Inr (unapproved act tier False taken (en_now e (w_tick w)))"
  | (attempted) token g w2 r driving where
      "run_attempt e c rq act tier sd timeout token drives (w\<lparr>w_gate := g\<rparr>) = (w2, r, driving)"
      "settle_attempt e token act tier w r driving w2 = (w', x)"
proof -
  have same: "w = w\<lparr>w_gate := w_gate w\<rparr>" by simp
  show thesis
  proof (cases "resource_for wi rq act")
    case None
    show thesis
    proof (cases "wi_gate wi \<and> \<not> is_informational act")
      case True
      with assms None turned_away show thesis
        by (auto simp: admit_and_run_def Let_def record_row_def defer_record_def)
    next
      case False
      with assms None attempted [of None "w_gate w"] show thesis
        by (auto simp: admit_and_run_def Let_def simp flip: same split: prod.splits)
    qed
  next
    case (Some ident)
    obtain g d where gd: "gate_dispatch (w_gate w) (dq_scope rq) ident tier (contributor_of rq act tier)
        (tier_b_requires_approval rq) (en_now e (w_tick w)) = (g, d)" by (rule prod.exhaust)
    show thesis
    proof (cases "gd_admission d = Joined \<or> \<not> may_execute d")
      case True
      with assms Some gd turned_away show thesis
        by (auto simp: admit_and_run_def Let_def record_row_def defer_record_def split: if_splits)
    next
      case False
      with assms Some gd attempted [of "record_of (gd_token d)" g] show thesis
        by (auto simp: admit_and_run_def Let_def split: prod.splits)
    qed
  qed
qed

lemma settle_sel:
  assumes "settle_attempt e token act tier start r driving w = (w', x)"
  shows "w_acts w' = w_acts w" "w_disp w' = w_disp w" "x = Inr r' \<Longrightarrow> r' = r"
  using assms
  by (auto simp: settle_attempt_def Let_def record_row_def defer_record_def split: if_splits option.splits)

lemma admit_ran:
  assumes "admit_and_run e c wi rq act tier sd timeout drives w = (w', x)"
    and "tier \<in> {''A'', ''B'', ''C'', ''D''}"
  shows "\<exists>pid r. attempt_ok e (tier_b_requires_approval rq) act tier pid w w' r \<and> (\<forall>a. x = Inr a \<longrightarrow> a = r)"
  using assms(1)
proof (cases rule: admission_cases)
  case (turned_away taken)
  then show ?thesis by (auto simp: attempt_ok_def unapproved_def proposed_act_executed_def)
next
  case (attempted token g w2 r driving)
  from attempt_ran [OF attempted(1) assms(2)] obtain pid
    where "attempt_ok e (tier_b_requires_approval rq) act tier pid (w\<lparr>w_gate := g\<rparr>) w2 r" ..
  then have "attempt_ok e (tier_b_requires_approval rq) act tier pid w w' r"
    by (simp add: attempt_ok_def settle_sel(1,2) [OF attempted(2)])
  with settle_sel(3) [OF attempted(2)] show ?thesis by blast
qed

text \<open>A dispatch refuses an unknown tier, falls back to the safe default where the policy says so, or runs the act.\<close>

lemma dispatch_cases:
  assumes "dispatch e c wi rq drives w = (w', x)"
  obtains (unknown) "\<not> is_valid_tier (str_upper (dq_tier rq))" "w_acts w' = w_acts w" "act_rows w' = act_rows w"
      "\<And>r. x = Inr r \<Longrightarrow> r = unapproved (dq_action rq) (str_upper (dq_tier rq)) False ''refused_unknown_tier'' (en_now e (w_tick w))"
  | (left) "is_valid_tier (str_upper (dq_tier rq))" "w_acts w' = w_acts w" "act_rows w' = act_rows w"
      "x = Inl Cancelled"
  | (suppressed) w1 where "is_valid_tier (str_upper (dq_tier rq))" "w_acts w1 = w_acts w" "act_rows w1 = act_rows w"
      "admit_and_run e c wi rq (vet_safe_default (dq_safe_default rq)) ''A'' (vet_safe_default (dq_safe_default rq))
         (approval_window rq) drives w1 = (w', x)"
  | (run) "is_valid_tier (str_upper (dq_tier rq))"
      "governed_outcome (dq_action rq) \<noteq> None \<Longrightarrow> dispatch_tier rq \<in> {''B'', ''C''}
         \<Longrightarrow> permits_relay_action c (dispatch_tier rq) (en_now e (w_tick w) div 1000)"
      "admit_and_run e c wi rq (dq_action rq) (dispatch_tier rq) (vet_safe_default (dq_safe_default rq))
         (approval_window rq) drives w = (w', x)"
proof (cases "is_valid_tier (str_upper (dq_tier rq))")
  case False
  with assms unknown show thesis
    by (auto simp: dispatch_def Let_def sleep_def defer_record_def split: if_splits)
next
  case True
  show thesis
  proof (cases "governed_outcome (dq_action rq) \<noteq> None \<and> dispatch_tier rq \<in> {''B'', ''C''}
      \<and> \<not> permits_relay_action c (dispatch_tier rq) (en_now e (w_tick w) div 1000)")
    case sup: True
    show thesis
    proof (cases "en_cancel e (w_tick w)")
      case c: True
      with assms True sup left show thesis by (auto simp: dispatch_def Let_def sleep_def)
    next
      case c: False
      let ?w1 = "defer_record (InlineRow ((unapproved (dq_action rq) (dispatch_tier rq) False SUPPRESSED (en_now e (w_tick w)))
          \<lparr>ar_operator_response := Some ''policy_suppression''\<rparr>)) (pass e 0 w)"
      show thesis
        by (rule suppressed [of ?w1]) (use assms True sup c in \<open>auto simp: dispatch_def Let_def sleep_def defer_record_def\<close>)
    qed
  next
    case False
    with assms True run show thesis unfolding dispatch_def Let_def by (auto simp del: dispatch_tier_def)
  qed
qed

subsection \<open>What the routes guarantee\<close>

context coroutine_guarantee
begin

lemma keeps_pg:
  assumes "keeps R w r" and "\<And>a w'. r = (w', Inr a) \<Longrightarrow> keeps R w' (fst (k a w'))"
  shows "keeps R w (fst (then_pg r pg k))"
proof (cases r)
  case (Pair w' x)
  with assms show ?thesis by (cases x) (auto simp: then_pg_def keeps_def intro: R_trans)
qed

lemma keeps_conclude: "keeps R w (fst (conclude e' pg d r w))"
  by (auto simp: conclude_def Let_def defer_record_def intro!: keeps_quiet)

lemma keeps_note_refusal: "R w (note_refusal c' a t en resp w)"
  by (rule quiet) (auto simp: note_refusal_def Let_def defer_record_def split: option.split)

lemma keeps_plain:
  assumes "\<And>w x. licensed w x"
  shows "keeps R w (fst (run_approval_workflow e c mr a tier cx sd timeout token w))"
proof -
  have ok: "keeps R w1 (fst (carry_approved e c a tier cx token pg resp w1))" for w1 pg resp
    unfolding carry_approved_def
    by (intro keeps_pg keeps_gate_admits) (auto simp: Let_def intro!: keeps_pg keeps_execute assms keeps_conclude)
  have no: "keeps R w1 (fst (carry_refused e c a tier cx sd' pg timed_out ended resp w1))" for w1 sd' pg timed_out ended resp
    unfolding carry_refused_def Let_def
    by (intro keeps_pg keeps_execute assms)
       (auto intro!: keeps_pg keeps_escalate keeps_here keeps_trans [OF keeps_note_refusal keeps_conclude])
  have decide: "keeps R w1 (reply_decision e c a tier pid console reply resp w1)" for w1 pid console reply resp
    unfolding reply_decision_def v1_token_def Let_def
    by (auto intro!: keeps_then [OF keeps_sleep] keeps_here split: reply_kind.split)
  show ?thesis
    unfolding run_approval_workflow_def Let_def
    by (auto intro!: keeps_here keeps_pg keeps_ask keeps_listen decide ok no split: option.split)
qed

lemma keeps_approval:
  assumes "\<And>w x. licensed w x"
  shows "keeps R w (fst (approval_workflow e c mr a tier cx sd timeout token w))"
proof -
  have deferred: "R w1 (defer_record (DecisionRecord d r) w1)" for w1 d r by (rule quiet) (simp_all add: defer_record_def)
  have failed: "keeps R w1 (then_io (resolve_failed_approval e c a tier cx sd' pid w1)
      (\<lambda>r w2. (defer_record (DecisionRecord ''approval_error'' r) w2, Inr r)))" for w1 sd' pid
    unfolding resolve_failed_approval_def
    by (intro keeps_then keeps_execute assms) (auto intro: keeps_here keepsI deferred)
  obtain w1 y pg where run: "run_approval_workflow e c mr a tier cx sd timeout token w = ((w1, y), pg)"
    by (metis prod.exhaust)
  have w1: "R w w1" using keeps_plain [OF assms, of w mr a tier cx sd timeout token] by (simp add: run keeps_def)
  have acted: "R w (defer_record (DecisionRecord d r) w1)" for d r by (rule R_trans [OF w1 deferred])
  show ?thesis
  proof (cases y)
    case (Inl i)
    show ?thesis
      unfolding approval_workflow_def run Inl prod.case sum.case Let_def
      by (cases "pg_acted pg"; cases i) (auto intro: keepsI w1 acted keeps_trans [OF w1 failed])
  qed (simp add: approval_workflow_def run keepsI w1)
qed

end

lemma governed_keeps:
  assumes "\<And>pid. approval_guarantee e R (\<lambda>_ _. True) act pid"
  shows "keeps R w (governed_approval_workflow e c act cx sd timeout token w)"
proof -
  obtain w' x where run: "governed_approval_workflow e c act cx sd timeout token w = (w', x)" by (rule prod.exhaust)
  note base = approval_guarantee.axioms(1) [OF assms [of "[]"]]
  note quiet = coroutine_guarantee.quiet [OF base] and trans = coroutine_guarantee.R_trans [OF base]
  from run show ?thesis
  proof (cases rule: governed_cases)
    case raised
    with run show ?thesis by (simp add: coroutine_guarantee.keeps_here [OF base])
  next
    case (refused why notice)
    with run coroutine_guarantee.keeps_refuse [OF base, where w = w and sd = sd and c = c and a = act and cx = cx and why = why and notice = notice] show ?thesis by simp
  next
    case (run row deadline w1)
    let ?w0 = "hold_deadline (np_proposal_id row) deadline w"
    define pid where "pid = (case create_proposal e c deadline row ?w0 of
        (_, Inr (_, row1)) \<Rightarrow> np_proposal_id row1 | _ \<Rightarrow> [])"
    have "keeps R ?w0 (run_governed_workflow e c act cx (vetted_default sd) token row deadline ?w0)"
      by (rule approval_guarantee.keeps_workflow [OF assms, where pid = pid]) (simp_all add: pid_def)
    then have "R ?w0 w1" using run by (simp add: keeps_def)
    moreover have "R w ?w0" "R w1 w'"
      by (rule quiet; simp add: run(2) hold_deadline_def drop_deadline_def update_disp_def)+
    ultimately have "R w w'" using trans by blast
    with \<open>governed_approval_workflow e c act cx sd timeout token w = (w', x)\<close> show ?thesis by (simp add: keeps_def)
  qed
qed

interpretation unrecorded: approval_guarantee e c "unrecorded e" "\<lambda>_ _. True" act pid for e c act pid
proof
  show "unrecorded e w w''" if "unrecorded e w w'" "unrecorded e w' w''" for w w' w''
    using that by (auto simp: unrecorded_def)
  show "unrecorded e w (pass e s w)" for w s by (auto simp: unrecorded_def grows_def)
qed (auto simp: unrecorded_def)

lemma shielded_sel [simp]:
  "pass (shielded e) s w = pass e s w" "unrecorded (shielded e) = unrecorded e" "grows (shielded e) = grows e"
  "\<not> en_cancel (shielded e) n"
  by (simp_all add: pass_def shielded_def unrecorded_def grows_def fun_eq_iff)

lemma attempt_unrecorded:
  assumes "run_attempt e c rq act tier sd timeout token drives w = (w', r, driving)"
  shows "unrecorded e w w'"
proof (cases "tier = ''D''")
  case True
  have "keeps (unrecorded e) (pass e 0 w) (execute_immediately (shielded e) c act ''D'' (dq_context rq) (pass e 0 w))"
    using unrecorded.keeps_execute [where e = "shielded e" and w = "pass e 0 w"] by simp
  then have "unrecorded e (pass e 0 w) w'"
    using assms True by (auto simp: run_attempt_def run_tier_d_def keeps_def split: prod.splits sum.splits if_splits)
  with unrecorded.R_trans [OF unrecorded.awaits] show ?thesis by blast
next
  case False
  have "keeps (unrecorded e) w (fst (run_below_d e c rq act tier sd timeout token w))"
    by (simp add: run_below_d_def Let_def unrecorded.keeps_execute unrecorded.keeps_approval
        governed_keeps [OF unrecorded.approval_guarantee_axioms])
  with assms False show ?thesis
    by (auto simp: run_attempt_def keeps_def split: prod.splits sum.splits)
qed

subsection \<open>Settling\<close>

lemma settle_rows:
  assumes "settle_attempt e token act tier start r driving w = (w', x)"
  shows "act_rows w' = Suc (act_rows w)"
  using assms
  by (auto simp: settle_attempt_def Let_def record_row_def defer_record_def split: if_splits option.splits)

lemma retire_lets_go:
  assumes "a < length (g_heap g)"
  shows "gr_state (rec_at (retire g a res) a) = Uncertain
    \<or> gr_state (rec_at (retire g a res) a) = Retired
      \<and> map_of (g_records (retire g a res)) (resource_key (gr_identity (rec_at (retire g a res) a))) \<noteq> Some a"
  using assms by (auto simp: retire_def Let_def release_holder_def delete_conv)

lemma settle_lets_go:
  assumes "settle_attempt e (Some a) act tier start r driving w = (w', x)" and "a < length (g_heap (w_gate w))"
  shows "gr_state (rec_at (w_gate w') a) = Uncertain
    \<or> gr_state (rec_at (w_gate w') a) = Retired
      \<and> map_of (g_records (w_gate w')) (resource_key (gr_identity (rec_at (w_gate w') a))) \<noteq> Some a"
proof -
  have "w_gate w' = (if driving then mark_uncertain (w_gate w) a (en_now e (w_tick w))
      else retire (w_gate w) a (Some (proposed_act_executed r)))"
    using assms(1) by (auto simp: settle_attempt_def Let_def record_row_def defer_record_def split: if_splits)
  moreover have "gr_state (rec_at (mark_uncertain (w_gate w) a now) a) = Uncertain" for now
    using assms(2) by (simp add: mark_uncertain_def Let_def)
  ultimately show ?thesis using retire_lets_go [OF assms(2)] by simp
qed

lemma dispatch_admits:
  assumes "gate_dispatch g scope ident tier c ra now = (g', d)" and "may_execute d"
  shows "gd_token d = Some (RecordToken (length (g_heap g)))" and "length (g_heap g') = Suc (length (g_heap g))"
proof -
  let ?r = "request g scope ident tier (c\<lparr>ct_dispatch_tier := tier, ct_tier_d_granted := (tier = ''D'')\<rparr>)
    (awaits_operator tier ra) now"
  have d: "d = snd ?r" and g': "length (g_heap g') = length (g_heap (fst ?r))"
    using assms(1) unfolding gate_dispatch_eq Let_def by (auto simp: mark_running_def)
  note admits = request_admits [OF request_is_result, of g scope ident tier]
  show "gd_token d = Some (RecordToken (length (g_heap g)))" "length (g_heap g') = Suc (length (g_heap g))"
    using assms(2) admits(1,2) unfolding d g' by blast+
qed

section \<open>Properties\<close>

text \<open>
  C1. Nothing actuates without its authority. Whatever a skill declares, whatever tier it asks for,
  whatever operators reply, whatever fails and whenever the task is cancelled, a dispatch runs at
  most one physical act, and only the one it was asked for: at Tier D only when Tier D was asked by
  a skill of proven first-party provenance, at Tier C only with its proposal's approval committed to
  the store, and below only the constrained-device command whose registered floor is B, approved
  where its trigger asks for approval. A protected circuit is driven below Tier D only where the
  deployment enables the relay. A result that claims the act was carried out names an act that ran.
\<close>

theorem dispatch_acts_with_authority:
  assumes "rely e" and "w_acts w = []" and "dispatch e c wi rq drives w = (w', x)"
  shows "\<exists>pid. (\<forall>y \<in> set (w_acts w'). is_physical (fst y) \<longrightarrow> fst y = dq_action rq
      \<and> (snd y = ''D'' \<and> str_upper (dq_tier rq) = ''D'' \<and> sc_first_party (dq_context rq)
         \<or> snd y = ''C'' \<and> approved (dp_store (w_disp w')) pid
         \<or> snd y = ''B'' \<and> fst y = ''coap_command''
             \<and> (tier_b_requires_approval rq \<longrightarrow> (\<forall>r. x = Inr r \<longrightarrow> ar_approved r = Some True)))
      \<and> (governed_outcome (fst y) \<noteq> None \<and> snd y \<noteq> ''D'' \<longrightarrow> dc_relay_b_c_enabled c))
    \<and> length (filter (\<lambda>y. is_physical (fst y)) (w_acts w')) \<le> 1
    \<and> (\<forall>r. x = Inr r \<and> proposed_act_executed r \<longrightarrow> (ar_action_name r, ar_tier r) \<in> set (w_acts w'))"
  using assms(3)
proof (cases rule: dispatch_cases)
  case unknown
  then have "\<not> proposed_act_executed r" if "x = Inr r" for r
    using unknown(4) [OF that] by (simp add: unapproved_def proposed_act_executed_def)
  moreover have "w_acts w' = []" using unknown(2) assms(2) by simp
  ultimately show ?thesis by auto
next
  case left
  with assms(2) show ?thesis by simp
next
  case (suppressed w1)
  from admit_ran [OF suppressed(4)] obtain pid r where
      ok: "attempt_ok e (tier_b_requires_approval rq) (vet_safe_default (dq_safe_default rq)) ''A'' pid w1 w' r"
    and answer: "\<forall>a. x = Inr a \<longrightarrow> a = r" by auto
  have none: "\<not> is_physical (fst y)" if "y \<in> set (w_acts w')" for y
    using ok assms(1,2) suppressed(2) that by (auto simp: attempt_ok_def)
  then have "filter (\<lambda>y. is_physical (fst y)) (w_acts w') = []" by (simp add: filter_empty_conv)
  with none ok answer assms(1) show ?thesis by (auto simp: attempt_ok_def)
next
  case run
  note tiers = dispatch_tier_cases [OF run(1)]
  from admit_ran [OF run(3) tiers(1)] obtain pid r where
      ok: "attempt_ok e (tier_b_requires_approval rq) (dq_action rq) (dispatch_tier rq) pid w w' r"
    and answer: "\<forall>a. x = Inr a \<longrightarrow> a = r" by auto
  have acts: "y = (dq_action rq, dispatch_tier rq) \<and> (dispatch_tier rq = ''C'' \<longrightarrow> approved (dp_store (w_disp w')) pid)
      \<and> (dispatch_tier rq = ''B'' \<and> tier_b_requires_approval rq \<longrightarrow> ar_approved r = Some True)"
    if "y \<in> set (w_acts w')" "is_physical (fst y)" for y
    using ok assms(1,2) that by (auto simp: attempt_ok_def)
  have relay: "dc_relay_b_c_enabled c" if "governed_outcome (dq_action rq) \<noteq> None" "dispatch_tier rq \<in> {''B'', ''C''}"
    using run(2) [OF that] that(2) by (auto simp: permits_relay_action_def)
  have not_A: "dispatch_tier rq \<noteq> ''A''" if "is_physical (dq_action rq)"
    using tiers(3) physical_not_at_A [OF that] by auto
  have "fst y = dq_action rq
      \<and> (snd y = ''D'' \<and> str_upper (dq_tier rq) = ''D'' \<and> sc_first_party (dq_context rq)
         \<or> snd y = ''C'' \<and> approved (dp_store (w_disp w')) pid
         \<or> snd y = ''B'' \<and> fst y = ''coap_command''
             \<and> (tier_b_requires_approval rq \<longrightarrow> (\<forall>r. x = Inr r \<longrightarrow> ar_approved r = Some True)))
      \<and> (governed_outcome (fst y) \<noteq> None \<and> snd y \<noteq> ''D'' \<longrightarrow> dc_relay_b_c_enabled c)"
    if "y \<in> set (w_acts w')" "is_physical (fst y)" for y
    using acts [OF that] that(2) tiers not_A physical_floor(1) [of "dq_action rq"] relay answer by auto
  moreover have "length (filter (\<lambda>y. is_physical (fst y)) (w_acts w')) \<le> 1"
    "\<forall>r. x = Inr r \<and> proposed_act_executed r \<longrightarrow> (ar_action_name r, ar_tier r) \<in> set (w_acts w')"
    using ok answer assms(1,2) by (auto simp: attempt_ok_def)
  ultimately show ?thesis by blast
qed

theorem dispatch_acts_with_authority_witness:
  "w_acts (fst (dispatch example_env example_config example_wiring example_request False example_world)) = [(''trip_relay'', ''D'')]
   \<and> is_physical ''trip_relay'' \<and> str_upper (dq_tier example_request) = ''D''"
proof -
  have acts: "w_acts (fst (dispatch example_env example_config example_wiring example_request False example_world))
      = [(''trip_relay'', ''D'')]" by code_simp
  have none: "w_acts example_world = []" by (simp add: example_world_def)
  have "is_physical ''trip_relay''" by code_simp
  with dispatch_acts_with_authority [OF example_rely none, of example_config example_wiring example_request False
      "fst (dispatch example_env example_config example_wiring example_request False example_world)"
      "snd (dispatch example_env example_config example_wiring example_request False example_world)"] acts
  show ?thesis by auto
qed

text \<open>
  C18. The tier an act is run at. From any valid request, however it is spelt and whatever the skill
  lists for the action, the dispatcher arrives at one of the four tiers: Tier D exactly when Tier D
  was asked and the skill's first-party provenance is proven, never below the registry's floor for
  the action, and never below the tier that was asked, a Tier D that is not held counting as C.
\<close>

theorem dispatch_tier_well_formed:
  assumes "is_valid_tier (str_upper (dq_tier rq))"
  shows "dispatch_tier rq \<in> {''A'', ''B'', ''C'', ''D''}
    \<and> (dispatch_tier rq = ''D'' \<longleftrightarrow> str_upper (dq_tier rq) = ''D'' \<and> sc_first_party (dq_context rq))
    \<and> enforce_minimum_tier (dq_action rq) (dispatch_tier rq) = dispatch_tier rq
    \<and> tier_rank (dispatch_tier rq) \<ge> min (tier_rank (dq_tier rq)) (if sc_first_party (dq_context rq) then 4 else 3)"
proof -
  let ?asked = "str_upper (dq_tier rq)"
  let ?held = "if ?asked = ''D'' \<and> \<not> holds_tier_d_authority (dq_context rq) then ''C'' else ?asked"
  have held: "?held \<in> {''A'', ''B'', ''C'', ''D''}"
    using assms by (auto simp: is_valid_tier_def TIER_ORDER_def split: if_splits)
  have "tier_rank ?held \<le> tier_rank (dispatch_tier rq)"
    unfolding dispatch_tier_def Let_def
    by (rule order.trans [OF declared_tier_cases(2) [OF held, where act = "dq_action rq" and av = "dq_available rq"]]) (simp add: enforce_rank)
  moreover have "min (tier_rank (dq_tier rq)) (if sc_first_party (dq_context rq) then 4 else 3) \<le> tier_rank ?held"
    using tier_rank_le_4 [of "dq_tier rq"] by (simp add: holds_tier_d_authority_def)
  ultimately show ?thesis using dispatch_tier_cases [OF assms] by (simp add: at_tier_def)
qed

theorem dispatch_tier_well_formed_witness:
  "dispatch_tier example_request = ''D'' \<and> is_valid_tier (str_upper (dq_tier example_request))"
proof -
  have valid: "is_valid_tier (str_upper (dq_tier example_request))"
    and "str_upper (dq_tier example_request) = ''D''" "sc_first_party (dq_context example_request)" by code_simp+
  with dispatch_tier_well_formed [OF valid] show ?thesis by simp
qed





end
