(* ===== verification/Dispatch_Coordinator.thy ===== *)
theory Dispatch_Coordinator
  imports Gate_Laws
begin

text \<open>
  \<open>ori/reasoning/dispatch_coordinator.py\<close> and the cooldowns of \<open>ori/reasoning/rule_engine.py\<close>:
  one event, one evaluation of every skill, before anything is dispatched. Every event in
  progress is a process; a step is what one of them does between two awaits, so any interleaving
  of events, answers of the dispatcher, ends of reasoning tasks, cancellations and changes of the
  skills is a sequence of steps. Plans are objects with an identity: they live in a heap, and an
  index is the object. What the rules match and what the dispatcher answers are arguments of the
  steps; the order of what the coordinator starts is kept as a trace.
\<close>

section \<open>Skills, matches and plans\<close>

text \<open>
  What the coordinator reads of a loaded skill: the sensor types of \<open>sensors_required\<close>, the
  actions \<open>defaults\<close> names per trigger, the tier of each \<open>available\<close> action and the cooldown of
  each trigger.
\<close>

record skill =
  sk_name :: string
  sk_first_party :: bool
  sk_sensor_types :: "string list"
  sk_defaults :: "(string \<times> string list) list"
  sk_available :: "(string \<times> string) list"
  sk_cooldowns :: "(string \<times> int) list"

record rule_match =
  rm_rule_name :: string
  rm_action_tier :: string
  rm_bypass_llm :: bool

definition unique_sensor_types :: "string list \<Rightarrow> string list" where
  "unique_sensor_types ts =
     (let seen = fold (\<lambda>t acc. if t \<noteq> [] \<and> t \<notin> set acc then acc @ [t] else acc) ts []
      in if seen = [] then [''*''] else seen)"

definition skill_eligible :: "skill \<Rightarrow> string \<Rightarrow> bool" where
  "skill_eligible sk sensor_type =
     (let declared = unique_sensor_types (sk_sensor_types sk)
      in ''*'' \<in> set declared \<or> sensor_type \<in> set declared)"

definition declared_actions :: "skill \<Rightarrow> string \<Rightarrow> string list" where
  "declared_actions sk trigger = (case map_of (sk_defaults sk) trigger of Some as \<Rightarrow> as | None \<Rightarrow> [])"

definition declared_tier_of :: "skill \<Rightarrow> string \<Rightarrow> string" where
  "declared_tier_of sk act = (case map_of (sk_available sk) act of Some t \<Rightarrow> str_upper t | None \<Rightarrow> ''A'')"

definition cooldown_for :: "skill \<Rightarrow> string \<Rightarrow> int" where
  "cooldown_for sk trigger = (case map_of (sk_cooldowns sk) trigger of Some c \<Rightarrow> c | None \<Rightarrow> 0)"

definition plan_for ::
  "binding_view option \<Rightarrow> string list \<Rightarrow> string \<Rightarrow> skill \<Rightarrow> rule_match \<Rightarrow> trigger_plan" where
  "plan_for binding executors sensor_id sk m =
     (let incident = str_upper (if rm_action_tier m = [] then ''A'' else rm_action_tier m);
          declared = declared_actions sk (rm_rule_name m)
      in \<lparr>tp_skill_name = sk_name sk, tp_trigger_name = rm_rule_name m, tp_incident_tier = incident,
          tp_bypass_llm = rm_bypass_llm m, tp_first_party = sk_first_party sk,
          tp_actions = map (\<lambda>a. assign_action_tier
            \<lparr>pa_action = a, pa_incident_tier = incident, pa_declared_tier = declared_tier_of sk a,
             pa_bypass_llm = rm_bypass_llm m, pa_first_party = sk_first_party sk, pa_declared_actions = declared,
             pa_binding = binding, pa_has_executor = (a \<in> set executors),
             pa_identity_args =
               \<lparr>ia_zone_identity_key = (case binding of Some b \<Rightarrow> bv_zone_identity_key b | None \<Rightarrow> None),
                ia_binding_revision = (case binding of Some b \<Rightarrow> bv_binding_revision b | None \<Rightarrow> []),
                ia_target = sensor_id, ia_coap_uri = [], ia_coap_parameters = []\<rparr>\<rparr>) declared,
          tp_cooldown_seconds = cooldown_for sk (rm_rule_name m), tp_scheduled = False,
          tp_holds_in_flight = False, tp_remainder_held = False\<rparr>)"

section \<open>The coordinator's state\<close>

text \<open>
  Where \<open>dispatch_event\<close> stands: before its discovery; attempting its Tier D acts; giving the
  notices just scheduled their head start; evaluating the rest; waiting for its reasoning tasks;
  over. \<open>er_attempts\<close>: the Tier D attempts not yet answered, as plan and action;
  \<open>er_scheduled\<close>: the plans whose reasoning task runs.
\<close>

datatype event_phase = Discovering | Attempting | HeadStart | Resting | Settling | Over

record event_run =
  er_event_id :: string
  er_sensor_type :: string
  er_sensor_id :: string
  er_scope :: string
  er_phase :: event_phase
  er_opened :: bool
  er_pending :: "skill list"
  er_immediate :: "nat list"
  er_plans :: "nat list"
  er_attempts :: "(nat \<times> nat) list"
  er_scheduled :: "nat list"

datatype observation =
    StartedTierD nat nat nat
  | RanHooks nat
  | ScheduledReasoning nat nat
  | Charged nat

record coordinator =
  co_skills :: "skill list"
  co_claimed :: "string list"
  co_binding :: "binding_view option"
  co_executors :: "string list"
  co_in_flight :: "(string \<times> string) set"
  co_cooldowns :: "(string \<times> int) list"
  co_heap :: "trigger_plan list"
  co_events :: "event_run list"
  co_gate :: gate
  co_trace :: "observation list"

definition CLAIM_WINDOW :: nat where
  "CLAIM_WINDOW = 512"

definition new_coordinator :: "gate \<Rightarrow> string list \<Rightarrow> coordinator" where
  "new_coordinator g executors =
     \<lparr>co_skills = [], co_claimed = [], co_binding = None, co_executors = executors, co_in_flight = {},
      co_cooldowns = [], co_heap = [], co_events = [], co_gate = g, co_trace = []\<rparr>"

definition plan_at :: "coordinator \<Rightarrow> nat \<Rightarrow> trigger_plan" where
  "plan_at s p = co_heap s ! p"

definition set_plan :: "nat \<Rightarrow> (trigger_plan \<Rightarrow> trigger_plan) \<Rightarrow> coordinator \<Rightarrow> coordinator" where
  "set_plan p f s = s\<lparr>co_heap := (co_heap s)[p := f (co_heap s ! p)]\<rparr>"

definition set_event :: "nat \<Rightarrow> (event_run \<Rightarrow> event_run) \<Rightarrow> coordinator \<Rightarrow> coordinator" where
  "set_event e f s = s\<lparr>co_events := (co_events s)[e := f (co_events s ! e)]\<rparr>"

definition observe_that :: "observation \<Rightarrow> coordinator \<Rightarrow> coordinator" where
  "observe_that x s = s\<lparr>co_trace := co_trace s @ [x]\<rparr>"

section \<open>Registration and the claim\<close>

definition add_skill :: "skill \<Rightarrow> coordinator \<Rightarrow> coordinator" where
  "add_skill sk s = s\<lparr>co_skills := filter (\<lambda>x. sk_name x \<noteq> sk_name sk) (co_skills s) @ [sk]\<rparr>"

definition remove_skill :: "string \<Rightarrow> coordinator \<Rightarrow> coordinator" where
  "remove_skill name s = s\<lparr>co_skills := filter (\<lambda>x. sk_name x \<noteq> name) (co_skills s)\<rparr>"

definition clear_skills :: "coordinator \<Rightarrow> coordinator" where
  "clear_skills s = s\<lparr>co_skills := []\<rparr>"

definition set_binding :: "binding_view option \<Rightarrow> coordinator \<Rightarrow> coordinator" where
  "set_binding b s = s\<lparr>co_binding := b\<rparr>"

definition skill_named :: "coordinator \<Rightarrow> string \<Rightarrow> skill option" where
  "skill_named s name = List.find (\<lambda>x. sk_name x = name) (co_skills s)"

text \<open>\<open>_claim\<close>: the oldest claims are forgotten past the window; an event without an id is always new.\<close>

definition claim :: "string \<Rightarrow> coordinator \<Rightarrow> coordinator \<times> bool" where
  "claim key s =
     (if key = [] then (s, True)
      else if key \<in> set (co_claimed s) then (s, False)
      else let cs = co_claimed s @ [key]
           in (s\<lparr>co_claimed := drop (length cs - CLAIM_WINDOW) cs\<rparr>, True))"

text \<open>\<open>handle_event\<close>: a claimed event becomes a process; \<open>scope\<close> names an event that has no id.\<close>

definition handle_event :: "string \<Rightarrow> string \<Rightarrow> string \<Rightarrow> string \<Rightarrow> coordinator \<Rightarrow> coordinator" where
  "handle_event event_id sensor_type sensor_id scope s =
     (case claim event_id s of
        (s1, False) \<Rightarrow> s1
      | (s1, True) \<Rightarrow>
          s1\<lparr>co_events := co_events s1 @
            [\<lparr>er_event_id = event_id, er_sensor_type = sensor_type, er_sensor_id = sensor_id,
              er_scope = (if event_id \<noteq> [] then event_id else scope), er_phase = Discovering,
              er_opened = False, er_pending = [], er_immediate = [], er_plans = [], er_attempts = [],
              er_scheduled = []\<rparr>]\<rparr>)"

section \<open>Cooldowns and holds\<close>

definition cooldown_key :: "string \<Rightarrow> string \<Rightarrow> string" where
  "cooldown_key rule scope = (if scope \<noteq> [] then scope @ [CHR 0x1F] @ rule else rule)"

definition in_cooldown :: "(string \<times> int) list \<Rightarrow> string \<Rightarrow> int \<Rightarrow> string \<Rightarrow> int \<Rightarrow> bool" where
  "in_cooldown table rule cooldown_seconds scope now =
     (if cooldown_seconds \<le> 0 then False
      else case map_of table (cooldown_key rule scope) of
        None \<Rightarrow> False
      | Some last_fired \<Rightarrow> now - last_fired < cooldown_seconds * 1000)"

definition record_fire :: "string \<Rightarrow> string \<Rightarrow> int \<Rightarrow> coordinator \<Rightarrow> coordinator" where
  "record_fire rule scope now s = s\<lparr>co_cooldowns := AList.update (cooldown_key rule scope) now (co_cooldowns s)\<rparr>"

definition plan_key :: "trigger_plan \<Rightarrow> string \<times> string" where
  "plan_key t = (tp_skill_name t, tp_trigger_name t)"

definition release_plan :: "nat \<Rightarrow> coordinator \<Rightarrow> coordinator" where
  "release_plan p s =
     (if tp_holds_in_flight (plan_at s p)
      then (set_plan p (\<lambda>t. t\<lparr>tp_holds_in_flight := False\<rparr>) s)
             \<lparr>co_in_flight := co_in_flight s - {plan_key (plan_at s p)}\<rparr>
      else s)"

definition hold_one :: "int \<Rightarrow> nat \<Rightarrow> nat list \<times> coordinator \<Rightarrow> nat list \<times> coordinator" where
  "hold_one now p ks =
     (case ks of (kept, s) \<Rightarrow>
        let t = plan_at s p
        in if tp_cooldown_seconds t > 0 \<and> tp_trigger_name t \<noteq> [] then
             (if plan_key t \<in> co_in_flight s
                 \<or> in_cooldown (co_cooldowns s) (tp_trigger_name t) (tp_cooldown_seconds t) (tp_skill_name t) now
              then (if grants_tier_d t then (kept @ [p], set_plan p (\<lambda>t. t\<lparr>tp_remainder_held := True\<rparr>) s)
                    else (kept, s))
              else (kept @ [p], (set_plan p (\<lambda>t. t\<lparr>tp_holds_in_flight := True\<rparr>) s)
                                  \<lparr>co_in_flight := insert (plan_key t) (co_in_flight s)\<rparr>))
           else (kept @ [p], s))"

definition hold_in_flight :: "int \<Rightarrow> nat list \<Rightarrow> coordinator \<Rightarrow> nat list \<times> coordinator" where
  "hold_in_flight now ps s = fold (hold_one now) ps ([], s)"

section \<open>Charging\<close>

definition charge :: "nat \<Rightarrow> int \<Rightarrow> coordinator \<Rightarrow> coordinator" where
  "charge p now s =
     (let t = plan_at s p
      in if tp_trigger_name t \<noteq> [] \<and> consumes_cooldown (cooldown_outcome t)
         then observe_that (Charged p) (record_fire (tp_trigger_name t) (tp_skill_name t) now s) else s)"

definition settle_pending :: "trigger_plan \<Rightarrow> trigger_plan" where
  "settle_pending t =
     t\<lparr>tp_actions := map (\<lambda>a. if pl_outcome a = Pending then a\<lparr>pl_outcome := Attempted\<rparr> else a) (tp_actions t)\<rparr>"

definition charge_settled_plan :: "nat \<Rightarrow> int \<Rightarrow> coordinator \<Rightarrow> coordinator" where
  "charge_settled_plan p now s =
     (if tp_trigger_name (plan_at s p) = [] then s else charge p now (set_plan p settle_pending s))"

definition charge_plan :: "nat \<Rightarrow> int \<Rightarrow> coordinator \<Rightarrow> coordinator" where
  "charge_plan p now s = release_plan p (charge_settled_plan p now s)"

definition charge_unscheduled :: "int \<Rightarrow> nat \<Rightarrow> coordinator \<Rightarrow> coordinator" where
  "charge_unscheduled now p s = (if tp_scheduled (plan_at s p) then s else release_plan p (charge p now s))"

definition charge_cooldowns :: "nat list \<Rightarrow> int \<Rightarrow> coordinator \<Rightarrow> coordinator" where
  "charge_cooldowns ps now s = fold (charge_unscheduled now) ps s"

section \<open>Outcomes\<close>

text \<open>What the dispatcher's answer makes of a planned action; None when it raised.\<close>

definition refused_taken :: "string \<Rightarrow> bool" where
  "refused_taken taken = starts_with ''refused_'' taken"

definition attempt_outcome :: "string option \<Rightarrow> planned_action \<Rightarrow> planned_action" where
  "attempt_outcome answer a =
     (let taken = (case answer of Some t \<Rightarrow> t | None \<Rightarrow> [])
      in if refused_taken taken
         then a\<lparr>pl_outcome := FullyRefused, pl_refusal := Some (RefusedAs (drop 8 taken))\<rparr>
         else if taken = ''coalesced'' then a\<lparr>pl_outcome := JoinedAttempt\<rparr> else a\<lparr>pl_outcome := Attempted\<rparr>)"

definition record_planned_outcome :: "string \<Rightarrow> bool option \<Rightarrow> planned_action \<Rightarrow> planned_action" where
  "record_planned_outcome taken approved_by a =
     (if refused_taken taken
      then a\<lparr>pl_outcome := FullyRefused, pl_refusal := Some (RefusedAs (drop 8 taken))\<rparr>
      else if taken = ''coalesced'' then a\<lparr>pl_outcome := JoinedAttempt\<rparr>
      else if approved_by \<noteq> None then a\<lparr>pl_outcome := ProposalOpened\<rparr> else a\<lparr>pl_outcome := Attempted\<rparr>)"

definition set_action :: "nat \<Rightarrow> (planned_action \<Rightarrow> planned_action) \<Rightarrow> trigger_plan \<Rightarrow> trigger_plan" where
  "set_action i f t = t\<lparr>tp_actions := (tp_actions t)[i := f (tp_actions t ! i)]\<rparr>"

text \<open>
  The reasoning path on a plan: what a Tier D grant or a refusal at admission covers is not
  dispatched; every other dispatch that answers is written back.
\<close>

definition reason_answer :: "nat \<times> string \<times> bool option \<Rightarrow> trigger_plan \<Rightarrow> trigger_plan" where
  "reason_answer x t =
     (case x of (i, taken, approved_by) \<Rightarrow>
        if i < length (tp_actions t) \<and> \<not> pl_tier_d_granted (tp_actions t ! i) \<and> admitted (tp_actions t ! i)
        then set_action i (record_planned_outcome taken approved_by) t else t)"

section \<open>The steps of an event\<close>

text \<open>
  Discovery over skills: \<open>found\<close> gives the matches of a skill, None where its evaluation failed.
\<close>

definition plans_of ::
  "coordinator \<Rightarrow> string \<Rightarrow> skill list \<Rightarrow> (string \<Rightarrow> rule_match list option) \<Rightarrow> trigger_plan list" where
  "plans_of s sensor_id sks found =
     concat (map (\<lambda>sk. case found (sk_name sk) of
        Some ms \<Rightarrow> map (plan_for (co_binding s) (co_executors s) sensor_id sk) ms | None \<Rightarrow> []) sks)"

definition new_plans :: "trigger_plan list \<Rightarrow> coordinator \<Rightarrow> nat list \<times> coordinator" where
  "new_plans ts s = ([length (co_heap s)..<length (co_heap s) + length ts], s\<lparr>co_heap := co_heap s @ ts\<rparr>)"

text \<open>The licensed acts of a plan, in plan order.\<close>

definition licensed_acts :: "trigger_plan \<Rightarrow> nat list" where
  "licensed_acts t =
     filter (\<lambda>i. pl_tier_d_granted (tp_actions t ! i) \<and> admitted (tp_actions t ! i)) [0..<length (tp_actions t)]"

definition tier_d_attempts :: "coordinator \<Rightarrow> nat list \<Rightarrow> (nat \<times> nat) list" where
  "tier_d_attempts s ps = concat (map (\<lambda>p. map (Pair p) (licensed_acts (plan_at s p))) ps)"

definition start_attempts :: "nat \<Rightarrow> (nat \<times> nat) list \<Rightarrow> coordinator \<Rightarrow> coordinator" where
  "start_attempts e xs s = s\<lparr>co_trace := co_trace s @ map (\<lambda>(p, a). StartedTierD e p a) xs\<rparr>"

definition schedule_remainder :: "nat \<Rightarrow> nat \<Rightarrow> coordinator \<Rightarrow> coordinator" where
  "schedule_remainder e p s =
     (let t = plan_at s p
      in if tp_remainder_held t \<or> skill_named s (tp_skill_name t) = None
            \<or> \<not> list_ex (\<lambda>a. admitted a \<and> pl_outcome a = Pending) (tp_actions t) then s
         else observe_that (ScheduledReasoning e p)
                (set_event e (\<lambda>r. r\<lparr>er_scheduled := er_scheduled r @ [p]\<rparr>)
                  (set_plan p (\<lambda>t. t\<lparr>tp_scheduled := True\<rparr>) s)))"

definition schedule_all :: "nat \<Rightarrow> nat list \<Rightarrow> coordinator \<Rightarrow> coordinator" where
  "schedule_all e ps s = fold (schedule_remainder e) ps s"

definition open_event :: "nat \<Rightarrow> coordinator \<Rightarrow> coordinator" where
  "open_event e s =
     set_event e (\<lambda>r. r\<lparr>er_opened := True\<rparr>) (s\<lparr>co_gate := open_scope (co_gate s) (er_scope (co_events s ! e))\<rparr>)"

text \<open>
  The Tier D matches are found. With any, the scope opens and every licensed act is attempted;
  with none, the rest is discovered first, and only then is anything opened.
\<close>

definition tier_d_found :: "nat \<Rightarrow> (string \<Rightarrow> rule_match list option) \<Rightarrow> int \<Rightarrow> coordinator \<Rightarrow> coordinator" where
  "tier_d_found e found now s =
     (let r = co_events s ! e;
          sks = filter (\<lambda>sk. skill_eligible sk (er_sensor_type r)) (co_skills s);
          todo = filter (\<lambda>sk. found (sk_name sk) \<noteq> None) sks;
          (ps, s1) = new_plans (plans_of s (er_sensor_id r) sks found) s
      in if ps = [] then
           observe_that (RanHooks e) (set_event e (\<lambda>r. r\<lparr>er_phase := Resting, er_pending := todo\<rparr>) s1)
         else
           (let (kept, s2) = hold_in_flight now ps (open_event e s1);
                xs = tier_d_attempts s2 (filter (\<lambda>p. grants_tier_d (plan_at s2 p)) kept)
            in start_attempts e xs
                 (set_event e (\<lambda>r. r\<lparr>er_phase := Attempting, er_pending := todo, er_immediate := ps,
                                     er_plans := kept, er_attempts := xs\<rparr>) s2)))"

definition attempt_done :: "nat \<Rightarrow> nat \<times> nat \<Rightarrow> string option \<Rightarrow> coordinator \<Rightarrow> coordinator" where
  "attempt_done e x answer s =
     set_event e (\<lambda>r. r\<lparr>er_attempts := remove1 x (er_attempts r)\<rparr>)
       (set_plan (fst x) (set_action (snd x) (attempt_outcome answer)) s)"

text \<open>Every attempt has answered: the notices of the Tier D incidents are scheduled.\<close>

definition schedule_incidents :: "nat \<Rightarrow> coordinator \<Rightarrow> coordinator" where
  "schedule_incidents e s =
     (let s1 = schedule_all e (er_plans (co_events s ! e)) s
      in set_event e (\<lambda>r. r\<lparr>er_phase := HeadStart\<rparr>) s1)"

definition run_hooks :: "nat \<Rightarrow> coordinator \<Rightarrow> coordinator" where
  "run_hooks e s = observe_that (RanHooks e) (set_event e (\<lambda>r. r\<lparr>er_phase := Resting\<rparr>) s)"

definition finish_event :: "nat \<Rightarrow> coordinator \<Rightarrow> coordinator" where
  "finish_event e s =
     (let r = co_events s ! e;
          s1 = s\<lparr>co_gate := close_scope (co_gate s) (er_scope r)\<rparr>
      in set_event e (\<lambda>r. r\<lparr>er_phase := Over, er_opened := False\<rparr>) (fold release_plan (er_plans r) s1))"

text \<open>The rest is found: held, scheduled, and what was not scheduled charged.\<close>

definition rest_found :: "nat \<Rightarrow> (string \<Rightarrow> rule_match list option) \<Rightarrow> int \<Rightarrow> coordinator \<Rightarrow> coordinator" where
  "rest_found e found now s =
     (let r = co_events s ! e;
          (ps, s1) = new_plans (plans_of s (er_sensor_id r) (er_pending r) found) s
      in if \<not> er_opened r \<and> ps = [] then set_event e (\<lambda>r. r\<lparr>er_phase := Over\<rparr>) s1
         else
           (let (later, s2) = hold_in_flight now ps (if er_opened r then s1 else open_event e s1);
                s3 = set_event e (\<lambda>r. r\<lparr>er_phase := Settling, er_plans := er_plans r @ later\<rparr>) s2
            in charge_cooldowns (er_plans r @ later) now (schedule_all e later s3)))"

definition reason_done ::
  "nat \<Rightarrow> nat \<Rightarrow> (nat \<times> string \<times> bool option) list \<Rightarrow> int \<Rightarrow> coordinator \<Rightarrow> coordinator" where
  "reason_done e p answers now s =
     charge_plan p now
       (set_plan p (fold reason_answer answers)
         (set_event e (\<lambda>r. r\<lparr>er_scheduled := remove1 p (er_scheduled r)\<rparr>) s))"

text \<open>
  A cancellation: nothing is opened yet and the event is over, or its tasks are waited for, or
  that wait is what is cancelled and the event is closed at once.
\<close>

definition cancel_event :: "nat \<Rightarrow> coordinator \<Rightarrow> coordinator" where
  "cancel_event e s =
     (let r = co_events s ! e
      in if \<not> er_opened r then set_event e (\<lambda>r. r\<lparr>er_phase := Over\<rparr>) s
         else if er_phase r = Settling then finish_event e s
         else set_event e (\<lambda>r. r\<lparr>er_phase := Settling, er_attempts := []\<rparr>) s)"

fun scope_op :: "gate_op \<Rightarrow> bool" where
  "scope_op (OpenScope sc) = True"
| "scope_op (CloseScope sc) = True"
| "scope_op _ = False"

inductive coordinator_step :: "coordinator \<Rightarrow> coordinator \<Rightarrow> bool" where
  skills_change: "s' \<in> {add_skill sk s, remove_skill name s, clear_skills s, set_binding b s} \<Longrightarrow> coordinator_step s s'"
| event_arrives: "coordinator_step s (handle_event event_id sensor_type sensor_id scope s)"
| tier_d: "e < length (co_events s) \<Longrightarrow> er_phase (co_events s ! e) = Discovering
    \<Longrightarrow> coordinator_step s (tier_d_found e found now s)"
| attempted: "e < length (co_events s) \<Longrightarrow> er_phase (co_events s ! e) = Attempting
    \<Longrightarrow> x \<in> set (er_attempts (co_events s ! e)) \<Longrightarrow> coordinator_step s (attempt_done e x answer s)"
| incidents: "e < length (co_events s) \<Longrightarrow> er_phase (co_events s ! e) = Attempting
    \<Longrightarrow> er_attempts (co_events s ! e) = [] \<Longrightarrow> coordinator_step s (schedule_incidents e s)"
| hooks: "e < length (co_events s) \<Longrightarrow> er_phase (co_events s ! e) = HeadStart \<Longrightarrow> coordinator_step s (run_hooks e s)"
| rest: "e < length (co_events s) \<Longrightarrow> er_phase (co_events s ! e) = Resting
    \<Longrightarrow> coordinator_step s (rest_found e found now s)"
| reasoned: "e < length (co_events s) \<Longrightarrow> p \<in> set (er_scheduled (co_events s ! e))
    \<Longrightarrow> coordinator_step s (reason_done e p answers now s)"
| finished: "e < length (co_events s) \<Longrightarrow> er_phase (co_events s ! e) = Settling
    \<Longrightarrow> er_scheduled (co_events s ! e) = [] \<Longrightarrow> coordinator_step s (finish_event e s)"
| cancelled: "e < length (co_events s) \<Longrightarrow> er_phase (co_events s ! e) \<noteq> Over \<Longrightarrow> coordinator_step s (cancel_event e s)"
| gate_moves: "\<not> scope_op op \<Longrightarrow> coordinator_step s (s\<lparr>co_gate := fst (gate_apply (co_gate s) op)\<rparr>)"

inductive reaches :: "coordinator \<Rightarrow> coordinator \<Rightarrow> bool" for s0 where
  here: "reaches s0 s0"
| onward: "reaches s0 s \<Longrightarrow> coordinator_step s s' \<Longrightarrow> reaches s0 s'"

section \<open>What is guaranteed\<close>

definition held :: "coordinator \<Rightarrow> nat set" where
  "held s = {p. p < length (co_heap s) \<and> tp_holds_in_flight (co_heap s ! p)}"

text \<open>The plans of the events whose scope is open: the only ones that may hold a trigger.\<close>

definition owned :: "coordinator \<Rightarrow> nat set" where
  "owned s = (\<Union>r \<in> {r \<in> set (co_events s). er_opened r}. set (er_plans r))"

definition holds_exact :: "coordinator \<Rightarrow> bool" where
  "holds_exact s =
     (co_in_flight s = (\<lambda>p. plan_key (co_heap s ! p)) ` held s \<and> inj_on (\<lambda>p. plan_key (co_heap s ! p)) (held s))"

text \<open>An event not yet discovered has nothing; one that is over is closed; what an event names exists.\<close>

definition event_ok :: "nat \<Rightarrow> event_run \<Rightarrow> bool" where
  "event_ok n r =
     ((er_phase r = Discovering \<longrightarrow> \<not> er_opened r \<and> er_immediate r = [])
      \<and> (er_phase r = Over \<longrightarrow> \<not> er_opened r)
      \<and> set (er_plans r) \<union> set (er_immediate r) \<union> set (er_scheduled r) \<union> fst ` set (er_attempts r) \<subseteq> {..<n})"

definition holds_inv :: "coordinator \<Rightarrow> bool" where
  "holds_inv s =
     (holds_exact s \<and> held s \<subseteq> owned s \<and> list_all (event_ok (length (co_heap s))) (co_events s))"

text \<open>What a step leaves of the plans: their number, and what of each the holds and the grants read.\<close>

definition plan_sig :: "trigger_plan \<Rightarrow> (string \<times> string) \<times> bool \<times> bool list" where
  "plan_sig t = (plan_key t, tp_holds_in_flight t, map pl_tier_d_granted (tp_actions t))"

definition same_holds :: "coordinator \<Rightarrow> coordinator \<Rightarrow> bool" where
  "same_holds s s' = (co_in_flight s' = co_in_flight s \<and> map plan_sig (co_heap s') = map plan_sig (co_heap s))"

fun about :: "nat \<Rightarrow> observation \<Rightarrow> bool" where
  "about e (StartedTierD e' p a) = (e' = e)"
| "about e (RanHooks e') = (e' = e)"
| "about e (ScheduledReasoning e' p) = (e' = e)"
| "about e (Charged p) = False"

fun is_start :: "observation \<Rightarrow> bool" where
  "is_start (StartedTierD e p a) = True"
| "is_start _ = False"

definition grants_of :: "coordinator \<Rightarrow> nat \<Rightarrow> bool list" where
  "grants_of s p = map pl_tier_d_granted (tp_actions (co_heap s ! p))"

definition start_inv :: "coordinator \<Rightarrow> nat \<Rightarrow> bool" where
  "start_inv s e =
     (sorted_wrt (\<lambda>x y. is_start y \<longrightarrow> is_start x) (filter (about e) (co_trace s))
      \<and> (length (co_events s) \<le> e \<or> er_phase (co_events s ! e) = Discovering \<longrightarrow> filter (about e) (co_trace s) = [])
      \<and> (e < length (co_events s) \<longrightarrow> er_phase (co_events s ! e) = Attempting \<longrightarrow> list_all is_start (filter (about e) (co_trace s)))
      \<and> (e < length (co_events s) \<longrightarrow> (\<forall>p \<in> set (er_immediate (co_events s ! e)). \<forall>a < length (grants_of s p).
            grants_of s p ! a \<longrightarrow> StartedTierD e p a \<in> set (co_trace s)))
      \<and> distinct (filter is_start (filter (about e) (co_trace s)))
      \<and> (\<forall>p a. StartedTierD e p a \<in> set (co_trace s)
           \<longrightarrow> p \<in> set (er_immediate (co_events s ! e)) \<and> a < length (grants_of s p) \<and> grants_of s p ! a))"

text \<open>Charging gives up holds and starts nothing.\<close>

definition charged :: "coordinator \<Rightarrow> coordinator \<Rightarrow> bool" where
  "charged s s' =
     (holds_exact s' \<and> held s' \<subseteq> held s \<and> co_events s' = co_events s \<and> length (co_heap s') = length (co_heap s)
      \<and> (\<exists>ps. co_trace s' = co_trace s @ map Charged ps) \<and> (\<forall>p < length (co_heap s). grants_of s' p = grants_of s p))"

text \<open>
  What a step of event \<open>e\<close> other than the discovery of its Tier D matches does: it starts no Tier D
  act, observes nothing of another event, and once it has observed anything it is past its attempts.
\<close>

definition moved :: "nat \<Rightarrow> coordinator \<Rightarrow> coordinator \<Rightarrow> bool" where
  "moved e s s' =
     ((\<exists>xs. co_trace s' = co_trace s @ xs
         \<and> (\<forall>x \<in> set xs. \<forall>e'. about e' x \<longrightarrow> e' = e \<and> \<not> is_start x)
         \<and> (er_phase (co_events s' ! e) \<in> {Discovering, Attempting} \<longrightarrow> filter (about e) xs = []))
      \<and> length (co_events s') = length (co_events s)
      \<and> (\<forall>e'. e' \<noteq> e \<longrightarrow> co_events s' ! e' = co_events s ! e')
      \<and> er_immediate (co_events s' ! e) = er_immediate (co_events s ! e)
      \<and> (er_phase (co_events s' ! e) \<in> {Discovering, Attempting}
           \<longrightarrow> er_phase (co_events s' ! e) = er_phase (co_events s ! e))
      \<and> length (co_heap s) \<le> length (co_heap s')
      \<and> (\<forall>p < length (co_heap s). grants_of s' p = grants_of s p))"

text \<open>Whether a settled plan spends its trigger's cooldown: an action below Tier D attempted, or never answered.\<close>

definition spends :: "trigger_plan \<Rightarrow> bool" where
  "spends t =
     (tp_trigger_name t \<noteq> []
      \<and> list_ex (\<lambda>a. \<not> pl_tier_d_granted a \<and> (pl_outcome a = Pending \<or> consumes_cooldown (pl_outcome a))) (tp_actions t))"

text \<open>An event of the examples: an overheating transformer, tripped at Tier D and told to the operator.\<close>

definition example_skill :: skill where
  "example_skill =
     \<lparr>sk_name = ''cooling'', sk_first_party = True, sk_sensor_types = [''temperature''],
      sk_defaults = [(''overheat'', [''trip_relay'', ''alert_operator''])], sk_available = [(''trip_relay'', ''D'')],
      sk_cooldowns = [(''overheat'', 60)]\<rparr>"

definition example_start :: coordinator where
  "example_start =
     handle_event ''e1'' ''temperature'' ''t1'' []
       (set_binding (Some example_binding) (add_skill example_skill (new_coordinator new_gate [''trip_relay''])))"

definition example_run :: coordinator where
  "example_run =
     tier_d_found 0 (\<lambda>_. Some [\<lparr>rm_rule_name = ''overheat'', rm_action_tier = ''D'', rm_bypass_llm = True\<rparr>]) 0 example_start"

section \<open>Lemmas\<close>

lemma frames [simp]:
  "co_heap (set_event e f s) = co_heap s" "co_in_flight (set_event e f s) = co_in_flight s"
  "co_trace (set_event e f s) = co_trace s" "length (co_events (set_event e f s)) = length (co_events s)"
  "co_skills (set_event e f s) = co_skills s" "co_cooldowns (set_event e f s) = co_cooldowns s"
  "co_events (set_plan p g s) = co_events s" "co_in_flight (set_plan p g s) = co_in_flight s"
  "co_trace (set_plan p g s) = co_trace s" "length (co_heap (set_plan p g s)) = length (co_heap s)"
  "co_skills (set_plan p g s) = co_skills s" "co_cooldowns (set_plan p g s) = co_cooldowns s"
  "co_heap (observe_that x s) = co_heap s" "co_in_flight (observe_that x s) = co_in_flight s"
  "co_events (observe_that x s) = co_events s" "co_trace (observe_that x s) = co_trace s @ [x]"
  "co_heap (record_fire r sc now s) = co_heap s" "co_in_flight (record_fire r sc now s) = co_in_flight s"
  "co_events (record_fire r sc now s) = co_events s" "co_trace (record_fire r sc now s) = co_trace s"
  "co_heap (open_event e s) = co_heap s" "co_in_flight (open_event e s) = co_in_flight s"
  "co_trace (open_event e s) = co_trace s" "length (co_events (open_event e s)) = length (co_events s)"
  by (simp_all add: set_event_def set_plan_def observe_that_def record_fire_def open_event_def)

lemma event_at [simp]:
  "e < length (co_events s) \<Longrightarrow> co_events (set_event e f s) ! e = f (co_events s ! e)"
  "e' \<noteq> e \<Longrightarrow> co_events (set_event e f s) ! e' = co_events s ! e'"
  by (simp_all add: set_event_def)

lemma plan_after:
  "p < length (co_heap s) \<Longrightarrow> co_heap (set_plan p g s) ! q = (if q = p then g (co_heap s ! p) else co_heap s ! q)"
  by (auto simp: set_plan_def nth_list_update)

subsection \<open>Holds\<close>

lemma held_less: "p \<in> held s \<Longrightarrow> p < length (co_heap s)"
  by (simp add: held_def)

lemma holds_key: "holds_exact s \<Longrightarrow> p \<in> held s \<Longrightarrow> plan_key (co_heap s ! p) \<in> co_in_flight s"
  by (simp add: holds_exact_def)

lemma held_in_flight [simp]: "held (s\<lparr>co_in_flight := x\<rparr>) = held s"
  by (simp add: held_def)

lemma holds_exactI:
  assumes "held s = H" and "co_in_flight s = K ` H" and "inj_on K H" and "\<And>q. plan_key (co_heap s ! q) = K q"
  shows "holds_exact s"
  using assms by (simp add: holds_exact_def)

lemma same_holds_refl [simp]: "same_holds s s"
  by (simp add: same_holds_def)

lemma same_holds_trans: "same_holds a b \<Longrightarrow> same_holds b c \<Longrightarrow> same_holds a c"
  by (simp add: same_holds_def)

lemma same_holdsD:
  assumes "same_holds s s'"
  shows "length (co_heap s') = length (co_heap s)" and "held s' = held s"
    and "p < length (co_heap s) \<Longrightarrow> plan_key (co_heap s' ! p) = plan_key (co_heap s ! p)"
    and "p < length (co_heap s) \<Longrightarrow> grants_of s' p = grants_of s p"
proof -
  from assms have sig: "map plan_sig (co_heap s') = map plan_sig (co_heap s)" by (simp add: same_holds_def)
  then show len: "length (co_heap s') = length (co_heap s)" using map_eq_imp_length_eq by blast
  have at: "plan_sig (co_heap s' ! q) = plan_sig (co_heap s ! q)" if "q < length (co_heap s)" for q
    using sig that len by (metis nth_map)
  show "held s' = held s" using at len by (auto simp: held_def plan_sig_def)
  show "plan_key (co_heap s' ! p) = plan_key (co_heap s ! p)" "grants_of s' p = grants_of s p" if "p < length (co_heap s)" for p
    using at [OF that] by (simp_all add: plan_sig_def grants_of_def)
qed

lemma same_holds_exact: "same_holds s s' \<Longrightarrow> holds_exact s \<Longrightarrow> holds_exact s'"
  using same_holdsD [of s s'] held_less [of _ s]
  by (auto simp: holds_exact_def same_holds_def inj_on_def image_iff) 

lemma same_holds_set_plan:
  assumes "p < length (co_heap s) \<Longrightarrow> plan_sig (f (co_heap s ! p)) = plan_sig (co_heap s ! p)"
  shows "same_holds s (set_plan p f s)"
proof (cases "p < length (co_heap s)")
  case True
  with assms show ?thesis
    by (auto simp: same_holds_def set_plan_def map_update intro!: list_update_same_conv [THEN iffD2])
next
  case False
  then show ?thesis by (simp add: same_holds_def set_plan_def list_update_beyond)
qed

lemma same_holds_frames [simp]:
  "same_holds s (set_event e f s)" "same_holds s (observe_that x s)" "same_holds s (record_fire r sc now s)"
  "same_holds s (open_event e s)"
  by (simp_all add: same_holds_def)

lemma map_granted_update:
  "pl_tier_d_granted (f (as ! i)) = pl_tier_d_granted (as ! i)
   \<Longrightarrow> map pl_tier_d_granted (as[i := f (as ! i)]) = map pl_tier_d_granted as"
  by (cases "i < length as") (auto simp: map_update list_update_beyond intro!: list_update_same_conv [THEN iffD2])

lemma outcome_granted [simp]:
  "pl_tier_d_granted (attempt_outcome answer a) = pl_tier_d_granted a"
  "pl_tier_d_granted (record_planned_outcome taken b a) = pl_tier_d_granted a"
  by (simp_all add: attempt_outcome_def record_planned_outcome_def Let_def)

lemma sig_frames [simp]:
  "plan_sig (settle_pending t) = plan_sig t"
  "plan_sig (t\<lparr>tp_remainder_held := b\<rparr>) = plan_sig t" "plan_sig (t\<lparr>tp_scheduled := b\<rparr>) = plan_sig t"
  "plan_sig (set_action i (attempt_outcome answer) t) = plan_sig t"
  "plan_sig (reason_answer x t) = plan_sig t"
proof -
  show "plan_sig (settle_pending t) = plan_sig t"
    by (auto simp: plan_sig_def settle_pending_def plan_key_def)
  show "plan_sig (set_action i (attempt_outcome answer) t) = plan_sig t"
    by (simp add: plan_sig_def set_action_def plan_key_def map_granted_update)
  show "plan_sig (reason_answer x t) = plan_sig t"
    by (auto simp: plan_sig_def reason_answer_def set_action_def plan_key_def map_granted_update
        split: prod.split)
qed (simp_all add: plan_sig_def plan_key_def)

lemma sig_answers [simp]: "plan_sig (fold reason_answer xs t) = plan_sig t"
  by (induction xs arbitrary: t) simp_all

lemma same_holds_charge: "same_holds s (charge p now s)"
  by (auto simp: charge_def Let_def intro: same_holds_trans [OF same_holds_frames(3) same_holds_frames(2)])

lemma same_holds_settled: "same_holds s (charge_settled_plan p now s)"
  by (auto simp: charge_settled_plan_def intro!: same_holds_trans [OF same_holds_set_plan same_holds_charge])

lemma same_holds_schedule: "same_holds s (schedule_remainder e p s)"
  by (auto simp: schedule_remainder_def Let_def
      intro!: same_holds_trans [OF same_holds_trans [OF same_holds_set_plan same_holds_frames(1)] same_holds_frames(2)])

lemma same_holds_fold: "(\<And>x s. same_holds s (f x s)) \<Longrightarrow> same_holds s (fold f xs s)"
  by (induction xs arbitrary: s) (auto intro: same_holds_trans)

lemma same_holds_schedule_all: "same_holds s (schedule_all e ps s)"
  unfolding schedule_all_def by (rule same_holds_fold) (rule same_holds_schedule)

text \<open>A release_plan gives up its own hold and no other.\<close>

lemma release_holds:
  assumes "holds_exact s" and "p < length (co_heap s)"
  shows "holds_exact (release_plan p s)" and "held (release_plan p s) = held s - {p}"
proof -
  show h: "held (release_plan p s) = held s - {p}"
    using assms(2) by (auto simp: release_plan_def held_def plan_at_def plan_after split: if_splits)
  have keys: "plan_key (co_heap (release_plan p s) ! q) = plan_key (co_heap s ! q)" for q
    using assms(2) by (auto simp: release_plan_def plan_at_def plan_after plan_key_def)
  have fl: "co_in_flight (release_plan p s) = (if p \<in> held s then co_in_flight s - {plan_key (co_heap s ! p)} else co_in_flight s)"
    using assms(2) by (auto simp: release_plan_def held_def plan_at_def)
  let ?K = "\<lambda>q. plan_key (co_heap s ! q)"
  from assms(1) have inj: "inj_on ?K (held s)" and all: "co_in_flight s = ?K ` held s" by (simp_all add: holds_exact_def)
  have "co_in_flight (release_plan p s) = ?K ` (held s - {p})"
  proof (cases "p \<in> held s")
    case True
    then show ?thesis unfolding fl all using inj_on_image_set_diff [OF inj, of "held s" "{p}"] by simp
  qed (simp add: fl all)
  then show "holds_exact (release_plan p s)"
    using h inj_on_diff [OF inj] keys by (intro holds_exactI [where K = ?K and H = "held s - {p}"]) auto
qed

lemma release_frames [simp]:
  "co_events (release_plan p s) = co_events s" "co_trace (release_plan p s) = co_trace s"
  "length (co_heap (release_plan p s)) = length (co_heap s)"
  by (simp_all add: release_plan_def)

lemma release_grants: "p < length (co_heap s) \<Longrightarrow> grants_of (release_plan p s) q = grants_of s q"
  by (simp add: release_plan_def grants_of_def plan_at_def plan_after)

lemma releases_hold:
  assumes "holds_exact s" and "set ps \<subseteq> {..<length (co_heap s)}"
  shows "holds_exact (fold release_plan ps s) \<and> held (fold release_plan ps s) = held s - set ps"
  using assms
proof (induction ps arbitrary: s)
  case (Cons p ps)
  note one = release_holds [OF Cons.prems(1), of p]
  from Cons.prems Cons.IH [OF one(1)] one(2) show ?case by auto
qed simp

lemma releases_frames [simp]:
  "co_events (fold release_plan ps s) = co_events s" "co_trace (fold release_plan ps s) = co_trace s"
  "length (co_heap (fold release_plan ps s)) = length (co_heap s)"
  by (induction ps arbitrary: s) simp_all

lemma releases_grants: "set ps \<subseteq> {..<length (co_heap s)} \<Longrightarrow> grants_of (fold release_plan ps s) q = grants_of s q"
  by (induction ps arbitrary: s) (simp_all add: release_grants)

text \<open>A plan that is kept is held, or needs no hold; one that is dropped grants no Tier D act.\<close>

lemma hold_one_holds:
  assumes "hold_one now p (kept, s) = (kept', s')" and "holds_exact s" and "p < length (co_heap s)"
  shows "holds_exact s' \<and> held s' \<subseteq> insert p (held s) \<and> (kept' = kept @ [p] \<or> kept' = kept \<and> s' = s \<and> \<not> grants_tier_d (co_heap s ! p))
    \<and> co_events s' = co_events s \<and> co_trace s' = co_trace s \<and> length (co_heap s') = length (co_heap s)
    \<and> (\<forall>q. grants_of s' q = grants_of s q)"
proof -
  let ?t = "co_heap s ! p"
  have mark: "holds_exact (set_plan p (\<lambda>t. t\<lparr>tp_remainder_held := True\<rparr>) s)"
    "held (set_plan p (\<lambda>t. t\<lparr>tp_remainder_held := True\<rparr>) s) = held s"
    using same_holds_exact [OF same_holds_set_plan assms(2)] same_holdsD(2) [OF same_holds_set_plan] by simp_all
  let ?s1 = "(set_plan p (\<lambda>t. t\<lparr>tp_holds_in_flight := True\<rparr>) s)\<lparr>co_in_flight := insert (plan_key ?t) (co_in_flight s)\<rparr>"
  have take: "holds_exact ?s1 \<and> held ?s1 = insert p (held s)" if "plan_key ?t \<notin> co_in_flight s"
  proof -
    have h: "held ?s1 = insert p (held s)" using assms(3) by (auto simp: held_def plan_after)
    have "plan_key (co_heap ?s1 ! q) = plan_key (co_heap s ! q)" for q
      using assms(3) by (simp add: plan_after plan_key_def)
    then have "holds_exact ?s1"
      using h assms(2) that
      by (intro holds_exactI [where K = "\<lambda>q. plan_key (co_heap s ! q)" and H = "insert p (held s)"])
         (auto simp: holds_exact_def)
    with h show ?thesis by simp
  qed
  show ?thesis
    using assms(1,3) mark take assms(2)
    by (auto simp: hold_one_def Let_def plan_at_def grants_of_def plan_after split: if_splits)
qed

lemma hold_all_holds:
  assumes "fold (hold_one now) ps (kept, s) = (kept', s')" and "holds_exact s" and "set ps \<subseteq> {..<length (co_heap s)}"
  shows "holds_exact s' \<and> held s' \<subseteq> held s \<union> set kept' \<and> set kept \<subseteq> set kept' \<and> set kept' \<subseteq> set kept \<union> set ps
    \<and> (\<forall>p \<in> set ps - set kept'. True \<notin> set (grants_of s' p))
    \<and> co_events s' = co_events s \<and> co_trace s' = co_trace s \<and> length (co_heap s') = length (co_heap s)
    \<and> (\<forall>q. grants_of s' q = grants_of s q)"
  using assms
proof (induction ps arbitrary: kept s)
  case (Cons p ps)
  obtain k1 s1 where one: "hold_one now p (kept, s) = (k1, s1)" by (rule prod.exhaust)
  note h = hold_one_holds [OF one Cons.prems(2)]
  from Cons.prems(1) one have rest: "fold (hold_one now) ps (k1, s1) = (kept', s')" by simp
  have "p < length (co_heap s)" using Cons.prems(3) by simp
  note h = h [OF this]
  have ih: "holds_exact s' \<and> held s' \<subseteq> held s1 \<union> set kept' \<and> set k1 \<subseteq> set kept' \<and> set kept' \<subseteq> set k1 \<union> set ps
    \<and> (\<forall>p \<in> set ps - set kept'. True \<notin> set (grants_of s' p))
    \<and> co_events s' = co_events s1 \<and> co_trace s' = co_trace s1 \<and> length (co_heap s') = length (co_heap s1)
    \<and> (\<forall>q. grants_of s' q = grants_of s1 q)"
    using Cons.prems(3) h by (intro Cons.IH [OF rest]) auto
  have g: "grants_tier_d (co_heap s ! p) \<longleftrightarrow> True \<in> set (grants_of s p)"
    by (auto simp: grants_tier_d_def grants_of_def list_ex_iff)
  from h ih g show ?case by (elim conjE disjE) auto
qed simp

subsection \<open>The composite steps\<close>

lemma owned_iff: "p \<in> owned s \<longleftrightarrow> (\<exists>e < length (co_events s). er_opened (co_events s ! e) \<and> p \<in> set (er_plans (co_events s ! e)))"
  by (auto simp: owned_def in_set_conv_nth)

lemma owned_update:
  assumes "p \<in> owned s" and "co_events s' = (co_events s)[e := r]"
    and "e < length (co_events s) \<Longrightarrow> er_opened (co_events s ! e) \<Longrightarrow> p \<in> set (er_plans (co_events s ! e))
           \<Longrightarrow> er_opened r \<and> p \<in> set (er_plans r)"
  shows "p \<in> owned s'"
proof -
  from assms(1) obtain e' where e': "e' < length (co_events s)" "er_opened (co_events s ! e')" "p \<in> set (er_plans (co_events s ! e'))"
    by (auto simp: owned_iff)
  with assms(2,3) show ?thesis by (cases "e' = e") (auto simp: owned_iff intro!: exI [of _ e'])
qed

lemma holds_invI:
  assumes "holds_exact s" and "held s \<subseteq> owned s" and "\<And>e. e < length (co_events s) \<Longrightarrow> event_ok (length (co_heap s)) (co_events s ! e)"
  shows "holds_inv s"
  using assms by (simp add: holds_inv_def list_all_length)

lemma event_ok_mono: "event_ok n r \<Longrightarrow> n \<le> m \<Longrightarrow> event_ok m r"
  by (fastforce simp: event_ok_def)

lemma holds_invD:
  assumes "holds_inv s"
  shows "holds_exact s" "held s \<subseteq> owned s" "e < length (co_events s) \<Longrightarrow> event_ok (length (co_heap s)) (co_events s ! e)"
  using assms by (simp_all add: holds_inv_def list_all_length)

text \<open>One event changes, and every hold that is left keeps an owner.\<close>

lemma holds_inv_event:
  assumes "holds_inv s" and "holds_exact s'" and "co_events s' = (co_events s)[e := r]"
    and "length (co_heap s) \<le> length (co_heap s')" and "event_ok (length (co_heap s')) r"
    and "\<And>p. p \<in> held s' \<Longrightarrow> p \<in> held s \<and> (p \<in> set (er_plans (co_events s ! e)) \<and> er_opened (co_events s ! e)
            \<longrightarrow> p \<in> set (er_plans r) \<and> er_opened r)
          \<or> e < length (co_events s) \<and> er_opened r \<and> p \<in> set (er_plans r)"
  shows "holds_inv s'"
proof (rule holds_invI [OF assms(2)])
  show "held s' \<subseteq> owned s'"
  proof
    fix p assume "p \<in> held s'"
    from assms(6) [OF this] show "p \<in> owned s'"
    proof
      assume "p \<in> held s \<and> (p \<in> set (er_plans (co_events s ! e)) \<and> er_opened (co_events s ! e)
          \<longrightarrow> p \<in> set (er_plans r) \<and> er_opened r)"
      then show ?thesis using holds_invD(2) [OF assms(1)] by (intro owned_update [OF _ assms(3)]) auto
    next
      assume "e < length (co_events s) \<and> er_opened r \<and> p \<in> set (er_plans r)"
      then show ?thesis by (auto simp: owned_iff assms(3) intro!: exI [of _ e])
    qed
  qed
  show "event_ok (length (co_heap s')) (co_events s' ! e')" if "e' < length (co_events s')" for e'
    using that holds_invD(3) [OF assms(1), of e'] assms(3,5) event_ok_mono [OF _ assms(4)] by (cases "e' = e") auto
qed

lemma schedule_all_sel:
  assumes "e < length (co_events s)"
  shows "\<exists>qs. set qs \<subseteq> set ps \<and> co_trace (schedule_all e ps s) = co_trace s @ map (ScheduledReasoning e) qs
    \<and> co_events (schedule_all e ps s) = (co_events s)[e := (co_events s ! e)\<lparr>er_scheduled := er_scheduled (co_events s ! e) @ qs\<rparr>]"
  using assms
proof (induction ps arbitrary: s)
  case Nil
  then show ?case by (auto simp: schedule_all_def)
next
  case (Cons p ps)
  let ?s = "schedule_remainder e p s"
  have "e < length (co_events ?s)" using Cons.prems by (simp add: schedule_remainder_def Let_def)
  from Cons.IH [OF this] obtain qs where qs: "set qs \<subseteq> set ps"
    "co_trace (schedule_all e ps ?s) = co_trace ?s @ map (ScheduledReasoning e) qs"
    "co_events (schedule_all e ps ?s) = (co_events ?s)[e := (co_events ?s ! e)\<lparr>er_scheduled := er_scheduled (co_events ?s ! e) @ qs\<rparr>]"
    by blast
  have one: "?s = s \<or> co_trace ?s = co_trace s @ [ScheduledReasoning e p]
      \<and> co_events ?s = (co_events s)[e := (co_events s ! e)\<lparr>er_scheduled := er_scheduled (co_events s ! e) @ [p]\<rparr>]"
    by (simp add: schedule_remainder_def Let_def set_event_def set_plan_def observe_that_def)
  have all: "schedule_all e (p # ps) s = schedule_all e ps ?s" by (simp add: schedule_all_def)
  from one show ?case
  proof
    assume "?s = s"
    with qs all show ?thesis by (intro exI [of _ qs]) auto
  next
    assume "co_trace ?s = co_trace s @ [ScheduledReasoning e p]
      \<and> co_events ?s = (co_events s)[e := (co_events s ! e)\<lparr>er_scheduled := er_scheduled (co_events s ! e) @ [p]\<rparr>]"
    with qs all Cons.prems show ?thesis by (intro exI [of _ "p # qs"]) auto
  qed
qed

lemma charge_trace:
  "co_events (charge p now s) = co_events s \<and> (\<exists>ps. co_trace (charge p now s) = co_trace s @ map Charged ps)"
  by (auto simp: charge_def Let_def intro: exI [of _ "[]"] exI [of _ "[p]"])

lemma charged_same:
  assumes "same_holds s s'" and "holds_exact s" and "co_events s' = co_events s"
    and "\<exists>ps. co_trace s' = co_trace s @ map Charged ps"
  shows "charged s s'"
  using assms same_holds_exact [OF assms(1,2)] same_holdsD [OF assms(1)] by (simp add: charged_def)

lemma charged_trans: "charged a b \<Longrightarrow> charged b c \<Longrightarrow> charged a c"
proof -
  assume ab: "charged a b" and bc: "charged b c"
  from ab bc obtain ps qs where "co_trace b = co_trace a @ map Charged ps" "co_trace c = co_trace b @ map Charged qs"
    by (auto simp: charged_def)
  then have "\<exists>ps. co_trace c = co_trace a @ map Charged ps" by (intro exI [of _ "ps @ qs"]) simp
  with ab bc show ?thesis by (auto simp: charged_def)
qed

lemma charged_release:
  assumes "holds_exact s" and "p < length (co_heap s)"
  shows "charged s (release_plan p s)"
  using release_holds [OF assms] assms by (auto simp: charged_def release_grants intro: exI [of _ "[]"])

lemma charged_charge: "holds_exact s \<Longrightarrow> charged s (charge p now s)"
  using charge_trace [of p now s] by (intro charged_same same_holds_charge) auto

lemma charged_settled: "holds_exact s \<Longrightarrow> charged s (charge_settled_plan p now s)"
  using charge_trace [of p now "set_plan p settle_pending s"]
  by (intro charged_same same_holds_settled) (auto simp: charge_settled_plan_def intro: exI [of _ "[]"])

lemma charged_plan:
  assumes "holds_exact s" and "p < length (co_heap s)"
  shows "charged s (charge_plan p now s)" and "p \<notin> held (charge_plan p now s)"
proof -
  note settled = charged_settled [OF assms(1), of p now]
  then have "holds_exact (charge_settled_plan p now s)" "p < length (co_heap (charge_settled_plan p now s))"
    using assms(2) by (simp_all add: charged_def)
  note gone = charged_release [OF this] release_holds(2) [OF this]
  show "charged s (charge_plan p now s)" unfolding charge_plan_def by (rule charged_trans [OF settled gone(1)])
  show "p \<notin> held (charge_plan p now s)" by (simp add: charge_plan_def gone(2))
qed

lemma charged_cooldowns:
  assumes "holds_exact s" and "set ps \<subseteq> {..<length (co_heap s)}"
  shows "charged s (charge_cooldowns ps now s)"
  using assms unfolding charge_cooldowns_def
proof (induction ps arbitrary: s)
  case Nil
  then show ?case by (auto simp: charged_def intro: exI [of _ "[]"])
next
  case (Cons p ps)
  note c = charged_charge [OF Cons.prems(1), of p now]
  have "charged s (charge_unscheduled now p s)"
  proof (cases "tp_scheduled (plan_at s p)")
    case True
    with Cons.prems(1) show ?thesis by (auto simp: charge_unscheduled_def charged_def intro: exI [of _ "[]"])
  next
    case False
    have "charged (charge p now s) (release_plan p (charge p now s))"
      using c Cons.prems(2) by (intro charged_release) (auto simp: charged_def)
    with False show ?thesis by (simp add: charge_unscheduled_def charged_trans [OF c])
  qed
  moreover from this Cons.prems have "charged (charge_unscheduled now p s) (fold (charge_unscheduled now) ps (charge_unscheduled now p s))"
    by (intro Cons.IH) (auto simp: charged_def)
  ultimately show ?case by (simp add: charged_trans)
qed

lemma charged_trace:
  assumes "charged s s'"
  shows "filter (about e) (co_trace s') = filter (about e) (co_trace s)"
proof -
  from assms obtain ps where "co_trace s' = co_trace s @ map Charged ps" by (auto simp: charged_def)
  moreover have "filter (about e) (map Charged ps) = []" by (simp add: filter_empty_conv)
  ultimately show ?thesis by simp
qed

subsection \<open>Every step keeps the holds\<close>

lemma event_okI:
  assumes "event_ok n r" and "er_phase r' \<notin> {Discovering, Over} \<or> er_phase r' = er_phase r \<and> er_opened r' = er_opened r
      \<or> er_phase r' = Over \<and> \<not> er_opened r'"
    and "er_immediate r' = er_immediate r" and "set (er_plans r') \<subseteq> {..<m}" "set (er_scheduled r') \<subseteq> {..<m}"
    "\<And>x. x \<in> set (er_attempts r') \<Longrightarrow> fst x < m" and "n \<le> m"
  shows "event_ok m r'"
  using assms by (auto simp: event_ok_def)

lemma event_indices:
  assumes "event_ok n r"
  shows "set (er_plans r) \<subseteq> {..<n}" "set (er_scheduled r) \<subseteq> {..<n}" "\<And>x. x \<in> set (er_attempts r) \<Longrightarrow> fst x < n"
    "set (er_immediate r) \<subseteq> {..<n}"
  using assms by (auto simp: event_ok_def)

lemma new_plans_holds:
  assumes "new_plans ts s = (ps, s')" and "list_all (\<lambda>t. \<not> tp_holds_in_flight t) ts" and "holds_exact s"
  shows "holds_exact s' \<and> held s' = held s \<and> set ps = {length (co_heap s)..<length (co_heap s')}
    \<and> length (co_heap s') = length (co_heap s) + length ts \<and> co_events s' = co_events s \<and> co_trace s' = co_trace s
    \<and> (\<forall>p < length (co_heap s). grants_of s' p = grants_of s p)"
proof -
  from assms(1) have s': "s' = s\<lparr>co_heap := co_heap s @ ts\<rparr>" and ps: "ps = [length (co_heap s)..<length (co_heap s) + length ts]"
    by (simp_all add: new_plans_def)
  have h: "held s' = held s"
  proof (rule set_eqI)
    fix p
    show "p \<in> held s' \<longleftrightarrow> p \<in> held s"
      using assms(2) by (cases "p < length (co_heap s)") (auto simp: held_def s' nth_append list_all_length)
  qed
  have "(\<lambda>p. plan_key (co_heap s' ! p)) ` held s = (\<lambda>p. plan_key (co_heap s ! p)) ` held s"
    "inj_on (\<lambda>p. plan_key (co_heap s' ! p)) (held s) = inj_on (\<lambda>p. plan_key (co_heap s ! p)) (held s)"
    by (auto simp: s' nth_append held_def inj_on_def)
  with assms(3) h have "holds_exact s'" by (simp add: holds_exact_def) (simp add: s')
  with h show ?thesis by (auto simp: s' ps grants_of_def nth_append)
qed

lemma fresh_plans: "list_all (\<lambda>t. \<not> tp_holds_in_flight t) (plans_of s sid sks found)"
  by (auto simp: plans_of_def plan_for_def Let_def list_all_iff split: option.splits)

lemma open_event_events:
  "e < length (co_events s) \<Longrightarrow> co_events (open_event e s) = (co_events s)[e := (co_events s ! e)\<lparr>er_opened := True\<rparr>]"
  by (simp add: open_event_def set_event_def)

lemma set_event_events: "co_events (set_event e f s) = (co_events s)[e := f (co_events s ! e)]"
  by (simp add: set_event_def)

text \<open>What the discovery of an event's Tier D matches leaves.\<close>

lemma tier_d_found_cases:
  assumes "e < length (co_events s)" and "holds_exact s"
  obtains (none) s1 todo where "tier_d_found e found now s = observe_that (RanHooks e) (set_event e (\<lambda>r. r\<lparr>er_phase := Resting, er_pending := todo\<rparr>) s1)"
      "s1 = s\<lparr>co_heap := co_heap s @ []\<rparr>"
  | (some) ps kept s1 s2 xs todo where
      "tier_d_found e found now s = start_attempts e xs (set_event e (\<lambda>r. r\<lparr>er_phase := Attempting, er_pending := todo,
         er_immediate := ps, er_plans := kept, er_attempts := xs\<rparr>) s2)"
      "new_plans (plans_of s (er_sensor_id (co_events s ! e)) (filter (\<lambda>sk. skill_eligible sk (er_sensor_type (co_events s ! e))) (co_skills s)) found) s = (ps, s1)"
      "hold_in_flight now ps (open_event e s1) = (kept, s2)"
      "xs = tier_d_attempts s2 (filter (\<lambda>p. grants_tier_d (plan_at s2 p)) kept)"
proof -
  let ?r = "co_events s ! e"
  let ?sks = "filter (\<lambda>sk. skill_eligible sk (er_sensor_type ?r)) (co_skills s)"
  obtain ps s1 where new: "new_plans (plans_of s (er_sensor_id ?r) ?sks found) s = (ps, s1)" by (rule prod.exhaust)
  show thesis
  proof (cases "ps = []")
    case True
    then have "s1 = s\<lparr>co_heap := co_heap s @ []\<rparr>" using new by (auto simp: new_plans_def)
    then show thesis by (rule none [rotated]) (simp add: tier_d_found_def Let_def new True)
  next
    case False
    obtain kept s2 where hold: "hold_in_flight now ps (open_event e s1) = (kept, s2)" by (rule prod.exhaust)
    show thesis by (rule some [OF _ new hold refl]) (simp add: tier_d_found_def Let_def new False hold)
  qed
qed

lemma attempts_index: "fst ` set (tier_d_attempts s ps) \<subseteq> set ps"
  by (auto simp: tier_d_attempts_def)

lemma tier_d_found_holds:
  assumes "holds_inv s" and "e < length (co_events s)" and "er_phase (co_events s ! e) = Discovering"
  shows "holds_inv (tier_d_found e found now s)"
  using assms(2) holds_invD(1) [OF assms(1)]
proof (cases rule: tier_d_found_cases [where found = found and now = now])
  case (none s1 todo)
  note ok = holds_invD(3) [OF assms(1,2)]
  show ?thesis
    unfolding none
    by (rule holds_inv_event [OF assms(1), where e = e and r = "(co_events s ! e)\<lparr>er_phase := Resting, er_pending := todo\<rparr>"])
       (use holds_invD(1) [OF assms(1)] ok in \<open>auto simp: holds_exact_def held_def set_event_events event_ok_def\<close>)
next
  case (some ps kept s1 s2 xs todo)
  note ok = holds_invD(3) [OF assms(1,2)]
  note n = new_plans_holds [OF some(2) fresh_plans holds_invD(1) [OF assms(1)]]
  have e1: "holds_exact (open_event e s1)" "held (open_event e s1) = held s1"
    using same_holds_exact [OF same_holds_frames(4)] same_holdsD(2) [OF same_holds_frames(4)] n by auto
  have "set ps \<subseteq> {..<length (co_heap (open_event e s1))}" using n by auto
  note h = hold_all_holds [OF some(3) [unfolded hold_in_flight_def] e1(1) this]
  let ?r = "(co_events s2 ! e)\<lparr>er_phase := Attempting, er_pending := todo, er_immediate := ps, er_plans := kept, er_attempts := xs\<rparr>"
  let ?s3 = "tier_d_found e found now s"
  have s3: "co_heap ?s3 = co_heap s2" "co_in_flight ?s3 = co_in_flight s2" "co_events ?s3 = (co_events s)[e := ?r]"
    using h n assms(2) by (simp_all add: some(1) start_attempts_def set_event_events open_event_events)
  have len: "length (co_heap s) \<le> length (co_heap s2)" using h n by simp
  have x: "set xs \<subseteq> set xs" "fst ` set xs \<subseteq> set kept" using attempts_index some(4) by fastforce+
  have "er_opened ?r" "er_scheduled ?r = er_scheduled (co_events s ! e)"
    using h n assms(2) by (simp_all add: open_event_events)
  moreover have k: "set kept \<subseteq> {..<length (co_heap s2)}" "set ps \<subseteq> {..<length (co_heap s2)}" using h n by auto
  moreover have "fst ` set xs \<subseteq> {..<length (co_heap s2)}" using x(2) k(1) by (rule subset_trans)
  ultimately have "event_ok (length (co_heap s2)) ?r"
    using event_indices(2) [OF ok] len by (simp add: event_ok_def) (auto simp: subset_iff)
  moreover have "holds_exact ?s3" using conjunct1 [OF h] by (simp add: holds_exact_def held_def s3)
  moreover have "held ?s3 \<subseteq> held s \<union> set kept" using h e1(2) n by (auto simp: held_def s3)
  moreover have "\<not> er_opened (co_events s ! e)" using ok assms(3) by (simp add: event_ok_def)
  ultimately show ?thesis
    using len s3 \<open>er_opened ?r\<close> assms(2)
    by (intro holds_inv_event [OF assms(1), where e = e and r = ?r]) auto
qed

lemma holds_inv_cong:
  "co_heap s' = co_heap s \<Longrightarrow> co_in_flight s' = co_in_flight s \<Longrightarrow> co_events s' = co_events s \<Longrightarrow> holds_inv s' = holds_inv s"
  by (simp add: holds_inv_def holds_exact_def held_def owned_def)

lemma holds_inv_same_holds:
  assumes "holds_inv s" and "same_holds s s'" and "co_events s' = (co_events s)[e := r]"
    and "event_ok (length (co_heap s)) r" and "er_opened r = er_opened (co_events s ! e)"
    and "set (er_plans (co_events s ! e)) \<subseteq> set (er_plans r)"
  shows "holds_inv s'"
  using assms(4-6) same_holdsD(1,2) [OF assms(2)]
  by (intro holds_inv_event [OF assms(1) same_holds_exact [OF assms(2) holds_invD(1) [OF assms(1)]] assms(3)]) auto

lemma holds_inv_charged:
  assumes "holds_inv s" and "charged s s'"
  shows "holds_inv s'"
  using assms(2) holds_invD [OF assms(1)]
  by (intro holds_invI) (auto simp: charged_def owned_def)

lemma handle_event_holds:
  assumes "holds_inv s"
  shows "holds_inv (handle_event event_id sensor_type sensor_id scope s)"
proof -
  obtain s1 b where c: "claim event_id s = (s1, b)" by (rule prod.exhaust)
  then have one: "co_heap s1 = co_heap s" "co_in_flight s1 = co_in_flight s" "co_events s1 = co_events s"
    by (auto simp: claim_def Let_def split: if_splits)
  show ?thesis
  proof (cases b)
    case True
    let ?s = "handle_event event_id sensor_type sensor_id scope s"
    from True one obtain r where ev: "co_heap ?s = co_heap s" "co_in_flight ?s = co_in_flight s" "co_events ?s = co_events s @ [r]"
        "event_ok (length (co_heap s)) r"
      by (simp add: handle_event_def c event_ok_def)
    have "held ?s = held s" "owned s \<subseteq> owned ?s" "holds_exact ?s = holds_exact s"
      by (auto simp: held_def owned_def holds_exact_def ev)
    with holds_invD(1,2) [OF assms] holds_invD(3) [OF assms] ev show ?thesis
      by (intro holds_invI) (auto simp: nth_append less_Suc_eq)
  next
    case False
    then have "handle_event event_id sensor_type sensor_id scope s = s1" by (simp add: handle_event_def c)
    with assms holds_inv_cong [OF one] show ?thesis by simp
  qed
qed

lemma attempt_done_holds:
  assumes "holds_inv s" and "e < length (co_events s)"
  shows "holds_inv (attempt_done e x answer s)"
proof -
  let ?r = "(co_events s ! e)\<lparr>er_attempts := remove1 x (er_attempts (co_events s ! e))\<rparr>"
  note ok = holds_invD(3) [OF assms]
  have "event_ok (length (co_heap s)) ?r"
    using event_indices [OF ok] notin_set_remove1 by (intro event_okI [OF ok]) fastforce+
  then show ?thesis
    by (intro holds_inv_same_holds [OF assms(1), where e = e and r = ?r])
       (auto simp: attempt_done_def set_event_events intro: same_holds_trans [OF same_holds_set_plan same_holds_frames(1)])
qed

lemma schedule_all_holds:
  assumes "holds_inv s" and "e < length (co_events s)" and "set ps \<subseteq> set (er_plans (co_events s ! e))"
  shows "holds_inv (schedule_all e ps s)"
proof -
  let ?r = "co_events s ! e"
  obtain qs where qs: "set qs \<subseteq> set ps"
    "co_events (schedule_all e ps s) = (co_events s)[e := ?r\<lparr>er_scheduled := er_scheduled ?r @ qs\<rparr>]"
    using schedule_all_sel [OF assms(2), of ps] by blast
  note ok = holds_invD(3) [OF assms(1,2)]
  have "set (er_scheduled ?r) \<union> set qs \<subseteq> {..<length (co_heap s)}"
    using event_indices(1,2) [OF ok] qs(1) assms(3) by blast
  then show ?thesis
    using event_indices [OF ok]
    by (intro holds_inv_same_holds [OF assms(1) same_holds_schedule_all qs(2)] event_okI [OF ok]) simp_all
qed

lemma schedule_incidents_holds:
  assumes "holds_inv s" and "e < length (co_events s)"
  shows "holds_inv (schedule_incidents e s)"
proof -
  let ?s = "schedule_all e (er_plans (co_events s ! e)) s"
  have inv: "holds_inv ?s" by (rule schedule_all_holds [OF assms]) simp
  have e: "e < length (co_events ?s)" using schedule_all_sel [OF assms(2)] assms(2) by (metis length_list_update)
  note ok = holds_invD(3) [OF inv e]
  show ?thesis
    unfolding schedule_incidents_def Let_def
    by (rule holds_inv_same_holds [OF inv same_holds_frames(1) set_event_events event_okI [OF ok]])
       (use event_indices [OF ok] in simp_all)
qed

lemma run_hooks_holds:
  assumes "holds_inv s" and "e < length (co_events s)"
  shows "holds_inv (run_hooks e s)"
  using event_indices [OF holds_invD(3) [OF assms]]
  by (intro holds_inv_same_holds [OF assms(1), where e = e and r = "(co_events s ! e)\<lparr>er_phase := Resting\<rparr>"])
     (auto simp: run_hooks_def set_event_events intro!: event_okI [OF holds_invD(3) [OF assms]]
       intro: same_holds_trans [OF same_holds_frames(1) same_holds_frames(2)])

lemma finish_event_holds:
  assumes "holds_inv s" and "e < length (co_events s)"
  shows "holds_inv (finish_event e s)"
proof -
  let ?r = "(co_events s ! e)\<lparr>er_phase := Over, er_opened := False\<rparr>"
  let ?s1 = "s\<lparr>co_gate := close_scope (co_gate s) (er_scope (co_events s ! e))\<rparr>"
  let ?s2 = "fold release_plan (er_plans (co_events s ! e)) ?s1"
  note idx = event_indices [OF holds_invD(3) [OF assms]]
  have "holds_exact ?s1" "held ?s1 = held s" using holds_invD(1) [OF assms(1)] by (simp_all add: holds_exact_def held_def)
  with releases_hold [OF this(1), of "er_plans (co_events s ! e)"] idx(1)
  have r: "holds_exact ?s2" "held ?s2 = held s - set (er_plans (co_events s ! e))" by auto
  have f: "finish_event e s = set_event e (\<lambda>r. r\<lparr>er_phase := Over, er_opened := False\<rparr>) ?s2" by (simp add: finish_event_def Let_def)
  have same: "held (finish_event e s) = held ?s2" "holds_exact (finish_event e s)"
    using r(1) by (simp_all add: f held_def holds_exact_def)
  have ev: "co_events (finish_event e s) = (co_events s)[e := ?r]" by (simp add: f set_event_events)
  have ok: "event_ok (length (co_heap (finish_event e s))) ?r"
    using idx by (intro event_okI [OF holds_invD(3) [OF assms]]) (auto simp: f)
  show ?thesis
    by (rule holds_inv_event [OF assms(1) same(2) ev _ ok]) (auto simp: same(1) r(2), simp add: f)
qed

lemma cancel_event_holds:
  assumes "holds_inv s" and "e < length (co_events s)" and "er_phase (co_events s ! e) \<noteq> Over"
  shows "holds_inv (cancel_event e s)"
proof -
  note ok = holds_invD(3) [OF assms(1,2)]
  have "holds_inv (set_event e (\<lambda>r. r\<lparr>er_phase := Over\<rparr>) s)" if "\<not> er_opened (co_events s ! e)"
    using that event_indices [OF ok]
    by (intro holds_inv_same_holds [OF assms(1), where e = e and r = "(co_events s ! e)\<lparr>er_phase := Over\<rparr>"])
       (auto simp: set_event_events intro!: event_okI [OF ok])
  moreover have "holds_inv (set_event e (\<lambda>r. r\<lparr>er_phase := Settling, er_attempts := []\<rparr>) s)"
    using event_indices [OF ok]
    by (intro holds_inv_same_holds [OF assms(1), where e = e and r = "(co_events s ! e)\<lparr>er_phase := Settling, er_attempts := []\<rparr>"])
       (auto simp: set_event_events intro!: event_okI [OF ok])
  ultimately show ?thesis using finish_event_holds [OF assms(1,2)] by (simp add: cancel_event_def Let_def)
qed

lemma reason_done_holds:
  assumes "holds_inv s" and "e < length (co_events s)" and "p \<in> set (er_scheduled (co_events s ! e))"
  shows "holds_inv (reason_done e p answers now s)"
proof -
  let ?r = "(co_events s ! e)\<lparr>er_scheduled := remove1 p (er_scheduled (co_events s ! e))\<rparr>"
  let ?s = "set_plan p (fold reason_answer answers) (set_event e (\<lambda>r. r\<lparr>er_scheduled := remove1 p (er_scheduled r)\<rparr>) s)"
  note idx = event_indices [OF holds_invD(3) [OF assms(1,2)]]
  have ok: "event_ok (length (co_heap s)) ?r"
    using idx by (intro event_okI [OF holds_invD(3) [OF assms(1,2)]]) (auto dest: set_remove1_subset [THEN subsetD])
  have inv: "holds_inv ?s"
    by (rule holds_inv_same_holds [OF assms(1) _ _ ok, where e = e])
       (auto simp: set_event_events intro: same_holds_trans [OF same_holds_frames(1) same_holds_set_plan])
  have "p < length (co_heap ?s)" using idx(2) assms(3) by auto
  then show ?thesis
    unfolding reason_done_def by (rule holds_inv_charged [OF inv charged_plan(1) [OF holds_invD(1) [OF inv]]])
qed

text \<open>The rest is found: nothing new and the event is over, or what it keeps is scheduled and charged.\<close>

lemma rest_found_cases:
  assumes "e < length (co_events s)"
  obtains (none) "rest_found e found now s = set_event e (\<lambda>r. r\<lparr>er_phase := Over\<rparr>) s" "\<not> er_opened (co_events s ! e)"
  | (some) ps s1 s1' later s2 where
      "new_plans (plans_of s (er_sensor_id (co_events s ! e)) (er_pending (co_events s ! e)) found) s = (ps, s1)"
      "s1' = (if er_opened (co_events s ! e) then s1 else open_event e s1)"
      "hold_in_flight now ps s1' = (later, s2)"
      "rest_found e found now s = charge_cooldowns (er_plans (co_events s ! e) @ later) now
         (schedule_all e later (set_event e (\<lambda>r. r\<lparr>er_phase := Settling, er_plans := er_plans r @ later\<rparr>) s2))"
proof -
  let ?r = "co_events s ! e"
  obtain ps s1 where new: "new_plans (plans_of s (er_sensor_id ?r) (er_pending ?r) found) s = (ps, s1)" by (rule prod.exhaust)
  show thesis
  proof (cases "\<not> er_opened ?r \<and> ps = []")
    case True
    then have "s1 = s" using new by (auto simp: new_plans_def)
    with True new show thesis by (intro none) (simp_all add: rest_found_def Let_def)
  next
    case False
    obtain later s2 where hold: "hold_in_flight now ps (if er_opened ?r then s1 else open_event e s1) = (later, s2)" by (rule prod.exhaust)
    show thesis by (rule some [OF new refl hold]) (use False in \<open>auto simp: rest_found_def Let_def new hold\<close>)
  qed
qed

lemma rest_found_holds:
  assumes "holds_inv s" and "e < length (co_events s)"
  shows "holds_inv (rest_found e found now s)"
  using assms(2)
proof (cases rule: rest_found_cases [where found = found and now = now])
  case none
  note ok = holds_invD(3) [OF assms]
  show ?thesis
    unfolding none(1) using none(2) event_indices [OF ok]
    by (intro holds_inv_same_holds [OF assms(1), where e = e and r = "(co_events s ! e)\<lparr>er_phase := Over\<rparr>"])
       (auto simp: set_event_events intro!: event_okI [OF ok])
next
  case (some ps s1 s1' later s2)
  note ok = holds_invD(3) [OF assms] and n = new_plans_holds [OF some(1) fresh_plans holds_invD(1) [OF assms(1)]]
  have e1: "holds_exact s1'" "held s1' = held s1" "length (co_heap s1') = length (co_heap s1)"
    "co_events s1' = (co_events s)[e := (co_events s ! e)\<lparr>er_opened := True\<rparr>]"
    using same_holds_exact [OF same_holds_frames(4)] same_holdsD(2) [OF same_holds_frames(4)] n assms(2)
    by (auto simp: some(2) open_event_events intro!: list_update_same_conv [THEN iffD2, symmetric])
  have "set ps \<subseteq> {..<length (co_heap s1')}" using n e1(3) by auto
  note h = hold_all_holds [OF some(3) [unfolded hold_in_flight_def] e1(1) this]
  let ?s3 = "set_event e (\<lambda>r. r\<lparr>er_phase := Settling, er_plans := er_plans r @ later\<rparr>) s2"
  let ?r = "(co_events s2 ! e)\<lparr>er_phase := Settling, er_plans := er_plans (co_events s2 ! e) @ later\<rparr>"
  have r: "er_plans (co_events s2 ! e) = er_plans (co_events s ! e)" "er_opened ?r" "er_scheduled ?r = er_scheduled (co_events s ! e)"
      "er_attempts ?r = er_attempts (co_events s ! e)" "er_immediate ?r = er_immediate (co_events s ! e)"
    using h e1(4) assms(2) by simp_all
  have len: "length (co_heap s) \<le> length (co_heap s2)" and kept: "set later \<subseteq> {..<length (co_heap s2)}"
    using h e1(3) n by auto
  have "event_ok (length (co_heap s2)) ?r"
    using event_indices [OF event_ok_mono [OF ok len]] kept r by (intro event_okI [OF ok]) (auto simp: len)
  moreover have "holds_exact ?s3" "held ?s3 = held s2" using conjunct1 [OF h] by (simp_all add: holds_exact_def held_def)
  moreover have "held s2 \<subseteq> held s \<union> set later" using h e1(2) n by auto
  ultimately have inv: "holds_inv ?s3"
    using len r h e1(4) assms(2)
    by (intro holds_inv_event [OF assms(1), where e = e and r = ?r]) (auto simp: set_event_events)
  have e3: "e < length (co_events ?s3)" using h e1(4) assms(2) by simp
  have idx: "set (er_plans (co_events ?s3 ! e)) \<subseteq> {..<length (co_heap ?s3)}" "er_plans (co_events ?s3 ! e) = er_plans (co_events s ! e) @ later"
    using event_indices(1) [OF holds_invD(3) [OF inv e3]] r(1) e3 by simp_all
  have inv4: "holds_inv (schedule_all e later ?s3)" by (rule schedule_all_holds [OF inv e3]) (simp add: idx(2))
  show ?thesis
    unfolding some(4) using idx same_holdsD(1) [OF same_holds_schedule_all [of ?s3 e later]]
    by (intro holds_inv_charged [OF inv4 charged_cooldowns [OF holds_invD(1) [OF inv4]]]) simp
qed

lemma new_coordinator_holds: "holds_inv (new_coordinator g execs)"
  by (simp add: new_coordinator_def holds_inv_def holds_exact_def held_def)

lemma step_holds: "coordinator_step s s' \<Longrightarrow> holds_inv s \<Longrightarrow> holds_inv s'"
proof (induction rule: coordinator_step.induct)
  case (skills_change s' sk s name b)
  have "co_heap s' = co_heap s" "co_in_flight s' = co_in_flight s" "co_events s' = co_events s"
    using skills_change(1) by (auto simp: add_skill_def remove_skill_def clear_skills_def set_binding_def)
  with skills_change(2) holds_inv_cong show ?case by blast
next
  case (gate_moves op s)
  then show ?case by (simp add: holds_inv_def holds_exact_def held_def owned_def)
qed (auto intro: handle_event_holds tier_d_found_holds attempt_done_holds schedule_incidents_holds run_hooks_holds
      rest_found_holds reason_done_holds finish_event_holds cancel_event_holds)

lemma reaches_holds: "reaches (new_coordinator g execs) s \<Longrightarrow> holds_inv s"
  by (induction rule: reaches.induct) (auto intro: new_coordinator_holds step_holds)

subsection \<open>Tier D first\<close>

lemma sorted_wrt_quiet: "\<forall>y \<in> set ys. \<not> is_start y \<Longrightarrow> sorted_wrt (\<lambda>x y. is_start y \<longrightarrow> is_start x) ys"
  by (induction ys) auto

lemma moved_start:
  assumes "moved e s s'" and "holds_inv s" and "e < length (co_events s)" and "start_inv s e'"
  shows "start_inv s' e'"
proof -
  from assms(1) obtain xs where tr: "co_trace s' = co_trace s @ xs" and xs: "\<forall>x \<in> set xs. \<forall>e'. about e' x \<longrightarrow> e' = e \<and> \<not> is_start x"
      and early: "er_phase (co_events s' ! e) \<in> {Discovering, Attempting} \<longrightarrow> filter (about e) xs = []"
    by (auto simp: moved_def)
  have len: "length (co_events s') = length (co_events s)" and other: "e' \<noteq> e \<Longrightarrow> co_events s' ! e' = co_events s ! e'"
      and imm: "er_immediate (co_events s' ! e) = er_immediate (co_events s ! e)"
      and phase: "er_phase (co_events s' ! e) \<in> {Discovering, Attempting} \<Longrightarrow> er_phase (co_events s' ! e) = er_phase (co_events s ! e)"
      and gr: "\<And>p. p < length (co_heap s) \<Longrightarrow> grants_of s' p = grants_of s p"
    using assms(1) by (simp_all add: moved_def)
  have imm': "er_immediate (co_events s' ! e') = er_immediate (co_events s ! e')" using imm other by (cases "e' = e") auto
  have idx: "set (er_immediate (co_events s ! e')) \<subseteq> {..<length (co_heap s)}" if "e' < length (co_events s)"
    using event_indices(4) [OF holds_invD(3) [OF assms(2) that]] .
  have others: "filter (about e') xs = []" if "e' \<noteq> e" using xs that by (auto simp: filter_empty_conv)
  from assms(4) have inv: "sorted_wrt (\<lambda>x y. is_start y \<longrightarrow> is_start x) (filter (about e') (co_trace s))"
      "length (co_events s) \<le> e' \<or> er_phase (co_events s ! e') = Discovering \<Longrightarrow> filter (about e') (co_trace s) = []"
      "e' < length (co_events s) \<Longrightarrow> er_phase (co_events s ! e') = Attempting \<Longrightarrow> list_all is_start (filter (about e') (co_trace s))"
      "distinct (filter is_start (filter (about e') (co_trace s)))"
    by (simp_all add: start_inv_def)
  from assms(4) have started: "\<forall>p \<in> set (er_immediate (co_events s ! e')). \<forall>a < length (grants_of s p).
        grants_of s p ! a \<longrightarrow> StartedTierD e' p a \<in> set (co_trace s)" if "e' < length (co_events s)"
    using that by (simp add: start_inv_def)
  from assms(4) have granted: "\<forall>p a. StartedTierD e' p a \<in> set (co_trace s)
      \<longrightarrow> p \<in> set (er_immediate (co_events s ! e')) \<and> a < length (grants_of s p) \<and> grants_of s p ! a"
    by (simp add: start_inv_def)
  have quiet: "\<forall>x \<in> set (filter (about e') xs). \<not> is_start x" using xs by auto
  have same: "StartedTierD e' p a \<in> set (co_trace s') \<longleftrightarrow> StartedTierD e' p a \<in> set (co_trace s)" for p a
    using quiet by (auto simp: tr)
  have still: "filter (about e') xs = [] \<and> er_phase (co_events s' ! e') = er_phase (co_events s ! e')"
    if "er_phase (co_events s' ! e') \<in> {Discovering, Attempting}"
    using that early phase others other by (cases "e' = e") auto
  have beyond: "filter (about e') xs = []" if "length (co_events s) \<le> e'" using that assms(3) others by fastforce
  have known: "e' < length (co_events s)" if "StartedTierD e' p a \<in> set (co_trace s)" for p a
    using that inv(2) by (force simp: filter_empty_conv not_le [symmetric])
  show ?thesis
    unfolding start_inv_def
  proof (intro conjI)
    show "sorted_wrt (\<lambda>x y. is_start y \<longrightarrow> is_start x) (filter (about e') (co_trace s'))"
      using inv(1) sorted_wrt_quiet [OF quiet] quiet by (simp add: tr sorted_wrt_append)
    show "length (co_events s') \<le> e' \<or> er_phase (co_events s' ! e') = Discovering \<longrightarrow> filter (about e') (co_trace s') = []"
      using inv(2) still beyond by (auto simp: tr len)
    show "e' < length (co_events s') \<longrightarrow> er_phase (co_events s' ! e') = Attempting \<longrightarrow> list_all is_start (filter (about e') (co_trace s'))"
      using inv(3) still by (auto simp: tr len)
    show "e' < length (co_events s') \<longrightarrow> (\<forall>p \<in> set (er_immediate (co_events s' ! e')). \<forall>a < length (grants_of s' p).
        grants_of s' p ! a \<longrightarrow> StartedTierD e' p a \<in> set (co_trace s'))"
      unfolding same len imm' using started idx gr by (simp add: subset_iff)
    show "distinct (filter is_start (filter (about e') (co_trace s')))"
      using inv(4) filter_False [OF quiet] by (simp add: tr)
    show "\<forall>p a. StartedTierD e' p a \<in> set (co_trace s')
        \<longrightarrow> p \<in> set (er_immediate (co_events s' ! e')) \<and> a < length (grants_of s' p) \<and> grants_of s' p ! a"
      unfolding same imm' using granted known idx gr by (simp add: subset_iff)
  qed
qed

lemma movedI:
  assumes "co_trace s' = co_trace s @ xs" and "\<And>x e'. x \<in> set xs \<Longrightarrow> about e' x \<Longrightarrow> e' = e \<and> \<not> is_start x"
    and "co_events s' = (co_events s)[e := r]" and "e < length (co_events s)"
    and "er_phase r \<in> {Discovering, Attempting} \<Longrightarrow> er_phase r = er_phase (co_events s ! e) \<and> filter (about e) xs = []"
    and "er_immediate r = er_immediate (co_events s ! e)"
    and "length (co_heap s) \<le> length (co_heap s')" and "\<And>p. p < length (co_heap s) \<Longrightarrow> grants_of s' p = grants_of s p"
  shows "moved e s s'"
  using assms by (auto simp: moved_def)

lemma same_holds_grants:
  assumes "same_holds s s'"
  shows "length (co_heap s) \<le> length (co_heap s')" and "p < length (co_heap s) \<Longrightarrow> grants_of s' p = grants_of s p"
  using same_holdsD [OF assms] by simp_all

lemma attempt_done_moved:
  assumes "e < length (co_events s)"
  shows "moved e s (attempt_done e x answer s)"
proof -
  have "same_holds s (attempt_done e x answer s)"
    unfolding attempt_done_def by (intro same_holds_trans [OF same_holds_set_plan same_holds_frames(1)]) simp
  from same_holds_grants [OF this] assms show ?thesis
    by (intro movedI [where xs = "[]" and r = "(co_events s ! e)\<lparr>er_attempts := remove1 x (er_attempts (co_events s ! e))\<rparr>"])
       (auto simp: attempt_done_def set_event_events)
qed

lemma schedule_incidents_moved:
  assumes "e < length (co_events s)"
  shows "moved e s (schedule_incidents e s)"
proof -
  have sh: "same_holds s (schedule_incidents e s)"
    unfolding schedule_incidents_def Let_def by (rule same_holds_trans [OF same_holds_schedule_all same_holds_frames(1)])
  obtain qs where qs: "co_trace (schedule_all e (er_plans (co_events s ! e)) s) = co_trace s @ map (ScheduledReasoning e) qs"
    "co_events (schedule_all e (er_plans (co_events s ! e)) s) = (co_events s)[e := (co_events s ! e)\<lparr>er_scheduled := er_scheduled (co_events s ! e) @ qs\<rparr>]"
    using schedule_all_sel [OF assms] by blast
  with same_holds_grants [OF sh] assms show ?thesis
    by (intro movedI [where xs = "map (ScheduledReasoning e) qs"
          and r = "(co_events s ! e)\<lparr>er_scheduled := er_scheduled (co_events s ! e) @ qs, er_phase := HeadStart\<rparr>"])
       (auto simp: schedule_incidents_def Let_def set_event_events)
qed

lemma run_hooks_moved:
  assumes "e < length (co_events s)"
  shows "moved e s (run_hooks e s)"
  using assms
  by (intro movedI [where xs = "[RanHooks e]" and r = "(co_events s ! e)\<lparr>er_phase := Resting\<rparr>"])
     (auto simp: run_hooks_def set_event_events grants_of_def)

lemma finish_event_moved:
  assumes "e < length (co_events s)" and "set (er_plans (co_events s ! e)) \<subseteq> {..<length (co_heap s)}"
  shows "moved e s (finish_event e s)"
proof -
  have "grants_of (finish_event e s) p = grants_of (fold release_plan (er_plans (co_events s ! e)) (s\<lparr>co_gate := close_scope (co_gate s) (er_scope (co_events s ! e))\<rparr>)) p" for p
    by (simp add: finish_event_def Let_def grants_of_def)
  also have "\<dots> p = grants_of s p" for p using assms(2) by (simp add: releases_grants) (simp add: grants_of_def)
  finally have "grants_of (finish_event e s) p = grants_of s p" for p .
  then show ?thesis
    using assms by (intro movedI [where xs = "[]" and r = "(co_events s ! e)\<lparr>er_phase := Over, er_opened := False\<rparr>"])
       (auto simp: finish_event_def Let_def set_event_events)
qed

lemma cancel_event_moved:
  assumes "e < length (co_events s)" and "set (er_plans (co_events s ! e)) \<subseteq> {..<length (co_heap s)}"
  shows "moved e s (cancel_event e s)"
proof -
  have "moved e s (set_event e (\<lambda>r. r\<lparr>er_phase := Over\<rparr>) s)"
    using assms(1) by (intro movedI [where xs = "[]" and r = "(co_events s ! e)\<lparr>er_phase := Over\<rparr>"]) (auto simp: set_event_events grants_of_def)
  moreover have "moved e s (set_event e (\<lambda>r. r\<lparr>er_phase := Settling, er_attempts := []\<rparr>) s)"
    using assms(1) by (intro movedI [where xs = "[]" and r = "(co_events s ! e)\<lparr>er_phase := Settling, er_attempts := []\<rparr>"])
      (auto simp: set_event_events grants_of_def)
  ultimately show ?thesis using finish_event_moved [OF assms] by (simp add: cancel_event_def Let_def)
qed

lemma reason_done_moved:
  assumes "holds_inv s" and "e < length (co_events s)" and "p \<in> set (er_scheduled (co_events s ! e))"
  shows "moved e s (reason_done e p answers now s)"
proof -
  let ?s = "set_plan p (fold reason_answer answers) (set_event e (\<lambda>r. r\<lparr>er_scheduled := remove1 p (er_scheduled r)\<rparr>) s)"
  have sh: "same_holds s ?s" by (intro same_holds_trans [OF same_holds_frames(1) same_holds_set_plan]) simp
  have "holds_exact ?s" "p < length (co_heap ?s)"
    using same_holds_exact [OF sh] holds_invD(1) [OF assms(1)] event_indices(2) [OF holds_invD(3) [OF assms(1,2)]] assms(3) by auto
  from charged_plan(1) [OF this, of now] have c: "charged ?s (reason_done e p answers now s)" by (simp add: reason_done_def)
  then obtain ps where "co_trace (reason_done e p answers now s) = co_trace s @ map Charged ps" by (auto simp: charged_def)
  with c assms(2) same_holds_grants [OF sh] show ?thesis
    by (intro movedI [where xs = "map Charged ps" and r = "(co_events s ! e)\<lparr>er_scheduled := remove1 p (er_scheduled (co_events s ! e))\<rparr>"])
       (auto simp: charged_def set_event_events filter_empty_conv)
qed

lemma rest_found_moved:
  assumes "holds_inv s" and "e < length (co_events s)"
  shows "moved e s (rest_found e found now s)"
  using assms(2)
proof (cases rule: rest_found_cases [where found = found and now = now])
  case none
  show ?thesis
    unfolding none(1) using assms(2)
    by (intro movedI [where xs = "[]" and r = "(co_events s ! e)\<lparr>er_phase := Over\<rparr>"]) (auto simp: set_event_events grants_of_def)
next
  case (some ps s1 s1' later s2)
  note n = new_plans_holds [OF some(1) fresh_plans holds_invD(1) [OF assms(1)]]
  have e1: "holds_exact s1'" "length (co_heap s1') = length (co_heap s1)" "co_trace s1' = co_trace s1" "grants_of s1' = grants_of s1"
    "co_events s1' = (co_events s)[e := (co_events s ! e)\<lparr>er_opened := True\<rparr>]"
    using same_holds_exact [OF same_holds_frames(4)] n assms(2)
    by (auto simp: some(2) open_event_events grants_of_def fun_eq_iff intro!: list_update_same_conv [THEN iffD2, symmetric])
  have "set ps \<subseteq> {..<length (co_heap s1')}" using n e1(2) by auto
  note h = hold_all_holds [OF some(3) [unfolded hold_in_flight_def] e1(1) this]
  let ?s3 = "set_event e (\<lambda>r. r\<lparr>er_phase := Settling, er_plans := er_plans r @ later\<rparr>) s2"
  have e3: "e < length (co_events ?s3)" using h e1(5) assms(2) by simp
  let ?r = "co_events ?s3 ! e"
  obtain qs where qs: "co_trace (schedule_all e later ?s3) = co_trace ?s3 @ map (ScheduledReasoning e) qs"
    "co_events (schedule_all e later ?s3) = (co_events ?s3)[e := ?r\<lparr>er_scheduled := er_scheduled ?r @ qs\<rparr>]"
    using schedule_all_sel [OF e3, of later] by blast
  note sh = same_holds_schedule_all [of ?s3 e later]
  have "holds_exact ?s3" using conjunct1 [OF h] by (simp add: holds_exact_def held_def)
  then have "charged (schedule_all e later ?s3) (rest_found e found now s)"
    unfolding some(4) using h n e1(2) event_indices(1) [OF holds_invD(3) [OF assms]] same_holdsD(1) [OF sh]
    by (intro charged_cooldowns [OF same_holds_exact [OF sh]]) (auto simp: subset_iff)
  then obtain cs where c: "co_trace (rest_found e found now s) = co_trace (schedule_all e later ?s3) @ map Charged cs"
      "co_events (rest_found e found now s) = co_events (schedule_all e later ?s3)"
      "length (co_heap (rest_found e found now s)) = length (co_heap ?s3)"
      "\<forall>p < length (co_heap ?s3). grants_of (rest_found e found now s) p = grants_of (schedule_all e later ?s3) p"
    using same_holdsD(1) [OF sh] by (auto simp: charged_def)
  have "grants_of (rest_found e found now s) p = grants_of s p" if "p < length (co_heap s)" for p
  proof -
    have "p < length (co_heap ?s3)" using that h n e1(2) by simp
    with c(4) same_holdsD(4) [OF sh this] have "grants_of (rest_found e found now s) p = grants_of ?s3 p" by simp
    also have "\<dots> = grants_of s2 p" by (simp add: grants_of_def)
    finally show ?thesis using h n e1(4) that by simp
  qed
  moreover have "co_trace (rest_found e found now s) = co_trace s @ (map (ScheduledReasoning e) qs @ map Charged cs)"
    using c(1) qs(1) h e1(3) n by simp
  moreover have "co_events (rest_found e found now s) = (co_events s)[e := ?r\<lparr>er_scheduled := er_scheduled ?r @ qs\<rparr>]"
    using c(2) qs(2) h e1(5) by (simp add: set_event_events)
  ultimately show ?thesis
    using assms(2) h e1 n c(3)
    by (intro movedI [where xs = "map (ScheduledReasoning e) qs @ map Charged cs" and r = "?r\<lparr>er_scheduled := er_scheduled ?r @ qs\<rparr>"])
       (auto simp: set_event_events)
qed

text \<open>A plan just built has every act it grants admitted, and a hold changes no action.\<close>

lemma fresh_admitted:
  "t \<in> set (plans_of s sid sks found) \<Longrightarrow> a \<in> set (tp_actions t) \<Longrightarrow> pl_tier_d_granted a \<Longrightarrow> admitted a"
  by (auto simp: plans_of_def plan_for_def Let_def assign_action_tier_def admitted_def planned_def split: option.splits if_splits)

lemma hold_all_keeps:
  assumes "fold (hold_one now) ps (kept, s) = (kept', s')" and "distinct (kept @ ps)" and "set ps \<subseteq> {..<length (co_heap s)}"
  shows "distinct kept' \<and> (\<forall>q. tp_actions (co_heap s' ! q) = tp_actions (co_heap s ! q))"
  using assms
proof (induction ps arbitrary: kept s)
  case (Cons p ps)
  obtain k1 s1 where one: "hold_one now p (kept, s) = (k1, s1)" by (rule prod.exhaust)
  then have k1: "k1 = kept \<or> k1 = kept @ [p]" by (auto simp: hold_one_def Let_def split: if_splits)
  from one Cons.prems(3) have s1: "length (co_heap s1) = length (co_heap s)" "\<forall>q. tp_actions (co_heap s1 ! q) = tp_actions (co_heap s ! q)"
    by (auto simp: hold_one_def Let_def plan_after split: if_splits)
  have "distinct kept' \<and> (\<forall>q. tp_actions (co_heap s' ! q) = tp_actions (co_heap s1 ! q))"
    using Cons.prems one k1 s1(1) by (intro Cons.IH) auto
  with s1(2) show ?case by simp
qed simp

lemma attempts_distinct: "distinct ps \<Longrightarrow> distinct (tier_d_attempts s ps)"
  by (induction ps) (auto simp: tier_d_attempts_def licensed_acts_def distinct_map inj_on_def)

lemma start_inv_frame:
  assumes "start_inv s e" and g: "\<And>p. p < length (co_heap s) \<Longrightarrow> grants_of s2 p = grants_of s p"
    and idx: "e < length (co_events s) \<Longrightarrow> set (er_immediate (co_events s ! e)) \<subseteq> {..<length (co_heap s)}"
    and known: "\<And>p a. StartedTierD e p a \<in> set (co_trace s) \<Longrightarrow> e < length (co_events s)"
    and ev: "co_events s' ! e = co_events s ! e" "length (co_events s') = length (co_events s)"
    and mem: "\<And>p a. StartedTierD e p a \<in> set (co_trace s') \<longleftrightarrow> StartedTierD e p a \<in> set (co_trace s)"
    and mine: "filter (about e) (co_trace s') = filter (about e) (co_trace s)" and gr: "grants_of s' = grants_of s2"
  shows "start_inv s' e"
proof -
  have g': "grants_of s' p = grants_of s p" if "e < length (co_events s)" "p \<in> set (er_immediate (co_events s ! e))" for p
    using that g idx by (auto simp: gr)
  show ?thesis
    using assms(1) g' known unfolding start_inv_def ev mem mine by (metis (no_types, lifting))
qed

lemma start_inv_cong:
  assumes "co_trace s' = co_trace s" and "co_heap s' = co_heap s"
    and "co_events s' = co_events s \<or> co_events s' = co_events s @ [r] \<and> er_phase r = Discovering \<and> er_immediate r = []"
    and "start_inv s e"
  shows "start_inv s' e"
proof -
  have g: "grants_of s' = grants_of s" using assms(2) by (simp add: fun_eq_iff grants_of_def)
  show ?thesis
  proof (cases "e < length (co_events s) \<or> co_events s' = co_events s")
    case True
    then have "co_events s' ! e = co_events s ! e" "e < length (co_events s') \<longleftrightarrow> e < length (co_events s)"
      using assms(3) by (auto simp: nth_append)
    with assms(1,4) g show ?thesis by (simp add: start_inv_def not_less [symmetric])
  next
    case False
    then have none: "filter (about e) (co_trace s) = []" using assms(4) by (simp add: start_inv_def not_less)
    from False assms(3) have "e < length (co_events s') \<Longrightarrow> er_phase (co_events s' ! e) = Discovering \<and> er_immediate (co_events s' ! e) = []"
      by (auto simp: nth_append less_Suc_eq)
    moreover have "StartedTierD e p a \<notin> set (co_trace s)" for p a using none by (auto simp: filter_empty_conv)
    ultimately show ?thesis using none assms(1) by (auto simp: start_inv_def)
  qed
qed

lemma handle_event_start:
  assumes "start_inv s e"
  shows "start_inv (handle_event event_id sensor_type sensor_id scope s) e"
proof -
  obtain s1 b where c: "claim event_id s = (s1, b)" by (rule prod.exhaust)
  then have one: "co_heap s1 = co_heap s" "co_trace s1 = co_trace s" "co_events s1 = co_events s"
    by (auto simp: claim_def Let_def split: if_splits)
  show ?thesis
  proof (cases b)
    case True
    then obtain r where "co_events (handle_event event_id sensor_type sensor_id scope s) = co_events s @ [r]"
        "er_phase r = Discovering" "er_immediate r = []"
      by (simp add: handle_event_def c one)
    then show ?thesis using True one by (intro start_inv_cong [OF _ _ _ assms, where r = r]) (simp_all add: handle_event_def c)
  next
    case False
    then have "handle_event event_id sensor_type sensor_id scope s = s1" by (simp add: handle_event_def c)
    then show ?thesis using start_inv_cong [OF one(2,1) _ assms] one(3) by simp
  qed
qed

text \<open>The discovery of the Tier D matches starts exactly what the plans just built grant.\<close>

lemma attempts_exact:
  assumes new: "new_plans (plans_of s sid sks found) s = (ps, s1)" and s1': "co_heap s1' = co_heap s1"
    and hold: "fold (hold_one now) ps ([], s1') = (kept, s2)" and ok: "holds_exact s1'"
    and xs: "xs = tier_d_attempts s2 (filter (\<lambda>p. grants_tier_d (plan_at s2 p)) kept)"
  shows "(p, a) \<in> set xs \<longleftrightarrow> p \<in> set ps \<and> a < length (grants_of s2 p) \<and> grants_of s2 p ! a"
    and "distinct xs"
proof -
  let ?ts = "plans_of s sid sks found"
  have ps: "ps = [length (co_heap s)..<length (co_heap s) + length ?ts]" and heap: "co_heap s1' = co_heap s @ ?ts"
    using new s1' by (auto simp: new_plans_def)
  have sub: "set ps \<subseteq> {..<length (co_heap s1')}" by (auto simp: ps heap)
  note h = hold_all_holds [OF hold ok sub]
  have keep: "distinct kept" "\<And>q. tp_actions (co_heap s2 ! q) = tp_actions (co_heap s1' ! q)"
    using hold_all_keeps [OF hold _ sub] by (simp_all add: ps)
  from keep(1) show "distinct xs" by (simp add: xs attempts_distinct)
  have adm: "admitted (tp_actions (co_heap s2 ! q) ! i)"
    if "q \<in> set ps" "i < length (tp_actions (co_heap s2 ! q))" "pl_tier_d_granted (tp_actions (co_heap s2 ! q) ! i)" for q i
  proof -
    have "co_heap s1' ! q \<in> set ?ts" using that(1) by (auto simp: heap ps nth_append)
    then show ?thesis using that(2,3) fresh_admitted [of "co_heap s1' ! q"] by (simp add: keep(2))
  qed
  have len: "length (grants_of s2 p) = length (tp_actions (co_heap s2 ! p))" by (simp add: grants_of_def)
  have "p \<in> set kept" if "p \<in> set ps" "a < length (grants_of s2 p)" "grants_of s2 p ! a"
    using h that by (metis DiffI nth_mem)
  then show "(p, a) \<in> set xs \<longleftrightarrow> p \<in> set ps \<and> a < length (grants_of s2 p) \<and> grants_of s2 p ! a"
    using h [THEN conjunct2, THEN conjunct2, THEN conjunct2, THEN conjunct1] adm [of p a]
    unfolding xs tier_d_attempts_def licensed_acts_def plan_at_def grants_tier_d_def list_ex_length grants_of_def
    apply auto
    apply (rule exI [of _ p])
    apply auto
    done
qed

lemma tier_d_found_start:
  assumes "holds_inv s" and "e < length (co_events s)" and "er_phase (co_events s ! e) = Discovering" and "start_inv s e'"
    and "start_inv s e"
  shows "start_inv (tier_d_found e found now s) e'"
  using assms(2) holds_invD(1) [OF assms(1)]
proof (cases rule: tier_d_found_cases [where found = found and now = now])
  case (none s1 todo)
  have "moved e s (tier_d_found e found now s)"
    unfolding none using assms(2)
    by (intro movedI [where xs = "[RanHooks e]" and r = "(co_events s ! e)\<lparr>er_phase := Resting, er_pending := todo\<rparr>"])
       (auto simp: set_event_events grants_of_def)
  from moved_start [OF this assms(1,2,4)] show ?thesis .
next
  case (some ps kept s1 s2 xs todo)
  note n = new_plans_holds [OF some(2) fresh_plans holds_invD(1) [OF assms(1)]]
  have e1: "holds_exact (open_event e s1)" using same_holds_exact [OF same_holds_frames(4)] n by auto
  note hold = some(3) [unfolded hold_in_flight_def]
  have "set ps \<subseteq> {..<length (co_heap (open_event e s1))}" using n by auto
  note h = hold_all_holds [OF hold e1 this]
  note exact = attempts_exact [OF some(2) frames(21) hold e1 some(4)]
  let ?s = "tier_d_found e found now s"
  have tr: "co_trace ?s = co_trace s @ map (\<lambda>(p, a). StartedTierD e p a) xs" and gr: "grants_of ?s = grants_of s2"
    using h n by (simp_all add: some(1) start_attempts_def fun_eq_iff grants_of_def)
  have ev: "co_events ?s = (co_events s)[e := (co_events s ! e)\<lparr>er_opened := True, er_phase := Attempting, er_pending := todo,
      er_immediate := ps, er_plans := kept, er_attempts := xs\<rparr>]"
    using h n assms(2) by (simp add: some(1) start_attempts_def set_event_events open_event_events)
  have old: "filter (about e) (co_trace s) = []" using assms(3,5) by (simp add: start_inv_def)
  show ?thesis
  proof (cases "e' = e")
    case True
    have mine: "filter (about e) (co_trace ?s) = map (\<lambda>(p, a). StartedTierD e p a) xs"
      using old by (auto simp: tr filter_id_conv)
    have starts: "\<forall>x \<in> set (map (\<lambda>(p, a). StartedTierD e p a) xs). is_start x" by auto
    have mem: "StartedTierD e p a \<in> set (co_trace ?s) \<longleftrightarrow> (p, a) \<in> set xs" for p a
      using old by (auto simp: tr filter_empty_conv)
    have "distinct (map (\<lambda>(p, a). StartedTierD e p a) xs)" using exact(2) by (auto simp: distinct_map inj_on_def)
    moreover have "sorted_wrt (\<lambda>x y. is_start y \<longrightarrow> is_start x) (map (\<lambda>(p, a). StartedTierD e p a) xs)"
      using starts by (auto simp: sorted_wrt_iff_nth_less)
    moreover have "filter is_start (map (\<lambda>(p, a). StartedTierD e p a) xs) = map (\<lambda>(p, a). StartedTierD e p a) xs"
      using starts by (simp only: filter_id_conv)
    ultimately show ?thesis
      unfolding start_inv_def True mine mem gr using assms(2) exact(1) starts by (simp add: ev list_all_iff)
  next
    case False
    have quiet: "filter (about e') (map (\<lambda>(p, a). StartedTierD e p a) xs) = []" using False by (auto simp: filter_empty_conv)
    have mem: "StartedTierD e' p a \<in> set (co_trace ?s) \<longleftrightarrow> StartedTierD e' p a \<in> set (co_trace s)" for p a
      using False by (auto simp: tr)
    have gs: "p < length (co_heap s) \<Longrightarrow> grants_of s2 p = grants_of s p" for p
      using h n same_holdsD(4) [OF same_holds_frames(4) [of s1 e], of p] by simp
    have idx: "set (er_immediate (co_events s ! e')) \<subseteq> {..<length (co_heap s)}" if "e' < length (co_events s)"
      using event_indices(4) [OF holds_invD(3) [OF assms(1) that]] .
    have known: "e' < length (co_events s)" if "StartedTierD e' p a \<in> set (co_trace s)" for p a
    proof (rule ccontr)
      assume "\<not> e' < length (co_events s)"
      with assms(4) have "filter (about e') (co_trace s) = []" by (simp add: start_inv_def)
      with that show False by (auto simp: filter_empty_conv)
    qed
    have nth: "co_events ?s ! e' = co_events s ! e'" "length (co_events ?s) = length (co_events s)" using False by (simp_all add: ev)
    show ?thesis
      by (rule start_inv_frame [OF assms(4) gs idx known nth mem]) (simp_all add: tr quiet gr)
  qed
qed

lemma step_start:
  assumes "coordinator_step s s'" and "holds_inv s" and "\<forall>e. start_inv s e"
  shows "\<forall>e. start_inv s' e"
  using assms
proof (induction rule: coordinator_step.induct)
  case (skills_change s' sk s name b)
  have "co_heap s' = co_heap s" "co_trace s' = co_trace s" "co_events s' = co_events s"
    using skills_change(1) by (auto simp: add_skill_def remove_skill_def clear_skills_def set_binding_def)
  with skills_change(3) show ?case by (auto intro: start_inv_cong)
next
  case (gate_moves op s)
  then show ?case by (auto intro: start_inv_cong [of _ s])
next
  case (finished e s)
  then show ?case using finish_event_moved event_indices(1) [OF holds_invD(3)] moved_start by blast
next
  case (cancelled e s)
  then show ?case using cancel_event_moved event_indices(1) [OF holds_invD(3)] moved_start by blast
qed (auto intro: handle_event_start tier_d_found_start moved_start [OF attempt_done_moved] moved_start [OF schedule_incidents_moved]
      moved_start [OF run_hooks_moved] moved_start [OF rest_found_moved] moved_start [OF reason_done_moved])

lemma reaches_start: "reaches (new_coordinator g execs) s \<Longrightarrow> \<forall>e. start_inv s e"
proof (induction rule: reaches.induct)
  case here
  show ?case by (simp add: new_coordinator_def start_inv_def)
next
  case (onward s s')
  then show ?case using step_start reaches_holds by blast
qed

subsection \<open>Cooldowns\<close>

lemma settle_pending_spends:
  "tp_trigger_name t \<noteq> [] \<Longrightarrow> consumes_cooldown (cooldown_outcome (settle_pending t)) \<longleftrightarrow> spends t"
proof -
  assume "tp_trigger_name t \<noteq> []"
  moreover have "list_ex P (map f xs) = list_ex (\<lambda>x. P (f x)) xs" for P and f :: "planned_action \<Rightarrow> planned_action" and xs
    by (induction xs) simp_all
  ultimately show ?thesis
    unfolding cooldown_spent_iff
    by (auto simp: spends_def settle_pending_def list_ex_iff consumes_cooldown_def CONSUMING_OUTCOMES_def simp del: set_map)
qed

lemma example_reached: "reaches (new_coordinator new_gate [''trip_relay'']) example_run"
proof -
  have added: "coordinator_step s (add_skill example_skill s)" for s
    by (rule skills_change [where sk = example_skill and name = "[]" and b = None]) simp
  have bound: "coordinator_step s (set_binding (Some example_binding) s)" for s
    by (rule skills_change [where sk = example_skill and name = "[]" and b = "Some example_binding"]) simp
  have "reaches (new_coordinator new_gate [''trip_relay'']) example_start"
    unfolding example_start_def
    by (rule reaches.onward [OF reaches.onward [OF reaches.onward [OF reaches.here added] bound] event_arrives])
  moreover have "0 < length (co_events example_start)" "er_phase (co_events example_start ! 0) = Discovering"
    by (simp_all add: example_start_def handle_event_def claim_def set_binding_def add_skill_def new_coordinator_def)
  ultimately show ?thesis unfolding example_run_def by (rule reaches.onward [OF _ tier_d])
qed

lemma example_state:
  "plan_key (co_heap example_run ! 0) \<in> co_in_flight example_run"
  "0 < length (tp_actions (co_heap example_run ! 0))"
  "pl_tier_d_granted (tp_actions (co_heap example_run ! 0) ! 0)"
  "0 \<in> set (er_immediate (co_events example_run ! 0))" "0 < length (co_events example_run)"
  by code_simp+

section \<open>Properties\<close>

text \<open>
  C21. A trigger with a cooldown is in flight at most once, and never left behind. Whatever the
  interleaving of events, the keys in flight are exactly the keys of the plans that hold one, no two
  plans hold the same key, and every such plan belongs to an event whose scope is still open; so
  once every event is over - finished or cancelled - nothing is in flight.
\<close>

theorem in_flight_exactly_held:
  assumes "reaches (new_coordinator g execs) s"
  shows "co_in_flight s = (\<lambda>p. plan_key (co_heap s ! p)) ` held s
    \<and> inj_on (\<lambda>p. plan_key (co_heap s ! p)) (held s)
    \<and> (\<forall>p \<in> held s. \<exists>r \<in> set (co_events s). er_opened r \<and> er_phase r \<noteq> Over \<and> p \<in> set (er_plans r))
    \<and> ((\<forall>r \<in> set (co_events s). er_phase r = Over) \<longrightarrow> co_in_flight s = {})"
proof -
  from reaches_holds [OF assms] have inv: "holds_exact s" "held s \<subseteq> owned s" "\<forall>r \<in> set (co_events s). event_ok (length (co_heap s)) r"
    by (auto simp: holds_inv_def list_all_iff)
  have "\<exists>r \<in> set (co_events s). er_opened r \<and> er_phase r \<noteq> Over \<and> p \<in> set (er_plans r)" if "p \<in> held s" for p
    using subsetD [OF inv(2) that] inv(3) by (fastforce simp: owned_def event_ok_def)
  with inv(1) show ?thesis by (fastforce simp: holds_exact_def)
qed

theorem in_flight_exactly_held_witness:
  "plan_key (co_heap example_run ! 0) \<in> (\<lambda>p. plan_key (co_heap example_run ! p)) ` held example_run"
  using in_flight_exactly_held [OF example_reached] example_state(1) by simp





end
