(* ===== verification/Deferred_Writer.thy ===== *)
theory Deferred_Writer
  imports Ori_Prelude "HOL-Library.Multiset"
begin

text \<open>
  \<open>ori/state/deferred_writer.py\<close>: store writes taken off the path of whatever they record, and
  the dispatcher's records on top of it (\<open>_defer_record\<close>, \<open>abandon_records\<close>, \<open>record_backlog\<close> of
  \<open>ori/reasoning/action_dispatcher.py\<close>). The worker's coroutine is the sequence of its awaits: it
  is created, it awaits a write, it sleeps before a retry, it ends. Each method, each answer of the
  store and each end of a sleep is a call on the writer; a history keeps what became of every
  write.
\<close>

unbundle bit_operations_syntax

section \<open>The writer\<close>

definition RETRY_FIRST_S :: rat where
  "RETRY_FIRST_S = 1 / 20"

definition RETRY_MAX_S :: rat where
  "RETRY_MAX_S = 5"

definition mentions :: "string \<Rightarrow> string \<Rightarrow> bool" where
  "mentions needle s = list_ex (\<lambda>i. starts_with needle (drop i s)) [0..<Suc (length s)]"

text \<open>What a write raises: an operational error with its text, or anything else, one whose text raises too.\<close>

datatype write_error = OperationalError string | OtherError

fun is_transient_store_error :: "write_error \<Rightarrow> bool" where
  "is_transient_store_error (OperationalError m) =
     (mentions ''locked'' (str_lower m) \<or> mentions ''busy'' (str_lower m))"
| "is_transient_store_error OtherError = False"

text \<open>A pending write, numbered as submitted; whether it has a loss handler.\<close>

record pending_write =
  pw_seq :: nat
  pw_label :: string
  pw_report :: bool
  pw_on_lost :: bool

datatype worker = NoWorker | Started | Writing | BackingOff

text \<open>
  The fields of \<open>DeferredWriter\<close>, how often a loss handler ran, and the history: how many writes were
  submitted, which the store took, which were lost, which are unknown, which losses were logged.
\<close>

record writer =
  dw_ceiling :: nat
  dw_queue :: "pending_write list"
  dw_worker :: worker
  dw_in_flight :: "pending_write option"
  dw_delay :: rat
  dw_closed :: bool
  dw_lost :: nat
  dw_unknown :: nat
  dw_handled :: nat
  dw_next :: nat
  dw_taken :: "pending_write list"
  dw_losses :: "pending_write list"
  dw_unknowns :: "pending_write list"
  dw_logged :: "pending_write list"

definition new_writer :: "nat \<Rightarrow> writer" where
  "new_writer c =
     \<lparr>dw_ceiling = c, dw_queue = [], dw_worker = NoWorker, dw_in_flight = None, dw_delay = RETRY_FIRST_S,
      dw_closed = False, dw_lost = 0, dw_unknown = 0, dw_handled = 0, dw_next = 0, dw_taken = [],
      dw_losses = [], dw_unknowns = [], dw_logged = []\<rparr>"

definition pending :: "writer \<Rightarrow> nat" where
  "pending d = length (dw_queue d)"

text \<open>\<open>_lose\<close>: logged at every loss of a write to report, and otherwise at the first and each doubling.\<close>

definition lose_item :: "pending_write \<Rightarrow> writer \<Rightarrow> writer" where
  "lose_item x d =
     (let lost = dw_lost d + 1
      in d\<lparr>dw_lost := lost, dw_losses := dw_losses d @ [x],
           dw_logged := (if pw_report x \<or> (lost AND (lost - 1)) = 0 then dw_logged d @ [x] else dw_logged d),
           dw_handled := dw_handled d + (if pw_on_lost x then 1 else 0)\<rparr>)"

definition new_item :: "string \<Rightarrow> bool \<Rightarrow> bool \<Rightarrow> writer \<Rightarrow> pending_write" where
  "new_item label report on_lost d =
     \<lparr>pw_seq = dw_next d, pw_label = label, pw_report = report, pw_on_lost = on_lost\<rparr>"

definition submit :: "string \<Rightarrow> bool \<Rightarrow> bool \<Rightarrow> writer \<Rightarrow> writer \<times> bool" where
  "submit label report on_lost d =
     (let x = new_item label report on_lost d; d1 = d\<lparr>dw_next := dw_next d + 1\<rparr>
      in if dw_closed d then (lose_item x d1, False)
         else if length (dw_queue d) \<ge> dw_ceiling d then (lose_item x d1, False)
         else (d1\<lparr>dw_queue := dw_queue d @ [x],
                  dw_worker := (if dw_worker d = NoWorker then Started else dw_worker d)\<rparr>, True))"

text \<open>\<open>lose\<close>: a write that never reached the queue is counted.\<close>

definition lose :: "string \<Rightarrow> bool \<Rightarrow> writer \<Rightarrow> writer" where
  "lose label report d = lose_item (new_item label report False d) (d\<lparr>dw_next := dw_next d + 1\<rparr>)"

section \<open>The worker\<close>

text \<open>The head of its loop: the next write begins, or the worker ends.\<close>

definition next_write :: "writer \<Rightarrow> writer" where
  "next_write d =
     (case dw_queue d of
        [] \<Rightarrow> d\<lparr>dw_worker := NoWorker, dw_in_flight := None\<rparr>
      | x # _ \<Rightarrow> d\<lparr>dw_worker := Writing, dw_in_flight := Some x\<rparr>)"

definition worker_starts :: "writer \<Rightarrow> writer" where
  "worker_starts d = next_write (d\<lparr>dw_delay := RETRY_FIRST_S\<rparr>)"

text \<open>How the write at the head ends: taken, an exception, or itself cancelled.\<close>

datatype write_end = Took | WriteRaised write_error | WriteCancelled

definition retries :: "write_end \<Rightarrow> bool" where
  "retries a = (case a of WriteRaised ex \<Rightarrow> is_transient_store_error ex | _ \<Rightarrow> False)"

text \<open>
  A store that is only locked or busy is tried again after a delay; the write stays in flight while
  the worker sleeps.
\<close>

definition write_ends :: "write_end \<Rightarrow> writer \<Rightarrow> writer" where
  "write_ends a d =
     (let x = hd (dw_queue d); rest = d\<lparr>dw_queue := tl (dw_queue d)\<rparr>
      in if retries a then d\<lparr>dw_worker := BackingOff\<rparr>
         else if a = Took then next_write (rest\<lparr>dw_delay := RETRY_FIRST_S, dw_taken := dw_taken d @ [x]\<rparr>)
         else next_write (lose_item x rest))"

definition backoff_ends :: "writer \<Rightarrow> writer" where
  "backoff_ends d = next_write (d\<lparr>dw_delay := min (dw_delay d * 2) RETRY_MAX_S\<rparr>)"

section \<open>Closing\<close>

text \<open>
  \<open>close\<close> stops submissions, waits out the grace while the worker goes on, and then cancels what
  is left of it: the first await and the last step of it are two calls here.
\<close>

definition close_begins :: "writer \<Rightarrow> writer" where
  "close_begins d = d\<lparr>dw_closed := True\<rparr>"

definition close_ends :: "writer \<Rightarrow> writer" where
  "close_ends d =
     (let head = (if dw_worker d = NoWorker then None else dw_in_flight d);
          stranded = dw_queue d;
          d1 = d\<lparr>dw_queue := [], dw_in_flight := None, dw_worker := NoWorker\<rparr>
      in if stranded \<noteq> [] \<and> head = Some (hd stranded)
         then fold lose_item (tl stranded)
                (d1\<lparr>dw_unknown := dw_unknown d + 1, dw_unknowns := dw_unknowns d @ [hd stranded]\<rparr>)
         else fold lose_item stranded d1)"

datatype writer_op =
    Submit string bool bool
  | Lose string bool
  | WorkerStarts
  | WriteEnds write_end
  | BackoffEnds
  | CloseBegins
  | CloseEnds

fun writer_call :: "writer \<Rightarrow> writer_op \<Rightarrow> unit + writer \<times> bool" where
  "writer_call d (Submit l r h) = Inr (submit l r h d)"
| "writer_call d (Lose l r) = Inr (lose l r d, True)"
| "writer_call d WorkerStarts = Inr (worker_starts d, True)"
| "writer_call d (WriteEnds a) = Inr (write_ends a d, True)"
| "writer_call d BackoffEnds = Inr (backoff_ends d, True)"
| "writer_call d CloseBegins = Inr (close_begins d, True)"
| "writer_call d CloseEnds = Inr (close_ends d, True)"

text \<open>What can happen when: the worker runs on from where it waits, and a close ends once begun.\<close>

fun writer_allowed :: "writer \<Rightarrow> writer_op \<Rightarrow> bool" where
  "writer_allowed d (Submit l r h) = True"
| "writer_allowed d (Lose l r) = True"
| "writer_allowed d WorkerStarts = (dw_worker d = Started)"
| "writer_allowed d (WriteEnds a) = (dw_worker d = Writing)"
| "writer_allowed d BackoffEnds = (dw_worker d = BackingOff)"
| "writer_allowed d CloseBegins = True"
| "writer_allowed d CloseEnds = dw_closed d"

section \<open>The dispatcher's records\<close>

text \<open>
  \<open>_defer_record\<close> over the writer: a record written at once, or opened before its act and handed to
  the writer when the act settles. \<open>rd_opened\<close>, \<open>rd_dropped\<close> and \<open>rd_said\<close> are history: the
  records opened, those whose act was cancelled, those reported as unsettled at shutdown.
\<close>

record records =
  rd_writer :: writer
  rd_awaiting :: nat
  rd_unsettled_at_close :: nat
  rd_opened :: nat
  rd_dropped :: nat
  rd_said :: nat

definition new_records :: "nat \<Rightarrow> records" where
  "new_records c =
     \<lparr>rd_writer = new_writer c, rd_awaiting = 0, rd_unsettled_at_close = 0, rd_opened = 0, rd_dropped = 0, rd_said = 0\<rparr>"

definition defer_now :: "string \<Rightarrow> bool \<Rightarrow> bool \<Rightarrow> records \<Rightarrow> records" where
  "defer_now label report on_lost s =
     s\<lparr>rd_writer := fst (submit label report on_lost (rd_writer s)), rd_opened := rd_opened s + 1\<rparr>"

definition defer_after :: "records \<Rightarrow> records" where
  "defer_after s = s\<lparr>rd_awaiting := rd_awaiting s + 1, rd_opened := rd_opened s + 1\<rparr>"

definition act_settles :: "bool \<Rightarrow> string \<Rightarrow> bool \<Rightarrow> bool \<Rightarrow> records \<Rightarrow> records" where
  "act_settles was_cancelled label report on_lost s =
     (let s1 = (if rd_awaiting s > 0 then s\<lparr>rd_awaiting := rd_awaiting s - 1\<rparr> else s)
      in if was_cancelled then s1\<lparr>rd_dropped := rd_dropped s + 1\<rparr>
         else if dw_closed (rd_writer s) \<and> rd_unsettled_at_close s > 0
         then s1\<lparr>rd_unsettled_at_close := rd_unsettled_at_close s - 1, rd_said := rd_said s + 1\<rparr>
         else s1\<lparr>rd_writer := fst (submit label report on_lost (rd_writer s))\<rparr>)"

definition abandon_begins :: "records \<Rightarrow> records" where
  "abandon_begins s = s\<lparr>rd_unsettled_at_close := rd_awaiting s, rd_writer := close_begins (rd_writer s)\<rparr>"

definition pending_record_count :: "records \<Rightarrow> nat" where
  "pending_record_count s = pending (rd_writer s) + rd_awaiting s"

definition decision_records_lost :: "records \<Rightarrow> nat" where
  "decision_records_lost s = dw_handled (rd_writer s)"

datatype record_op =
    DeferNow string bool bool
  | DeferAfter
  | ActSettles bool string bool bool
  | AbandonBegins
  | WriterDoes writer_op

fun record_call :: "records \<Rightarrow> record_op \<Rightarrow> unit + records \<times> unit" where
  "record_call s (DeferNow l r h) = Inr (defer_now l r h s, ())"
| "record_call s DeferAfter = Inr (defer_after s, ())"
| "record_call s (ActSettles c l r h) = Inr (act_settles c l r h s, ())"
| "record_call s AbandonBegins = Inr (abandon_begins s, ())"
| "record_call s (WriterDoes x) =
     (case writer_call (rd_writer s) x of Inr (d, _) \<Rightarrow> Inr (s\<lparr>rd_writer := d\<rparr>, ()) | Inl u \<Rightarrow> Inl u)"

fun submits :: "writer_op \<Rightarrow> bool" where
  "submits (Submit l r h) = True"
| "submits (Lose l r) = True"
| "submits _ = False"

text \<open>An act settles once it was opened, and nothing but the dispatcher submits to its writer.\<close>

fun record_allowed :: "records \<Rightarrow> record_op \<Rightarrow> bool" where
  "record_allowed s (ActSettles c l r h) = (rd_awaiting s > 0)"
| "record_allowed s (WriterDoes x) = (\<not> submits x \<and> writer_allowed (rd_writer s) x)"
| "record_allowed s _ = True"

section \<open>What is guaranteed\<close>

definition numbers :: "pending_write list \<Rightarrow> nat multiset" where
  "numbers xs = mset (map pw_seq xs)"

text \<open>Every write is in one place; the store takes them in order; the queue is bounded and served.\<close>

definition accounted :: "writer \<Rightarrow> bool" where
  "accounted d = (numbers (dw_taken d) + numbers (dw_losses d) + numbers (dw_unknowns d) + numbers (dw_queue d)
     = mset [0..<dw_next d])"

definition counted :: "writer \<Rightarrow> bool" where
  "counted d =
     (dw_lost d = length (dw_losses d) \<and> dw_unknown d = length (dw_unknowns d)
      \<and> dw_handled d = length (filter pw_on_lost (dw_losses d))
      \<and> (\<forall>x \<in> set (dw_losses d). pw_report x \<longrightarrow> x \<in> set (dw_logged d)))"

definition served :: "writer \<Rightarrow> bool" where
  "served d =
     (length (dw_queue d) \<le> dw_ceiling d
      \<and> (dw_queue d = [] \<longleftrightarrow> dw_worker d = NoWorker)
      \<and> dw_in_flight d = (if dw_worker d \<in> {Writing, BackingOff} then Some (hd (dw_queue d)) else None)
      \<and> RETRY_FIRST_S \<le> dw_delay d \<and> dw_delay d \<le> RETRY_MAX_S
      \<and> (dw_unknowns d = [] \<or> length (dw_unknowns d) = 1 \<and> dw_closed d \<and> dw_queue d = []))"

definition in_order :: "writer \<Rightarrow> bool" where
  "in_order d = sorted_wrt (\<lambda>x y. pw_seq x < pw_seq y) (dw_taken d @ dw_queue d)"

definition writer_inv :: "writer \<Rightarrow> bool" where
  "writer_inv d = (accounted d \<and> counted d \<and> served d \<and> in_order d)"

text \<open>The worker alone with the store: each answer, and the sleep after one that retries.\<close>

fun serve :: "write_end list \<Rightarrow> writer \<Rightarrow> writer" where
  "serve [] d = d"
| "serve (a # as) d =
     (if dw_worker d \<noteq> Writing then d
      else let d1 = write_ends a d in serve as (if retries a then backoff_ends d1 else d1))"

definition record_inv :: "records \<Rightarrow> bool" where
  "record_inv s =
     (writer_inv (rd_writer s) \<and> rd_opened s = dw_next (rd_writer s) + rd_awaiting s + rd_dropped s + rd_said s)"

text \<open>An example: three records, the second refused, the first retried once.\<close>

definition example_ops :: "writer_op list" where
  "example_ops =
     [Submit ''a'' True True, Submit ''b'' True True, WorkerStarts, Submit ''c'' False False,
      WriteEnds (WriteRaised (OperationalError ''database is locked'')), BackoffEnds, WriteEnds Took,
      WriteEnds (WriteRaised OtherError), CloseBegins, CloseEnds]"

section \<open>Lemmas\<close>

lemma numbers_simps [simp]:
  "numbers [] = {#}" "numbers (x # xs) = add_mset (pw_seq x) (numbers xs)" "numbers (xs @ ys) = numbers xs + numbers ys"
  by (simp_all add: numbers_def)

lemma size_numbers [simp]: "size (numbers xs) = length xs"
  by (simp add: numbers_def)

lemma lose_item_sel [simp]:
  "dw_ceiling (lose_item x d) = dw_ceiling d" "dw_queue (lose_item x d) = dw_queue d" "dw_worker (lose_item x d) = dw_worker d"
  "dw_in_flight (lose_item x d) = dw_in_flight d" "dw_delay (lose_item x d) = dw_delay d" "dw_closed (lose_item x d) = dw_closed d"
  "dw_unknown (lose_item x d) = dw_unknown d" "dw_next (lose_item x d) = dw_next d" "dw_taken (lose_item x d) = dw_taken d"
  "dw_losses (lose_item x d) = dw_losses d @ [x]" "dw_unknowns (lose_item x d) = dw_unknowns d"
  "dw_lost (lose_item x d) = Suc (dw_lost d)" "dw_handled (lose_item x d) = dw_handled d + (if pw_on_lost x then 1 else 0)"
  by (simp_all add: lose_item_def Let_def)

lemma counted_lose [simp]: "counted d \<Longrightarrow> counted (lose_item x d)"
  by (auto simp: counted_def) (auto simp: lose_item_def Let_def)

lemma counted_frames [simp]:
  "counted (d\<lparr>dw_next := n\<rparr>) = counted d" "counted (d\<lparr>dw_queue := q\<rparr>) = counted d"
  "counted (d\<lparr>dw_queue := q, dw_delay := t, dw_taken := ts\<rparr>) = counted d"
  "counted (d\<lparr>dw_queue := q, dw_in_flight := f, dw_worker := w\<rparr>) = counted d"
  "counted (d\<lparr>dw_worker := w\<rparr>) = counted d"
  by (simp_all add: counted_def)

lemma loses_sel [simp]:
  "dw_ceiling (fold lose_item xs d) = dw_ceiling d" "dw_queue (fold lose_item xs d) = dw_queue d"
  "dw_worker (fold lose_item xs d) = dw_worker d" "dw_in_flight (fold lose_item xs d) = dw_in_flight d"
  "dw_delay (fold lose_item xs d) = dw_delay d" "dw_closed (fold lose_item xs d) = dw_closed d"
  "dw_unknown (fold lose_item xs d) = dw_unknown d" "dw_next (fold lose_item xs d) = dw_next d"
  "dw_taken (fold lose_item xs d) = dw_taken d" "dw_losses (fold lose_item xs d) = dw_losses d @ xs"
  "dw_unknowns (fold lose_item xs d) = dw_unknowns d" "dw_lost (fold lose_item xs d) = dw_lost d + length xs"
  by (induction xs arbitrary: d) simp_all

lemma counted_loses [simp]: "counted d \<Longrightarrow> counted (fold lose_item xs d)"
  by (induction xs arbitrary: d) simp_all

lemma next_write_sel [simp]:
  "dw_ceiling (next_write d) = dw_ceiling d" "dw_queue (next_write d) = dw_queue d" "dw_delay (next_write d) = dw_delay d"
  "dw_closed (next_write d) = dw_closed d" "dw_lost (next_write d) = dw_lost d" "dw_unknown (next_write d) = dw_unknown d"
  "dw_handled (next_write d) = dw_handled d" "dw_next (next_write d) = dw_next d" "dw_taken (next_write d) = dw_taken d"
  "dw_losses (next_write d) = dw_losses d" "dw_unknowns (next_write d) = dw_unknowns d" "dw_logged (next_write d) = dw_logged d"
  "dw_worker (next_write d) = (if dw_queue d = [] then NoWorker else Writing)"
  "dw_in_flight (next_write d) = (if dw_queue d = [] then None else Some (hd (dw_queue d)))"
  by (simp_all add: next_write_def split: list.split)

lemma next_write_parts [simp]:
  "accounted (next_write d) = accounted d" "counted (next_write d) = counted d" "in_order (next_write d) = in_order d"
  by (simp_all add: accounted_def counted_def in_order_def)

lemma served_next:
  assumes "length (dw_queue d) \<le> dw_ceiling d" and "RETRY_FIRST_S \<le> dw_delay d" and "dw_delay d \<le> RETRY_MAX_S"
    and "dw_unknowns d = [] \<or> length (dw_unknowns d) = 1 \<and> dw_closed d \<and> dw_queue d = []"
  shows "served (next_write d)"
  using assms by (auto simp: served_def)

lemma retry_bounds: "RETRY_FIRST_S \<le> RETRY_MAX_S" "0 \<le> RETRY_FIRST_S"
  by (simp_all add: RETRY_FIRST_S_def RETRY_MAX_S_def)

lemma numbers_below: "accounted d \<Longrightarrow> x \<in> set (dw_taken d @ dw_queue d) \<Longrightarrow> pw_seq x < dw_next d"
proof -
  assume "accounted d" and x: "x \<in> set (dw_taken d @ dw_queue d)"
  then have "pw_seq x \<in># mset [0..<dw_next d]"
    unfolding accounted_def [symmetric] by (metis accounted_def numbers_def set_mset_mset union_iff set_append Un_iff image_eqI list.set_map)
  then show ?thesis by simp
qed

lemma new_writer_inv: "writer_inv (new_writer c)"
  by (simp add: writer_inv_def accounted_def counted_def served_def in_order_def new_writer_def RETRY_FIRST_S_def RETRY_MAX_S_def)

lemma lost_at_once_inv:
  assumes "writer_inv d" and "pw_seq x = dw_next d"
  shows "writer_inv (lose_item x (d\<lparr>dw_next := dw_next d + 1\<rparr>))"
proof -
  have inv: "accounted d" "counted d" "served d" "in_order d" using assms(1) by (simp_all add: writer_inv_def)
  have "counted (lose_item x (d\<lparr>dw_next := dw_next d + 1\<rparr>))" by (rule counted_lose) (simp add: inv(2))
  moreover have "served (lose_item x (d\<lparr>dw_next := dw_next d + 1\<rparr>))" using inv(3) by (auto simp: served_def)
  ultimately show ?thesis using inv(1,4) assms(2) by (simp add: writer_inv_def accounted_def in_order_def)
qed

lemma submit_inv:
  assumes "writer_inv d" and "submit l r h d = (d', b)"
  shows "writer_inv d'"
proof -
  let ?x = "new_item l r h d"
  let ?d = "d\<lparr>dw_next := dw_next d + 1\<rparr>"
  have inv: "accounted d" "counted d" "served d" "in_order d" using assms(1) by (simp_all add: writer_inv_def)
  have seq: "pw_seq ?x = dw_next d" by (simp add: new_item_def)
  have lost: "writer_inv (lose_item ?x ?d)" by (rule lost_at_once_inv [OF assms(1) seq])
  show ?thesis
  proof (cases "dw_closed d \<or> length (dw_queue d) \<ge> dw_ceiling d")
    case True
    with assms(2) have "d' = lose_item ?x ?d" by (auto simp: submit_def Let_def split: if_splits)
    with lost show ?thesis by simp
  next
    case False
    with assms(2) have d': "d' = ?d\<lparr>dw_queue := dw_queue d @ [?x], dw_worker := (if dw_worker d = NoWorker then Started else dw_worker d)\<rparr>"
      by (simp add: submit_def Let_def)
    have "in_order d'" using inv(4) numbers_below [OF inv(1)] seq by (auto simp: in_order_def d' sorted_wrt_append)
    moreover have "accounted d'" using inv(1) seq by (simp add: accounted_def d')
    moreover have "counted d'" using inv(2) by (simp add: counted_def d')
    moreover have "served d'" using inv(3) False by (auto simp: served_def d' hd_append)
    ultimately show ?thesis by (simp add: writer_inv_def)
  qed
qed

lemma lose_inv: "writer_inv d \<Longrightarrow> writer_inv (lose l r d)"
  unfolding lose_def by (rule lost_at_once_inv) (simp_all add: new_item_def)

lemma write_ends_inv:
  assumes "writer_inv d" and "dw_worker d = Writing"
  shows "writer_inv (write_ends a d)"
proof -
  have inv: "accounted d" "counted d" "served d" "in_order d" using assms(1) by (simp_all add: writer_inv_def)
  from inv(3) assms(2) obtain x xs where q: "dw_queue d = x # xs" by (cases "dw_queue d") (auto simp: served_def)
  have u: "dw_unknowns d = []" using inv(3) q by (auto simp: served_def)
  show ?thesis
  proof (cases "retries a")
    case True
    with inv assms(2) show ?thesis
      by (simp add: write_ends_def Let_def writer_inv_def) (auto simp: accounted_def counted_def served_def in_order_def)
  next
    case False
    let ?e = "if a = Took then d\<lparr>dw_queue := xs, dw_delay := RETRY_FIRST_S, dw_taken := dw_taken d @ [x]\<rparr>
              else lose_item x (d\<lparr>dw_queue := xs\<rparr>)"
    have eq: "write_ends a d = next_write ?e" using False q by (simp add: write_ends_def Let_def)
    have "accounted ?e" using inv(1) q by (simp add: accounted_def)
    moreover have "counted ?e" using inv(2) by simp
    moreover have "in_order ?e" using inv(4) q by (auto simp: in_order_def sorted_wrt_append)
    moreover have "served (next_write ?e)" using inv(3) q u retry_bounds by (intro served_next) (auto simp: served_def)
    ultimately show ?thesis by (simp add: eq writer_inv_def)
  qed
qed

lemma next_write_inv:
  assumes "writer_inv d" and "dw_queue d \<noteq> []" and "RETRY_FIRST_S \<le> t" and "t \<le> RETRY_MAX_S"
  shows "writer_inv (next_write (d\<lparr>dw_delay := t\<rparr>))"
  using assms
  by (auto simp: writer_inv_def served_def accounted_def counted_def in_order_def)

lemma close_ends_inv:
  assumes "writer_inv d" and "dw_closed d"
  shows "writer_inv (close_ends d)"
proof -
  have inv: "accounted d" "counted d" "served d" "in_order d" using assms(1) by (simp_all add: writer_inv_def)
  let ?d = "d\<lparr>dw_queue := [], dw_in_flight := None, dw_worker := NoWorker\<rparr>"
  have o: "in_order ?d" using inv(4) by (simp add: in_order_def sorted_wrt_append)
  show ?thesis
  proof (cases "dw_queue d \<noteq> [] \<and> (if dw_worker d = NoWorker then None else dw_in_flight d) = Some (hd (dw_queue d))")
    case True
    let ?e = "?d\<lparr>dw_unknown := dw_unknown d + 1, dw_unknowns := dw_unknowns d @ [hd (dw_queue d)]\<rparr>"
    have eq: "close_ends d = fold lose_item (tl (dw_queue d)) ?e" using True by (simp add: close_ends_def Let_def)
    have "counted ?e" using inv(2) by (simp add: counted_def)
    moreover have "dw_unknowns d = []" using inv(3) True by (auto simp: served_def)
    moreover have "accounted (close_ends d)"
      using inv(1) True by (cases "dw_queue d") (simp_all add: accounted_def eq ac_simps)
    ultimately show ?thesis
      using o inv(3) assms(2) by (simp add: writer_inv_def eq) (auto simp: served_def in_order_def)
  next
    case False
    then have eq: "close_ends d = fold lose_item (dw_queue d) ?d" unfolding close_ends_def Let_def by (rule if_not_P)
    have "counted ?d" using inv(2) by (simp add: counted_def)
    moreover have "accounted (close_ends d)" using inv(1) by (simp add: accounted_def eq ac_simps)
    ultimately show ?thesis
      using o inv(3) by (simp add: writer_inv_def eq) (auto simp: served_def in_order_def)
  qed
qed

lemma writer_call_inv:
  assumes "writer_inv d" and "writer_allowed d x" and "writer_call d x = Inr (d', b)"
  shows "writer_inv d'"
proof (cases x)
  case (Submit l r h)
  with assms submit_inv show ?thesis by auto
next
  case WorkerStarts
  with assms have "dw_queue d \<noteq> []" by (auto simp: writer_inv_def served_def)
  with WorkerStarts assms next_write_inv [OF assms(1)] retry_bounds show ?thesis by (auto simp: worker_starts_def)
next
  case BackoffEnds
  with assms have "dw_queue d \<noteq> []" "RETRY_FIRST_S \<le> dw_delay d" by (auto simp: writer_inv_def served_def)
  with BackoffEnds assms(3) next_write_inv [OF assms(1)] retry_bounds show ?thesis
    by (auto simp: backoff_ends_def min_def)
next
  case CloseBegins
  with assms show ?thesis
    by (auto simp: close_begins_def writer_inv_def accounted_def counted_def served_def in_order_def)
qed (use assms lose_inv write_ends_inv close_ends_inv in auto)

interpretation deferred: invariant_object writer_call writer_inv writer_allowed
  by unfold_locales (rule writer_call_inv)

lemma reached_inv: "runs_ok writer_call writer_allowed (new_writer c) ops \<Longrightarrow> writer_inv (run_ops writer_call (new_writer c) ops)"
  by (rule deferred.inv_run [OF new_writer_inv])

subsection \<open>The worker serves the queue\<close>

lemma serve_idle: "dw_worker d \<noteq> Writing \<Longrightarrow> serve as d = d"
  by (cases as) simp_all

lemma serve_result:
  assumes "dw_worker d = (if dw_queue d = [] then NoWorker else Writing)"
    and "length (dw_queue d) \<le> length (filter (\<lambda>a. \<not> retries a) as)"
  shows "dw_queue (serve as d) = [] \<and> dw_worker (serve as d) = NoWorker
    \<and> dw_taken (serve as d) = dw_taken d @ map fst (filter (\<lambda>(x, a). a = Took) (zip (dw_queue d) (filter (\<lambda>a. \<not> retries a) as)))
    \<and> dw_losses (serve as d) = dw_losses d @ map fst (filter (\<lambda>(x, a). a \<noteq> Took) (zip (dw_queue d) (filter (\<lambda>a. \<not> retries a) as)))"
  using assms
proof (induction as arbitrary: d)
  case (Cons a as)
  show ?case
  proof (cases "dw_queue d")
    case Nil
    with Cons.prems show ?thesis by (simp add: serve_idle)
  next
    case (Cons x xs)
    let ?e = "if retries a then backoff_ends (write_ends a d) else write_ends a d"
    have step: "serve (a # as) d = serve as ?e" using Cons.prems(1) \<open>dw_queue d = x # xs\<close> by (simp add: Let_def)
    have e: "dw_queue ?e = (if retries a then x # xs else xs)"
        "dw_taken ?e = dw_taken d @ (if \<not> retries a \<and> a = Took then [x] else [])"
        "dw_losses ?e = dw_losses d @ (if \<not> retries a \<and> a \<noteq> Took then [x] else [])"
        "dw_worker ?e = (if dw_queue ?e = [] then NoWorker else Writing)"
      using \<open>dw_queue d = x # xs\<close> by (auto simp: write_ends_def backoff_ends_def Let_def)
    have "length (dw_queue ?e) \<le> length (filter (\<lambda>a. \<not> retries a) as)"
      using Cons.prems(2) \<open>dw_queue d = x # xs\<close> e(1) by (auto split: if_splits)
    from Cons.IH [OF e(4) this] show ?thesis
      unfolding step e(1-3) using \<open>dw_queue d = x # xs\<close> by auto
  qed
qed (simp add: serve_idle)

subsection \<open>The dispatcher's records\<close>

lemma submit_next: "dw_next (fst (submit l r h d)) = dw_next d + 1"
  by (simp add: submit_def Let_def)

lemma writer_call_next: "\<not> submits x \<Longrightarrow> writer_call d x = Inr (d', b) \<Longrightarrow> dw_next d' = dw_next d"
  by (cases x) (auto simp: worker_starts_def write_ends_def backoff_ends_def close_begins_def close_ends_def Let_def)

lemma record_call_inv:
  assumes "record_inv s" and "record_allowed s x" and "record_call s x = Inr (s', u)"
  shows "record_inv s'"
proof (cases x)
  case (WriterDoes y)
  with assms obtain d b where d: "writer_call (rd_writer s) y = Inr (d, b)" "s' = s\<lparr>rd_writer := d\<rparr>"
    by (auto split: sum.splits prod.splits)
  with WriterDoes assms writer_call_inv [OF _ _ d(1)] writer_call_next [OF _ d(1)] show ?thesis by (simp add: record_inv_def)
next
  case AbandonBegins
  with assms writer_call_inv [of "rd_writer s" CloseBegins "close_begins (rd_writer s)" True] show ?thesis
    by (auto simp: record_inv_def abandon_begins_def) (simp add: close_begins_def)
next
  case (ActSettles c l r h)
  have w: "writer_inv (fst (submit l r h (rd_writer s)))"
    using assms(1) submit_inv [of "rd_writer s" l r h] by (simp add: record_inv_def prod_eq_iff)
  from ActSettles assms(2,3) have s': "rd_awaiting s > 0" "s' = act_settles c l r h s" by auto
  with assms(1) w show ?thesis by (simp add: record_inv_def act_settles_def Let_def submit_next)
next
  case (DeferNow l r h)
  have w: "writer_inv (fst (submit l r h (rd_writer s)))"
    using assms(1) submit_inv [of "rd_writer s" l r h] by (simp add: record_inv_def prod_eq_iff)
  with DeferNow assms(1,3) show ?thesis by (auto simp: record_inv_def defer_now_def submit_next)
qed (use assms in \<open>auto simp: record_inv_def defer_after_def\<close>)

interpretation desk: invariant_object record_call record_inv record_allowed
  by unfold_locales (rule record_call_inv)

lemma new_records_inv: "record_inv (new_records c)"
  by (simp add: record_inv_def new_records_def new_writer_inv) (simp add: new_writer_def)

lemma example_allowed: "runs_ok writer_call writer_allowed (new_writer 2) example_ops"
  by code_simp

section \<open>Properties\<close>

text \<open>
  C28. No record vanishes and none overtakes another. Over any sequence of submissions, answers of the
  store, retries and a close, every write submitted is in exactly one place: taken by the store,
  counted lost, counted unknown, or still queued. The store takes writes in the order they were
  submitted; the queue stays within its ceiling and is never left without a worker; the counters are
  the sizes of the histories, every loss that had a handler ran it, every loss to report was logged,
  and at most one write is ever unknown.
\<close>

theorem no_record_vanishes:
  assumes "runs_ok writer_call writer_allowed (new_writer c) ops" and "d = run_ops writer_call (new_writer c) ops"
  shows "mset (map pw_seq (dw_taken d @ dw_losses d @ dw_unknowns d @ dw_queue d)) = mset [0..<dw_next d]
    \<and> sorted_wrt (\<lambda>x y. pw_seq x < pw_seq y) (dw_taken d @ dw_queue d)
    \<and> pending d \<le> dw_ceiling d \<and> (dw_queue d \<noteq> [] \<longrightarrow> dw_worker d \<noteq> NoWorker)
    \<and> dw_lost d = length (dw_losses d) \<and> dw_unknown d = length (dw_unknowns d) \<and> dw_unknown d \<le> 1
    \<and> dw_handled d = length (filter pw_on_lost (dw_losses d))
    \<and> (\<forall>x \<in> set (dw_losses d). pw_report x \<longrightarrow> x \<in> set (dw_logged d))"
proof -
  have inv: "accounted d" "counted d" "served d" "in_order d"
    using reached_inv [OF assms(1)] assms(2) by (simp_all add: writer_inv_def)
  then show ?thesis
    by (auto simp: accounted_def counted_def served_def in_order_def pending_def numbers_def ac_simps)
qed

theorem no_record_vanishes_witness:
  "mset (map pw_seq (dw_taken (run_ops writer_call (new_writer 2) example_ops)
     @ dw_losses (run_ops writer_call (new_writer 2) example_ops)
     @ dw_unknowns (run_ops writer_call (new_writer 2) example_ops)
     @ dw_queue (run_ops writer_call (new_writer 2) example_ops))) = mset [0..<3]"
proof -
  have "dw_next (run_ops writer_call (new_writer 2) example_ops) = 3" by code_simp
  with no_record_vanishes [OF example_allowed refl] show ?thesis by metis
qed

text \<open>
  C29. The queue drains. Whatever the store answers, once it has given as many final answers as writes
  are queued - and however often it was only locked or busy in between - the queue is empty and the
  worker has ended; the writes it took are taken and those it refused are lost, each in its turn.
\<close>

theorem queue_drains:
  assumes "runs_ok writer_call writer_allowed (new_writer c) ops" and "d = run_ops writer_call (new_writer c) ops"
    and "dw_worker d = Writing" and "length (dw_queue d) \<le> length (filter (\<lambda>a. \<not> retries a) as)"
  shows "dw_queue (serve as d) = [] \<and> dw_worker (serve as d) = NoWorker
    \<and> dw_taken (serve as d) = dw_taken d @ map fst (filter (\<lambda>(x, a). a = Took) (zip (dw_queue d) (filter (\<lambda>a. \<not> retries a) as)))
    \<and> dw_losses (serve as d) = dw_losses d @ map fst (filter (\<lambda>(x, a). a \<noteq> Took) (zip (dw_queue d) (filter (\<lambda>a. \<not> retries a) as)))"
proof -
  have "served d" using reached_inv [OF assms(1)] assms(2) by (simp add: writer_inv_def)
  with assms(3,4) show ?thesis by (intro serve_result) (auto simp: served_def)
qed

theorem queue_drains_witness:
  "dw_queue (serve [WriteRaised (OperationalError ''database is locked''), Took, WriteCancelled]
     (run_ops writer_call (new_writer 2) (take 3 example_ops))) = []"
proof -
  let ?d = "run_ops writer_call (new_writer 2) (take 3 example_ops)"
  have "runs_ok writer_call writer_allowed (new_writer 2) (take 3 example_ops)" "dw_worker ?d = Writing"
    "length (dw_queue ?d) \<le> length (filter (\<lambda>a. \<not> retries a) [WriteRaised (OperationalError ''database is locked''), Took, WriteCancelled])"
    by code_simp+
  from queue_drains [OF this(1) refl this(2,3)] show ?thesis by simp
qed





end
