(* ===== verification/Hal_Base.thy ===== *)
theory Hal_Base
  imports Safety_Evaluation
begin

text \<open>
  \<open>ori/hal/base.py\<close>: what every hardware adapter shares. The readings that are refused before they
  are stored or evaluated, the bounds on timeouts, poll intervals and cached values, the circuit
  breaker around reads, the serial rate, and the rule that keeps a connect and a close of one
  adapter apart. Clocks are rationals; the time a method reads is an argument.
\<close>

section \<open>Refusals\<close>

datatype hal_error = MeasurementRefused string | AdapterReadError | AdapterConnectionError

record sensor_reading =
  sr_sensor_type :: pyval
  sr_unit :: pyval
  sr_value :: pyval
  sr_timestamp :: pyval
  sr_quality :: pyval

definition SQLITE_INT_MAX :: int where
  "SQLITE_INT_MAX = 2 ^ 63 - 1"

definition refuse_quality_above_one :: "sensor_reading \<Rightarrow> hal_error + unit" where
  "refuse_quality_above_one r =
     (if is_number (sr_quality r) \<and> \<not> is_bool (sr_quality r) \<and> flt (FNum 1) (num_of (sr_quality r))
      then Inl (MeasurementRefused ''quality above 1'') else Inr ())"

text \<open>
  Each check of \<open>refuse_unusable_reading\<close>, in its order. An int is compared with the store's range,
  a float only asked whether it is finite.
\<close>

definition value_refusal :: "pyval \<Rightarrow> string option" where
  "value_refusal v =
     (case v of
        PyInt i \<Rightarrow> if - SQLITE_INT_MAX - 1 \<le> i \<and> i \<le> SQLITE_INT_MAX then None else Some ''value out of range''
      | PyFloat f \<Rightarrow> if is_finite f then None else Some ''value not finite''
      | _ \<Rightarrow> Some ''value not a number'')"

definition timestamp_refusal :: "pyval \<Rightarrow> string option" where
  "timestamp_refusal v =
     (case v of PyInt i \<Rightarrow> if 0 \<le> i \<and> i \<le> SQLITE_INT_MAX then None else Some ''timestamp out of range''
      | _ \<Rightarrow> Some ''timestamp out of range'')"

definition quality_refusal :: "pyval \<Rightarrow> string option" where
  "quality_refusal v =
     (if is_bool v \<or> \<not> is_number v \<or> non_finite_float v
         \<or> \<not> (fle (FNum 0) (num_of v) \<and> fle (num_of v) (FNum 1))
      then Some ''quality not in 0..1'' else None)"

definition refuse_unusable_reading :: "sensor_reading \<Rightarrow> hal_error + unit" where
  "refuse_unusable_reading r =
     (if sr_sensor_type r = PyStr ''controller_alarm_word'' \<or> sr_unit r = PyStr ''bitmask''
      then Inl (MeasurementRefused ''alarm word'')
      else case value_refusal (sr_value r) of
        Some why \<Rightarrow> Inl (MeasurementRefused why)
      | None \<Rightarrow>
          (case timestamp_refusal (sr_timestamp r) of
             Some why \<Rightarrow> Inl (MeasurementRefused why)
           | None \<Rightarrow>
               (case quality_refusal (sr_quality r) of
                  Some why \<Rightarrow> Inl (MeasurementRefused why)
                | None \<Rightarrow> Inr ())))"

section \<open>Bounds\<close>

definition SILENCE_INTERVALS :: int where "SILENCE_INTERVALS = 2"

definition SILENCE_FLOOR_MS :: int where "SILENCE_FLOOR_MS = 200"

definition MIN_TIMEOUT_S :: pyfloat where "MIN_TIMEOUT_S = f64_round (1 / 1000)"

text \<open>\<open>float(value)\<close> of an int is rounded to binary64, past its range an error, which ends as a refusal too.\<close>

definition timeout_seconds :: "pyval \<Rightarrow> hal_error + pyfloat" where
  "timeout_seconds v =
     (let seconds = (case v of PyInt i \<Rightarrow> f64_round (of_int i) | PyFloat f \<Rightarrow> f | _ \<Rightarrow> FNan)
      in if \<not> is_finite seconds \<or> flt seconds MIN_TIMEOUT_S then Inl AdapterConnectionError else Inr seconds)"

definition silence_bound_ms :: "int \<Rightarrow> int" where
  "silence_bound_ms poll = max (SILENCE_INTERVALS * poll) SILENCE_FLOOR_MS"

text \<open>A missing key takes the default, which is held to the same rule.\<close>

definition poll_interval_from :: "(string \<times> pyval) list \<Rightarrow> int \<Rightarrow> hal_error + int" where
  "poll_interval_from config default_ms =
     (case (case map_of config ''poll_interval_ms'' of Some v \<Rightarrow> v | None \<Rightarrow> PyInt default_ms) of
        PyInt i \<Rightarrow> if i \<le> 0 then Inl AdapterConnectionError else Inr i
      | _ \<Rightarrow> Inl AdapterConnectionError)"

definition refuse_stale_cache :: "rat option \<Rightarrow> int \<Rightarrow> rat \<Rightarrow> hal_error + unit" where
  "refuse_stale_cache arrived_at poll now =
     (case arrived_at of
        None \<Rightarrow> Inl AdapterReadError
      | Some t \<Rightarrow>
          (let age_ms = (now - t) * 1000
           in if 0 \<le> age_ms \<and> age_ms \<le> of_int (silence_bound_ms poll) then Inr () else Inl AdapterReadError))"

section \<open>The circuit breaker\<close>

datatype circuit_state = CLOSED | OPEN | HALF_OPEN

record breaker =
  cb_failure_threshold :: int
  cb_recovery_timeout_s :: rat
  cb_success_threshold :: int
  cb_state :: circuit_state
  cb_failure_count :: int
  cb_success_count :: int
  cb_opened_at :: "rat option"

definition new_breaker :: "int \<Rightarrow> rat \<Rightarrow> int \<Rightarrow> breaker" where
  "new_breaker failures recovery successes =
     \<lparr>cb_failure_threshold = failures, cb_recovery_timeout_s = recovery, cb_success_threshold = successes,
      cb_state = CLOSED, cb_failure_count = 0, cb_success_count = 0, cb_opened_at = None\<rparr>"

definition allow_read :: "rat \<Rightarrow> breaker \<Rightarrow> breaker \<times> bool" where
  "allow_read now b =
     (case cb_state b of
        CLOSED \<Rightarrow> (b, True)
      | OPEN \<Rightarrow>
          (case cb_opened_at b of
             None \<Rightarrow> (b\<lparr>cb_opened_at := Some now\<rparr>, False)
           | Some t \<Rightarrow>
               if now - t \<ge> cb_recovery_timeout_s b
               then (b\<lparr>cb_state := HALF_OPEN, cb_success_count := 0\<rparr>, True) else (b, False))
      | HALF_OPEN \<Rightarrow> (b, True))"

definition probe_every :: "rat \<Rightarrow> breaker \<Rightarrow> breaker" where
  "probe_every interval b = b\<lparr>cb_recovery_timeout_s := min (cb_recovery_timeout_s b) (max 0 interval)\<rparr>"

definition record_fresh_value :: "breaker \<Rightarrow> breaker" where
  "record_fresh_value b = b\<lparr>cb_state := CLOSED, cb_failure_count := 0, cb_success_count := 0, cb_opened_at := None\<rparr>"

definition record_success :: "breaker \<Rightarrow> breaker" where
  "record_success b =
     (case cb_state b of
        HALF_OPEN \<Rightarrow>
          (let n = cb_success_count b + 1
           in if n \<ge> cb_success_threshold b
              then b\<lparr>cb_state := CLOSED, cb_failure_count := 0, cb_success_count := 0\<rparr>
              else b\<lparr>cb_success_count := n\<rparr>)
      | CLOSED \<Rightarrow> b\<lparr>cb_failure_count := 0\<rparr>
      | OPEN \<Rightarrow> b)"

definition record_failure :: "rat \<Rightarrow> breaker \<Rightarrow> breaker \<times> bool" where
  "record_failure now b =
     (if cb_state b = OPEN then (b, False)
      else let n = cb_failure_count b + 1; b1 = b\<lparr>cb_failure_count := n\<rparr>
           in if cb_state b = HALF_OPEN \<or> n \<ge> cb_failure_threshold b
              then (b1\<lparr>cb_state := OPEN, cb_opened_at := Some now\<rparr>, True) else (b1, False))"

text \<open>How a guarded read ends; a cancellation says nothing about the hardware.\<close>

datatype read_end = ReadOk | ReadFailed | ReadCancelled

definition end_read :: "read_end \<Rightarrow> rat \<Rightarrow> breaker \<Rightarrow> breaker" where
  "end_read x now b =
     (case x of ReadOk \<Rightarrow> record_success b | ReadFailed \<Rightarrow> fst (record_failure now b) | ReadCancelled \<Rightarrow> b)"

datatype breaker_op =
    BeginRead rat
  | EndRead read_end rat
  | FreshValue
  | ProbeEvery rat

fun breaker_call :: "breaker \<Rightarrow> breaker_op \<Rightarrow> hal_error + breaker \<times> bool" where
  "breaker_call b (BeginRead now) = Inr (allow_read now b)"
| "breaker_call b (EndRead x now) = Inr (end_read x now b, True)"
| "breaker_call b FreshValue = Inr (record_fresh_value b, True)"
| "breaker_call b (ProbeEvery i) = Inr (probe_every i b, True)"

section \<open>The serial rate\<close>

definition digit_of :: "char \<Rightarrow> int option" where
  "digit_of c = (let n = of_char c :: nat in if 48 \<le> n \<and> n \<le> 57 then Some (int n - 48) else None)"

text \<open>\<open>int(text)\<close> on the digits after an optional sign, with single underscores between them.\<close>

fun read_digits :: "int \<Rightarrow> bool \<Rightarrow> string \<Rightarrow> int option" where
  "read_digits acc after_digit [] = (if after_digit then Some acc else None)"
| "read_digits acc after_digit (c # cs) =
     (if c = CHR ''_'' then (if after_digit then read_digits acc False cs else None)
      else case digit_of c of None \<Rightarrow> None | Some k \<Rightarrow> read_digits (acc * 10 + k) True cs)"

definition MAX_STR_DIGITS :: nat where "MAX_STR_DIGITS = 4300"

definition py_int :: "string \<Rightarrow> int option" where
  "py_int s =
     (if length (filter (\<lambda>c. digit_of c \<noteq> None) s) > MAX_STR_DIGITS then None
      else case s of
        c # cs \<Rightarrow> if c = CHR ''-'' then map_option uminus (read_digits 0 False cs)
                  else if c = CHR ''+'' then read_digits 0 False cs else read_digits 0 False s
      | [] \<Rightarrow> None)"

definition whole :: "pyfloat \<Rightarrow> int option" where
  "whole f = (case f of FNum q \<Rightarrow> (if snd (quotient_of q) = 1 then Some (fst (quotient_of q)) else None) | _ \<Rightarrow> None)"

definition coerce_baud_rate :: "pyval \<Rightarrow> hal_error + int" where
  "coerce_baud_rate v =
     (let rate = (case v of PyInt i \<Rightarrow> Some i | PyFloat f \<Rightarrow> whole f | PyStr s \<Rightarrow> py_int (str_strip s) | _ \<Rightarrow> None)
      in case rate of None \<Rightarrow> Inl AdapterConnectionError
         | Some r \<Rightarrow> if r \<le> 0 then Inl AdapterConnectionError else Inr r)"

text \<open>\<open>resolve_baud_rate\<close>: each key as present with its value, or absent.\<close>

definition resolve_baud_rate :: "pyval option \<Rightarrow> pyval option \<Rightarrow> int \<Rightarrow> hal_error + int" where
  "resolve_baud_rate canonical legacy default_rate =
     (case (canonical, legacy) of
        (Some _, Some _) \<Rightarrow> Inl AdapterConnectionError
      | (Some v, None) \<Rightarrow> coerce_baud_rate v
      | (None, Some v) \<Rightarrow> coerce_baud_rate v
      | (None, None) \<Rightarrow> Inr default_rate)"

section \<open>Connecting and closing\<close>

text \<open>
  One adapter. A connect samples the close generation when it is asked for, then waits for the lock;
  a close raises the generation when it is asked for, then waits for it. \<open>ad_asked\<close>: the connects
  waiting, as identity and sampled generation; \<open>ad_log\<close>: what was asked and what a connect answered.
\<close>

datatype lock_holder = Free | Connecting nat nat | Closing

datatype lifecycle_note = ConnectAsked nat | CloseAsked | ConnectSucceeded nat | ConnectRefused nat

record adapter =
  ad_connected :: bool
  ad_close_generation :: nat
  ad_lock :: lock_holder
  ad_asked :: "(nat \<times> nat) list"
  ad_closes :: nat
  ad_next :: nat
  ad_log :: "lifecycle_note list"

definition new_adapter :: adapter where
  "new_adapter =
     \<lparr>ad_connected = False, ad_close_generation = 0, ad_lock = Free, ad_asked = [], ad_closes = 0, ad_next = 0, ad_log = []\<rparr>"

definition ask_connect :: "adapter \<Rightarrow> adapter" where
  "ask_connect a =
     a\<lparr>ad_asked := ad_asked a @ [(ad_next a, ad_close_generation a)], ad_next := ad_next a + 1,
       ad_log := ad_log a @ [ConnectAsked (ad_next a)]\<rparr>"

definition enter_connect :: "nat \<times> nat \<Rightarrow> adapter \<Rightarrow> adapter" where
  "enter_connect x a =
     (let a1 = a\<lparr>ad_asked := remove1 x (ad_asked a)\<rparr>
      in if ad_connected a then a1\<lparr>ad_log := ad_log a @ [ConnectRefused (fst x)]\<rparr>
         else a1\<lparr>ad_lock := Connecting (fst x) (snd x)\<rparr>)"

text \<open>The body of the connect is over: it raised, or it is asked whether a close came in between.\<close>

definition end_connect :: "bool \<Rightarrow> nat \<Rightarrow> nat \<Rightarrow> adapter \<Rightarrow> adapter" where
  "end_connect raised i generation a =
     (if raised \<or> ad_close_generation a \<noteq> generation
      then a\<lparr>ad_lock := Free, ad_log := ad_log a @ [ConnectRefused i]\<rparr>
      else a\<lparr>ad_lock := Free, ad_connected := True, ad_log := ad_log a @ [ConnectSucceeded i]\<rparr>)"

definition ask_close :: "adapter \<Rightarrow> adapter" where
  "ask_close a =
     a\<lparr>ad_close_generation := ad_close_generation a + 1, ad_closes := ad_closes a + 1, ad_log := ad_log a @ [CloseAsked]\<rparr>"

definition enter_close :: "adapter \<Rightarrow> adapter" where
  "enter_close a = a\<lparr>ad_closes := ad_closes a - 1, ad_lock := Closing, ad_connected := False\<rparr>"

definition end_close :: "adapter \<Rightarrow> adapter" where
  "end_close a = a\<lparr>ad_lock := Free\<rparr>"

inductive lifecycle_step :: "adapter \<Rightarrow> adapter \<Rightarrow> bool" where
  connect_asked: "lifecycle_step a (ask_connect a)"
| connect_enters: "ad_lock a = Free \<Longrightarrow> x \<in> set (ad_asked a) \<Longrightarrow> lifecycle_step a (enter_connect x a)"
| connect_leaves: "x \<in> set (ad_asked a) \<Longrightarrow> lifecycle_step a (a\<lparr>ad_asked := remove1 x (ad_asked a)\<rparr>)"
| connect_ends: "ad_lock a = Connecting i generation \<Longrightarrow> lifecycle_step a (end_connect raised i generation a)"
| close_asked: "lifecycle_step a (ask_close a)"
| close_enters: "ad_lock a = Free \<Longrightarrow> ad_closes a > 0 \<Longrightarrow> lifecycle_step a (enter_close a)"
| close_ends: "ad_lock a = Closing \<Longrightarrow> lifecycle_step a (end_close a)"

inductive lives :: "adapter \<Rightarrow> bool" where
  fresh: "lives new_adapter"
| lived: "lives a \<Longrightarrow> lifecycle_step a a' \<Longrightarrow> lives a'"

section \<open>What is guaranteed\<close>

text \<open>The failures since the last read that succeeded; a cancelled read counts as neither.\<close>

definition streak :: "read_end list \<Rightarrow> nat" where
  "streak xs = length (filter (\<lambda>x. x = ReadFailed) (takeWhile (\<lambda>x. x \<noteq> ReadOk) (rev xs)))"

definition breaker_inv :: "breaker \<Rightarrow> bool" where
  "breaker_inv b = (cb_state b = OPEN \<longrightarrow> cb_opened_at b \<noteq> None)"

definition closes_in :: "lifecycle_note list \<Rightarrow> nat" where
  "closes_in xs = count_list xs CloseAsked"

text \<open>A connect that is waiting or running was asked for when its sampled generation was current.\<close>

definition asked_at :: "lifecycle_note list \<Rightarrow> nat \<Rightarrow> nat \<Rightarrow> bool" where
  "asked_at notes i g = (\<exists>ps qs. notes = ps @ ConnectAsked i # qs \<and> closes_in ps = g)"

definition succeeded_clean :: "lifecycle_note list \<Rightarrow> bool" where
  "succeeded_clean notes =
     (\<forall>us i vs. notes = us @ ConnectSucceeded i # vs \<longrightarrow> (\<exists>ps qs. us = ps @ ConnectAsked i # qs \<and> CloseAsked \<notin> set qs))"

definition lifecycle_inv :: "adapter \<Rightarrow> bool" where
  "lifecycle_inv a =
     (ad_close_generation a = closes_in (ad_log a)
      \<and> (\<forall>(i, g) \<in> set (ad_asked a). asked_at (ad_log a) i g)
      \<and> (\<forall>i g. ad_lock a = Connecting i g \<longrightarrow> asked_at (ad_log a) i g \<and> \<not> ad_connected a)
      \<and> (ad_lock a = Closing \<longrightarrow> \<not> ad_connected a)
      \<and> succeeded_clean (ad_log a))"

definition example_reading :: sensor_reading where
  "example_reading =
     \<lparr>sr_sensor_type = PyStr ''temperature'', sr_unit = PyStr ''C'', sr_value = PyInt 71, sr_timestamp = PyInt 1000,
      sr_quality = PyFloat (FNum 1)\<rparr>"

section \<open>Lemmas\<close>

lemma value_refusal_None:
  "value_refusal v = None \<longleftrightarrow>
     (\<exists>i. v = PyInt i \<and> - SQLITE_INT_MAX - 1 \<le> i \<and> i \<le> SQLITE_INT_MAX) \<or> (\<exists>q. v = PyFloat (FNum q))"
proof (cases v)
  case (PyFloat x)
  then show ?thesis by (cases x) (simp_all add: value_refusal_def)
qed (simp_all add: value_refusal_def)

lemma timestamp_refusal_None: "timestamp_refusal v = None \<longleftrightarrow> (\<exists>i. v = PyInt i \<and> 0 \<le> i \<and> i \<le> SQLITE_INT_MAX)"
  by (auto simp: timestamp_refusal_def split: pyval.splits)

lemma quality_refusal_None:
  "quality_refusal v = None \<longleftrightarrow> is_number v \<and> \<not> is_bool v \<and> (\<exists>q. num_of v = FNum q \<and> 0 \<le> q \<and> q \<le> 1)"
  by (cases v; cases "num_of v") (auto simp: quality_refusal_def is_number_def is_bool_def non_finite_float_def)

lemma refuse_unusable_Inr:
  "refuse_unusable_reading r = Inr () \<longleftrightarrow>
     sr_sensor_type r \<noteq> PyStr ''controller_alarm_word'' \<and> sr_unit r \<noteq> PyStr ''bitmask''
     \<and> value_refusal (sr_value r) = None \<and> timestamp_refusal (sr_timestamp r) = None \<and> quality_refusal (sr_quality r) = None"
  by (auto simp: refuse_unusable_reading_def split: option.splits)

subsection \<open>The breaker\<close>

lemma streak_simps [simp]:
  "streak [] = 0" "streak (xs @ [ReadOk]) = 0" "streak (xs @ [ReadFailed]) = Suc (streak xs)"
  "streak (xs @ [ReadCancelled]) = streak xs"
  by (simp_all add: streak_def)

lemma end_read_closed:
  assumes "cb_state b = CLOSED"
  shows "cb_failure_threshold (end_read x now b) = cb_failure_threshold b"
    and "cb_state (end_read x now b) =
      (if x = ReadFailed \<and> cb_failure_count b + 1 \<ge> cb_failure_threshold b then OPEN else CLOSED)"
    and "cb_failure_count (end_read x now b) =
      (case x of ReadOk \<Rightarrow> 0 | ReadFailed \<Rightarrow> cb_failure_count b + 1 | ReadCancelled \<Rightarrow> cb_failure_count b)"
  using assms by (cases x; simp add: end_read_def record_success_def record_failure_def Let_def)+

lemma end_read_open: "cb_state b = OPEN \<Longrightarrow> end_read x now b = b"
  by (cases x) (simp_all add: end_read_def record_success_def record_failure_def)

text \<open>Up to its first trip the breaker counts the streak; the first streak that is long enough trips it.\<close>

lemma ends_state:
  fixes xs :: "(read_end \<times> rat) list" and f k :: int and r :: rat
  defines "after \<equiv> \<lambda>ys. fold (\<lambda>(x, now). end_read x now) ys (new_breaker f r k)"
  shows "(\<forall>n \<le> length xs. int (streak (map fst (take n xs))) < max 1 f)
           \<longrightarrow> cb_state (after xs) = CLOSED \<and> cb_failure_count (after xs) = int (streak (map fst xs)) \<and> cb_failure_threshold (after xs) = f"
    and "(\<exists>n \<le> length xs. int (streak (map fst (take n xs))) \<ge> max 1 f) \<longrightarrow> cb_state (after xs) = OPEN"
proof (induction xs rule: rev_induct)
  case Nil
  { case 1 show ?case by (simp add: after_def new_breaker_def) }
  { case 2 show ?case by simp }
next
  case (snoc x xs)
  obtain e now where x: "x = (e, now)" by (cases x)
  have step: "after (xs @ [x]) = end_read e now (after xs)" by (simp add: after_def x)
  have cut: "(n \<le> length (xs @ [x])) \<longleftrightarrow> n \<le> length xs \<or> n = Suc (length xs)" for n by auto
  have last: "streak (map fst (xs @ [x])) = (case e of ReadOk \<Rightarrow> 0 | ReadFailed \<Rightarrow> Suc (streak (map fst xs)) | ReadCancelled \<Rightarrow> streak (map fst xs))"
    by (cases e) (simp_all add: x)
  have now: "int (streak (map fst xs)) < max 1 f" if "\<forall>n \<le> length xs. int (streak (map fst (take n xs))) < max 1 f"
    using that [rule_format, of "length xs"] by simp
  { case 1
    show ?case
    proof
      assume all: "\<forall>n \<le> length (xs @ [x]). int (streak (map fst (take n (xs @ [x])))) < max 1 f"
      have old: "\<forall>n \<le> length xs. int (streak (map fst (take n xs))) < max 1 f"
      proof (intro allI impI)
        fix n assume "n \<le> length xs"
        then show "int (streak (map fst (take n xs))) < max 1 f" using all [rule_format, of n] by simp
      qed
      have new: "int (streak (map fst (xs @ [x]))) < max 1 f" using all [rule_format, of "Suc (length xs)"] by simp
      note c = snoc(1) [rule_format, OF old [rule_format]]
      from end_read_closed [OF conjunct1 [OF c], of e now] c new last
      show "cb_state (after (xs @ [x])) = CLOSED \<and> cb_failure_count (after (xs @ [x])) = int (streak (map fst (xs @ [x])))
          \<and> cb_failure_threshold (after (xs @ [x])) = f"
        unfolding step by (cases e) auto
    qed }
  { case 2
    show ?case
    proof
      assume "\<exists>n \<le> length (xs @ [x]). int (streak (map fst (take n (xs @ [x])))) \<ge> max 1 f"
      then obtain m where m: "m \<le> length xs \<or> m = Suc (length xs)" "int (streak (map fst (take m (xs @ [x])))) \<ge> max 1 f"
        unfolding cut by blast
      then consider n where "n \<le> length xs" "int (streak (map fst (take n xs))) \<ge> max 1 f"
        | "int (streak (map fst (xs @ [x]))) \<ge> max 1 f"
        by (cases "m \<le> length xs") simp_all
      then show "cb_state (after (xs @ [x])) = OPEN"
      proof cases
        case 1
        then show ?thesis using snoc(2) by (auto simp: step end_read_open)
      next
        case 2
        show ?thesis
        proof (cases "\<forall>n \<le> length xs. int (streak (map fst (take n xs))) < max 1 f")
          case True
          note c = snoc(1) [rule_format, OF True [rule_format]]
          from 2 now [OF True] last have "e = ReadFailed" by (cases e) auto
          with end_read_closed [OF conjunct1 [OF c], of e now] c 2 last show ?thesis by (simp add: step)
        next
          case False
          then have "\<exists>n \<le> length xs. int (streak (map fst (take n xs))) \<ge> max 1 f" by (auto simp: not_less)
          then show ?thesis using snoc(2) by (simp add: step end_read_open)
        qed
      qed
    qed }
qed

lemma breaker_call_inv: "breaker_inv b \<Longrightarrow> breaker_call b x = Inr (b', t) \<Longrightarrow> breaker_inv b'"
  by (cases x)
     (auto simp: breaker_inv_def allow_read_def end_read_def record_success_def record_failure_def record_fresh_value_def
       probe_every_def Let_def split: circuit_state.splits read_end.splits option.splits if_splits)

interpretation guarded: invariant_object breaker_call breaker_inv "\<lambda>_ _. True"
  by unfold_locales (rule breaker_call_inv)

subsection \<open>Connecting and closing\<close>

lemma closes_simps [simp]:
  "closes_in [] = 0" "closes_in (xs @ ys) = closes_in xs + closes_in ys"
  "closes_in (x # xs) = (if x = CloseAsked then 1 else 0) + closes_in xs"
  by (simp_all add: closes_in_def)

lemma closes_zero: "closes_in xs = 0 \<longleftrightarrow> CloseAsked \<notin> set xs"
  by (simp add: closes_in_def count_list_0_iff)

lemma asked_at_append: "asked_at notes i g \<Longrightarrow> asked_at (notes @ xs) i g"
  by (auto simp: asked_at_def) (metis append_Cons append_assoc)

lemma succeeded_clean_snoc:
  "succeeded_clean (notes @ [x]) \<longleftrightarrow>
     succeeded_clean notes \<and> (\<forall>i. x = ConnectSucceeded i \<longrightarrow> (\<exists>ps qs. notes = ps @ ConnectAsked i # qs \<and> CloseAsked \<notin> set qs))"
proof -
  have split: "notes @ [x] = us @ y # vs \<longleftrightarrow> vs = [] \<and> notes = us \<and> x = y \<or> (\<exists>ws. vs = ws @ [x] \<and> notes = us @ y # ws)" for us y vs
    by (cases vs rule: rev_cases) auto
  show ?thesis unfolding succeeded_clean_def split by auto
qed

lemma asked_now:
  assumes "asked_at notes i (closes_in notes)"
  shows "\<exists>ps qs. notes = ps @ ConnectAsked i # qs \<and> CloseAsked \<notin> set qs"
  using assms by (fastforce simp: asked_at_def closes_zero [symmetric])

lemma lifecycle_step_inv: "lifecycle_step a a' \<Longrightarrow> lifecycle_inv a \<Longrightarrow> lifecycle_inv a'"
proof (induction rule: lifecycle_step.induct)
  case (connect_asked a)
  have "asked_at (ad_log a @ [ConnectAsked (ad_next a)]) (ad_next a) (closes_in (ad_log a))" by (auto simp: asked_at_def)
  with connect_asked show ?case
    by (auto simp: lifecycle_inv_def ask_connect_def succeeded_clean_snoc intro: asked_at_append)
next
  case (connect_enters a x)
  then show ?case
    by (cases x)
       (auto simp: lifecycle_inv_def enter_connect_def Let_def succeeded_clean_snoc intro: asked_at_append
         dest!: notin_set_remove1 [rotated] dest: set_remove1_subset [THEN subsetD])
next
  case (connect_leaves x a)
  then show ?case by (auto simp: lifecycle_inv_def dest: set_remove1_subset [THEN subsetD])
next
  case (connect_ends a i g raised)
  then show ?case
    using asked_now [of "ad_log a" i]
    by (auto simp: lifecycle_inv_def end_connect_def succeeded_clean_snoc intro: asked_at_append)
next
  case (close_asked a)
  then show ?case by (auto simp: lifecycle_inv_def ask_close_def succeeded_clean_snoc intro: asked_at_append)
next
  case (close_enters a)
  then show ?case by (auto simp: lifecycle_inv_def enter_close_def)
next
  case (close_ends a)
  then show ?case by (auto simp: lifecycle_inv_def end_close_def)
qed

lemma lives_inv: "lives a \<Longrightarrow> lifecycle_inv a"
proof (induction rule: lives.induct)
  case fresh
  show ?case by (simp add: lifecycle_inv_def new_adapter_def succeeded_clean_def)
qed (rule lifecycle_step_inv)

section \<open>Properties\<close>

text \<open>
  C38. Which readings pass. A reading is let through exactly when it is no alarm word, its value is an
  integer of the store's range or a finite float, its timestamp an integer of that range and not
  negative, and its quality a number from 0 to 1; everything else raises. What is let through is
  never turned away by the safety evaluation for being a Boolean, no number or not finite: only a
  wrong unit, a quality of zero or a value outside the sensor's range rejects it there.
\<close>

theorem usable_readings_exact:
  "(refuse_unusable_reading r = Inr () \<longleftrightarrow>
      sr_sensor_type r \<noteq> PyStr ''controller_alarm_word'' \<and> sr_unit r \<noteq> PyStr ''bitmask''
      \<and> ((\<exists>i. sr_value r = PyInt i \<and> - (2 ^ 63) \<le> i \<and> i < 2 ^ 63) \<or> (\<exists>q. sr_value r = PyFloat (FNum q)))
      \<and> (\<exists>i. sr_timestamp r = PyInt i \<and> 0 \<le> i \<and> i < 2 ^ 63)
      \<and> is_number (sr_quality r) \<and> \<not> is_bool (sr_quality r) \<and> (\<exists>q. num_of (sr_quality r) = FNum q \<and> 0 \<le> q \<and> q \<le> 1))
   \<and> (refuse_unusable_reading r = Inr () \<longrightarrow>
      ev_reason (evaluate_reading (sr_value r) (sr_unit r) (sr_quality r) u t lo hi) =
        (if sr_unit r \<noteq> PyStr u then Some ''unit_mismatch''
         else if num_of (sr_quality r) = FNum 0 then Some ''zero_quality''
         else if flt t (num_of (sr_value r)) \<or> fle lo (num_of (sr_value r)) \<and> fle (num_of (sr_value r)) hi then None
         else Some ''out_of_range''))"
proof (intro conjI impI)
  show "refuse_unusable_reading r = Inr () \<longleftrightarrow>
      sr_sensor_type r \<noteq> PyStr ''controller_alarm_word'' \<and> sr_unit r \<noteq> PyStr ''bitmask''
      \<and> ((\<exists>i. sr_value r = PyInt i \<and> - (2 ^ 63) \<le> i \<and> i < 2 ^ 63) \<or> (\<exists>q. sr_value r = PyFloat (FNum q)))
      \<and> (\<exists>i. sr_timestamp r = PyInt i \<and> 0 \<le> i \<and> i < 2 ^ 63)
      \<and> is_number (sr_quality r) \<and> \<not> is_bool (sr_quality r) \<and> (\<exists>q. num_of (sr_quality r) = FNum q \<and> 0 \<le> q \<and> q \<le> 1)"
    unfolding refuse_unusable_Inr value_refusal_None timestamp_refusal_None quality_refusal_None SQLITE_INT_MAX_def by auto
next
  assume "refuse_unusable_reading r = Inr ()"
  then have v: "\<not> is_bool (sr_value r)" "is_number (sr_value r)" "\<not> non_finite_float (sr_value r)"
    and q: "is_number (sr_quality r)" "\<not> is_bool (sr_quality r)" "\<exists>q. num_of (sr_quality r) = FNum q \<and> 0 \<le> q"
    unfolding refuse_unusable_Inr value_refusal_None quality_refusal_None
    by (auto simp: is_bool_def is_number_def non_finite_float_def)
  then have "unusable_quality (sr_quality r) \<longleftrightarrow> num_of (sr_quality r) = FNum 0" by (auto simp: unusable_quality_def)
  with v show "ev_reason (evaluate_reading (sr_value r) (sr_unit r) (sr_quality r) u t lo hi) =
        (if sr_unit r \<noteq> PyStr u then Some ''unit_mismatch''
         else if num_of (sr_quality r) = FNum 0 then Some ''zero_quality''
         else if flt t (num_of (sr_value r)) \<or> fle lo (num_of (sr_value r)) \<and> fle (num_of (sr_value r)) hi then None
         else Some ''out_of_range'')"
    by (auto simp: evaluate_reading_def reject_def)
qed

theorem usable_readings_exact_witness:
  "refuse_unusable_reading example_reading = Inr ()
   \<and> ev_reason (evaluate_reading (sr_value example_reading) (sr_unit example_reading) (sr_quality example_reading)
       ''C'' (FNum 70) (FNum 0) (FNum 100)) = None"
proof -
  have "refuse_unusable_reading example_reading = Inr ()" "sr_unit example_reading = PyStr ''C''"
    "num_of (sr_quality example_reading) \<noteq> FNum 0" "flt (FNum 70) (num_of (sr_value example_reading))"
    by code_simp+
  with usable_readings_exact [of example_reading "''C''" "FNum 70" "FNum 0" "FNum 100"] show ?thesis by simp
qed


text \<open>
  Which reads the breaker lets through. After any sequence of reads, fresh values and changes of
  the interval, a read is turned away exactly when the breaker is open and its recovery time has not
  passed since it opened; every read of a breaker that is half open is let through, not one probe
  alone.
\<close>

theorem breaker_admits_exactly:
  assumes "b = run_ops breaker_call (new_breaker f r k) ops"
  shows "(\<not> snd (allow_read now b) \<longleftrightarrow> cb_state b = OPEN \<and> now - the (cb_opened_at b) < cb_recovery_timeout_s b)
    \<and> (cb_state b = OPEN \<longrightarrow> cb_opened_at b \<noteq> None)
    \<and> (cb_state b = HALF_OPEN \<longrightarrow> snd (allow_read now b) \<and> fst (allow_read now b) = b)"
proof -
  have "breaker_inv b"
    unfolding assms by (rule guarded.inv_run) (simp_all add: breaker_inv_def new_breaker_def runs_ok_True)
  then show ?thesis by (auto simp: breaker_inv_def allow_read_def split: circuit_state.splits option.splits)
qed

theorem breaker_admits_exactly_witness:
  "\<not> snd (allow_read 9 (run_ops breaker_call (new_breaker 1 10 1) [EndRead ReadFailed 0]))"
proof -
  let ?b = "run_ops breaker_call (new_breaker 1 10 1) [EndRead ReadFailed 0]"
  have "cb_state ?b = OPEN" "9 - the (cb_opened_at ?b) < cb_recovery_timeout_s ?b" by code_simp+
  with breaker_admits_exactly [OF refl, of 9 1 10 1 "[EndRead ReadFailed 0]"] show ?thesis by simp
qed

text \<open>
  C39. A connect that was closed did not connect. Whatever connects and closes of one adapter overlap,
  a connect reports success only when no close was asked for since it was asked itself, while it
  waited for the lock or while it ran; and while a connect or a close is under way the adapter does
  not count as connected.
\<close>

theorem closed_connect_never_succeeds:
  assumes "lives a"
  shows "(\<forall>us i vs. ad_log a = us @ ConnectSucceeded i # vs \<longrightarrow> (\<exists>ps qs. us = ps @ ConnectAsked i # qs \<and> CloseAsked \<notin> set qs))
    \<and> (ad_connected a \<longrightarrow> ad_lock a = Free)"
  using lives_inv [OF assms] by (cases "ad_lock a") (auto simp: lifecycle_inv_def succeeded_clean_def)

theorem closed_connect_never_succeeds_witness:
  "\<exists>ps qs. ad_log (end_connect False 0 0 (enter_connect (0, 0) (ask_connect new_adapter)))
     = (ps @ ConnectAsked 0 # qs) @ [ConnectSucceeded 0] \<and> CloseAsked \<notin> set qs"
proof -
  let ?b = "enter_connect (0, 0) (ask_connect new_adapter)"
  let ?a = "end_connect False 0 0 ?b"
  have "lives (ask_connect new_adapter)" by (rule lives.lived [OF lives.fresh connect_asked])
  then have b: "lives ?b" by (rule lives.lived [OF _ connect_enters]) (simp_all add: ask_connect_def new_adapter_def)
  then have "lives ?a" by (rule lives.lived [OF _ connect_ends]) (simp add: enter_connect_def ask_connect_def new_adapter_def Let_def)
  note law = closed_connect_never_succeeds [OF this, THEN conjunct1, rule_format, of "[ConnectAsked 0]" 0 "[]"]
  have "ad_log ?a = [ConnectAsked 0] @ ConnectSucceeded 0 # []"
    by (simp add: end_connect_def enter_connect_def ask_connect_def new_adapter_def Let_def)
  from law [OF this] this show ?thesis by (metis append_Cons append_Nil append.assoc)
qed

end
