(* ===== verification/Spec2Isabelle.thy ===== *)
theory Spec2Isabelle
  imports Registry_Restart Approval_Bounds Outcome_Records Action_Dispatch Dispatch_Coordinator
    Deferred_Writer Hal_Base
begin

text \<open>
  A verification development for the Ori runtime, an edge device that watches sensors,
  reasons about them and drives relays. It covers the parts on which physical safety rests:
  which action may be dispatched at which authority and in which order, the deterministic safety path from a
  reading to a relay line and back across a restart, the admission of operator approvals, and
  the arbitration of acts on one resource.

  \<^bold>\<open>The program's parts and how they interact.\<close> An adapter (\<open>hal/base.py\<close>) guards its reads with a
  circuit breaker and refuses what is no measurement. The coordinator
  (\<open>reasoning/dispatch_coordinator.py\<close>) evaluates every skill for an event, attempts what is granted
  Tier D before anything else, and hands the rest to the reasoning path under the cooldowns of
  \<open>reasoning/rule_engine.py\<close>. A skill's trigger matches the event and names actions. The dispatch plan (\<open>reasoning/dispatch_plan.py\<close>, over the closed registry of
  \<open>reasoning/action_registry.py\<close>) gives each action a tier and the resource it drives; Tier D,
  the authority to act with no person in the loop, is granted by one conjunction. Every physical
  act passes the resource gate (\<open>reasoning/resource_gate.py\<close>). A Tier C action is a proposal: a
  row of the store (\<open>state/_tier_c.py\<close>) binds it to an authority snapshot
  (\<open>reasoning/tier_c_admission.py\<close>), an operator's reply is admitted against both, and the outcome
  is appended to the row. The dispatcher (\<open>reasoning/action_dispatcher.py\<close>) is the last point before
  an executor: it settles the tier of a request, admits it at the gate, routes it by tier, lets the
  resource go and hands the row of the act to a writer of its own (\<open>state/deferred_writer.py\<close>). For
  a proposal it raises the row, asks the operator and listens, has the store admit each affirmative reply,
  runs the executor of a committed approval once, records the outcome in the background, and at a
  start settles what a previous process left. A device policy (\<open>policy/device_policy.py\<close>) may
  switch Tier B and C relays and alert classes off. Beside all of this, and independent of it, the safety registry
  (\<open>safety/registry.py\<close>) evaluates every reading against the profiles activated for the
  commissioned zones (\<open>safety/evaluation.py\<close>, \<open>safety/activation.py\<close>,
  \<open>security/commissioning/profiles.py\<close>), latches a trip in a machine per zone-profile pair
  (\<open>safety/trip_state.py\<close>), writes the intent to a durable journal (\<open>state/_trip_journal.py\<close>) and
  commands the zone's relay (\<open>safety/commander.py\<close>, \<open>actions/commissioned_actuator.py\<close>,
  \<open>actions/relay.py\<close>).

  \<^bold>\<open>Theories.\<close>
  \<^item> \<open>Ori_Prelude\<close>: Python values and exact binary64 multiplication, strings, fallible steps, runs
    of calls on an object, and the two contracts the components are clients and providers of:
    \<open>invariant_object\<close> (calls keep an invariant) and \<open>latching_object\<close> (a condition only a
    releasing call ends).
  \<^item> \<open>Action_Registry\<close>, \<open>Dispatch_Plan\<close>: capabilities and floors; grant, tier assignment, resource
    identities, cooldown. Shown: Tier D exactly when every clause holds, tiers between floor and
    ceiling, two Tier D grants of one resource never oppose.
  \<^item> \<open>Safety_Evaluation\<close>, \<open>Safety_Profiles\<close>, \<open>Safety_Activation\<close>: the verdict of a reading, the grammar
    of the shipped profile set, activation and trip points. Shown: each exactly, and that a
    reading beyond full scale of an activated pair trips.
  \<^item> \<open>Trip_State\<close>: the journal grammar, every method of \<open>ZoneTripState\<close> and of the
    deferred-startup gate. Shown: trips latch, an accepted command is not issued again, a close
    outcome needs credible evidence of this start.
  \<^item> \<open>Trip_Journal\<close>: the table as its rows; each method is one committed transaction. Shown: what a
    machine recalls is what was written last.
  \<^item> \<open>Actuation\<close>: relay driver, commissioned actuator and outcome commander, with the answers of the
    GPIO library as inputs. Shown: a command is one physical act at the commissioned state, and a
    deferred line is never driven before it is taken.
  \<^item> \<open>Safety_Registry\<close>, \<open>Registry_Laws\<close>, \<open>Registry_Restart\<close>: the registry with its machines, gates,
    journal, commander and notices. Each method is a step; what the environment answers inside it
    (an intent append that commits, fails or is still running; a record write that commits, fails
    or leaves the intent unmarked; the driver; the clock; the alert sink) is an input of the step,
    and an append that finishes late is a step of its own. Shown: a reading trips exactly the pairs it
    should, an attempt commands once and the registry only opens, notices are spaced, losses are
    noticed, protection is never overclaimed, and after any run and a crash a start over the
    journal comes back to every committed trip and invents none.
  \<^item> \<open>Canonical_Json\<close>: the canonical text of a document, UTF-8 and SHA-256 as the sources use them.
  \<^item> \<open>Tier_C_Admission\<close>: decision states, authority snapshots, scope, safe defaults, lifetime bound,
    reserved names. Shown: snapshot bytes are equal exactly when every member is, so a reply acts
    only under its proposal's authority; a safe default never actuates.
  \<^item> \<open>Tier_C_Store\<close>, \<open>Tier_C_Laws\<close>: the tables and transactions of the store, and its abstract
    decision machine. Shown: every call is a step of the machine, a proposal's records are the
    forward path it took, one approval at a time holds authority over an outcome on a zone, a
    token admits once, reservations stay under their ceiling, reconciliation happens once, and a
    close never loses its safe default.
  \<^item> \<open>Resource_Gate\<close>, \<open>Gate_Laws\<close>: the gate with its records as objects of a heap. Shown: one act in
    flight per resource, an uncertain command blocks its opposite until its driver reports, and a
    completed act forecloses its opposite until its event closes.
  \<^item> \<open>Approval_Replies\<close>: proposal identifiers, what of a reply is kept, and how it is read. Shown: a
    scoped reply decides one proposal, and what operators are told to send is read as sent.
  \<^item> \<open>Device_Policy\<close>: permissions per tier and alert class. Shown: a policy never blocks Tier D.
  \<^item> \<open>Approval_Steps\<close>, \<open>Approval_Workflow\<close>: the governed Tier C approval, from the proposal's row to
    its resolution, the outcome's background tasks, recovery, reconciliation and the records health
    reads. A guarantee a coroutine keeps is a relation between the worlds it enters and leaves; the
    locales \<open>coroutine_guarantee\<close> and \<open>approval_guarantee\<close> reduce it to awaits, quiet writes, store
    calls and executor runs, and each law below is an interpretation of them.
  \<^item> \<open>Approval_Laws\<close>: a physical act runs at most once, is the proposed one, and has its approval
    committed. \<open>Approval_Bounds\<close>: the workflow ends, within a bound on its awaits.
    \<open>Approval_Resolution\<close>: every proposal raised is decided, or its loss counted and said.
    \<open>Approval_Recovery\<close>: a start settles every proposal left behind and replays nothing, or Tier C
    stays shut. \<open>Outcome_Records\<close>: the outcome of a dispatch is held until it is durable.
  \<^item> \<open>Action_Dispatch\<close>: \<open>dispatch\<close> and \<open>_admit_and_run\<close> over all of the above, with the plain approval
    and the shielded Tier D executor. Shown: nothing actuates without the authority of its tier,
    the tier is well formed, an act leaves one row, and its resource is let go or stays uncertain
    until its executor reports.
  \<^item> \<open>Dispatch_Coordinator\<close>: events as processes over a heap of plans; every interleaving is a sequence
    of steps. Shown: Tier D acts are started first, exactly as granted and once; the keys in flight
    are those of plans that hold one; what a settled plan costs.
  \<^item> \<open>Deferred_Writer\<close>: the queue, the worker and the close, and the dispatcher's records on it. Shown:
    no record vanishes or overtakes another, the queue drains, and what a shutdown counts.
  \<^item> \<open>Hal_Base\<close>: refused readings, bounds, breaker, serial rate, connect and close. Shown: which
    readings pass and what the evaluation can still reject of them, when the breaker trips, and that
    a connect that was closed never succeeds.

  \<^bold>\<open>Conventions.\<close> Strings are lists of characters, so text is within U+00FF; an operator's reply is a
  list of code points. A dictionary is a map or
  an association list in insertion order; a set of names is a list. An exception is the left side
  of a sum, and leaves the object as it was. SQLite is the committed rows of the tables; a store
  that cannot answer is a call that raises. The asyncio lock of the gate and the single writer of
  the store make each method atomic: no method of the gate awaits while it holds the lock. Log
  lines are not modelled. A coroutine is a function on a world that leaves a world and an answer or
  an interrupt. At its n-th await the environment says what other tasks made of the shared state,
  how much time passed (clocks are rationals), whether the task is cancelled there, and what the
  awaited party answered; the environment is arbitrary, and where a law needs that other tasks
  touch the store only as the dispatcher does, it says so (\<open>rely\<close>). No definition needs fuel: every
  loop runs over a list or counts its attempts, except the reply loop, whose measure is the free
  replies left and the seconds left to the deadline.

  \<^bold>\<open>Not modelled.\<close> Of the dispatcher: the registration of executors, the wording of messages, the
  status indicator, the attestation and columns of an action row; the verification of an offline
  token, which is an answer of the environment. Of the coordinator: what the rules match and what
  the reasoning path decides are inputs of its steps, and one event's discovery over the skills is
  one step. The evaluation of conditions over Python's syntax trees, model calls and prompts are
  the interpreter's and external services'. The Tier C analytics log, the interleaving of two
  attempts of one pair inside a registry step, and the decoding of stored snapshot text. Single
  hardware adapters, the gateway, the installer, the CLI, configuration, skill packages, telemetry,
  the firmware bridge and the evidence ledger are outside the safety core: they are I/O, protocols
  and signatures of libraries, and rest on formats this development does not define.
\<close>

end
